(* ===== verification/Go_Prelude.thy ===== *)
theory Go_Prelude
  imports Main "HOL-Library.Word"
begin

text \<open>
  What the components share: Go's machine integers, time values and strings, the HTTP status
  codes the gateway answers with, and the generic lemmas on lists, options and maps.

  Go strings and byte slices are both \<^typ>\<open>string\<close>: a \<^typ>\<open>char\<close> is one byte, so \<open>len\<close> is
  \<^const>\<open>length\<close> and a UTF-8 rune may span several characters. Go's \<open>int\<close> and \<open>int64\<close> are
  \<^typ>\<open>int\<close> with the wrap-around written out by \<open>wrap64\<close>, \<open>uint64\<close> is \<open>64 word\<close>.
  An absolute \<open>time.Time\<close> read from the clock is its distance from the Unix epoch in nanoseconds.
\<close>

named_theorems gate_simps \<open>unfolding equations of the small helper definitions\<close>
named_theorems gate_inv \<open>preservation of the component invariants\<close>

type_synonym go_time = int
type_synonym go_duration = int
type_synonym bytes = string

section \<open>Machine integers\<close>

definition max_int64 :: int where "max_int64 = 2 ^ 63 - 1"
definition min_int64 :: int where "min_int64 = - (2 ^ 63)"

definition wrap64 :: "int \<Rightarrow> int" where
  "wrap64 x = (x + 2 ^ 63) mod 2 ^ 64 - 2 ^ 63"

definition in_int64 :: "int \<Rightarrow> bool" where
  "in_int64 x \<longleftrightarrow> min_int64 \<le> x \<and> x \<le> max_int64"

lemmas int64_defs = max_int64_def min_int64_def wrap64_def in_int64_def

lemma wrap64_exact [simp]: "in_int64 x \<Longrightarrow> wrap64 x = x"
  by (simp add: int64_defs)

lemma wrap64_in [simp]: "in_int64 (wrap64 x)"
proof -
  have "0 \<le> (x + 2 ^ 63) mod 2 ^ 64" and "(x + 2 ^ 63) mod 2 ^ 64 < (2 ^ 64 :: int)"
    by (rule pos_mod_sign, simp, rule pos_mod_bound, simp)
  then show ?thesis by (simp add: int64_defs)
qed

lemma wrap64_over: "in_int64 (x - 2 ^ 64) \<Longrightarrow> wrap64 x = x - 2 ^ 64"
proof -
  assume "in_int64 (x - 2 ^ 64)"
  moreover have "wrap64 (x - 2 ^ 64) = wrap64 x"
    using minus_mod_self2 [of "x + 2 ^ 63" "2 ^ 64"] by (simp add: wrap64_def algebra_simps)
  ultimately show ?thesis using wrap64_exact by metis
qed

lemma in_int64_between: "0 \<le> x \<Longrightarrow> x \<le> y \<Longrightarrow> in_int64 y \<Longrightarrow> in_int64 x"
  by (simp add: int64_defs)

lemma in_int64_zero [simp]: "in_int64 0"
  by (simp add: int64_defs)

section \<open>Time\<close>

definition nanosecond :: int where "nanosecond = 1"
definition millisecond :: int where "millisecond = 1000000"
definition second :: int where "second = 1000000000"
definition minute :: int where "minute = 60 * second"
definition hour :: int where "hour = 60 * minute"

lemmas duration_defs = nanosecond_def millisecond_def second_def minute_def hour_def

text \<open>\<open>time.Time.Unix\<close>: whole seconds since the epoch, rounded towards the past.\<close>

definition unix :: "go_time \<Rightarrow> int" where "unix t = t div second"

lemma unix_mono: "s \<le> t \<Longrightarrow> unix s \<le> unix t"
  by (simp add: unix_def second_def zdiv_mono1)

lemma le_div_iff_mult_le_int:
  assumes "0 < (c::int)"
  shows "n \<le> t div c \<longleftrightarrow> n * c \<le> t"
proof
  assume "n \<le> t div c"
  with assms have "n * c \<le> t div c * c" by (simp add: mult_right_mono)
  also have "\<dots> = t - t mod c" by (simp add: minus_mod_eq_div_mult)
  also have "\<dots> \<le> t" using assms by simp
  finally show "n * c \<le> t" .
next
  assume "n * c \<le> t"
  then have "n * c div c \<le> t div c" using assms by (rule zdiv_mono1)
  with assms show "n \<le> t div c" by simp
qed

lemma unix_le_iff: "n \<le> unix t \<longleftrightarrow> n * second \<le> t"
  unfolding unix_def by (rule le_div_iff_mult_le_int) (simp add: second_def)

section \<open>Strings\<close>

text \<open>
  \<open>strings.TrimSpace\<close> drops runes with the Unicode property White\_Space at both ends. These are
  their UTF-8 encodings; none is a proper prefix or suffix of another, so the decoder of the
  standard library sees the rune exactly when the byte sequence stands at the end of the string.
\<close>

definition space_runes :: "string list" where
  "space_runes =
     map (\<lambda>c. [c]) [CHR 0x09, CHR 0x0A, CHR 0x0B, CHR 0x0C, CHR 0x0D, CHR 0x20]
     @ [[CHR 0xC2, CHR 0x85], [CHR 0xC2, CHR 0xA0], [CHR 0xE1, CHR 0x9A, CHR 0x80]]
     @ map (\<lambda>c. [CHR 0xE2, CHR 0x80, c])
         [CHR 0x80, CHR 0x81, CHR 0x82, CHR 0x83, CHR 0x84, CHR 0x85, CHR 0x86, CHR 0x87,
          CHR 0x88, CHR 0x89, CHR 0x8A, CHR 0xA8, CHR 0xA9, CHR 0xAF]
     @ [[CHR 0xE2, CHR 0x81, CHR 0x9F], [CHR 0xE3, CHR 0x80, CHR 0x80]]"

definition has_prefix :: "string \<Rightarrow> string \<Rightarrow> bool" where
  "has_prefix s p \<longleftrightarrow> take (length p) s = p"

definition has_suffix :: "string \<Rightarrow> string \<Rightarrow> bool" where
  "has_suffix s p \<longleftrightarrow> has_prefix (rev s) (rev p)"

text \<open>Drop encodings from the front as long as one of them stands there.\<close>

function drop_runes :: "string list \<Rightarrow> string \<Rightarrow> string" where
  "drop_runes ws s =
     (case find (\<lambda>w. w \<noteq> [] \<and> has_prefix s w) ws of
        None \<Rightarrow> s
      | Some w \<Rightarrow> drop_runes ws (drop (length w) s))"
  by pat_completeness auto
termination
proof (relation "measure (\<lambda>(ws, s). length s)", goal_cases)
  case 1
  show ?case by simp
next
  case (2 ws s w)
  then have "w \<noteq> [] \<and> has_prefix s w"
    by (auto simp: find_Some_iff)
  then show ?case
    by (cases s) (auto simp: has_prefix_def)
qed

declare drop_runes.simps [simp del]

definition trim_space :: "string \<Rightarrow> string" where
  "trim_space s =
     rev (drop_runes (map rev space_runes) (rev (drop_runes space_runes s)))"

text \<open>A string is blank when trimming leaves nothing.\<close>

abbreviation blank :: "string \<Rightarrow> bool" where "blank s \<equiv> trim_space s = []"

lemma drop_runes_Nil [simp]: "drop_runes ws [] = []"
  by (subst drop_runes.simps) (auto simp: has_prefix_def split: option.split dest: find_Some_iff [THEN iffD1])

lemma trim_space_Nil [simp]: "trim_space [] = []"
  by (simp add: trim_space_def)

lemma nonblank_nonempty: "\<not> blank s \<Longrightarrow> s \<noteq> []"
  by auto

lemma drop_runes_id: "\<forall>w \<in> set ws. w \<noteq> [] \<longrightarrow> \<not> has_prefix s w \<Longrightarrow> drop_runes ws s = s"
  by (subst drop_runes.simps) (auto split: option.split simp: find_Some_iff)

lemma drop_runes_stop: "w \<in> set ws \<Longrightarrow> w \<noteq> [] \<Longrightarrow> \<not> has_prefix (drop_runes ws s) w"
proof (induction ws s rule: drop_runes.induct)
  case (1 ws s)
  show ?case
  proof (cases "find (\<lambda>w. w \<noteq> [] \<and> has_prefix s w) ws")
    case None
    then have "drop_runes ws s = s" by (simp add: drop_runes.simps [of ws s])
    with None "1.prems" show ?thesis by (auto simp: find_None_iff)
  next
    case (Some v)
    with 1 show ?thesis by (subst drop_runes.simps) simp
  qed
qed

lemma length_drop_runes: "length (drop_runes ws s) \<le> length s"
proof (induction ws s rule: drop_runes.induct)
  case (1 ws s)
  show ?case
    by (subst drop_runes.simps) (auto split: option.split dest!: "1.IH")
qed

lemma length_trim_space: "length (trim_space s) \<le> length s"
  using length_drop_runes [of "map rev space_runes" "rev (drop_runes space_runes s)"]
    length_drop_runes [of space_runes s]
  by (simp add: trim_space_def)

text \<open>A string that starts and ends with a printable ASCII character is not changed.\<close>

lemma has_prefix_hd: "has_prefix s p \<Longrightarrow> p \<noteq> [] \<Longrightarrow> s \<noteq> [] \<and> hd s = hd p"
  by (cases s; cases p) (auto simp: has_prefix_def)

definition graphic :: "char \<Rightarrow> bool" where
  "graphic c \<longleftrightarrow> 0x20 < (of_char c :: nat) \<and> (of_char c :: nat) < 0x7F"

lemma space_runes_ends: "w \<in> set space_runes \<Longrightarrow> w \<noteq> [] \<and> \<not> graphic (hd w) \<and> \<not> graphic (last w)"
  by (auto simp: space_runes_def graphic_def)

lemma trim_space_plain:
  assumes "s \<noteq> []" and "graphic (hd s)" and "graphic (last s)"
  shows "trim_space s = s"
proof -
  have "\<not> has_prefix s w" if "w \<in> set space_runes" for w
    using that assms(2) space_runes_ends [of w] has_prefix_hd [of s w] by auto
  then have a: "drop_runes space_runes s = s" by (intro drop_runes_id) auto
  have "\<not> has_prefix (rev s) (rev w)" if "w \<in> set space_runes" for w
    using that assms(1,3) space_runes_ends [of w] has_prefix_hd [of "rev s" "rev w"]
    by (auto simp: hd_rev)
  then have "drop_runes (map rev space_runes) (rev s) = rev s" by (intro drop_runes_id) auto
  with a show ?thesis by (simp add: trim_space_def)
qed

text \<open>\<open>strings.Contains\<close> and \<open>strings.ContainsAny\<close>.\<close>

fun contains_sub :: "string \<Rightarrow> string \<Rightarrow> bool" where
  "contains_sub [] p \<longleftrightarrow> p = []"
| "contains_sub (c # s) p \<longleftrightarrow> has_prefix (c # s) p \<or> contains_sub s p"

definition contains_any :: "string \<Rightarrow> string \<Rightarrow> bool" where
  "contains_any s chars \<longleftrightarrow> list_ex (\<lambda>c. c \<in> set chars) s"

lemma contains_sub_set: "contains_sub s p \<Longrightarrow> set p \<subseteq> set s"
proof (induction s)
  case (Cons c s)
  have "set (take (length p) (c # s)) \<subseteq> set (c # s)" by (rule set_take_subset)
  with Cons show ?case by (auto simp: has_prefix_def)
qed simp

lemma has_suffix_iff: "has_suffix s p \<longleftrightarrow> (\<exists>a. s = a @ p)"
proof
  assume "has_suffix s p"
  then have "take (length p) (rev s) = rev p" by (simp add: has_suffix_def has_prefix_def)
  then have "rev s = rev p @ drop (length p) (rev s)" by (metis append_take_drop_id)
  then have "s = rev (drop (length p) (rev s)) @ p" by (metis rev_append rev_rev_ident)
  then show "\<exists>a. s = a @ p" by blast
qed (auto simp: has_suffix_def has_prefix_def)

text \<open>\<open>strings.Split\<close> with a separator of one byte.\<close>

fun split_on :: "char \<Rightarrow> string \<Rightarrow> string list" where
  "split_on c [] = [[]]"
| "split_on c (x # xs) =
     (if x = c then [] # split_on c xs
      else case split_on c xs of [] \<Rightarrow> [[x]] | y # ys \<Rightarrow> (x # y) # ys)"

lemma split_on_plain: "c \<notin> set a \<Longrightarrow> split_on c a = [a]"
  by (induction a) auto

lemma split_on_append: "c \<notin> set a \<Longrightarrow> split_on c (a @ c # b) = a # split_on c b"
  by (induction a) auto

text \<open>The parts put together again are the string.\<close>

fun join_with :: "char \<Rightarrow> string list \<Rightarrow> string" where
  "join_with c [] = []"
| "join_with c [a] = a"
| "join_with c (a # b # rest) = a @ c # join_with c (b # rest)"

lemma split_on_nonempty: "split_on c s \<noteq> []"
  by (cases s) (auto split: list.split)

lemma join_split: "join_with c (split_on c s) = s"
proof (induction s)
  case (Cons x s)
  with split_on_nonempty [of c s] show ?case
    by (cases "split_on c s"; cases "tl (split_on c s)") auto
qed simp

text \<open>The numeric value of a byte, and ASCII case folding of bytes and strings.\<close>

definition byte_val :: "char \<Rightarrow> nat" where "byte_val c = of_char c"

definition ascii_lower :: "char \<Rightarrow> char" where
  "ascii_lower c =
     (if 65 \<le> byte_val c \<and> byte_val c \<le> 90 then char_of (byte_val c + 32) else c)"

lemma byte_val_less [simp]: "byte_val c < 256"
  by (simp add: byte_val_def)

lemma byte_val_inj [simp]: "byte_val c = byte_val d \<longleftrightarrow> c = d"
  by (simp add: byte_val_def)

lemma char_of_byte_val [simp]: "char_of (byte_val c) = c"
  by (simp add: byte_val_def)

section \<open>Lists and maps\<close>

lemma sum_list_nonneg_map: "(\<And>x. x \<in> set xs \<Longrightarrow> 0 \<le> f x) \<Longrightarrow> 0 \<le> sum_list (map f xs :: int list)"
  by (induction xs) auto

lemma dropWhile_eq_filter_sorted:
  assumes "sorted (map f xs)"
  shows "dropWhile (\<lambda>x. f x \<le> (c::int)) xs = filter (\<lambda>x. c < f x) xs"
  using assms
proof (induction xs)
  case Nil
  then show ?case by simp
next
  case (Cons x xs)
  show ?case
  proof (cases "f x \<le> c")
    case True
    with Cons show ?thesis by simp
  next
    case False
    with Cons.prems have "\<forall>y \<in> set xs. c < f y" by auto
    with False show ?thesis by (simp add: filter_id_conv)
  qed
qed

end
