(* ===== verification/Json_Text.thy ===== *)
theory Json_Text
  imports Go_Prelude
begin

text \<open>
  What the gateway uses of Go's \<open>encoding/json\<close>: the syntax \<open>json.Unmarshal\<close> and \<open>json.Decoder\<close>
  accept (with their limit on nesting), the decoding of string literals, and the compact text
  \<open>json.Marshal\<close> writes. Numbers keep their literal text; how a literal becomes an integer is in
  the last section. The main lemma is that reading back a written value gives the value.
\<close>

datatype json =
    JNull
  | JBool bool
  | JNum string
  | JStr string
  | JArr "json list"
  | JObj "(string \<times> json) list"

section \<open>UTF-8\<close>

text \<open>The length of the valid UTF-8 sequence at the front, 0 when there is none.\<close>

definition in_range :: "nat \<Rightarrow> nat \<Rightarrow> char \<Rightarrow> bool" where
  "in_range lo hi c \<longleftrightarrow> lo \<le> byte_val c \<and> byte_val c \<le> hi"

abbreviation cont :: "char \<Rightarrow> bool" where "cont \<equiv> in_range 0x80 0xBF"

fun second_ok :: "char \<Rightarrow> char \<Rightarrow> bool" where
  "second_ok a b \<longleftrightarrow>
     (if byte_val a = 0xE0 then in_range 0xA0 0xBF b
      else if byte_val a = 0xED then in_range 0x80 0x9F b
      else if byte_val a = 0xF0 then in_range 0x90 0xBF b
      else if byte_val a = 0xF4 then in_range 0x80 0x8F b
      else cont b)"

definition rune_len :: "string \<Rightarrow> nat" where
  "rune_len s =
     (case s of
        [] \<Rightarrow> 0
      | a # s1 \<Rightarrow>
          if byte_val a < 0x80 then 1
          else case s1 of
            [] \<Rightarrow> 0
          | b # s2 \<Rightarrow>
              if in_range 0xC2 0xDF a then (if cont b then 2 else 0)
              else case s2 of
                [] \<Rightarrow> 0
              | c # s3 \<Rightarrow>
                  if in_range 0xE0 0xEF a then (if second_ok a b \<and> cont c then 3 else 0)
                  else case s3 of
                    [] \<Rightarrow> 0
                  | d # _ \<Rightarrow>
                      if in_range 0xF0 0xF4 a \<and> second_ok a b \<and> cont c \<and> cont d then 4 else 0)"

lemma rune_len_le: "rune_len s \<le> length s"
  by (auto simp: rune_len_def split: list.split)

lemma rune_len_le4: "rune_len s \<le> 4"
  by (auto simp: rune_len_def split: list.split)

lemma rune_len_append: "0 < rune_len s \<Longrightarrow> rune_len (s @ t) = rune_len s"
  by (cases s; cases "tl s"; cases "tl (tl s)"; cases "tl (tl (tl s))")
    (auto simp: rune_len_def split: if_splits list.splits)

lemma rune_len_take: "rune_len (take (rune_len s) s) = rune_len s"
proof (cases s)
  case (Cons a s1)
  show ?thesis
  proof (cases s1)
    case Nil
    with Cons show ?thesis by (simp add: rune_len_def)
  next
    case (Cons b s2)
    show ?thesis
      unfolding \<open>s = a # s1\<close> Cons
      by (cases s2; cases "tl s2") (simp_all add: rune_len_def numeral_eq_Suc del: second_ok.simps)
  qed
qed (simp add: rune_len_def)

lemma rune_len_take_append: "0 < rune_len s \<Longrightarrow> rune_len (take (rune_len s) s @ t) = rune_len s"
  using rune_len_append [of "take (rune_len s) s"] rune_len_take [of s] by simp

function valid_utf8 :: "string \<Rightarrow> bool" where
  "valid_utf8 s \<longleftrightarrow>
     (if s = [] then True else if rune_len s = 0 then False else valid_utf8 (drop (rune_len s) s))"
  by pat_completeness auto
termination
  by (relation "measure length") auto

declare valid_utf8.simps [simp del]

lemma valid_utf8_Nil [simp]: "valid_utf8 []"
  by (simp add: valid_utf8.simps)

lemma valid_utf8_ascii: "byte_val c < 0x80 \<Longrightarrow> valid_utf8 (c # s) = valid_utf8 s"
  by (simp add: valid_utf8.simps [of "c # s"] rune_len_def)

lemma valid_utf8_append:
  assumes "valid_utf8 s" shows "valid_utf8 (s @ t) = valid_utf8 t"
  using assms
proof (induction s rule: valid_utf8.induct)
  case (1 s)
  show ?case
  proof (cases "s = []")
    case False
    with "1.prems" have n: "0 < rune_len s" "valid_utf8 (drop (rune_len s) s)"
      by (auto simp: valid_utf8.simps [of s] split: if_splits)
    have "valid_utf8 (s @ t) = valid_utf8 (drop (rune_len s) s @ t)"
      using False n(1) rune_len_append [OF n(1), of t] rune_len_le [of s] by (simp add: valid_utf8.simps [of "s @ t"])
    with "1.IH" [OF False _ n(2)] n(1) show ?thesis by simp
  qed simp
qed

lemma valid_utf8_rune: "0 < rune_len s \<Longrightarrow> valid_utf8 (take (rune_len s) s)"
  using rune_len_take [of s] rune_len_le [of s] by (simp add: valid_utf8.simps [of "take (rune_len s) s"])

definition replacement :: string where
  "replacement = [CHR 0xEF, CHR 0xBF, CHR 0xBD]"

definition encode_rune :: "nat \<Rightarrow> string" where
  "encode_rune r =
     (if r < 0x80 then [char_of r]
      else if r < 0x800 then [char_of (0xC0 + r div 0x40), char_of (0x80 + r mod 0x40)]
      else if r < 0x10000 then
        [char_of (0xE0 + r div 0x1000), char_of (0x80 + r div 0x40 mod 0x40), char_of (0x80 + r mod 0x40)]
      else [char_of (0xF0 + r div 0x40000), char_of (0x80 + r div 0x1000 mod 0x40),
            char_of (0x80 + r div 0x40 mod 0x40), char_of (0x80 + r mod 0x40)])"

section \<open>String literals\<close>

definition hex_digit :: "nat \<Rightarrow> char" where
  "hex_digit n = (if n < 10 then char_of (0x30 + n) else char_of (0x61 + (n - 10)))"

definition hex_val :: "char \<Rightarrow> nat option" where
  "hex_val c =
     (if in_range 0x30 0x39 c then Some (byte_val c - 0x30)
      else if in_range 0x61 0x66 c then Some (byte_val c - 0x61 + 10)
      else if in_range 0x41 0x46 c then Some (byte_val c - 0x41 + 10)
      else None)"

text \<open>The escapes of one character, \<open>\u\<close> apart.\<close>

definition simple_escape :: "char \<Rightarrow> char option" where
  "simple_escape e =
     map_of [(CHR 0x22, CHR 0x22), (CHR 0x5C, CHR 0x5C), (CHR ''/'', CHR ''/''), (CHR ''b'', CHR 0x08),
             (CHR ''f'', CHR 0x0C), (CHR ''n'', CHR 0x0A), (CHR ''r'', CHR 0x0D), (CHR ''t'', CHR 0x09)] e"

definition backslash :: char where "backslash = CHR 0x5C"
definition dquote :: char where "dquote = CHR 0x22"

text \<open>The four hexadecimal digits at the front.\<close>

definition hex4 :: "string \<Rightarrow> nat option" where
  "hex4 s =
     (if length s < 4 then None
      else case (hex_val (s ! 0), hex_val (s ! 1), hex_val (s ! 2), hex_val (s ! 3)) of
        (Some w, Some x, Some y, Some z) \<Rightarrow> Some (((w * 16 + x) * 16 + y) * 16 + z)
      | _ \<Rightarrow> None)"

text \<open>
  The text after \<open>\u\<close>: what it decodes to and how many characters that takes. A surrogate pair
  takes both escapes; a lone surrogate becomes U+FFFD.
\<close>

definition unescape_u :: "string \<Rightarrow> (string \<times> nat) option" where
  "unescape_u s =
     (case hex4 s of
        None \<Rightarrow> None
      | Some r \<Rightarrow>
          if 0xD800 \<le> r \<and> r < 0xE000 then
            (let r1 = (if take 2 (drop 4 s) = [backslash, CHR ''u''] then hex4 (drop 6 s) else None)
             in case r1 of
                  Some lo \<Rightarrow>
                    if r < 0xDC00 \<and> 0xDC00 \<le> lo \<and> lo < 0xE000
                    then Some (encode_rune ((r - 0xD800) * 0x400 + (lo - 0xDC00) + 0x10000), 10)
                    else Some (replacement, 4)
                | None \<Rightarrow> Some (replacement, 4))
          else Some (encode_rune r, 4))"

definition unescape :: "string \<Rightarrow> (string \<times> nat) option" where
  "unescape s =
     (case s of
        [] \<Rightarrow> None
      | e # t \<Rightarrow>
          if e = CHR ''u'' then map_option (\<lambda>(d, n). (d, Suc n)) (unescape_u t)
          else map_option (\<lambda>c. ([c], 1)) (simple_escape e))"

text \<open>
  The rest of a string literal after its opening quote: the decoded content and the text after the
  closing quote. A byte that is not part of valid UTF-8 becomes U+FFFD.
\<close>

function lex_string :: "string \<Rightarrow> (string \<times> string) option" where
  "lex_string [] = None"
| "lex_string (c # s) =
     (if c = dquote then Some ([], s)
      else if c = backslash then
        (case unescape s of
           None \<Rightarrow> None
         | Some (d, n) \<Rightarrow> map_option (apfst ((@) d)) (lex_string (drop n s)))
      else if byte_val c < 0x20 then None
      else let n = rune_len (c # s)
           in if n = 0 then map_option (apfst ((@) replacement)) (lex_string s)
              else map_option (apfst ((@) (take n (c # s)))) (lex_string (drop n (c # s))))"
  by pat_completeness auto
termination
  by (relation "measure length") auto

text \<open>What \<open>json.Marshal\<close> writes between the quotes, with its escaping of HTML characters.\<close>

definition short_escape :: "char \<Rightarrow> char option" where
  "short_escape c =
     map_of [(CHR 0x22, CHR 0x22), (CHR 0x5C, CHR 0x5C), (CHR 0x08, CHR ''b''), (CHR 0x0C, CHR ''f''),
             (CHR 0x0A, CHR ''n''), (CHR 0x0D, CHR ''r''), (CHR 0x09, CHR ''t'')] c"

definition escape :: "char \<Rightarrow> string" where
  "escape c =
     (case short_escape c of
        Some e \<Rightarrow> [backslash, e]
      | None \<Rightarrow>
          if byte_val c < 0x20 \<or> c \<in> {CHR ''<'', CHR ''>'', CHR ''&''} then
            [backslash, CHR ''u'', CHR ''0'', CHR ''0'', hex_digit (byte_val c div 16), hex_digit (byte_val c mod 16)]
          else [c])"

function quote_body :: "string \<Rightarrow> string" where
  "quote_body s =
     (if s = [] then []
      else if byte_val (hd s) < 0x80 then escape (hd s) @ quote_body (tl s)
      else let n = rune_len s
           in if n = 0 then [backslash] @ ''ufffd'' @ quote_body (tl s)
              else if take n s = [CHR 0xE2, CHR 0x80, CHR 0xA8] then [backslash] @ ''u2028'' @ quote_body (drop n s)
              else if take n s = [CHR 0xE2, CHR 0x80, CHR 0xA9] then [backslash] @ ''u2029'' @ quote_body (drop n s)
              else take n s @ quote_body (drop n s))"
  by pat_completeness auto
termination
  by (relation "measure length") auto

declare quote_body.simps [simp del]

definition quote :: "string \<Rightarrow> string" where
  "quote s = dquote # quote_body s @ [dquote]"

lemma hex_val_digit:
  assumes "n < 16" shows "hex_val (hex_digit n) = Some n"
proof (cases "n < 10")
  case True
  then have "byte_val (hex_digit n) = 0x30 + n" by (simp add: hex_digit_def byte_val_def)
  with True show ?thesis by (simp add: hex_val_def in_range_def)
next
  case False
  with assms have "byte_val (hex_digit n) = 0x61 + (n - 10)" by (simp add: hex_digit_def byte_val_def)
  with False assms show ?thesis by (simp add: hex_val_def in_range_def)
qed

lemma hex4_byte: "hex4 (CHR ''0'' # CHR ''0'' # hex_digit (byte_val c div 16) # hex_digit (byte_val c mod 16) # s)
    = Some (byte_val c)"
proof -
  have "byte_val c div 16 < 16" by (rule less_mult_imp_div_less) simp
  moreover have "hex_val (CHR ''0'') = Some 0" by (simp add: hex_val_def in_range_def byte_val_def)
  ultimately show ?thesis by (simp add: hex4_def hex_val_digit)
qed

lemma byte_val_lit [simp]: "byte_val dquote = 0x22" "byte_val backslash = 0x5C"
  by (simp_all add: byte_val_def dquote_def backslash_def)

lemma dquote_neq_backslash [simp]: "dquote \<noteq> backslash" "backslash \<noteq> dquote"
  by (simp_all add: dquote_def backslash_def)

lemma short_escape_simple: "short_escape c = Some e \<Longrightarrow> e \<noteq> CHR ''u'' \<and> simple_escape e = Some c"
  by (auto simp: short_escape_def simple_escape_def split: if_splits)

lemma short_escape_None: "short_escape c = None \<Longrightarrow> c \<noteq> dquote \<and> c \<noteq> backslash"
  by (auto simp: short_escape_def dquote_def backslash_def)

lemma lex_string_escape:
  assumes "byte_val c < 0x80"
  shows "lex_string (escape c @ s) = map_option (apfst ((#) c)) (lex_string s)"
proof -
  consider (simple) e where "escape c = [backslash, e]" "e \<noteq> CHR ''u''" "simple_escape e = Some c"
    | (code) "escape c = [backslash, CHR ''u'', CHR ''0'', CHR ''0'', hex_digit (byte_val c div 16), hex_digit (byte_val c mod 16)]"
    | (plain) "escape c = [c]" "\<not> byte_val c < 0x20" "c \<noteq> dquote" "c \<noteq> backslash"
    using short_escape_simple [of c] short_escape_None [of c]
    by (cases "short_escape c"; cases "byte_val c < 0x20 \<or> c \<in> {CHR ''<'', CHR ''>'', CHR ''&''}")
      (auto simp: escape_def)
  then show ?thesis
  proof cases
    case simple
    then show ?thesis by (cases "lex_string s") (simp_all add: unescape_def)
  next
    case code
    have "unescape_u (CHR ''0'' # CHR ''0'' # hex_digit (byte_val c div 16) # hex_digit (byte_val c mod 16) # s) = Some ([c], 4)"
      using assms by (simp add: unescape_u_def hex4_byte encode_rune_def)
    with code show ?thesis by (cases "lex_string s") (simp_all add: unescape_def)
  next
    case plain
    have "rune_len (c # s) = 1" using assms by (simp add: rune_len_def)
    with plain show ?thesis by (cases "lex_string s") simp_all
  qed
qed

lemma lex_string_multibyte:
  assumes "0 < rune_len s" and "\<not> byte_val (hd s) < 0x80"
  shows "lex_string (take (rune_len s) s @ t) = map_option (apfst ((@) (take (rune_len s) s))) (lex_string t)"
proof -
  let ?n = "rune_len s"
  obtain c u where u: "take ?n s = c # u" and "c = hd s" using assms(1) by (cases s; cases ?n) (auto simp: rune_len_def)
  have len: "length (take ?n s) = ?n" using rune_len_le [of s] by simp
  have n: "rune_len (c # u @ t) = ?n" using rune_len_take_append [OF assms(1), of t] u by simp
  have tk: "take ?n (c # u @ t) = take ?n s" "drop ?n (c # u @ t) = t"
    using len u by (metis append_Cons append_eq_conv_conj append_take_drop_id)+
  have "c \<noteq> dquote" "c \<noteq> backslash" "\<not> byte_val c < 0x20" using assms(2) \<open>c = hd s\<close> by auto
  then have "lex_string (c # u @ t) = map_option (apfst ((@) (take ?n (c # u @ t)))) (lex_string (drop ?n (c # u @ t)))"
    using n assms(1) by (simp add: Let_def)
  with u tk show ?thesis by simp
qed

lemma char_of_lits:
  "char_of (226::nat) = CHR 0xE2" "char_of (128::nat) = CHR 0x80" "char_of (168::nat) = CHR 0xA8"
  "char_of (169::nat) = CHR 0xA9"
  using char_of_byte_val [of "CHR 0xE2"] char_of_byte_val [of "CHR 0x80"] char_of_byte_val [of "CHR 0xA8"]
    char_of_byte_val [of "CHR 0xA9"]
  by (simp_all add: byte_val_def del: char_of_char)

lemma lex_string_2028:
  "lex_string (backslash # CHR ''u'' # CHR ''2'' # CHR ''0'' # CHR ''2'' # CHR ''8'' # s) =
     map_option (apfst ((@) [CHR 0xE2, CHR 0x80, CHR 0xA8])) (lex_string s)"
  "lex_string (backslash # CHR ''u'' # CHR ''2'' # CHR ''0'' # CHR ''2'' # CHR ''9'' # s) =
     map_option (apfst ((@) [CHR 0xE2, CHR 0x80, CHR 0xA9])) (lex_string s)"
proof -
  have hv: "hex_val (CHR ''0'') = Some 0" "hex_val (CHR ''2'') = Some 2" "hex_val (CHR ''8'') = Some 8" "hex_val (CHR ''9'') = Some 9"
    by (simp_all add: hex_val_def in_range_def byte_val_def)
  have "hex4 (CHR ''2'' # CHR ''0'' # CHR ''2'' # CHR ''8'' # s) = Some 0x2028"
    "hex4 (CHR ''2'' # CHR ''0'' # CHR ''2'' # CHR ''9'' # s) = Some 0x2029"
    using hv by (simp_all add: hex4_def)
  then have "unescape_u (CHR ''2'' # CHR ''0'' # CHR ''2'' # CHR ''8'' # s) = Some ([CHR 0xE2, CHR 0x80, CHR 0xA8], 4)"
    "unescape_u (CHR ''2'' # CHR ''0'' # CHR ''2'' # CHR ''9'' # s) = Some ([CHR 0xE2, CHR 0x80, CHR 0xA9], 4)"
    using char_of_lits by (simp_all add: unescape_u_def encode_rune_def)
  then show "lex_string (backslash # CHR ''u'' # CHR ''2'' # CHR ''0'' # CHR ''2'' # CHR ''8'' # s) =
     map_option (apfst ((@) [CHR 0xE2, CHR 0x80, CHR 0xA8])) (lex_string s)"
  "lex_string (backslash # CHR ''u'' # CHR ''2'' # CHR ''0'' # CHR ''2'' # CHR ''9'' # s) =
     map_option (apfst ((@) [CHR 0xE2, CHR 0x80, CHR 0xA9])) (lex_string s)"
    by (simp_all add: unescape_def)
qed

text \<open>A written string literal reads back as the string.\<close>

lemma lex_string_quote:
  "valid_utf8 s \<Longrightarrow> lex_string (quote_body s @ dquote # t) = Some (s, t)"
proof (induction s rule: valid_utf8.induct)
  case (1 s)
  show ?case
  proof (cases "s = []")
    case True
    then show ?thesis by (simp add: quote_body.simps)
  next
    case ne: False
    with "1.prems" have n: "0 < rune_len s" and v: "valid_utf8 (drop (rune_len s) s)"
      by (auto simp: valid_utf8.simps [of s] split: if_splits)
    have IH: "lex_string (quote_body (drop (rune_len s) s) @ dquote # t) = Some (drop (rune_len s) s, t)"
      using "1.IH" [OF ne _ v] n by simp
    show ?thesis
    proof (cases "byte_val (hd s) < 0x80")
      case True
      with ne have "rune_len s = 1" "s = hd s # tl s" by (auto simp: rune_len_def split: list.split)
      with IH have "lex_string (quote_body (tl s) @ dquote # t) = Some (tl s, t)" by (simp add: drop_Suc)
      moreover have "quote_body s = escape (hd s) @ quote_body (tl s)"
        using ne True by (simp add: quote_body.simps [of s])
      ultimately show ?thesis
        using lex_string_escape [OF True] \<open>s = hd s # tl s\<close> by (simp del: lex_string.simps)
    next
      case False
      let ?r = "take (rune_len s) s"
      have app: "?r @ drop (rune_len s) s = s" by (rule append_take_drop_id)
      consider "?r = [CHR 0xE2, CHR 0x80, CHR 0xA8]" | "?r = [CHR 0xE2, CHR 0x80, CHR 0xA9]"
        | "?r \<noteq> [CHR 0xE2, CHR 0x80, CHR 0xA8]" "?r \<noteq> [CHR 0xE2, CHR 0x80, CHR 0xA9]" by blast
      then show ?thesis
      proof cases
        case 1
        then have "quote_body s = backslash # ''u2028'' @ quote_body (drop (rune_len s) s)"
          using ne False n by (simp add: quote_body.simps [of s] Let_def)
        with IH 1 app show ?thesis by (simp add: lex_string_2028 del: lex_string.simps)
      next
        case 2
        then have "quote_body s = backslash # ''u2029'' @ quote_body (drop (rune_len s) s)"
          using ne False n by (simp add: quote_body.simps [of s] Let_def)
        with IH 2 app show ?thesis by (simp add: lex_string_2028 del: lex_string.simps)
      next
        case 3
        then have "quote_body s = ?r @ quote_body (drop (rune_len s) s)"
          using ne False n by (simp add: quote_body.simps [of s] Let_def)
        with IH app lex_string_multibyte [OF n False] show ?thesis by simp
      qed
    qed
  qed
qed

section \<open>Tokens\<close>

datatype token =
    TLBrace | TRBrace | TLBrack | TRBrack | TColon | TComma
  | TStr string | TNum string | TTrue | TFalse | TNull

definition is_digit :: "char \<Rightarrow> bool" where "is_digit = in_range 0x30 0x39"

definition is_space :: "char \<Rightarrow> bool" where
  "is_space c \<longleftrightarrow> c = CHR 0x20 \<or> c = CHR 0x09 \<or> c = CHR 0x0A \<or> c = CHR 0x0D"

text \<open>The parts of a number: each takes its characters from the front or reports an error.\<close>

definition lex_int :: "string \<Rightarrow> (string \<times> string) option" where
  "lex_int s =
     (case s of
        [] \<Rightarrow> None
      | c # t \<Rightarrow>
          if c = CHR ''0'' then Some ([c], t)
          else if is_digit c then Some (c # takeWhile is_digit t, dropWhile is_digit t)
          else None)"

definition lex_digits :: "string \<Rightarrow> (string \<times> string) option" where
  "lex_digits s =
     (if takeWhile is_digit s = [] then None else Some (takeWhile is_digit s, dropWhile is_digit s))"

definition lex_frac :: "string \<Rightarrow> (string \<times> string) option" where
  "lex_frac s =
     (case s of
        [] \<Rightarrow> Some ([], [])
      | c # t \<Rightarrow> if c = CHR ''.'' then map_option (apfst ((#) c)) (lex_digits t) else Some ([], s))"

definition lex_exp :: "string \<Rightarrow> (string \<times> string) option" where
  "lex_exp s =
     (case s of
        [] \<Rightarrow> Some ([], [])
      | c # t \<Rightarrow>
          if c = CHR ''e'' \<or> c = CHR ''E'' then
            (case t of
               [] \<Rightarrow> None
             | d # u \<Rightarrow>
                 if d = CHR ''+'' \<or> d = CHR ''-'' then map_option (apfst (\<lambda>x. c # d # x)) (lex_digits u)
                 else map_option (apfst ((#) c)) (lex_digits t))
          else Some ([], s))"

definition lex_num :: "string \<Rightarrow> (string \<times> string) option" where
  "lex_num s =
     (let (sign, s0) = (case s of c # t \<Rightarrow> if c = CHR ''-'' then ([c], t) else ([], s) | [] \<Rightarrow> ([], s))
      in case lex_int s0 of
           None \<Rightarrow> None
         | Some (i, s1) \<Rightarrow>
             (case lex_frac s1 of
                None \<Rightarrow> None
              | Some (f, s2) \<Rightarrow> map_option (apfst (\<lambda>e. sign @ i @ f @ e)) (lex_exp s2)))"

definition punctuation :: "char \<Rightarrow> token option" where
  "punctuation c =
     map_of [(CHR 0x7B, TLBrace), (CHR 0x7D, TRBrace), (CHR ''['', TLBrack), (CHR '']'', TRBrack),
             (CHR '':'', TColon), (CHR '','', TComma)] c"

definition lex_word :: "string \<Rightarrow> (token \<times> string) option" where
  "lex_word s =
     (if has_prefix s ''true'' then Some (TTrue, drop 4 s)
      else if has_prefix s ''false'' then Some (TFalse, drop 5 s)
      else if has_prefix s ''null'' then Some (TNull, drop 4 s)
      else None)"

text \<open>One token at the front of a text that does not start with white space.\<close>

definition lex_token :: "string \<Rightarrow> (token \<times> string) option" where
  "lex_token s =
     (case s of
        [] \<Rightarrow> None
      | c # t \<Rightarrow>
          (case punctuation c of
             Some k \<Rightarrow> Some (k, t)
           | None \<Rightarrow>
               if c = dquote then map_option (apfst TStr) (lex_string t)
               else if is_digit c \<or> c = CHR ''-'' then map_option (apfst TNum) (lex_num s)
               else lex_word s))"

lemma lex_string_shorter: "lex_string s = Some (a, t) \<Longrightarrow> length t < length s"
proof (induction s arbitrary: a t rule: lex_string.induct)
  case (2 c s)
  show ?case
  proof (cases "c = dquote")
    case True
    with "2.prems" show ?thesis by simp
  next
    case ne: False
    show ?thesis
    proof (cases "c = backslash")
      case True
      with ne "2.prems" obtain d n r where u: "unescape s = Some (d, n)" "lex_string (drop n s) = Some (r, t)"
        by (auto split: option.splits)
      from "2.IH"(1) [OF ne True u(1) refl u(2)] show ?thesis by simp
    next
      case False
      let ?n = "rune_len (c # s)"
      show ?thesis
      proof (cases "?n = 0")
        case True
        with ne False "2.prems" obtain r where "lex_string s = Some (r, t)" by (auto simp: Let_def split: if_splits)
        with "2.IH"(2) [OF ne False _ refl True this] "2.prems" ne False show ?thesis by (simp split: if_splits)
      next
        case nz: False
        with ne False "2.prems" obtain r where r: "lex_string (drop ?n (c # s)) = Some (r, t)"
          by (auto simp: Let_def split: if_splits)
        with "2.IH"(3) [OF ne False _ refl nz this] "2.prems" ne False show ?thesis by (simp split: if_splits)
      qed
    qed
  qed
qed simp

lemma lex_int_shorter: "lex_int s = Some (a, t) \<Longrightarrow> length t < length s"
  by (auto simp: lex_int_def le_imp_less_Suc length_dropWhile_le split: list.splits if_splits)

lemma lex_digits_shorter: "lex_digits s = Some (a, t) \<Longrightarrow> length t \<le> length s"
  by (auto simp: lex_digits_def length_dropWhile_le split: if_splits)

lemma lex_frac_shorter: "lex_frac s = Some (a, t) \<Longrightarrow> length t \<le> length s"
  by (auto simp: lex_frac_def le_SucI dest: lex_digits_shorter split: list.splits if_splits)

lemma lex_exp_shorter: "lex_exp s = Some (a, t) \<Longrightarrow> length t \<le> length s"
  by (auto simp: lex_exp_def le_SucI dest: lex_digits_shorter split: list.splits if_splits)

lemma lex_num_shorter: "lex_num s = Some (a, t) \<Longrightarrow> length t < length s"
  by (auto simp: lex_num_def split: list.splits if_splits option.splits
      dest!: lex_int_shorter lex_frac_shorter lex_exp_shorter)

lemma lex_token_shorter: "lex_token s = Some (k, t) \<Longrightarrow> length t < length s"
  by (auto simp: lex_token_def lex_word_def split: list.splits if_splits option.splits
      dest: lex_string_shorter lex_num_shorter)

function lex_text :: "string \<Rightarrow> token list option" where
  "lex_text s =
     (if s = [] then Some []
      else if is_space (hd s) then lex_text (tl s)
      else case lex_token s of
             None \<Rightarrow> None
           | Some (k, t) \<Rightarrow> map_option ((#) k) (lex_text t))"
  by pat_completeness auto
termination
  by (relation "measure length") (auto dest: lex_token_shorter)

declare lex_text.simps [simp del]

section \<open>Parsing\<close>

text \<open>
  The parser is the state machine of the library's scanner: a stack of open arrays and of objects
  whose member value is being read, and a mode that says what may come next.
\<close>

datatype frame = FArr "json list" | FObj "(string \<times> json) list" string

datatype mode =
    MVal
  | MValOrEnd
  | MKeys "(string \<times> json) list" bool
  | MColon "(string \<times> json) list" string
  | MAfter json

definition maxNestingDepth :: nat where "maxNestingDepth = 10000"

definition start_value :: "token \<Rightarrow> frame list \<Rightarrow> (mode \<times> frame list) option" where
  "start_value t stk =
     (case t of
        TNull \<Rightarrow> Some (MAfter JNull, stk)
      | TTrue \<Rightarrow> Some (MAfter (JBool True), stk)
      | TFalse \<Rightarrow> Some (MAfter (JBool False), stk)
      | TNum n \<Rightarrow> Some (MAfter (JNum n), stk)
      | TStr s \<Rightarrow> Some (MAfter (JStr s), stk)
      | TLBrack \<Rightarrow> if maxNestingDepth \<le> length stk then None else Some (MValOrEnd, FArr [] # stk)
      | TLBrace \<Rightarrow> if maxNestingDepth \<le> length stk then None else Some (MKeys [] True, stk)
      | _ \<Rightarrow> None)"

fun parse_step :: "token \<Rightarrow> mode \<times> frame list \<Rightarrow> (mode \<times> frame list) option" where
  "parse_step t (MVal, stk) = start_value t stk"
| "parse_step t (MValOrEnd, stk) =
     (if t = TRBrack then Some (MAfter (JArr []), tl stk) else start_value t stk)"
| "parse_step t (MKeys ps first, stk) =
     (case t of
        TStr k \<Rightarrow> Some (MColon ps k, stk)
      | TRBrace \<Rightarrow> if first then Some (MAfter (JObj []), stk) else None
      | _ \<Rightarrow> None)"
| "parse_step t (MColon ps k, stk) = (if t = TColon then Some (MVal, FObj ps k # stk) else None)"
| "parse_step t (MAfter v, FArr xs # stk) =
     (case t of
        TComma \<Rightarrow> Some (MVal, FArr (v # xs) # stk)
      | TRBrack \<Rightarrow> Some (MAfter (JArr (rev (v # xs))), stk)
      | _ \<Rightarrow> None)"
| "parse_step t (MAfter v, FObj ps k # stk) =
     (case t of
        TComma \<Rightarrow> Some (MKeys ((k, v) # ps) False, stk)
      | TRBrace \<Rightarrow> Some (MAfter (JObj (rev ((k, v) # ps))), stk)
      | _ \<Rightarrow> None)"
| "parse_step t (MAfter v, []) = None"

fun parse_run :: "token list \<Rightarrow> mode \<times> frame list \<Rightarrow> (mode \<times> frame list) option" where
  "parse_run [] st = Some st"
| "parse_run (t # ts) st = (case parse_step t st of None \<Rightarrow> None | Some st' \<Rightarrow> parse_run ts st')"

definition parse_tokens :: "token list \<Rightarrow> json option" where
  "parse_tokens ts = (case parse_run ts (MVal, []) of Some (MAfter v, []) \<Rightarrow> Some v | _ \<Rightarrow> None)"

definition json_parse :: "bytes \<Rightarrow> json option" where
  "json_parse s = (case lex_text s of None \<Rightarrow> None | Some ts \<Rightarrow> parse_tokens ts)"

section \<open>Printing\<close>

fun json_print :: "json \<Rightarrow> string" and print_elems :: "json list \<Rightarrow> string"
  and print_members :: "(string \<times> json) list \<Rightarrow> string" where
  "json_print JNull = ''null''"
| "json_print (JBool b) = (if b then ''true'' else ''false'')"
| "json_print (JNum n) = n"
| "json_print (JStr s) = quote s"
| "json_print (JArr vs) = CHR ''['' # print_elems vs"
| "json_print (JObj ps) = CHR 0x7B # print_members ps"
| "print_elems [] = [CHR '']'']"
| "print_elems (v # vs) = json_print v @ (if vs = [] then [CHR '']''] else CHR '','' # print_elems vs)"
| "print_members [] = [CHR 0x7D]"
| "print_members ((k, v) # ps) =
     quote k @ CHR '':'' # json_print v @ (if ps = [] then [CHR 0x7D] else CHR '','' # print_members ps)"

section \<open>Reading back what was written\<close>

fun toks :: "json \<Rightarrow> token list" and toks_elems :: "json list \<Rightarrow> token list"
  and toks_members :: "(string \<times> json) list \<Rightarrow> token list" where
  "toks JNull = [TNull]"
| "toks (JBool b) = [if b then TTrue else TFalse]"
| "toks (JNum n) = [TNum n]"
| "toks (JStr s) = [TStr s]"
| "toks (JArr vs) = TLBrack # toks_elems vs"
| "toks (JObj ps) = TLBrace # toks_members ps"
| "toks_elems [] = [TRBrack]"
| "toks_elems (v # vs) = toks v @ (if vs = [] then [TRBrack] else TComma # toks_elems vs)"
| "toks_members [] = [TRBrace]"
| "toks_members ((k, v) # ps) =
     TStr k # TColon # toks v @ (if ps = [] then [TRBrace] else TComma # toks_members ps)"

text \<open>The values that survive: valid UTF-8, well-formed number literals, bounded nesting.\<close>

fun printable :: "json \<Rightarrow> bool" and depth :: "json \<Rightarrow> nat" where
  "printable (JNum n) \<longleftrightarrow> lex_num n = Some (n, [])"
| "printable (JStr s) \<longleftrightarrow> valid_utf8 s"
| "printable (JArr vs) \<longleftrightarrow> (\<forall>v \<in> set vs. printable v)"
| "printable (JObj ps) \<longleftrightarrow> (\<forall>(k, v) \<in> set ps. valid_utf8 k \<and> printable v)"
| "printable _ \<longleftrightarrow> True"
| "depth (JArr vs) = Suc (foldr max (map depth vs) 0)"
| "depth (JObj ps) = Suc (foldr max (map (\<lambda>(k, v). depth v) ps) 0)"
| "depth _ = 0"

definition delim :: "string \<Rightarrow> bool" where
  "delim s \<longleftrightarrow> s = [] \<or> hd s \<in> {CHR '','', CHR '']'', CHR 0x7D, CHR 0x0A}"

lemma not_digit_lits:
  "\<not> is_digit (CHR '','')" "\<not> is_digit (CHR '']'')" "\<not> is_digit (CHR 0x7D)" "\<not> is_digit (CHR 0x0A)"
  by (simp_all add: is_digit_def in_range_def byte_val_def)

lemma span_delim:
  assumes "delim t"
  shows "takeWhile is_digit (s @ t) = takeWhile is_digit s" and "dropWhile is_digit (s @ t) = dropWhile is_digit s @ t"
proof -
  have "t = [] \<or> \<not> is_digit (hd t)" using assms not_digit_lits by (auto simp: delim_def)
  then have "takeWhile is_digit t = []" "dropWhile is_digit t = t" by (cases t; simp)+
  then show "takeWhile is_digit (s @ t) = takeWhile is_digit s" "dropWhile is_digit (s @ t) = dropWhile is_digit s @ t"
    by (induction s) auto
qed

lemma lex_digits_append: "delim t \<Longrightarrow> lex_digits s = Some (a, r) \<Longrightarrow> lex_digits (s @ t) = Some (a, r @ t)"
  by (auto simp: lex_digits_def span_delim split: if_splits)

lemma lex_int_append: "delim t \<Longrightarrow> lex_int s = Some (a, r) \<Longrightarrow> lex_int (s @ t) = Some (a, r @ t)"
  by (auto simp: lex_int_def span_delim split: if_splits list.splits)

lemma delim_head: "delim (c # t) \<Longrightarrow> c \<noteq> CHR ''.'' \<and> c \<noteq> CHR ''e'' \<and> c \<noteq> CHR ''E''"
  by (auto simp: delim_def)

lemma lex_frac_append:
  assumes "delim t" and "lex_frac s = Some (a, r)" shows "lex_frac (s @ t) = Some (a, r @ t)"
  using assms(2) lex_digits_append [OF assms(1)] delim_head [of "hd t" "tl t"] assms(1)
  by (cases s; cases t) (auto simp: lex_frac_def split: if_splits)

lemma lex_exp_append:
  assumes "delim t" and "lex_exp s = Some (a, r)" shows "lex_exp (s @ t) = Some (a, r @ t)"
proof (cases s)
  case Nil
  with assms delim_head [of "hd t" "tl t"] show ?thesis by (cases t) (auto simp: lex_exp_def)
next
  case (Cons c u)
  with assms(2) lex_digits_append [OF assms(1)] lex_digits_append [OF assms(1), of u] show ?thesis
    by (cases u) (auto simp: lex_exp_def split: if_splits)
qed

lemma map_prepend_Cons: "map_option ((#) x) o' = map_option ((@) [x]) o'"
  by (cases o') auto

lemma map_prepend_prepend [simp]: "map_option ((@) xs) (map_option ((@) ys) o') = map_option ((@) (xs @ ys)) o'"
  by (cases o') auto

lemma delim_simps [simp]: "delim []" "delim (CHR '','' # t)" "delim (CHR '']'' # t)" "delim (CHR 0x7D # t)"
    "delim (CHR 0x0A # t)"
  by (simp_all add: delim_def)

lemma lex_num_append:
  assumes "delim t" and "lex_num s = Some (a, r)"
  shows "lex_num (s @ t) = Some (a, r @ t)"
proof -
  obtain c u where s: "s = c # u" using assms(2) by (cases s) (auto simp: lex_num_def lex_int_def)
  define sg s0 where "sg = (if c = CHR ''-'' then [c] else [])" and "s0 = (if c = CHR ''-'' then u else s)"
  obtain i s1 f s2 e where l: "lex_int s0 = Some (i, s1)" "lex_frac s1 = Some (f, s2)" "lex_exp s2 = Some (e, r)"
    and a: "a = sg @ i @ f @ e"
    using assms(2) by (auto simp: lex_num_def s sg_def s0_def split: option.splits if_splits)
  have "lex_int (s0 @ t) = Some (i, s1 @ t)" "lex_frac (s1 @ t) = Some (f, s2 @ t)" "lex_exp (s2 @ t) = Some (e, r @ t)"
    using l assms(1) lex_int_append lex_frac_append lex_exp_append by blast+
  then show ?thesis by (auto simp: lex_num_def s sg_def s0_def a split: if_splits)
qed

lemma lex_num_head:
  assumes "lex_num s = Some (a, r)"
  shows "s \<noteq> [] \<and> (is_digit (hd s) \<or> hd s = CHR ''-'')"
  using assms by (auto simp: lex_num_def lex_int_def is_digit_def in_range_def byte_val_def
      split: list.splits if_splits option.splits)

lemma punctuation_None:
  assumes "is_digit c \<or> c = CHR ''-''"
  shows "punctuation c = None \<and> c \<noteq> dquote \<and> \<not> is_space c"
proof -
  have "byte_val c = 0x2D \<or> 0x30 \<le> byte_val c \<and> byte_val c \<le> 0x39"
    using assms by (auto simp: is_digit_def in_range_def byte_val_def)
  moreover have "c \<in> {CHR 0x7B, CHR 0x7D, CHR ''['', CHR '']'', CHR '':'', CHR '','', dquote, CHR 0x20, CHR 0x09, CHR 0x0A, CHR 0x0D}
      \<Longrightarrow> byte_val c \<in> {0x7B, 0x7D, 0x5B, 0x5D, 0x3A, 0x2C, 0x22, 0x20, 0x09, 0x0A, 0x0D}"
    by (elim insertE) (simp_all add: byte_val_def dquote_def)
  ultimately have "c \<notin> {CHR 0x7B, CHR 0x7D, CHR ''['', CHR '']'', CHR '':'', CHR '','', dquote, CHR 0x20, CHR 0x09, CHR 0x0A, CHR 0x0D}"
    by fastforce
  then show ?thesis by (simp add: punctuation_def is_space_def)
qed

lemma lex_number:
  assumes "lex_num n = Some (n, [])" and "delim t"
  shows "lex_text (n @ t) = map_option ((@) [TNum n]) (lex_text t)"
proof -
  obtain c u where n: "n = c # u" "is_digit c \<or> c = CHR ''-''"
    using lex_num_head [OF assms(1)] by (cases n) auto
  have "lex_token (n @ t) = Some (TNum n, t)"
    using lex_num_append [OF assms(2,1)] punctuation_None [OF n(2)] n by (auto simp: lex_token_def)
  with n punctuation_None [OF n(2)] show ?thesis by (subst lex_text.simps) (simp add: map_prepend_Cons)
qed

lemma lex_quote:
  assumes "valid_utf8 s"
  shows "lex_text (quote s @ t) = map_option ((@) [TStr s]) (lex_text t)"
proof -
  have "punctuation dquote = None" "\<not> is_space dquote" by (simp_all add: punctuation_def dquote_def is_space_def)
  then show ?thesis
    using lex_string_quote [OF assms, of t] by (subst lex_text.simps) (simp add: quote_def lex_token_def map_prepend_Cons)
qed

lemma lex_punctuation:
  "lex_text (CHR 0x7B # t) = map_option ((@) [TLBrace]) (lex_text t)" "lex_text (CHR 0x7D # t) = map_option ((@) [TRBrace]) (lex_text t)"
  "lex_text (CHR ''['' # t) = map_option ((@) [TLBrack]) (lex_text t)" "lex_text (CHR '']'' # t) = map_option ((@) [TRBrack]) (lex_text t)"
  "lex_text (CHR '':'' # t) = map_option ((@) [TColon]) (lex_text t)" "lex_text (CHR '','' # t) = map_option ((@) [TComma]) (lex_text t)"
  by (subst lex_text.simps, simp add: is_space_def lex_token_def punctuation_def map_prepend_Cons)+

lemma lex_words:
  "lex_text (''null'' @ t) = map_option ((@) [TNull]) (lex_text t)" "lex_text (''true'' @ t) = map_option ((@) [TTrue]) (lex_text t)"
  "lex_text (''false'' @ t) = map_option ((@) [TFalse]) (lex_text t)"
  by (subst lex_text.simps, simp add: is_space_def lex_token_def punctuation_def dquote_def is_digit_def in_range_def
      byte_val_def lex_word_def has_prefix_def map_prepend_Cons)+

lemma lex_print:
  shows "printable v \<Longrightarrow> delim t \<Longrightarrow> lex_text (json_print v @ t) = map_option ((@) (toks v)) (lex_text t)"
    and "\<forall>v \<in> set vs. printable v \<Longrightarrow> lex_text (print_elems vs @ t) = map_option ((@) (toks_elems vs)) (lex_text t)"
    and "\<forall>(k, v) \<in> set ps. valid_utf8 k \<and> printable v \<Longrightarrow>
      lex_text (print_members ps @ t) = map_option ((@) (toks_members ps)) (lex_text t)"
  by (induction v and vs and ps arbitrary: t and t and t rule: json_print_print_elems_print_members.induct)
    (auto simp: lex_words [simplified] lex_number lex_quote lex_punctuation)

lemma le_foldr_max: "x \<in> set xs \<Longrightarrow> (x::nat) \<le> foldr max xs 0"
  by (induction xs) auto

lemma depth_elem: "v \<in> set vs \<Longrightarrow> depth v < depth (JArr vs)"
  using le_foldr_max [of "depth v" "map depth vs"] by simp

lemma depth_member: "(k, v) \<in> set ps \<Longrightarrow> depth v < depth (JObj ps)"
  using le_foldr_max [of "depth v" "map (\<lambda>(k, v). depth v) ps"] by force

lemma toks_nonempty: "toks v \<noteq> []"
  by (cases v) auto

lemma toks_head: "hd (toks v) \<noteq> TRBrack"
  by (cases v) auto

lemma parse_first:
  "parse_run (toks v @ ts) (MValOrEnd, FArr xs # stk) = parse_run (toks v @ ts) (MVal, FArr xs # stk)"
  using toks_nonempty [of v] toks_head [of v] by (cases "toks v") auto

lemma parse_toks:
  shows "depth v + length stk \<le> maxNestingDepth \<Longrightarrow> parse_run (toks v @ ts) (MVal, stk) = parse_run ts (MAfter v, stk)"
    and "\<forall>v \<in> set vs. depth v + length stk < maxNestingDepth \<Longrightarrow> vs \<noteq> [] \<Longrightarrow>
      parse_run (toks_elems vs @ ts) (MVal, FArr xs # stk) = parse_run ts (MAfter (JArr (rev xs @ vs)), stk)"
    and "\<forall>(k, v) \<in> set ps. depth v + length stk < maxNestingDepth \<Longrightarrow> ps \<noteq> [] \<Longrightarrow>
      parse_run (toks_members ps @ ts) (MKeys qs first, stk) = parse_run ts (MAfter (JObj (rev qs @ ps)), stk)"
proof (induction v and vs and ps arbitrary: stk ts and stk ts xs and stk ts qs first
    rule: toks_toks_elems_toks_members.induct)
  case (5 vs)
  have "\<forall>v \<in> set vs. depth v + length stk < maxNestingDepth" using "5.prems" depth_elem [of _ vs] by fastforce
  with 5 show ?case
    by (cases vs) (auto simp: start_value_def parse_first)
next
  case (6 ps)
  have "\<forall>(k, v) \<in> set ps. depth v + length stk < maxNestingDepth" using "6.prems" depth_member [of _ _ ps] by fastforce
  with 6 show ?case by (cases ps) (auto simp: start_value_def)
qed (auto simp: start_value_def)

lemma parse_tokens_toks: "depth v \<le> maxNestingDepth \<Longrightarrow> parse_tokens (toks v) = Some v"
  using parse_toks(1) [of v "[]" "[]"] by (simp add: parse_tokens_def)

theorem json_roundtrip:
  assumes "printable v" and "depth v \<le> maxNestingDepth"
  shows "json_parse (json_print v) = Some v"
  using lex_print(1) [OF assms(1), of "[]"] parse_tokens_toks [OF assms(2)]
  by (simp add: json_parse_def lex_text.simps)

section \<open>Indented text\<close>

text \<open>\<open>json.MarshalIndent\<close> with an indentation of two spaces.\<close>

definition newline :: "nat \<Rightarrow> string" where
  "newline n = CHR 0x0A # replicate (2 * n) (CHR 0x20)"

fun json_indent :: "nat \<Rightarrow> json \<Rightarrow> string" and indent_elems :: "nat \<Rightarrow> json list \<Rightarrow> string"
  and indent_members :: "nat \<Rightarrow> (string \<times> json) list \<Rightarrow> string" where
  "json_indent n (JArr vs) =
     CHR ''['' # (if vs = [] then [CHR '']''] else newline (Suc n) @ indent_elems n vs)"
| "json_indent n (JObj ps) =
     CHR 0x7B # (if ps = [] then [CHR 0x7D] else newline (Suc n) @ indent_members n ps)"
| "json_indent n v = json_print v"
| "indent_elems n [] = []"
| "indent_elems n (v # vs) =
     json_indent (Suc n) v @
     (if vs = [] then newline n @ [CHR '']''] else CHR '','' # newline (Suc n) @ indent_elems n vs)"
| "indent_members n [] = []"
| "indent_members n ((k, v) # ps) =
     quote k @ CHR '':'' # CHR 0x20 # json_indent (Suc n) v @
     (if ps = [] then newline n @ [CHR 0x7D] else CHR '','' # newline (Suc n) @ indent_members n ps)"

lemma lex_space: "is_space c \<Longrightarrow> lex_text (c # t) = lex_text t"
  by (subst lex_text.simps) simp

lemma lex_spaces: "list_all is_space w \<Longrightarrow> lex_text (w @ t) = lex_text t"
  by (induction w) (auto simp: lex_space)

lemma lex_newline [simp]: "lex_text (newline n @ t) = lex_text t"
  by (rule lex_spaces) (auto simp: newline_def is_space_def list_all_iff)

lemma delim_newline [simp]: "delim (newline n @ t)"
  by (simp add: newline_def)

lemma lex_indent:
  shows "printable v \<Longrightarrow> delim t \<Longrightarrow> lex_text (json_indent n v @ t) = map_option ((@) (toks v)) (lex_text t)"
    and "\<forall>v \<in> set vs. printable v \<Longrightarrow> vs \<noteq> [] \<Longrightarrow>
      lex_text (indent_elems n vs @ t) = map_option ((@) (toks_elems vs)) (lex_text t)"
    and "\<forall>(k, v) \<in> set ps. valid_utf8 k \<and> printable v \<Longrightarrow> ps \<noteq> [] \<Longrightarrow>
      lex_text (indent_members n ps @ t) = map_option ((@) (toks_members ps)) (lex_text t)"
proof (induction n v and n vs and n ps arbitrary: t and t and t rule: json_indent_indent_elems_indent_members.induct)
  case (1 n vs)
  then show ?case by (cases vs; cases "lex_text t") (auto simp: lex_punctuation)
next
  case (2 n ps)
  then show ?case by (cases ps; cases "lex_text t") (auto simp: lex_punctuation)
next
  case (5 n v vs)
  then show ?case by (cases "lex_text t") (auto simp: lex_punctuation)
next
  case (7 n k v ps)
  have "is_space (CHR 0x20)" by (simp add: is_space_def)
  with 7 show ?case by (cases "lex_text t") (auto simp: lex_punctuation lex_quote lex_space)
qed (auto simp: lex_words [simplified] lex_number lex_quote)

theorem json_indent_roundtrip:
  assumes "printable v" and "depth v \<le> maxNestingDepth"
  shows "json_parse (json_indent 0 v @ newline 0) = Some v"
proof -
  have "lex_text (newline 0) = Some []" using lex_newline [of 0 "[]"] by (simp add: lex_text.simps)
  with lex_indent(1) [OF assms(1), of "newline 0"] parse_tokens_toks [OF assms(2)] show ?thesis
    by (simp add: json_parse_def newline_def)
qed

section \<open>Object members and struct fields\<close>

text \<open>
  \<open>json.Unmarshal\<close> matches the members of an object with the fields of a struct up to letter case,
  as Unicode folds it: besides the ASCII letters, U+017F folds to \<open>S\<close> and U+212A to \<open>K\<close>. The field
  names of the program are ASCII, so no other folding can matter.
\<close>

definition ascii_upper :: "char \<Rightarrow> char" where
  "ascii_upper c =
     (case map_of (zip ''abcdefghijklmnopqrstuvwxyz'' ''ABCDEFGHIJKLMNOPQRSTUVWXYZ'') c of
        Some u \<Rightarrow> u
      | None \<Rightarrow> c)"

function fold_key :: "string \<Rightarrow> string" where
  "fold_key s =
     (if s = [] then []
      else if has_prefix s [CHR 0xC5, CHR 0xBF] then CHR ''S'' # fold_key (drop 2 s)
      else if has_prefix s [CHR 0xE2, CHR 0x84, CHR 0xAA] then CHR ''K'' # fold_key (drop 3 s)
      else ascii_upper (hd s) # fold_key (tl s))"
  by pat_completeness auto
termination
  by (relation "measure length") auto

declare fold_key.simps [simp del]

lemma fold_key_Nil [simp]: "fold_key [] = []"
  by (simp add: fold_key.simps)

lemma fold_key_Cons [simp]:
  "c \<noteq> CHR 0xC5 \<Longrightarrow> c \<noteq> CHR 0xE2 \<Longrightarrow> fold_key (c # s) = ascii_upper c # fold_key s"
  by (simp add: fold_key.simps [of "c # s"] has_prefix_def)

definition json_key_is :: "string \<Rightarrow> string \<Rightarrow> bool" where
  "json_key_is name key \<longleftrightarrow> fold_key key = fold_key name"

text \<open>Names that stay apart under folding are found under their own name.\<close>

lemma find_key_self:
  "distinct (map fold_key names) \<Longrightarrow> k \<in> set names \<Longrightarrow> find (\<lambda>name. json_key_is name k) names = Some k"
  by (induction names) (auto simp: json_key_is_def image_iff)

section \<open>Integers\<close>

text \<open>\<open>strconv.FormatInt\<close> in base ten, and \<open>strconv.ParseInt\<close> on a JSON number literal.\<close>

fun format_nat :: "nat \<Rightarrow> string" where
  "format_nat n = (if n < 10 then [char_of (n + 0x30)] else format_nat (n div 10) @ [char_of (n mod 10 + 0x30)])"

declare format_nat.simps [simp del]

definition format_int :: "int \<Rightarrow> string" where
  "format_int n = (if n < 0 then CHR ''-'' # format_nat (nat (- n)) else format_nat (nat n))"

definition digit_val :: "char \<Rightarrow> nat" where "digit_val c = byte_val c - 0x30"

definition digits_val :: "string \<Rightarrow> nat" where
  "digits_val ds = fold (\<lambda>c n. n * 10 + digit_val c) ds 0"

definition parse_int :: "string \<Rightarrow> int option" where
  "parse_int s =
     (let (neg, ds) = (case s of c # t \<Rightarrow> if c = CHR ''-'' then (True, t) else (False, s) | [] \<Rightarrow> (False, s));
          n = (if neg then - int (digits_val ds) else int (digits_val ds))
      in if ds \<noteq> [] \<and> list_all is_digit ds \<and> in_int64 n then Some n else None)"

lemma byte_val_digit: "n < 10 \<Longrightarrow> byte_val (char_of (n + 0x30)) = n + 0x30"
  by (simp add: byte_val_def)

lemma format_nat_digits: "list_all is_digit (format_nat n)" "format_nat n \<noteq> []"
  by (induction n rule: format_nat.induct)
    (auto simp: format_nat.simps is_digit_def in_range_def byte_val_digit)

lemma digits_val_format: "digits_val (format_nat n) = n"
proof (induction n rule: format_nat.induct)
  case (1 n)
  then show ?case
    by (subst format_nat.simps) (auto simp: digits_val_def digit_val_def byte_val_digit)
qed

lemma format_nat_not_minus: "format_nat n = c # t \<Longrightarrow> c \<noteq> CHR ''-''"
  using format_nat_digits(1) [of n] by (auto simp: is_digit_def in_range_def byte_val_def)

lemma parse_format_int: "in_int64 n \<Longrightarrow> parse_int (format_int n) = Some n"
  using format_nat_digits [of "nat n"] format_nat_digits [of "nat (- n)"] format_nat_not_minus [of "nat n"]
    digits_val_format [of "nat n"] digits_val_format [of "nat (- n)"]
  by (cases "n < 0"; cases "format_nat (nat n)") (auto simp: parse_int_def format_int_def Let_def)

lemma lex_int_digits:
  assumes "list_all is_digit ds" and "ds \<noteq> []" and "hd ds = CHR ''0'' \<Longrightarrow> tl ds = []"
  shows "lex_int ds = Some (ds, [])"
proof (cases ds)
  case (Cons c t)
  with assms have "takeWhile is_digit t = t" "dropWhile is_digit t = []"
    by (auto simp: list_all_iff takeWhile_eq_all_conv dropWhile_eq_Nil_conv)
  with Cons assms show ?thesis by (auto simp: lex_int_def)
qed (use assms in simp)

lemma format_nat_no_leading_zero: "hd (format_nat n) = CHR ''0'' \<Longrightarrow> n = 0"
proof (induction n rule: format_nat.induct)
  case (1 n)
  show ?case
  proof (cases "n < 10")
    case True
    have "byte_val (CHR ''0'') = 0x30" by (simp add: byte_val_def)
    with 1 True byte_val_digit [OF True] show ?thesis by (simp add: format_nat.simps)
  next
    case False
    with 1 format_nat_digits(2) [of "n div 10"] have "n div 10 = 0" by (simp add: format_nat.simps [of n])
    with False show ?thesis by simp
  qed
qed

lemma lex_num_format_int: "lex_num (format_int n) = Some (format_int n, [])"
proof -
  have l: "lex_int (format_nat k) = Some (format_nat k, [])" for k
    using format_nat_digits [of k] format_nat_no_leading_zero [of k]
    by (intro lex_int_digits) (auto simp: format_nat.simps [of 0])
  show ?thesis
  proof (cases "n < 0")
    case True
    with l show ?thesis by (simp add: lex_num_def format_int_def lex_frac_def lex_exp_def)
  next
    case False
    obtain c t where f: "format_nat (nat n) = c # t" using format_nat_digits(2) by (cases "format_nat (nat n)") auto
    with False l [of "nat n"] format_nat_not_minus [OF f] show ?thesis
      by (simp add: lex_num_def format_int_def lex_frac_def lex_exp_def)
  qed
qed

end
