(* ===== verification/Redaction_Rules.thy ===== *)
theory Redaction_Rules
  imports Json_Text
begin

text \<open>
  The rules of \<open>internal/middleware/redaction.go\<close>: the default patterns with the matching of Go's
  \<open>regexp\<close> they use (leftmost, and among the matches at one start the first in priority order), the
  merging of all matches of a text into disjoint spans, and the replacement of the spans in one part
  of the text. The main result is that a redacted text keeps exactly the bytes no rule matches.
\<close>

section \<open>Regular expressions\<close>

datatype regex =
    RChars "char \<Rightarrow> bool"
  | RBoundary
  | REmpty
  | RSeq regex regex
  | RAlt regex regex
  | RStar regex

definition word_byte :: "char \<Rightarrow> bool" where
  "word_byte c \<longleftrightarrow> in_range 0x30 0x39 c \<or> in_range 0x41 0x5A c \<or> in_range 0x61 0x7A c \<or> c = CHR ''_''"

definition is_word :: "char option \<Rightarrow> bool" where
  "is_word c = (case c of None \<Rightarrow> False | Some c \<Rightarrow> word_byte c)"

fun front :: "string \<Rightarrow> char option" where
  "front [] = None"
| "front (c # s) = Some c"

text \<open>
  All ways to match at a position, in the order of priority: greedy repetition prefers one more
  round, an alternative prefers its left side. A position is the byte before it and the text behind.
\<close>

function rx_ends :: "regex \<Rightarrow> char option \<Rightarrow> string \<Rightarrow> (char option \<times> string) list" where
  "rx_ends (RChars P) prev s = (case s of [] \<Rightarrow> [] | c # t \<Rightarrow> if P c then [(Some c, t)] else [])"
| "rx_ends RBoundary prev s = (if is_word prev \<noteq> is_word (front s) then [(prev, s)] else [])"
| "rx_ends REmpty prev s = [(prev, s)]"
| "rx_ends (RSeq a b) prev s = concat (map (\<lambda>(p, t). rx_ends b p t) (rx_ends a prev s))"
| "rx_ends (RAlt a b) prev s = rx_ends a prev s @ rx_ends b prev s"
| "rx_ends (RStar a) prev s =
     concat (map (\<lambda>(p, t). if length t < length s then rx_ends (RStar a) p t else []) (rx_ends a prev s)) @ [(prev, s)]"
  by pat_completeness auto
termination
  by (relation "measures [\<lambda>(r, p, s). size r, \<lambda>(r, p, s). length s]") auto

lemma rx_ends_shorter: "(p', t) \<in> set (rx_ends r p s) \<Longrightarrow> length t \<le> length s"
proof (induction r p s arbitrary: p' t rule: rx_ends.induct)
  case (4 a b prev s)
  from 4(3) obtain q u where "(q, u) \<in> set (rx_ends a prev s)" "(p', t) \<in> set (rx_ends b q u)" by auto
  with 4(1,2) show ?case using order_trans by blast
next
  case (6 a prev s)
  show ?case
  proof (cases "(p', t) = (prev, s)")
    case False
    with 6(3) obtain q u where qu: "(q, u) \<in> set (rx_ends a prev s)" "length u < length s" "(p', t) \<in> set (rx_ends (RStar a) q u)"
      unfolding rx_ends.simps(6) [of a prev s] by (auto split: if_splits simp del: rx_ends.simps)
    from 6(2) [OF qu(1) refl qu(2,3)] qu(2) show ?thesis by simp
  qed simp
qed (auto split: list.splits if_splits)

declare rx_ends.simps(6) [simp del]

definition rx_at :: "regex \<Rightarrow> char option \<Rightarrow> string \<Rightarrow> nat option" where
  "rx_at r prev s = (case rx_ends r prev s of [] \<Rightarrow> None | (p, t) # _ \<Rightarrow> Some (length s - length t))"

fun rx_search :: "regex \<Rightarrow> char option \<Rightarrow> string \<Rightarrow> nat \<Rightarrow> (nat \<times> nat) option" where
  "rx_search r prev [] off = map_option (\<lambda>n. (off, off + n)) (rx_at r prev [])"
| "rx_search r prev (c # s) off =
     (case rx_at r prev (c # s) of
        Some n \<Rightarrow> Some (off, off + n)
      | None \<Rightarrow> rx_search r (Some c) s (Suc off))"

lemma rx_at_le: "rx_at r prev s = Some n \<Longrightarrow> n \<le> length s"
  by (auto simp: rx_at_def split: list.splits)

lemma rx_search_range: "rx_search r prev s off = Some (a, b) \<Longrightarrow> off \<le> a \<and> a \<le> b \<and> b \<le> off + length s"
  by (induction s arbitrary: prev off) (fastforce dest: rx_at_le split: option.splits)+

definition byte_before :: "string \<Rightarrow> nat \<Rightarrow> char option" where
  "byte_before s pos = (if pos = 0 then None else Some (s ! (pos - 1)))"

definition MatchString :: "regex \<Rightarrow> string \<Rightarrow> bool" where
  "MatchString r s \<longleftrightarrow> rx_search r None s 0 \<noteq> None"

text \<open>\<open>FindAllStringIndex\<close>: at most \<open>n\<close> matches from left to right, none of them overlapping.\<close>

function find_all :: "regex \<Rightarrow> string \<Rightarrow> nat \<Rightarrow> nat \<Rightarrow> nat option \<Rightarrow> (nat \<times> nat) list" where
  "find_all r s n pos prev_end =
     (if n = 0 \<or> length s < pos then []
      else case rx_search r (byte_before s pos) (drop pos s) pos of
             None \<Rightarrow> []
           | Some (a, b) \<Rightarrow>
               if b = pos then
                 let pos' = pos + max 1 (rune_len (drop pos s))
                 in if Some a = prev_end then find_all r s n pos' (Some b)
                    else (a, b) # find_all r s (n - 1) pos' (Some b)
               else (a, b) # find_all r s (n - 1) b (Some b))"
  by pat_completeness auto
termination
proof (relation "measure (\<lambda>(r, s, n, pos, prev_end). Suc (length s) - pos)", goal_cases)
  case (4 r s n pos prev_end x a b)
  then show ?case using rx_search_range [of r "byte_before s pos" "drop pos s" pos a b] by auto
qed auto

declare find_all.simps [simp del]

definition FindAllStringIndex :: "regex \<Rightarrow> string \<Rightarrow> nat \<Rightarrow> (nat \<times> nat) list" where
  "FindAllStringIndex r s n = find_all r s n 0 None"

lemma find_all_range: "(a, b) \<in> set (find_all r s n pos prev_end) \<Longrightarrow> pos \<le> a \<and> a \<le> b \<and> b \<le> length s"
proof (induction r s n pos prev_end rule: find_all.induct)
  case (1 r s n pos prev_end)
  show ?case
  proof (cases "n = 0 \<or> length s < pos \<or> rx_search r (byte_before s pos) (drop pos s) pos = None")
    case True
    then have "find_all r s n pos prev_end = []" by (subst find_all.simps) auto
    with "1.prems" show ?thesis by simp
  next
    case False
    then obtain x y where xy: "rx_search r (byte_before s pos) (drop pos s) pos = Some (x, y)" by auto
    have r: "pos \<le> x \<and> x \<le> y \<and> y \<le> length s" using rx_search_range [OF xy] False by auto
    have f: "\<not> (n = 0 \<or> length s < pos)" using False by simp
    note ih = "1.IH" [OF f xy refl]
    let ?p = "pos + max 1 (rune_len (drop pos s))"
    consider "(a, b) = (x, y)" | "y = pos" "Some x = prev_end" "(a, b) \<in> set (find_all r s n ?p (Some y))"
      | "y = pos" "Some x \<noteq> prev_end" "(a, b) \<in> set (find_all r s (n - 1) ?p (Some y))" | "y \<noteq> pos" "(a, b) \<in> set (find_all r s (n - 1) y (Some y))"
      using "1.prems" f xy by (subst (asm) find_all.simps) (auto simp: Let_def split: if_splits)
    then show ?thesis
    proof cases
      case 2
      then show ?thesis using ih(1) [OF 2(1) refl] by auto
    qed (use r ih in auto)
  qed
qed

section \<open>The rules\<close>

record RedactionRule =
  rr_Name :: string
  rr_Pattern :: regex
  rr_Replacement :: string
  rr_Enabled :: bool

fun rx_seq :: "regex list \<Rightarrow> regex" where
  "rx_seq [] = REmpty"
| "rx_seq (r # rs) = RSeq r (rx_seq rs)"

definition rx_opt :: "regex \<Rightarrow> regex" where "rx_opt r = RAlt r REmpty"
definition rx_times :: "nat \<Rightarrow> regex \<Rightarrow> regex" where "rx_times n r = rx_seq (replicate n r)"
definition rx_from :: "nat \<Rightarrow> regex \<Rightarrow> regex" where "rx_from n r = RSeq (rx_times n r) (RStar r)"

definition rx_char :: "char \<Rightarrow> regex" where "rx_char c = RChars (\<lambda>d. d = c)"
definition rx_text :: "string \<Rightarrow> regex" where "rx_text s = rx_seq (map rx_char s)"
definition digit :: "char \<Rightarrow> bool" where "digit = in_range 0x30 0x39"
definition upper :: "char \<Rightarrow> bool" where "upper = in_range 0x41 0x5A"
definition letter :: "char \<Rightarrow> bool" where "letter c \<longleftrightarrow> upper c \<or> in_range 0x61 0x7A c"
definition rx_space :: "char \<Rightarrow> bool" where "rx_space c \<longleftrightarrow> c \<in> set [CHR 0x09, CHR 0x0A, CHR 0x0C, CHR 0x0D, CHR 0x20]"

definition rx_digits :: "nat \<Rightarrow> regex" where "rx_digits n = rx_times n (RChars digit)"
definition rx_separator :: regex where "rx_separator = rx_opt (RChars (\<lambda>c. c = CHR ''-'' \<or> c = CHR ''.'' \<or> rx_space c))"

definition email_pattern :: regex where
  "email_pattern =
     rx_seq [rx_from 1 (RChars (\<lambda>c. letter c \<or> digit c \<or> c \<in> set ''._%+-'')), rx_char (CHR ''@''),
             rx_from 1 (RChars (\<lambda>c. letter c \<or> digit c \<or> c \<in> set ''.-'')), rx_char (CHR ''.''), rx_from 2 (RChars letter)]"

definition phone_us_pattern :: regex where
  "phone_us_pattern =
     rx_seq [rx_opt (rx_seq [rx_opt (rx_char (CHR ''+'')), rx_char (CHR ''1''), rx_separator]),
             rx_opt (rx_char (CHR ''('')), rx_digits 3, rx_opt (rx_char (CHR '')'')), rx_separator, rx_digits 3,
             rx_separator, rx_digits 4]"

definition ssn_pattern :: regex where
  "ssn_pattern = rx_seq [rx_digits 3, rx_char (CHR ''-''), rx_digits 2, rx_char (CHR ''-''), rx_digits 4]"

definition credit_card_pattern :: regex where
  "credit_card_pattern =
     (let gap = rx_opt (RChars (\<lambda>c. c = CHR ''-'' \<or> rx_space c))
      in rx_seq [RBoundary, rx_digits 4, gap, rx_digits 4, gap, rx_digits 4, gap, rx_digits 4, RBoundary])"

definition api_key_pattern :: regex where
  "api_key_pattern =
     RAlt (RSeq (rx_text ''sk-'') (rx_from 20 (RChars (\<lambda>c. letter c \<or> digit c))))
          (RSeq (rx_text ''AKIA'') (rx_times 16 (RChars (\<lambda>c. upper c \<or> digit c))))"

definition china_id_pattern :: regex where
  "china_id_pattern =
     rx_seq [RBoundary, rx_digits 17, RChars (\<lambda>c. digit c \<or> c = CHR ''X'' \<or> c = CHR ''x''), RBoundary]"

definition china_phone_pattern :: regex where
  "china_phone_pattern = rx_seq [RBoundary, rx_char (CHR ''1''), RChars (in_range 0x33 0x39), rx_digits 9, RBoundary]"

definition DefaultRedactionRules :: "RedactionRule list" where
  "DefaultRedactionRules =
     map (\<lambda>(name, pattern, replacement).
            \<lparr>rr_Name = name, rr_Pattern = pattern, rr_Replacement = replacement, rr_Enabled = True\<rparr>)
       [(''email'', email_pattern, ''[EMAIL_REDACTED]''), (''phone_us'', phone_us_pattern, ''[PHONE_REDACTED]''),
        (''ssn'', ssn_pattern, ''[SSN_REDACTED]''), (''credit_card'', credit_card_pattern, ''[CC_REDACTED]''),
        (''api_key_pattern'', api_key_pattern, ''[KEY_REDACTED]''), (''china_id'', china_id_pattern, ''[ID_REDACTED]''),
        (''china_phone'', china_phone_pattern, ''[PHONE_REDACTED]'')]"

definition rulesMatchString :: "string \<Rightarrow> RedactionRule list \<Rightarrow> bool" where
  "rulesMatchString v rules \<longleftrightarrow> list_ex (\<lambda>rule. rr_Enabled rule \<and> MatchString (rr_Pattern rule) v) rules"

section \<open>Spans\<close>

definition maxSemanticJSONStringBytes :: nat where "maxSemanticJSONStringBytes = 524288"
definition maxSemanticRedactionMatches :: nat where "maxSemanticRedactionMatches = 1024"

text \<open>The errors of the scanner; \<open>ScanFuel\<close> stands for a recursion that was cut off and never occurs.\<close>

datatype sem_error = InvalidSemanticJSON | SemanticJSONLimit | SemanticPIIBlocked | ScanFuel

record redactionSpan =
  sp_start :: nat
  sp_end :: nat
  sp_replacement :: string
  sp_matchWidth :: nat

text \<open>The loop over the rules: all matches with their replacements, or the match limit.\<close>

fun collect_spans :: "string \<Rightarrow> RedactionRule list \<Rightarrow> nat \<Rightarrow> sem_error + redactionSpan list" where
  "collect_spans v [] count = Inr []"
| "collect_spans v (rule # rules) count =
     (if \<not> rr_Enabled rule then collect_spans v rules count
      else if MatchString (rr_Pattern rule) [] \<or> maxSemanticJSONStringBytes < length (rr_Replacement rule)
      then Inl SemanticJSONLimit
      else let matches = FindAllStringIndex (rr_Pattern rule) v (maxSemanticRedactionMatches + 1)
           in if maxSemanticRedactionMatches - count < length matches then Inl SemanticJSONLimit
              else case collect_spans v rules (count + length matches) of
                     Inl e \<Rightarrow> Inl e
                   | Inr spans \<Rightarrow>
                       Inr (map (\<lambda>(a, b). \<lparr>sp_start = a, sp_end = b, sp_replacement = rr_Replacement rule,
                                           sp_matchWidth = b - a\<rparr>) matches @ spans))"

fun merge_spans :: "redactionSpan \<Rightarrow> redactionSpan list \<Rightarrow> redactionSpan list" where
  "merge_spans cur [] = [cur]"
| "merge_spans cur (c # cs) =
     (if sp_end cur \<le> sp_start c then cur # merge_spans c cs
      else let cur1 = cur\<lparr>sp_end := max (sp_end cur) (sp_end c)\<rparr>
           in merge_spans (if sp_matchWidth c > sp_matchWidth cur1
                           then cur1\<lparr>sp_replacement := sp_replacement c, sp_matchWidth := sp_matchWidth c\<rparr>
                           else cur1) cs)"

text \<open>The stable sort by start and, for equal starts, by descending end; then the union of overlapping matches.\<close>

definition sort_spans :: "redactionSpan list \<Rightarrow> redactionSpan list" where
  "sort_spans cs = sort_key sp_start (sort_key (\<lambda>c. - int (sp_end c)) cs)"

definition aggregateRedactionSpans :: "string \<Rightarrow> RedactionRule list \<Rightarrow> sem_error + redactionSpan list \<times> bool" where
  "aggregateRedactionSpans v rules =
     (case collect_spans v rules 0 of
        Inl e \<Rightarrow> Inl e
      | Inr candidates \<Rightarrow>
          Inr (case sort_spans candidates of [] \<Rightarrow> [] | c # cs \<Rightarrow> merge_spans c cs, candidates \<noteq> []))"

text \<open>
  The replacement in one part of a text, the part starting at \<open>globalStart\<close>: a first loop computes
  the length of the output and stops at the limit, a second one writes it.
\<close>

fun redact_length :: "nat \<Rightarrow> nat \<Rightarrow> redactionSpan list \<Rightarrow> int \<Rightarrow> bool \<Rightarrow> (int \<times> bool) option" where
  "redact_length gs ge [] n touched = Some (n, touched)"
| "redact_length gs ge (sp # sps) n touched =
     (let start = max gs (sp_start sp); stop = min ge (sp_end sp)
      in if stop \<le> start then redact_length gs ge sps n touched
         else let n' = n + (int (length (sp_replacement sp)) - int (stop - start))
              in if n' > int maxSemanticJSONStringBytes then None else redact_length gs ge sps n' True)"

fun redact_loop :: "string \<Rightarrow> nat \<Rightarrow> nat \<Rightarrow> redactionSpan list \<Rightarrow> nat \<Rightarrow> string" where
  "redact_loop text gs ge [] cursor = drop (cursor - gs) text"
| "redact_loop text gs ge (sp # sps) cursor =
     (let start = max gs (sp_start sp); stop = min ge (sp_end sp)
      in if stop \<le> start then redact_loop text gs ge sps cursor
         else take (start - cursor) (drop (cursor - gs) text) @ sp_replacement sp @ redact_loop text gs ge sps stop)"

definition redactTextPart :: "string \<Rightarrow> nat \<Rightarrow> redactionSpan list \<Rightarrow> sem_error + string" where
  "redactTextPart text gs spans =
     (let ge = gs + length text
      in case redact_length gs ge spans (int (length text)) False of
           None \<Rightarrow> Inl SemanticJSONLimit
         | Some (n, touched) \<Rightarrow> Inr (if touched then redact_loop text gs ge spans gs else text))"

section \<open>A redacted text keeps exactly what no rule matches\<close>

abbreviation covers :: "redactionSpan \<Rightarrow> nat \<Rightarrow> bool" where
  "covers sp i \<equiv> sp_start sp \<le> i \<and> i < sp_end sp"

definition matched_at :: "string \<Rightarrow> RedactionRule list \<Rightarrow> nat \<Rightarrow> bool" where
  "matched_at v rules i \<longleftrightarrow>
     (\<exists>rule \<in> set rules. rr_Enabled rule \<and>
        (\<exists>(a, b) \<in> set (FindAllStringIndex (rr_Pattern rule) v (maxSemanticRedactionMatches + 1)). a \<le> i \<and> i < b))"

lemma matched_at_Cons:
  "matched_at v (rule # rules) i \<longleftrightarrow>
     (rr_Enabled rule \<and> (\<exists>(a, b) \<in> set (FindAllStringIndex (rr_Pattern rule) v (maxSemanticRedactionMatches + 1)). a \<le> i \<and> i < b))
     \<or> matched_at v rules i"
  by (simp add: matched_at_def)

lemma collect_spans_covers:
  "collect_spans v rules count = Inr cs \<Longrightarrow> (\<exists>c \<in> set cs. covers c i) \<longleftrightarrow> matched_at v rules i"
proof (induction rules arbitrary: count cs)
  case (Cons rule rules)
  show ?case
  proof (cases "rr_Enabled rule")
    case False
    with Cons show ?thesis by (simp add: matched_at_Cons)
  next
    case True
    define ms where "ms = FindAllStringIndex (rr_Pattern rule) v (maxSemanticRedactionMatches + 1)"
    obtain spans where s: "collect_spans v rules (count + length ms) = Inr spans"
        "cs = map (\<lambda>(a, b). \<lparr>sp_start = a, sp_end = b, sp_replacement = rr_Replacement rule, sp_matchWidth = b - a\<rparr>) ms @ spans"
      using Cons.prems True by (auto simp: Let_def ms_def [symmetric] simp del: One_nat_def split: if_splits sum.splits)
    have "(\<exists>c \<in> set cs. covers c i) \<longleftrightarrow> (\<exists>(a, b) \<in> set ms. a \<le> i \<and> i < b) \<or> (\<exists>c \<in> set spans. covers c i)"
      unfolding s(2) set_append bex_Un by (auto simp: split_beta)
    with Cons.IH [OF s(1)] True show ?thesis by (simp add: matched_at_Cons ms_def)
  qed
qed (simp add: matched_at_def)

text \<open>Merging a list sorted by start keeps the covered positions and separates the spans.\<close>

definition separated :: "redactionSpan list \<Rightarrow> bool" where
  "separated sps \<longleftrightarrow> sorted_wrt (\<lambda>a b. sp_end a \<le> sp_start b) sps"

lemma merge_spans_covers:
  assumes "sorted (map sp_start (cur # cs))"
  shows "(\<exists>sp \<in> set (merge_spans cur cs). covers sp i) \<longleftrightarrow> (\<exists>sp \<in> set (cur # cs). covers sp i)"
  using assms
proof (induction cur cs rule: merge_spans.induct)
  case (2 cur c cs)
  then show ?case
    by (cases "sp_end cur \<le> sp_start c") (auto simp: Let_def max_def)
qed simp

lemma merge_spans_start: "sorted (map sp_start (cur # cs)) \<Longrightarrow> sp \<in> set (merge_spans cur cs) \<Longrightarrow> sp_start cur \<le> sp_start sp"
proof (induction cur cs rule: merge_spans.induct)
  case (2 cur c cs)
  then show ?case by (cases "sp_end cur \<le> sp_start c") (fastforce simp: Let_def split: if_splits)+
qed simp

lemma merge_spans_separated: "sorted (map sp_start (cur # cs)) \<Longrightarrow> separated (merge_spans cur cs)"
proof (induction cur cs rule: merge_spans.induct)
  case (2 cur c cs)
  show ?case
  proof (cases "sp_end cur \<le> sp_start c")
    case True
    have srt: "sorted (map sp_start (c # cs))" using "2.prems" by simp
    have "\<forall>sp \<in> set (merge_spans c cs). sp_end cur \<le> sp_start sp"
      using merge_spans_start [OF srt] True order_trans by blast
    with 2(1) [OF True srt] True show ?thesis by (simp add: separated_def)
  next
    case False
    with 2(2) [OF False refl] "2.prems" show ?thesis by (simp add: Let_def)
  qed
qed (simp add: separated_def)

lemma sort_spans: "sorted (map sp_start (sort_spans cs))" "set (sort_spans cs) = set cs"
  by (simp_all add: sort_spans_def)

lemma aggregate_spec:
  assumes "aggregateRedactionSpans v rules = Inr (spans, found)"
  shows "separated spans" and "(\<exists>sp \<in> set spans. covers sp i) \<longleftrightarrow> matched_at v rules i"
proof -
  obtain cs where cs: "collect_spans v rules 0 = Inr cs"
      "spans = (case sort_spans cs of [] \<Rightarrow> [] | c # cs \<Rightarrow> merge_spans c cs)"
    using assms by (auto simp: aggregateRedactionSpans_def split: sum.splits)
  show "separated spans"
  proof (cases "sort_spans cs")
    case (Cons c rest)
    then have "sorted (map sp_start (c # rest))" using sort_spans(1) [of cs] by (simp only:)
    from merge_spans_separated [OF this] show ?thesis by (simp add: cs(2) Cons)
  qed (simp add: cs(2) separated_def)
  have "(\<exists>sp \<in> set spans. covers sp i) \<longleftrightarrow> (\<exists>sp \<in> set cs. covers sp i)"
  proof (cases "sort_spans cs")
    case (Cons c rest)
    have "sorted (map sp_start (c # rest))" "set cs = set (c # rest)" using sort_spans [of cs] Cons by simp_all
    with merge_spans_covers [of c rest i] show ?thesis by (simp only: cs(2) Cons list.case)
  qed (use sort_spans(2) [of cs] cs(2) in auto)
  then show "(\<exists>sp \<in> set spans. covers sp i) \<longleftrightarrow> matched_at v rules i"
    by (simp add: collect_spans_covers [OF cs(1)])
qed

text \<open>
  What a span should be, from the matches of the rules alone: inside it every cut would go through a
  match, no match leaves it, and its placeholder is that of a widest match in it. Matches that only
  touch are therefore blocks of their own.
\<close>

definition rule_matches :: "string \<Rightarrow> RedactionRule list \<Rightarrow> (nat \<times> nat \<times> string) set" where
  "rule_matches v rules =
     {(a, b, rep). \<exists>rule \<in> set rules. rr_Enabled rule \<and> rep = rr_Replacement rule \<and>
        (a, b) \<in> set (FindAllStringIndex (rr_Pattern rule) v (maxSemanticRedactionMatches + 1))}"

definition overlap_block :: "(nat \<times> nat \<times> string) set \<Rightarrow> redactionSpan \<Rightarrow> bool" where
  "overlap_block M sp \<longleftrightarrow>
     (\<forall>i. sp_start sp < i \<and> i < sp_end sp \<longrightarrow> (\<exists>(a, b, rep) \<in> M. a < i \<and> i < b)) \<and>
     (\<forall>(a, b, rep) \<in> M. a < b \<and> a < sp_end sp \<and> sp_start sp < b \<longrightarrow> sp_start sp \<le> a \<and> b \<le> sp_end sp) \<and>
     (\<exists>(a, b, rep) \<in> M. sp_start sp \<le> a \<and> b \<le> sp_end sp \<and> rep = sp_replacement sp \<and>
        (\<forall>(a', b', rep') \<in> M. sp_start sp \<le> a' \<and> b' \<le> sp_end sp \<longrightarrow> b' - a' \<le> b - a))"

definition span_of :: "nat \<times> nat \<times> string \<Rightarrow> redactionSpan" where
  "span_of m = (case m of (a, b, rep) \<Rightarrow> \<lparr>sp_start = a, sp_end = b, sp_replacement = rep, sp_matchWidth = b - a\<rparr>)"

lemma collect_spans_set: "collect_spans v rules count = Inr cs \<Longrightarrow> set cs = span_of ` rule_matches v rules"
proof (induction rules arbitrary: count cs)
  case (Cons rule rules)
  define ms where "ms = FindAllStringIndex (rr_Pattern rule) v (maxSemanticRedactionMatches + 1)"
  have M: "rule_matches v (rule # rules) =
      (if rr_Enabled rule then (\<lambda>(a, b). (a, b, rr_Replacement rule)) ` set ms else {}) \<union> rule_matches v rules"
    by (auto simp: rule_matches_def ms_def)
  show ?case
  proof (cases "rr_Enabled rule")
    case True
    obtain spans where s: "collect_spans v rules (count + length ms) = Inr spans"
        "cs = map (\<lambda>(a, b). \<lparr>sp_start = a, sp_end = b, sp_replacement = rr_Replacement rule, sp_matchWidth = b - a\<rparr>) ms @ spans"
      using Cons.prems True by (auto simp: Let_def ms_def [symmetric] simp del: One_nat_def split: if_splits sum.splits)
    with Cons.IH [OF s(1)] True show ?thesis by (simp add: M image_Un image_image span_of_def split_beta)
  qed (use Cons M in simp)
qed (simp add: rule_matches_def)

definition block_ok :: "redactionSpan set \<Rightarrow> redactionSpan \<Rightarrow> bool" where
  "block_ok C s \<longleftrightarrow>
     (\<forall>i. sp_start s < i \<and> i < sp_end s \<longrightarrow> (\<exists>c \<in> C. sp_start c < i \<and> i < sp_end c)) \<and>
     (\<exists>c \<in> C. sp_start s \<le> sp_start c \<and> sp_end c \<le> sp_end s \<and> sp_replacement c = sp_replacement s \<and> sp_matchWidth c = sp_matchWidth s)"

definition fits_in :: "redactionSpan \<Rightarrow> redactionSpan \<Rightarrow> bool" where
  "fits_in c s \<longleftrightarrow> sp_start s \<le> sp_start c \<and> sp_end c \<le> sp_end s \<and> sp_matchWidth c \<le> sp_matchWidth s"

lemma merge_blocks:
  assumes "sorted (map sp_start (cur # cs))" and "set cs \<subseteq> C" and "block_ok C cur"
  shows "(\<forall>s \<in> set (merge_spans cur cs). block_ok C s) \<and>
    (\<forall>c. c \<in> set cs \<or> fits_in c cur \<longrightarrow> (\<exists>s \<in> set (merge_spans cur cs). fits_in c s))"
  using assms
proof (induction cur cs rule: merge_spans.induct)
  case (2 cur c cs)
  have srt: "sorted (map sp_start (c # cs))" "sp_start cur \<le> sp_start c" "sorted (map sp_start (cur # cs))"
    and c: "c \<in> C" "set cs \<subseteq> C" using "2.prems" by auto
  show ?case
  proof (cases "sp_end cur \<le> sp_start c")
    case True
    have "block_ok C c" using c(1) by (auto simp: block_ok_def)
    moreover have "fits_in c c" by (simp add: fits_in_def)
    ultimately show ?thesis using 2(1) [OF True srt(1) c(2)] True "2.prems"(3) by auto
  next
    case False
    define cur1 where "cur1 = cur\<lparr>sp_end := max (sp_end cur) (sp_end c)\<rparr>"
    define cur' where "cur' = (if sp_matchWidth c > sp_matchWidth cur1
        then cur1\<lparr>sp_replacement := sp_replacement c, sp_matchWidth := sp_matchWidth c\<rparr> else cur1)"
    have s: "sp_start cur' = sp_start cur" "sp_end cur' = max (sp_end cur) (sp_end c)" by (simp_all add: cur'_def cur1_def)
    have "block_ok C cur'"
      unfolding block_ok_def
    proof (intro conjI allI impI)
      fix i assume "sp_start cur' < i \<and> i < sp_end cur'"
      then consider "sp_start cur < i \<and> i < sp_end cur" | "sp_start c < i \<and> i < sp_end c" using False s by fastforce
      then show "\<exists>x \<in> C. sp_start x < i \<and> i < sp_end x" using "2.prems"(3) c(1) by cases (auto simp: block_ok_def)
    next
      show "\<exists>x \<in> C. sp_start cur' \<le> sp_start x \<and> sp_end x \<le> sp_end cur' \<and> sp_replacement x = sp_replacement cur' \<and> sp_matchWidth x = sp_matchWidth cur'"
        using "2.prems"(3) c(1) srt(2) unfolding s by (fastforce simp: block_ok_def cur'_def cur1_def)
    qed
    moreover have "fits_in x cur'" if "x = c \<or> fits_in x cur" for x
      using that srt(2) by (auto simp: fits_in_def cur'_def cur1_def)
    moreover have "sorted (map sp_start (cur' # cs))" using srt(3) s by simp
    ultimately show ?thesis
      using 2(2) [OF False cur1_def] False c(2) by (auto simp: Let_def cur'_def [symmetric] cur1_def [symmetric])
  qed
qed auto

lemma separated_apart:
  "separated sps \<Longrightarrow> s \<in> set sps \<Longrightarrow> s' \<in> set sps \<Longrightarrow> s = s' \<or> sp_end s \<le> sp_start s' \<or> sp_end s' \<le> sp_start s"
  by (induction sps) (auto simp: separated_def)

lemma aggregate_blocks:
  assumes "aggregateRedactionSpans v rules = Inr (spans, found)"
  shows "\<forall>sp \<in> set spans. overlap_block (rule_matches v rules) sp"
proof
  fix sp assume sp: "sp \<in> set spans"
  let ?M = "rule_matches v rules"
  obtain cs where cs: "collect_spans v rules 0 = Inr cs"
      "spans = (case sort_spans cs of [] \<Rightarrow> [] | c # cs \<Rightarrow> merge_spans c cs)"
    using assms by (auto simp: aggregateRedactionSpans_def split: sum.splits)
  obtain c rest where s: "sort_spans cs = c # rest" using sp cs(2) by (cases "sort_spans cs") auto
  have C: "set (c # rest) = span_of ` ?M" "sorted (map sp_start (c # rest))"
    using sort_spans [of cs] s collect_spans_set [OF cs(1)] by simp_all
  have "block_ok (set (c # rest)) c" by (auto simp: block_ok_def)
  from merge_blocks [OF C(2) _ this]
  have m: "\<forall>s \<in> set spans. block_ok (span_of ` ?M) s" "\<forall>x \<in> span_of ` ?M. \<exists>s \<in> set spans. fits_in x s"
    unfolding C(1) [symmetric] cs(2) s by (auto simp: fits_in_def)
  have own: "fits_in x sp" if x: "x \<in> span_of ` ?M" "sp_start x < sp_end x" "sp_start x < sp_end sp" "sp_start sp < sp_end x" for x
  proof -
    obtain s' where s': "s' \<in> set spans" "fits_in x s'" using bspec [OF m(2) x(1)] by (elim bexE)
    have "s' = sp"
    proof (rule ccontr)
      assume "s' \<noteq> sp"
      then have "sp_end s' \<le> sp_start sp \<or> sp_end sp \<le> sp_start s'"
        using separated_apart [OF aggregate_spec(1) [OF assms] s'(1) sp] by blast
      with s'(2) x(2-4) show False by (auto simp: fits_in_def)
    qed
    with s'(2) show ?thesis by simp
  qed
  show "overlap_block ?M sp"
    unfolding overlap_block_def
  proof (intro conjI)
    show "\<forall>i. sp_start sp < i \<and> i < sp_end sp \<longrightarrow> (\<exists>(a, b, rep) \<in> ?M. a < i \<and> i < b)"
      using m(1) sp by (fastforce simp: block_ok_def span_of_def)
    show "\<forall>(a, b, rep) \<in> ?M. a < b \<and> a < sp_end sp \<and> sp_start sp < b \<longrightarrow> sp_start sp \<le> a \<and> b \<le> sp_end sp"
      using own by (force simp: fits_in_def span_of_def)
    obtain a b rep where w: "(a, b, rep) \<in> ?M" "sp_start sp \<le> a" "b \<le> sp_end sp" "rep = sp_replacement sp" "b - a = sp_matchWidth sp"
      using m(1) sp by (fastforce simp: block_ok_def span_of_def)
    have "b' - a' \<le> b - a" if "(a', b', rep') \<in> ?M" "sp_start sp \<le> a'" "b' \<le> sp_end sp" for a' b' rep'
    proof (cases "a' < b'")
      case True
      have "fits_in (span_of (a', b', rep')) sp" by (rule own [OF imageI [OF that(1)]]) (use True that(2,3) in \<open>auto simp: span_of_def\<close>)
      with w(5) show ?thesis by (simp add: fits_in_def span_of_def)
    qed simp
    with w(2-4) show "\<exists>(a, b, rep) \<in> ?M. sp_start sp \<le> a \<and> b \<le> sp_end sp \<and> rep = sp_replacement sp \<and>
        (\<forall>(a', b', rep') \<in> ?M. sp_start sp \<le> a' \<and> b' \<le> sp_end sp \<longrightarrow> b' - a' \<le> b - a)"
      by (intro bexI [OF _ w(1)]) auto
  qed
qed

text \<open>What each byte of a part becomes.\<close>

definition redacted_byte :: "string \<Rightarrow> nat \<Rightarrow> redactionSpan list \<Rightarrow> nat \<Rightarrow> string" where
  "redacted_byte text gs spans i =
     (case find (\<lambda>sp. covers sp (gs + i)) spans of
        None \<Rightarrow> [text ! i]
      | Some sp \<Rightarrow> if gs + i = max gs (sp_start sp) then sp_replacement sp else [])"

lemma concat_map_cong: "(\<And>i. i \<in> set xs \<Longrightarrow> f i = g i) \<Longrightarrow> concat (map f xs) = concat (map g xs)"
  by (induction xs) auto

lemma concat_first:
  assumes "a < b" "f a = r" "\<And>i. a < i \<Longrightarrow> i < b \<Longrightarrow> f i = []"
  shows "concat (map f [a..<b]) = (r :: 'b list)"
proof -
  have "concat (map f [Suc a..<b]) = concat (map (\<lambda>_. []) [Suc a..<b])" by (rule concat_map_cong) (use assms(3) in auto)
  then show ?thesis using assms(1,2) by (simp add: upt_conv_Cons)
qed

lemma concat_singletons: "a \<le> b \<Longrightarrow> b \<le> length xs \<Longrightarrow> concat (map (\<lambda>i. [xs ! i]) [a..<b]) = take (b - a) (drop a xs)"
  by (rule nth_equalityI) (auto simp: concat_map_singleton)

lemma redact_loop_reference:
  assumes "separated spans" and "gs \<le> cursor" and "cursor \<le> gs + length text"
    and "\<forall>sp \<in> set spans. cursor \<le> max gs (sp_start sp)"
  shows "redact_loop text gs (gs + length text) spans cursor =
         concat (map (redacted_byte text gs spans) [cursor - gs..<length text])"
  using assms
proof (induction spans arbitrary: cursor)
  case Nil
  then show ?case using concat_singletons [of "cursor - gs" "length text" "text"] by (simp add: redacted_byte_def)
next
  case (Cons sp sps)
  let ?ge = "gs + length text"
  define start stop where "start = max gs (sp_start sp)" and "stop = min ?ge (sp_end sp)"
  have sep: "separated sps" and later: "\<And>x. x \<in> set sps \<Longrightarrow> sp_end sp \<le> sp_start x"
    using Cons.prems(1) by (simp_all add: separated_def)
  show ?case
  proof (cases "stop \<le> start")
    case True
    have "redacted_byte text gs (sp # sps) i = redacted_byte text gs sps i" if "i < length text" for i
      using True that by (auto simp: redacted_byte_def start_def stop_def)
    then have "concat (map (redacted_byte text gs (sp # sps)) [cursor - gs..<length text])
        = concat (map (redacted_byte text gs sps) [cursor - gs..<length text])" by (intro concat_map_cong) auto
    with Cons.IH [OF sep Cons.prems(2,3)] Cons.prems(4) True show ?thesis by (simp add: Let_def start_def stop_def)
  next
    case False
    have ord: "cursor \<le> start" "start < stop" "stop \<le> ?ge" "gs \<le> cursor" "gs \<le> start" "stop \<le> sp_end sp"
      using False Cons.prems by (auto simp: start_def stop_def)
    let ?f = "redacted_byte text gs (sp # sps)"
    have a: "?f i = [text ! i]" if "i < start - gs" "cursor - gs \<le> i" for i
    proof -
      have "\<not> covers x (gs + i)" if "x \<in> set (sp # sps)" for x
        using that later [of x] \<open>i < start - gs\<close> ord by (auto simp: start_def max_def split: if_splits)
      then have "find (\<lambda>x. covers x (gs + i)) (sp # sps) = None" by (auto simp: find_None_iff)
      then show ?thesis by (simp add: redacted_byte_def)
    qed
    have b: "?f i = (if i = start - gs then sp_replacement sp else [])" if "start - gs \<le> i" "i < stop - gs" for i
      using that ord by (auto simp: redacted_byte_def start_def stop_def)
    have c: "?f i = redacted_byte text gs sps i" if "stop - gs \<le> i" "i < length text" for i
      using that ord by (auto simp: redacted_byte_def stop_def)
    have split: "[cursor - gs..<length text] = [cursor - gs..<start - gs] @ [start - gs..<stop - gs] @ [stop - gs..<length text]"
      using ord by (metis diff_le_mono le_add_diff_inverse less_imp_le_nat upt_add_eq_append diff_add_inverse le_trans)
    have "concat (map ?f [cursor - gs..<start - gs]) = concat (map (\<lambda>i. [text ! i]) [cursor - gs..<start - gs])"
      by (rule concat_map_cong) (use a in auto)
    also have "\<dots> = take (start - cursor) (drop (cursor - gs) text)"
      using ord by (subst concat_singletons) (auto simp: diff_le_mono)
    finally have A: "concat (map ?f [cursor - gs..<start - gs]) = take (start - cursor) (drop (cursor - gs) text)" .
    have B: "concat (map ?f [start - gs..<stop - gs]) = sp_replacement sp"
      using ord b by (intro concat_first) auto
    have C: "concat (map ?f [stop - gs..<length text]) = concat (map (redacted_byte text gs sps) [stop - gs..<length text])"
      by (rule concat_map_cong) (use c in auto)
    have "\<forall>x \<in> set sps. stop \<le> max gs (sp_start x)" using later ord by fastforce
    then have D: "redact_loop text gs ?ge sps stop = concat (map (redacted_byte text gs sps) [stop - gs..<length text])"
      using sep ord by (intro Cons.IH) auto
    show ?thesis
      using False by (simp add: split A B C D Let_def start_def [symmetric] stop_def [symmetric])
  qed
qed

lemma redact_untouched:
  "redact_length gs ge spans n t = Some (m, False) \<Longrightarrow> redact_loop text gs ge spans c = drop (c - gs) text \<and> \<not> t"
  by (induction spans arbitrary: n t) (auto simp: Let_def split: if_splits)

lemma redactTextPart_reference:
  assumes "separated spans" and "redactTextPart text gs spans = Inr out"
  shows "out = concat (map (redacted_byte text gs spans) [0..<length text])"
proof -
  have "out = redact_loop text gs (gs + length text) spans gs"
    using assms(2) redact_untouched [of gs "gs + length text" spans _ False _ "text" gs]
    by (auto simp: redactTextPart_def Let_def split: option.splits if_splits)
  with redact_loop_reference [OF assms(1), of gs gs "text"] show ?thesis by simp
qed

text \<open>
  C27. Redaction removes exactly what the rules match: in a text that is split into parts, a byte of
  the output of a part is a byte of the part that no enabled rule matches in the joined text, every
  such byte is kept in order, and the matched bytes fall into separated blocks, each of which gives one
  placeholder in a part it reaches into. A block is what overlapping matches connect: every cut inside
  it goes through a match, no match leaves it, and its placeholder is that of a widest match in it;
  matches that only touch are blocks of their own.
\<close>
theorem redaction_equals_reference:
  assumes "aggregateRedactionSpans joined rules = Inr (spans, found)"
    and "redactTextPart text gs spans = Inr out"
  shows "separated spans \<and> (\<forall>sp \<in> set spans. overlap_block (rule_matches joined rules) sp)
         \<and> out = concat (map (redacted_byte text gs spans) [0..<length text])
         \<and> (\<forall>i < length text. if matched_at joined rules (gs + i)
              then \<exists>sp \<in> set spans. covers sp (gs + i)
                     \<and> redacted_byte text gs spans i = (if gs + i = max gs (sp_start sp) then sp_replacement sp else [])
              else redacted_byte text gs spans i = [text ! i])"
proof (intro conjI allI impI)
  show "separated spans" "\<forall>sp \<in> set spans. overlap_block (rule_matches joined rules) sp"
    by (rule aggregate_spec(1) [OF assms(1)], rule aggregate_blocks [OF assms(1)])
  show "out = concat (map (redacted_byte text gs spans) [0..<length text])"
    by (rule redactTextPart_reference [OF aggregate_spec(1) [OF assms(1)] assms(2)])
  fix i assume "i < length text"
  have m: "matched_at joined rules (gs + i) \<longleftrightarrow> (\<exists>sp \<in> set spans. covers sp (gs + i))"
    using aggregate_spec(2) [OF assms(1)] by simp
  show "if matched_at joined rules (gs + i)
        then \<exists>sp \<in> set spans. covers sp (gs + i)
               \<and> redacted_byte text gs spans i = (if gs + i = max gs (sp_start sp) then sp_replacement sp else [])
        else redacted_byte text gs spans i = [text ! i]"
  proof (cases "find (\<lambda>sp. covers sp (gs + i)) spans")
    case None
    then have "\<not> matched_at joined rules (gs + i)" using m by (auto simp: find_None_iff)
    with None show ?thesis by (simp add: redacted_byte_def)
  next
    case (Some sp)
    then have "sp \<in> set spans" "covers sp (gs + i)" by (auto simp: find_Some_iff in_set_conv_nth)
    with m have "matched_at joined rules (gs + i)" by blast
    with Some \<open>sp \<in> set spans\<close> \<open>covers sp (gs + i)\<close> show ?thesis by (auto simp: redacted_byte_def)
  qed
qed

definition ssn_rule :: RedactionRule where
  "ssn_rule = \<lparr>rr_Name = ''ssn'', rr_Pattern = ssn_pattern, rr_Replacement = ''[SSN_REDACTED]'', rr_Enabled = True\<rparr>"

lemmas rx_eval = rx_ends.simps(6) find_all.simps rx_at_def byte_before_def rx_char_def rx_opt_def rx_times_def rx_from_def
  rx_digits_def digit_def in_range_def byte_val_def is_word_def rune_len_def MatchString_def FindAllStringIndex_def

lemma example_spans:
  "aggregateRedactionSpans ''a123-45-6789'' [ssn_rule] =
     Inr ([\<lparr>sp_start = 1, sp_end = 12, sp_replacement = ''[SSN_REDACTED]'', sp_matchWidth = 11\<rparr>], True)"
proof -
  have "FindAllStringIndex ssn_pattern ''a123-45-6789'' 1025 = [(1, 12)]"
    by (simp add: rx_eval ssn_pattern_def numeral_eq_Suc)
  moreover have "\<not> MatchString ssn_pattern []" by (simp add: rx_eval ssn_pattern_def numeral_eq_Suc)
  ultimately show ?thesis
    by (simp add: aggregateRedactionSpans_def ssn_rule_def maxSemanticRedactionMatches_def maxSemanticJSONStringBytes_def
        sort_spans_def)
qed

theorem redaction_equals_reference_witness:
  "redactTextPart ''a123-'' 0 [\<lparr>sp_start = 1, sp_end = 12, sp_replacement = ''[SSN_REDACTED]'', sp_matchWidth = 11\<rparr>]
     = Inr ''a[SSN_REDACTED]''
   \<and> \<not> matched_at ''a123-45-6789'' [ssn_rule] 0"
proof -
  have r: "redactTextPart ''a123-'' 0 [\<lparr>sp_start = 1, sp_end = 12, sp_replacement = ''[SSN_REDACTED]'', sp_matchWidth = 11\<rparr>]
     = Inr ''a[SSN_REDACTED]''"
    by (simp add: redactTextPart_def Let_def maxSemanticJSONStringBytes_def)
  from redaction_equals_reference [OF example_spans this] have
    "if matched_at ''a123-45-6789'' [ssn_rule] (0 + 0) then \<exists>sp \<in> set [\<lparr>sp_start = 1, sp_end = 12, sp_replacement = ''[SSN_REDACTED]'',
        sp_matchWidth = 11\<rparr>]. covers sp (0 + 0) else True" by (auto split: if_splits)
  with r show ?thesis by (auto split: if_splits)
qed

end
