(* ===== verification/Json_Stream.thy ===== *)
theory Json_Stream
  imports Json_Text
begin

text \<open>
  The streaming side of Go's \<open>encoding/json\<close>, as \<open>internal/middleware/redaction.go\<close> uses it: a
  decoder over a byte slice with \<open>Token\<close>, \<open>More\<close> and \<open>Decode\<close> into a raw message. The state is the
  text that is left, what may come next and the enclosing states, as in the library.
\<close>

section \<open>The decoder\<close>

datatype token_state =
    tokenTopValue | tokenArrayStart | tokenArrayValue | tokenArrayComma | tokenObjectStart | tokenObjectKey
  | tokenObjectColon | tokenObjectValue | tokenObjectComma

record decoder =
  d_rest :: bytes
  d_state :: token_state
  d_stack :: "token_state list"

definition NewDecoder :: "bytes \<Rightarrow> decoder" where
  "NewDecoder b = \<lparr>d_rest = b, d_state = tokenTopValue, d_stack = []\<rparr>"

datatype json_token = Delim char | TokString string | TokNumber string | TokBool bool | TokNull

datatype token_result = TokenError | TokenEOF | GotToken json_token

definition tokenValueAllowed :: "token_state \<Rightarrow> bool" where
  "tokenValueAllowed st \<longleftrightarrow> st \<in> set [tokenTopValue, tokenArrayStart, tokenArrayValue, tokenObjectValue]"

definition tokenValueEnd :: "token_state \<Rightarrow> token_state" where
  "tokenValueEnd st =
     (if st = tokenArrayStart \<or> st = tokenArrayValue then tokenArrayComma
      else if st = tokenObjectValue then tokenObjectComma else st)"

definition skip_space :: "bytes \<Rightarrow> bytes" where
  "skip_space = dropWhile is_space"

text \<open>A scalar at the front of the text, with the text behind it.\<close>

definition lex_scalar :: "bytes \<Rightarrow> (json_token \<times> bytes) option" where
  "lex_scalar s =
     (case lex_token s of
        Some (TStr x, t) \<Rightarrow> Some (TokString x, t)
      | Some (TNum n, t) \<Rightarrow> Some (TokNumber n, t)
      | Some (TTrue, t) \<Rightarrow> Some (TokBool True, t)
      | Some (TFalse, t) \<Rightarrow> Some (TokBool False, t)
      | Some (TNull, t) \<Rightarrow> Some (TokNull, t)
      | _ \<Rightarrow> None)"

definition pop_state :: "decoder \<Rightarrow> decoder" where
  "pop_state d = d\<lparr>d_state := tokenValueEnd (hd (d_stack d)), d_stack := tl (d_stack d)\<rparr>"

definition push_state :: "token_state \<Rightarrow> decoder \<Rightarrow> decoder" where
  "push_state st d = d\<lparr>d_state := st, d_stack := d_state d # d_stack d\<rparr>"

definition scalar_token :: "decoder \<Rightarrow> token_result \<times> decoder" where
  "scalar_token d =
     (if \<not> tokenValueAllowed (d_state d) then (TokenError, d)
      else case lex_scalar (d_rest d) of
             None \<Rightarrow> (TokenError, d)
           | Some (k, t) \<Rightarrow> (GotToken k, d\<lparr>d_rest := t, d_state := tokenValueEnd (d_state d)\<rparr>))"

lemma length_skip_space: "length (skip_space s) \<le> length s"
  by (simp add: skip_space_def length_dropWhile_le)

function dec_Token :: "decoder \<Rightarrow> token_result \<times> decoder" where
  "dec_Token d0 =
     (let d = d0\<lparr>d_rest := skip_space (d_rest d0)\<rparr>
      in case d_rest d of
           [] \<Rightarrow> (TokenEOF, d)
         | c # t \<Rightarrow>
             let e = d\<lparr>d_rest := t\<rparr>
             in if c = CHR ''['' then
                  (if \<not> tokenValueAllowed (d_state d) then (TokenError, d)
                   else (GotToken (Delim c), push_state tokenArrayStart e))
                else if c = CHR '']'' then
                  (if d_state d \<noteq> tokenArrayStart \<and> d_state d \<noteq> tokenArrayComma then (TokenError, d)
                   else (GotToken (Delim c), pop_state e))
                else if c = CHR 0x7B then
                  (if \<not> tokenValueAllowed (d_state d) then (TokenError, d)
                   else (GotToken (Delim c), push_state tokenObjectStart e))
                else if c = CHR 0x7D then
                  (if d_state d \<noteq> tokenObjectStart \<and> d_state d \<noteq> tokenObjectComma then (TokenError, d)
                   else (GotToken (Delim c), pop_state e))
                else if c = CHR '':'' then
                  (if d_state d \<noteq> tokenObjectColon then (TokenError, d)
                   else dec_Token (e\<lparr>d_state := tokenObjectValue\<rparr>))
                else if c = CHR '','' then
                  (if d_state d = tokenArrayComma then dec_Token (e\<lparr>d_state := tokenArrayValue\<rparr>)
                   else if d_state d = tokenObjectComma then dec_Token (e\<lparr>d_state := tokenObjectKey\<rparr>)
                   else (TokenError, d))
                else if c = dquote \<and> (d_state d = tokenObjectStart \<or> d_state d = tokenObjectKey) then
                  (case lex_string t of
                     None \<Rightarrow> (TokenError, d)
                   | Some (k, u) \<Rightarrow> (GotToken (TokString k), d\<lparr>d_rest := u, d_state := tokenObjectColon\<rparr>))
                else scalar_token d)"
  by pat_completeness auto
termination
proof -
  have "length t < length s" if "skip_space s = c # t" for s c t
    using length_skip_space [of s] that by simp
  then show ?thesis by (relation "measure (\<lambda>d. length (d_rest d))") auto
qed

declare dec_Token.simps [simp del]

definition dec_More :: "decoder \<Rightarrow> bool" where
  "dec_More d =
     (case skip_space (d_rest d) of [] \<Rightarrow> False | c # _ \<Rightarrow> c \<noteq> CHR '']'' \<and> c \<noteq> CHR 0x7D)"

text \<open>The scanner over one value: the text behind it, when the text starts with a well-formed value.\<close>

function scan_value :: "mode \<times> frame list \<Rightarrow> bytes \<Rightarrow> bytes option" where
  "scan_value st s =
     (case lex_token (skip_space s) of
        None \<Rightarrow> None
      | Some (k, t) \<Rightarrow>
          (case parse_step k st of
             None \<Rightarrow> None
           | Some st' \<Rightarrow> (case st' of (MAfter v, []) \<Rightarrow> Some t | _ \<Rightarrow> scan_value st' t)))"
  by pat_completeness auto
termination
proof -
  have "length t < length s" if "lex_token (skip_space s) = Some (k, t)" for s k t
    using lex_token_shorter [OF that] length_skip_space [of s] by simp
  then show ?thesis by (relation "measure (\<lambda>(st, s). length s)") auto
qed

declare scan_value.simps [simp del]

text \<open>
  \<open>Decode\<close> into a \<open>json.RawMessage\<close> inside an array: the comma in front of the element, then the exact
  text of the element.
\<close>

definition decode_value :: "decoder \<Rightarrow> bytes option \<times> decoder" where
  "decode_value d =
     (if \<not> tokenValueAllowed (d_state d) then (None, d)
      else let s = skip_space (d_rest d)
           in case scan_value (MVal, []) s of
                None \<Rightarrow> (None, d)
              | Some t \<Rightarrow> (Some (take (length s - length t) s), d\<lparr>d_rest := t, d_state := tokenValueEnd (d_state d)\<rparr>))"

definition dec_Decode :: "decoder \<Rightarrow> bytes option \<times> decoder" where
  "dec_Decode d =
     (if d_state d = tokenArrayComma
      then (case skip_space (d_rest d) of
              [] \<Rightarrow> (None, d)
            | c # t \<Rightarrow> if c = CHR '','' then decode_value (d\<lparr>d_rest := t, d_state := tokenArrayValue\<rparr>) else (None, d))
      else decode_value d)"

section \<open>Progress\<close>

lemma lex_scalar_shorter: "lex_scalar s = Some (k, t) \<Longrightarrow> length t < length s"
  by (auto simp: lex_scalar_def dest: lex_token_shorter split: option.splits token.splits)

lemma dec_Token_shorter: "dec_Token d = (GotToken k, d') \<Longrightarrow> length (d_rest d') < length (d_rest d)"
proof (induction d arbitrary: k d' rule: dec_Token.induct)
  case (1 d)
  let ?s = "skip_space (d_rest d)"
  show ?case
  proof (cases ?s)
    case Nil
    with "1.prems" show ?thesis by (simp add: dec_Token.simps [of d])
  next
    case (Cons c t)
    have len: "length t < length (d_rest d)" using length_skip_space [of "d_rest d"] Cons by simp
    have sc: "length (d_rest d') < length (d_rest d)" if "scalar_token (d\<lparr>d_rest := c # t\<rparr>) = (GotToken k, d')"
      using that len by (auto simp: scalar_token_def dest!: lex_scalar_shorter split: if_splits option.splits)
    have st: "length u < length (d_rest d)" if "lex_string t = Some (x, u)" for x u
      using lex_string_shorter [OF that] len by simp
    show ?thesis
      using "1.prems" Cons len sc st "1.IH" [of "d\<lparr>d_rest := ?s\<rparr>" c t]
      by (subst (asm) dec_Token.simps) (fastforce simp: Let_def push_state_def pop_state_def split: if_splits option.splits)
  qed
qed

lemma scan_value_shorter: "scan_value st s = Some t \<Longrightarrow> length t < length s"
proof (induction "length s" arbitrary: st s rule: less_induct)
  case less
  have l: "length u < length s" if "lex_token (skip_space s) = Some (k, u)" for k u
    using lex_token_shorter [OF that] length_skip_space [of s] by simp
  obtain k u st' where s: "lex_token (skip_space s) = Some (k, u)" "parse_step k st = Some st'"
    using less.prems by (subst (asm) scan_value.simps) (simp split: option.splits prod.splits)
  have "(case st' of (MAfter v, []) \<Rightarrow> Some u | _ \<Rightarrow> scan_value st' u) = Some t"
    using less.prems s by (subst (asm) scan_value.simps) (simp only: option.case prod.case)
  then have "t = u \<or> scan_value st' u = Some t"
    by (simp split: prod.splits mode.splits list.splits)
  with less.hyps [OF l [OF s(1)]] l [OF s(1)] show ?case by fastforce
qed

lemma decode_value_shorter: "decode_value d = (Some raw, d') \<Longrightarrow> length (d_rest d') < length (d_rest d)"
  using length_skip_space [of "d_rest d"]
  by (fastforce simp: decode_value_def Let_def dest: scan_value_shorter split: if_splits option.splits)

lemma dec_Decode_shorter: "dec_Decode d = (Some raw, d') \<Longrightarrow> length (d_rest d') < length (d_rest d)"
  using length_skip_space [of "d_rest d"]
  by (fastforce simp: dec_Decode_def dest: decode_value_shorter split: if_splits list.splits)

section \<open>Number literals\<close>

text \<open>A number token is a complete literal by itself.\<close>

lemma lex_digits_digits: "lex_digits s = Some (a, r) \<Longrightarrow> a \<noteq> [] \<and> (\<forall>c \<in> set a. is_digit c)"
  by (auto simp: lex_digits_def dest: set_takeWhileD split: if_splits)

definition number_stop :: "string \<Rightarrow> bool" where
  "number_stop t \<longleftrightarrow> t = [] \<or> \<not> is_digit (hd t)"

lemma digits_stop:
  "(\<forall>c \<in> set a. is_digit c) \<Longrightarrow> number_stop t \<Longrightarrow> takeWhile is_digit (a @ t) = a \<and> dropWhile is_digit (a @ t) = t"
  by (cases t) (auto simp: number_stop_def)

lemma lex_digits_again: "lex_digits s = Some (a, r) \<Longrightarrow> number_stop t \<Longrightarrow> lex_digits (a @ t) = Some (a, t)"
  using lex_digits_digits [of s a r] digits_stop [of a t] by (simp add: lex_digits_def)

lemma lex_int_again:
  assumes "lex_int s = Some (a, r)" and "number_stop t"
  shows "lex_int (a @ t) = Some (a, t)"
proof (cases s)
  case (Cons c u)
  have "takeWhile is_digit (takeWhile is_digit u @ t) = takeWhile is_digit u
        \<and> dropWhile is_digit (takeWhile is_digit u @ t) = t"
    by (rule digits_stop [OF _ assms(2)]) (auto dest: set_takeWhileD)
  with assms(1) Cons show ?thesis by (auto simp: lex_int_def split: if_splits)
qed (use assms in \<open>simp add: lex_int_def\<close>)

lemma not_digit_marks: "\<not> is_digit (CHR ''.'')" "\<not> is_digit (CHR ''e'')" "\<not> is_digit (CHR ''E'')" "\<not> is_digit (CHR ''+'')"
  "\<not> is_digit (CHR ''-'')"
  by (simp_all add: is_digit_def in_range_def byte_val_def)

lemma lex_frac_again:
  "lex_frac s = Some (a, r) \<Longrightarrow> t = [] \<or> hd t = CHR ''e'' \<or> hd t = CHR ''E'' \<Longrightarrow>
     lex_frac (a @ t) = Some (a, t) \<and> number_stop (a @ t)"
  using lex_digits_again [of "tl s" "tl a" r t]
  by (auto simp: lex_frac_def number_stop_def not_digit_marks split: list.splits if_splits)

lemma lex_exp_again:
  assumes "lex_exp s = Some (a, r)"
  shows "lex_exp a = Some (a, [])" and "a = [] \<or> hd a = CHR ''e'' \<or> hd a = CHR ''E''"
proof -
  have d: "lex_digits x = Some (x, [])" "x \<noteq> []" "hd x \<noteq> CHR ''+''" "hd x \<noteq> CHR ''-''" if "lex_digits u = Some (x, r)" for u x
  proof -
    show "lex_digits x = Some (x, [])" using lex_digits_again [OF that, of "[]"] by (simp add: number_stop_def)
    have x: "x \<noteq> []" "\<forall>c \<in> set x. is_digit c" using lex_digits_digits [OF that] by auto
    then have "is_digit (hd x)" by simp
    with x(1) not_digit_marks show "x \<noteq> []" "hd x \<noteq> CHR ''+''" "hd x \<noteq> CHR ''-''" by metis+
  qed
  from assms consider "a = []"
    | c d x u where "a = c # d # x" "c = CHR ''e'' \<or> c = CHR ''E''" "d = CHR ''+'' \<or> d = CHR ''-''" "lex_digits u = Some (x, r)"
    | c x u where "a = c # x" "c = CHR ''e'' \<or> c = CHR ''E''" "lex_digits u = Some (x, r)"
    by (auto simp: lex_exp_def split: list.splits if_splits)
  then show "lex_exp a = Some (a, [])"
  proof cases
    case (3 c x u)
    with d [OF 3(3)] show ?thesis by (cases x) (auto simp: lex_exp_def)
  qed (use d in \<open>auto simp: lex_exp_def\<close>)
  show "a = [] \<or> hd a = CHR ''e'' \<or> hd a = CHR ''E''"
    using assms by (auto simp: lex_exp_def split: list.splits if_splits)
qed

lemma lex_int_head: "lex_int s = Some (i, r) \<Longrightarrow> i \<noteq> [] \<and> hd i \<noteq> CHR ''-''"
  using not_digit_marks by (auto simp: lex_int_def split: list.splits if_splits)

lemma lex_num_again:
  assumes "lex_num s = Some (a, r)"
  shows "lex_num a = Some (a, [])"
proof -
  obtain sign s0 where s0: "(case s of c # t \<Rightarrow> if c = CHR ''-'' then ([c], t) else ([], s) | [] \<Rightarrow> ([], s)) = (sign, s0)"
    by (rule prod.exhaust)
  then have sign: "sign = [] \<or> sign = ''-''" by (auto split: list.splits if_splits)
  obtain i s1 f s2 e where n: "lex_int s0 = Some (i, s1)" "lex_frac s1 = Some (f, s2)"
      "lex_exp s2 = Some (e, r)" "a = sign @ i @ f @ e"
    using assms unfolding lex_num_def s0 by (auto split: option.splits)
  note e = lex_exp_again [OF n(3)]
  note f = lex_frac_again [OF n(2) e(2)]
  have i: "lex_int (i @ f @ e) = Some (i, f @ e)" by (rule lex_int_again [OF n(1) f [THEN conjunct2]])
  have a: "(case a of c # t \<Rightarrow> if c = CHR ''-'' then ([c], t) else ([], a) | [] \<Rightarrow> ([], a)) = (sign, i @ f @ e)"
    using sign n(4) lex_int_head [OF n(1)] by (cases i) auto
  show ?thesis unfolding lex_num_def a using i f e(1) n(4) by simp
qed

lemma lex_scalar_number: "lex_scalar s = Some (TokNumber n, t) \<Longrightarrow> lex_num n = Some (n, [])"
  by (auto simp: lex_scalar_def lex_token_def lex_word_def punctuation_def dest: lex_num_again
      split: option.splits token.splits list.splits if_splits)

lemma dec_Token_number: "dec_Token d = (GotToken (TokNumber n), d') \<Longrightarrow> lex_num n = Some (n, [])"
proof (induction d arbitrary: d' rule: dec_Token.induct)
  case (1 d)
  let ?s = "skip_space (d_rest d)"
  show ?case
  proof (cases ?s)
    case Nil
    with "1.prems" show ?thesis by (simp add: dec_Token.simps [of d])
  next
    case (Cons c t)
    have sc: "lex_num n = Some (n, [])" if "scalar_token (d\<lparr>d_rest := c # t\<rparr>) = (GotToken (TokNumber n), d')"
      using that by (auto simp: scalar_token_def dest: lex_scalar_number split: if_splits option.splits)
    show ?thesis
      using "1.prems" Cons sc "1.IH" [of "d\<lparr>d_rest := ?s\<rparr>" c t]
      by (subst (asm) dec_Token.simps) (fastforce simp: Let_def split: if_splits option.splits)
  qed
qed

end
