(* ===== verification/Redaction_Scanner.thy ===== *)
theory Redaction_Scanner
  imports Redaction_Rules Json_Stream
begin

text \<open>
  The scanner of \<open>internal/middleware/redaction.go\<close>: it reads a request body token by token, checks its
  shape against fixed budgets, applies the rules to every string, key and number, and writes the
  canonical redacted body into a bounded buffer.
\<close>

section \<open>Numbers\<close>

definition maxSemanticNumericPIIDigits :: int where "maxSemanticNumericPIIDigits = 32"

definition all_zero :: "string \<Rightarrow> bool" where
  "all_zero s \<longleftrightarrow> list_all (\<lambda>c. c = CHR ''0'') s"

text \<open>\<open>strconv.ParseInt\<close> in base ten on the exponent: an optional sign and digits, within 64 bits.\<close>

definition parse_exponent :: "string \<Rightarrow> int option" where
  "parse_exponent s = (case s of c # t \<Rightarrow> if c = CHR ''+'' then (if has_prefix t ''-'' then None else parse_int t) else parse_int s | [] \<Rightarrow> None)"

definition split_exponent :: "string \<Rightarrow> string \<times> string option" where
  "split_exponent s =
     (let m = takeWhile (\<lambda>c. c \<noteq> CHR ''e'' \<and> c \<noteq> CHR ''E'') s; r = dropWhile (\<lambda>c. c \<noteq> CHR ''e'' \<and> c \<noteq> CHR ''E'') s
      in (m, if r = [] then None else Some (tl r)))"

definition canonicalNumericPIICandidate :: "string \<Rightarrow> sem_error + string option" where
  "canonicalNumericPIICandidate raw0 =
     (let negative = has_prefix raw0 ''-''; raw = (if negative then tl raw0 else raw0);
          (mantissa, exp_text) = split_exponent raw;
          exponent = (case exp_text of
                        None \<Rightarrow> Some 0
                      | Some x \<Rightarrow>
                          (case parse_exponent x of
                             None \<Rightarrow> None
                           | Some e \<Rightarrow> if e > int maxSemanticJSONStringBytes \<or> e < - int maxSemanticJSONStringBytes then None
                                       else Some e))
      in case exponent of
           None \<Rightarrow> Inl SemanticJSONLimit
         | Some e \<Rightarrow>
             let whole = takeWhile (\<lambda>c. c \<noteq> CHR ''.'') mantissa;
                 digits = whole @ tl (dropWhile (\<lambda>c. c \<noteq> CHR ''.'') mantissa);
                 position = int (length whole) + e
             in if position \<le> 0 then Inr (if all_zero digits then Some ''0'' else None)
                else if position < int (length digits) \<and> \<not> all_zero (drop (nat position) digits) then Inr None
                else let zeros = (if position < int (length digits) then 0 else nat (position - int (length digits)));
                         sig = dropWhile (\<lambda>c. c = CHR ''0'')
                                 (if position < int (length digits) then take (nat position) digits else digits)
                     in if sig = [] then Inr (Some ''0'')
                        else if int (length sig) + int zeros > maxSemanticNumericPIIDigits then Inr None
                        else Inr (Some ((if negative then ''-'' else []) @ sig @ replicate zeros (CHR ''0''))))"

section \<open>State\<close>

definition maxSemanticRequestBodyBytes :: int where "maxSemanticRequestBodyBytes = 4194304"
definition maxSemanticContentPartBytes :: nat where "maxSemanticContentPartBytes = 1048576"
definition maxSemanticContentArrayBytes :: nat where "maxSemanticContentArrayBytes = 1048576"
definition maxSemanticJoinedTextBytes :: nat where "maxSemanticJoinedTextBytes = 524288"
definition maxSemanticContentParts :: nat where "maxSemanticContentParts = 4096"
definition maxSemanticJSONDepth :: nat where "maxSemanticJSONDepth = 64"
definition maxSemanticJSONValues :: nat where "maxSemanticJSONValues = 100000"
definition maxSemanticJSONObjectMembers :: nat where "maxSemanticJSONObjectMembers = 4096"

datatype RedactionMode = ModeDetect | ModeRedact | ModeBlock

record semanticJSONProcessor =
  sj_decoder :: decoder
  sj_output :: "bytes option"
  sj_outputMax :: int
  sj_mode :: RedactionMode
  sj_rules :: "RedactionRule list"
  sj_override :: "string option"
  sj_values :: nat
  sj_foundPII :: bool

datatype semanticValueContext =
  ContextGeneric | ContextRoot | ContextMessages | ContextMessage | ContextMessageContent | ContextContentPart

record semanticContentPart =
  cp_raw :: bytes
  cp_isText :: bool
  cp_text :: string
  cp_textOverride :: string

type_synonym scan_step = "sem_error option \<times> semanticJSONProcessor"

definition and_ok :: "scan_step \<Rightarrow> (semanticJSONProcessor \<Rightarrow> scan_step) \<Rightarrow> scan_step" where
  "and_ok r k = (case r of (Some e, p) \<Rightarrow> (Some e, p) | (None, p) \<Rightarrow> k p)"

definition writeBytes :: "bytes \<Rightarrow> semanticJSONProcessor \<Rightarrow> scan_step" where
  "writeBytes b p =
     (case sj_output p of
        None \<Rightarrow> (None, p)
      | Some out \<Rightarrow>
          if int (length b) > sj_outputMax p - int (length out) then (Some SemanticJSONLimit, p)
          else (None, p\<lparr>sj_output := Some (out @ b)\<rparr>))"

definition writeJSONString :: "string \<Rightarrow> semanticJSONProcessor \<Rightarrow> scan_step" where
  "writeJSONString s p = writeBytes (quote s) p"

definition next_token :: "semanticJSONProcessor \<Rightarrow> token_result \<times> semanticJSONProcessor" where
  "next_token p = (let (r, d) = dec_Token (sj_decoder p) in (r, p\<lparr>sj_decoder := d\<rparr>))"

definition isSecurityFieldAlias :: "string \<Rightarrow> bool" where
  "isSecurityFieldAlias key \<longleftrightarrow>
     json_key_is ''model'' key \<and> key \<noteq> ''model'' \<or> json_key_is ''stream'' key \<and> key \<noteq> ''stream''"

definition isContentPartFieldAlias :: "string \<Rightarrow> bool" where
  "isContentPartFieldAlias key \<longleftrightarrow>
     json_key_is ''type'' key \<and> key \<noteq> ''type'' \<or> json_key_is ''text'' key \<and> key \<noteq> ''text''"

section \<open>Scalars\<close>

definition processStringValue :: "string \<Rightarrow> semanticJSONProcessor \<Rightarrow> scan_step" where
  "processStringValue v p =
     (case aggregateRedactionSpans v (sj_rules p) of
        Inl e \<Rightarrow> (Some e, p)
      | Inr (spans, matched) \<Rightarrow>
          let p1 = (if matched then p\<lparr>sj_foundPII := True\<rparr> else p)
          in if matched \<and> sj_mode p1 = ModeBlock then (Some SemanticPIIBlocked, p1)
             else if sj_output p1 = None then (None, p1)
             else if \<not> matched then writeJSONString v p1
             else case redactTextPart v 0 spans of
                    Inl e \<Rightarrow> (Some e, p1)
                  | Inr redacted \<Rightarrow> writeJSONString redacted p1)"

text \<open>Keys and numbers cannot be redacted: a match is found in detect mode and refused otherwise.\<close>

definition blocked_match :: "bool \<Rightarrow> semanticJSONProcessor \<Rightarrow> scan_step" where
  "blocked_match matched p =
     (if \<not> matched then (None, p)
      else let p1 = p\<lparr>sj_foundPII := True\<rparr>
           in if sj_mode p1 \<noteq> ModeDetect then (Some SemanticPIIBlocked, p1) else (None, p1))"

definition processNumber :: "string \<Rightarrow> semanticJSONProcessor \<Rightarrow> scan_step" where
  "processNumber raw p =
     (if maxSemanticJSONStringBytes < length raw then (Some SemanticJSONLimit, p)
      else case (if rulesMatchString raw (sj_rules p) then Inr True
                 else case canonicalNumericPIICandidate raw of
                        Inl e \<Rightarrow> Inl e
                      | Inr None \<Rightarrow> Inr False
                      | Inr (Some digits) \<Rightarrow> Inr (rulesMatchString digits (sj_rules p))) of
             Inl e \<Rightarrow> (Some e, p)
           | Inr matched \<Rightarrow> and_ok (blocked_match matched p) (writeBytes raw))"

definition processScalar :: "json_token \<Rightarrow> semanticJSONProcessor \<Rightarrow> scan_step" where
  "processScalar k p =
     (case k of
        TokString v \<Rightarrow> if maxSemanticJSONStringBytes < length v then (Some SemanticJSONLimit, p) else processStringValue v p
      | TokNumber raw \<Rightarrow> processNumber raw p
      | TokBool b \<Rightarrow> writeBytes (if b then ''true'' else ''false'') p
      | TokNull \<Rightarrow> writeBytes ''null'' p
      | Delim c \<Rightarrow> (Some InvalidSemanticJSON, p))"

definition processContentTextValue :: "nat \<Rightarrow> string \<Rightarrow> semanticJSONProcessor \<Rightarrow> scan_step" where
  "processContentTextValue dep override p =
     (if maxSemanticJSONDepth < dep then (Some SemanticJSONLimit, p)
      else let p1 = p\<lparr>sj_values := Suc (sj_values p)\<rparr>
           in if maxSemanticJSONValues < sj_values p1 then (Some SemanticJSONLimit, p1)
              else case next_token p1 of
                     (GotToken (TokString v), p2) \<Rightarrow>
                       if maxSemanticJSONStringBytes < length v \<or> maxSemanticJSONStringBytes < length override
                       then (Some SemanticJSONLimit, p2) else writeJSONString override p2
                   | (_, p2) \<Rightarrow> (Some InvalidSemanticJSON, p2))"

section \<open>Content parts\<close>

text \<open>
  The inspection of a content part before it is processed: \<open>inspectBoundedSemanticValue\<close> with its two
  loops. Every step consumes a token, so the length of the text bounds the recursion; the fuel
  \<open>ScanFuel\<close> stands for is shown below never to run out.
\<close>

definition scalar_in_bounds :: "json_token \<Rightarrow> sem_error option" where
  "scalar_in_bounds k =
     (case k of
        TokString v \<Rightarrow> if maxSemanticJSONStringBytes < length v then Some SemanticJSONLimit else None
      | TokNumber v \<Rightarrow> if maxSemanticJSONStringBytes < length v then Some SemanticJSONLimit else None
      | TokBool b \<Rightarrow> None
      | TokNull \<Rightarrow> None
      | Delim c \<Rightarrow> Some InvalidSemanticJSON)"

type_synonym inspection = "sem_error option \<times> decoder \<times> nat"

definition inspect_close :: "char \<Rightarrow> decoder \<Rightarrow> nat \<Rightarrow> inspection" where
  "inspect_close c d values =
     (case dec_Token d of
        (GotToken k, d1) \<Rightarrow> (if k = Delim c then None else Some InvalidSemanticJSON, d1, values)
      | (_, d1) \<Rightarrow> (Some InvalidSemanticJSON, d1, values))"

fun inspectBoundedSemanticValue :: "nat \<Rightarrow> json_token \<Rightarrow> nat \<Rightarrow> decoder \<Rightarrow> nat \<Rightarrow> inspection"
  and inspect_members :: "nat \<Rightarrow> nat \<Rightarrow> nat \<Rightarrow> decoder \<Rightarrow> nat \<Rightarrow> inspection"
  and inspect_items :: "nat \<Rightarrow> nat \<Rightarrow> decoder \<Rightarrow> nat \<Rightarrow> inspection" where
  "inspectBoundedSemanticValue 0 k dep d values = (Some ScanFuel, d, values)"
| "inspectBoundedSemanticValue (Suc f) k dep d values =
     (if maxSemanticJSONDepth < dep then (Some SemanticJSONLimit, d, values)
      else if maxSemanticJSONValues < Suc values then (Some SemanticJSONLimit, d, Suc values)
      else if k = Delim (CHR 0x7B) then inspect_members f dep 0 d (Suc values)
      else if k = Delim (CHR ''['') then inspect_items f dep d (Suc values)
      else (scalar_in_bounds k, d, Suc values))"
| "inspect_members 0 dep members d values = (Some ScanFuel, d, values)"
| "inspect_members (Suc f) dep members d values =
     (if \<not> dec_More d then inspect_close (CHR 0x7D) d values
      else if maxSemanticJSONObjectMembers < Suc members then (Some SemanticJSONLimit, d, values)
      else case dec_Token d of
             (GotToken (TokString key), d1) \<Rightarrow>
               if maxSemanticJSONStringBytes < length key then (Some SemanticJSONLimit, d1, values)
               else (case dec_Token d1 of
                       (GotToken k, d2) \<Rightarrow>
                         (case inspectBoundedSemanticValue f k (Suc dep) d2 values of
                            (None, d3, v3) \<Rightarrow> inspect_members f dep (Suc members) d3 v3
                          | r \<Rightarrow> r)
                     | (_, d2) \<Rightarrow> (Some InvalidSemanticJSON, d2, values))
           | (_, d1) \<Rightarrow> (Some InvalidSemanticJSON, d1, values))"
| "inspect_items 0 dep d values = (Some ScanFuel, d, values)"
| "inspect_items (Suc f) dep d values =
     (if \<not> dec_More d then inspect_close (CHR '']'') d values
      else case dec_Token d of
             (GotToken k, d1) \<Rightarrow>
               (case inspectBoundedSemanticValue f k (Suc dep) d1 values of
                  (None, d2, v2) \<Rightarrow> inspect_items f dep d2 v2
                | r \<Rightarrow> r)
           | (_, d1) \<Rightarrow> (Some InvalidSemanticJSON, d1, values))"

definition at_end :: "decoder \<Rightarrow> bool" where
  "at_end d \<longleftrightarrow> fst (dec_Token d) = TokenEOF"

text \<open>The loop of \<open>inspectSemanticTextContentPart\<close> over the members of a part.\<close>

record part_fields =
  pf_seenType :: bool
  pf_seenText :: bool
  pf_partType :: string
  pf_text :: string
  pf_textIsString :: bool

definition see_key :: "string \<Rightarrow> part_fields \<Rightarrow> sem_error + part_fields" where
  "see_key key pf =
     (if maxSemanticJSONStringBytes < length key then Inl SemanticJSONLimit
      else if isContentPartFieldAlias key then Inl InvalidSemanticJSON
      else if key = ''type'' then
        (if pf_seenType pf then Inl InvalidSemanticJSON else Inr (pf\<lparr>pf_seenType := True\<rparr>))
      else if key = ''text'' then
        (if pf_seenText pf then Inl InvalidSemanticJSON else Inr (pf\<lparr>pf_seenText := True\<rparr>))
      else Inr pf)"

definition see_value :: "string \<Rightarrow> json_token \<Rightarrow> part_fields \<Rightarrow> part_fields" where
  "see_value key k pf =
     (case k of
        TokString v \<Rightarrow>
          if key = ''type'' then pf\<lparr>pf_partType := v\<rparr>
          else if key = ''text'' then pf\<lparr>pf_text := v, pf_textIsString := True\<rparr> else pf
      | _ \<Rightarrow> pf)"

fun inspect_part_members ::
  "nat \<Rightarrow> nat \<Rightarrow> part_fields \<Rightarrow> decoder \<Rightarrow> nat \<Rightarrow> sem_error + part_fields \<times> decoder" where
  "inspect_part_members 0 members pf d values = Inl ScanFuel"
| "inspect_part_members (Suc f) members pf d values =
     (if \<not> dec_More d then
        (case inspect_close (CHR 0x7D) d values of
           (None, d1, _) \<Rightarrow> Inr (pf, d1)
         | (Some e, _) \<Rightarrow> Inl e)
      else if maxSemanticJSONObjectMembers < Suc members then Inl SemanticJSONLimit
      else case dec_Token d of
             (GotToken (TokString key), d1) \<Rightarrow>
               (case see_key key pf of
                  Inl e \<Rightarrow> Inl e
                | Inr pf1 \<Rightarrow>
                    (case dec_Token d1 of
                       (GotToken k, d2) \<Rightarrow>
                         (case inspectBoundedSemanticValue f k 1 d2 values of
                            (None, d3, v3) \<Rightarrow> inspect_part_members f (Suc members) (see_value key k pf1) d3 v3
                          | (Some e, _) \<Rightarrow> Inl e)
                     | _ \<Rightarrow> Inl InvalidSemanticJSON))
           | _ \<Rightarrow> Inl InvalidSemanticJSON)"

definition inspectSemanticTextContentPart :: "bytes \<Rightarrow> sem_error + bool \<times> string" where
  "inspectSemanticTextContentPart raw =
     (let fuel = 2 * length raw + 2
      in case dec_Token (NewDecoder raw) of
           (GotToken k, d) \<Rightarrow>
             if k \<noteq> Delim (CHR 0x7B) then
               (case inspectBoundedSemanticValue fuel k 0 d 0 of
                  (Some e, _) \<Rightarrow> Inl e
                | (None, d1, _) \<Rightarrow> if at_end d1 then Inr (False, []) else Inl InvalidSemanticJSON)
             else
               (case inspect_part_members fuel 0 \<lparr>pf_seenType = False, pf_seenText = False, pf_partType = [],
                                                  pf_text = [], pf_textIsString = False\<rparr> d 1 of
                  Inl e \<Rightarrow> Inl e
                | Inr (pf, d1) \<Rightarrow>
                    if at_end d1
                    then Inr (pf_partType pf = ''text'' \<and> pf_seenText pf \<and> pf_textIsString pf, pf_text pf)
                    else Inl InvalidSemanticJSON)
         | _ \<Rightarrow> Inl InvalidSemanticJSON)"

text \<open>
  The first loop of \<open>processContentPartsArray\<close>, which buffers the parts, and \<open>processSemanticMessageText\<close>,
  which applies the rules to the text of all text parts of one message put together.
\<close>

fun read_parts :: "nat \<Rightarrow> nat \<Rightarrow> nat \<Rightarrow> decoder \<Rightarrow> (sem_error + semanticContentPart list) \<times> decoder" where
  "read_parts 0 count rawBytes d = (Inl ScanFuel, d)"
| "read_parts (Suc f) count rawBytes d =
     (if \<not> dec_More d then
        (case dec_Token d of
           (GotToken k, d1) \<Rightarrow> (if k = Delim (CHR '']'') then Inr [] else Inl InvalidSemanticJSON, d1)
         | (_, d1) \<Rightarrow> (Inl InvalidSemanticJSON, d1))
      else if maxSemanticContentParts \<le> count then (Inl SemanticJSONLimit, d)
      else case dec_Decode d of
             (None, d1) \<Rightarrow> (Inl InvalidSemanticJSON, d1)
           | (Some raw, d1) \<Rightarrow>
               if maxSemanticContentPartBytes < length raw \<or> maxSemanticContentArrayBytes - rawBytes < length raw
               then (Inl SemanticJSONLimit, d1)
               else (case inspectSemanticTextContentPart raw of
                       Inl e \<Rightarrow> (Inl e, d1)
                     | Inr (isText, tx) \<Rightarrow>
                         (case read_parts f (Suc count) (rawBytes + length raw) d1 of
                            (Inl e, d2) \<Rightarrow> (Inl e, d2)
                          | (Inr parts, d2) \<Rightarrow>
                              (Inr (\<lparr>cp_raw = raw, cp_isText = isText, cp_text = tx, cp_textOverride = []\<rparr> # parts), d2))))"

fun joined_bytes :: "semanticContentPart list \<Rightarrow> nat \<Rightarrow> nat option" where
  "joined_bytes [] n = Some n"
| "joined_bytes (part # parts) n =
     (if \<not> cp_isText part then joined_bytes parts n
      else if maxSemanticJoinedTextBytes - n < length (cp_text part) then None
      else joined_bytes parts (n + length (cp_text part)))"

definition joined_text :: "semanticContentPart list \<Rightarrow> string" where
  "joined_text parts = concat (map (\<lambda>part. if cp_isText part then cp_text part else []) parts)"

fun override_parts ::
  "bool \<Rightarrow> redactionSpan list \<Rightarrow> nat \<Rightarrow> nat \<Rightarrow> semanticContentPart list \<Rightarrow> sem_error + semanticContentPart list" where
  "override_parts redact spans offset transformed [] = Inr []"
| "override_parts redact spans offset transformed (part # parts) =
     (if \<not> cp_isText part then
        (case override_parts redact spans offset transformed parts of Inl e \<Rightarrow> Inl e | Inr ps \<Rightarrow> Inr (part # ps))
      else case (if redact then redactTextPart (cp_text part) offset spans else Inr (cp_text part)) of
             Inl e \<Rightarrow> Inl e
           | Inr override \<Rightarrow>
               if maxSemanticJoinedTextBytes - transformed < length override then Inl SemanticJSONLimit
               else (case override_parts redact spans (offset + length (cp_text part)) (transformed + length override) parts of
                       Inl e \<Rightarrow> Inl e
                     | Inr ps \<Rightarrow> Inr (part\<lparr>cp_textOverride := override\<rparr> # ps)))"

definition processSemanticMessageText ::
  "semanticContentPart list \<Rightarrow> semanticJSONProcessor \<Rightarrow> (sem_error + semanticContentPart list) \<times> semanticJSONProcessor" where
  "processSemanticMessageText parts p =
     (case joined_bytes parts 0 of
        None \<Rightarrow> (Inl SemanticJSONLimit, p)
      | Some n \<Rightarrow>
          if n = 0 then (Inr parts, p)
          else (case aggregateRedactionSpans (joined_text parts) (sj_rules p) of
                  Inl e \<Rightarrow> (Inl e, p)
                | Inr (spans, matched) \<Rightarrow>
                    let p1 = (if matched then p\<lparr>sj_foundPII := True\<rparr> else p)
                    in if matched \<and> sj_mode p1 = ModeBlock then (Inl SemanticPIIBlocked, p1)
                       else (override_parts (matched \<and> sj_mode p1 \<noteq> ModeDetect) spans 0 0 parts, p1)))"

section \<open>Values\<close>

definition child_context :: "semanticValueContext \<Rightarrow> string \<Rightarrow> semanticValueContext" where
  "child_context ctx key =
     (if ctx = ContextRoot \<and> key = ''messages'' then ContextMessages
      else if ctx = ContextMessage \<and> key = ''content'' then ContextMessageContent
      else ContextGeneric)"

text \<open>The key of a member: its checks and its part of the output.\<close>

definition writeKey :: "nat \<Rightarrow> string \<Rightarrow> semanticJSONProcessor \<Rightarrow> scan_step" where
  "writeKey members key p =
     and_ok (and_ok (and_ok (blocked_match (rulesMatchString key (sj_rules p)) p)
       (\<lambda>p1. if 1 < members then writeBytes '','' p1 else (None, p1))) (writeJSONString key)) (writeBytes '':'')"

definition processKey ::
  "nat \<Rightarrow> semanticValueContext \<Rightarrow> string list \<Rightarrow> nat \<Rightarrow> semanticJSONProcessor \<Rightarrow> (sem_error + string) \<times> semanticJSONProcessor" where
  "processKey dep ctx seen members p =
     (case next_token p of
        (GotToken (TokString key), p1) \<Rightarrow>
          if maxSemanticJSONStringBytes < length key then (Inl SemanticJSONLimit, p1)
          else if key \<in> set seen then (Inl InvalidSemanticJSON, p1)
          else if dep = 0 \<and> isSecurityFieldAlias key then (Inl InvalidSemanticJSON, p1)
          else if ctx = ContextContentPart \<and> isContentPartFieldAlias key then (Inl InvalidSemanticJSON, p1)
          else (case writeKey members key p1 of
                  (Some e, p2) \<Rightarrow> (Inl e, p2)
                | (None, p2) \<Rightarrow> (Inr key, p2))
      | (_, p1) \<Rightarrow> (Inl InvalidSemanticJSON, p1))"

definition closing :: "char \<Rightarrow> semanticJSONProcessor \<Rightarrow> scan_step" where
  "closing c p =
     (case next_token p of
        (GotToken k, p1) \<Rightarrow> if k = Delim c then writeBytes [c] p1 else (Some InvalidSemanticJSON, p1)
      | (_, p1) \<Rightarrow> (Some InvalidSemanticJSON, p1))"

text \<open>The processor of one part shares the output and the budgets and has its own decoder and override.\<close>

definition part_processor :: "semanticContentPart \<Rightarrow> semanticJSONProcessor \<Rightarrow> semanticJSONProcessor" where
  "part_processor part p =
     p\<lparr>sj_decoder := NewDecoder (cp_raw part),
       sj_override := (if cp_isText part then Some (cp_textOverride part) else None)\<rparr>"

text \<open>
  The loops over members, items and parts, for a function that processes one value a level below.
  A round of a loop consumes a byte at least, which bounds the first two; the parts are a list.
\<close>

type_synonym value_step = "semanticValueContext \<Rightarrow> semanticJSONProcessor \<Rightarrow> scan_step"

abbreviation left_bytes :: "semanticJSONProcessor \<Rightarrow> nat" where
  "left_bytes p \<equiv> length (d_rest (sj_decoder p))"

primrec object_loop ::
  "nat \<Rightarrow> value_step \<Rightarrow> nat \<Rightarrow> semanticValueContext \<Rightarrow> string list \<Rightarrow> nat \<Rightarrow> semanticJSONProcessor \<Rightarrow> scan_step" where
  "object_loop 0 child dep ctx seen members p = (Some ScanFuel, p)"
| "object_loop (Suc f) child dep ctx seen members p =
     (if \<not> dec_More (sj_decoder p) then closing (CHR 0x7D) p
      else if maxSemanticJSONObjectMembers < Suc members then (Some SemanticJSONLimit, p)
      else case processKey dep ctx seen (Suc members) p of
             (Inl e, p1) \<Rightarrow> (Some e, p1)
           | (Inr key, p1) \<Rightarrow>
               and_ok (if ctx = ContextContentPart \<and> key = ''text'' \<and> sj_override p1 \<noteq> None
                       then processContentTextValue (Suc dep) (the (sj_override p1)) p1
                       else child (child_context ctx key) p1)
                 (object_loop f child dep ctx (key # seen) (Suc members)))"

definition processObject :: "value_step \<Rightarrow> nat \<Rightarrow> semanticValueContext \<Rightarrow> semanticJSONProcessor \<Rightarrow> scan_step" where
  "processObject child dep ctx p =
     and_ok (writeBytes [CHR 0x7B] p) (\<lambda>p1. object_loop (Suc (left_bytes p1)) child dep ctx [] 0 p1)"

primrec array_loop :: "nat \<Rightarrow> value_step \<Rightarrow> semanticValueContext \<Rightarrow> nat \<Rightarrow> semanticJSONProcessor \<Rightarrow> scan_step" where
  "array_loop 0 child ctx items p = (Some ScanFuel, p)"
| "array_loop (Suc f) child ctx items p =
     (if \<not> dec_More (sj_decoder p) then closing (CHR '']'') p
      else and_ok (and_ok (if 0 < items then writeBytes '','' p else (None, p))
                     (child (if ctx = ContextMessages then ContextMessage else ContextGeneric)))
             (array_loop f child ctx (Suc items)))"

definition processArray :: "value_step \<Rightarrow> semanticValueContext \<Rightarrow> semanticJSONProcessor \<Rightarrow> scan_step" where
  "processArray child ctx p =
     and_ok (writeBytes ''['' p) (\<lambda>p1. array_loop (Suc (left_bytes p1)) child ctx 0 p1)"

definition processContentPartRaw :: "value_step \<Rightarrow> semanticContentPart \<Rightarrow> semanticJSONProcessor \<Rightarrow> scan_step" where
  "processContentPartRaw child part p =
     (let (e, sub) = child ContextContentPart (part_processor part p);
          done_p = sub\<lparr>sj_decoder := sj_decoder p, sj_override := sj_override p\<rparr>
      in case e of
           Some err \<Rightarrow> (Some err, done_p)
         | None \<Rightarrow> if at_end (sj_decoder sub) then (None, done_p)
                   else (Some InvalidSemanticJSON, p\<lparr>sj_output := sj_output sub\<rparr>))"

primrec parts_loop :: "semanticContentPart list \<Rightarrow> value_step \<Rightarrow> nat \<Rightarrow> semanticJSONProcessor \<Rightarrow> scan_step" where
  "parts_loop [] child i p = (None, p)"
| "parts_loop (part # parts) child i p =
     and_ok (and_ok (if 0 < i then writeBytes '','' p else (None, p)) (processContentPartRaw child part))
       (parts_loop parts child (Suc i))"

definition processContentPartsArray :: "value_step \<Rightarrow> semanticJSONProcessor \<Rightarrow> scan_step" where
  "processContentPartsArray child p =
     and_ok (writeBytes ''['' p) (\<lambda>p1.
       let (r, d) = read_parts (Suc (left_bytes p1)) 0 0 (sj_decoder p1); p2 = p1\<lparr>sj_decoder := d\<rparr>
       in case r of
            Inl e \<Rightarrow> (Some e, p2)
          | Inr parts \<Rightarrow>
              (case processSemanticMessageText parts p2 of
                 (Inl e, p3) \<Rightarrow> (Some e, p3)
               | (Inr parts', p3) \<Rightarrow> and_ok (parts_loop parts' child 0 p3) (writeBytes '']'')))"

text \<open>
  \<open>processValue\<close>, by the levels that are left: at depth \<open>dep\<close> there are \<open>maxSemanticJSONDepth + 1 - dep\<close> of
  them, and with none left the depth is over the limit.
\<close>

primrec processValue :: "nat \<Rightarrow> value_step" where
  "processValue 0 ctx p = (Some SemanticJSONLimit, p)"
| "processValue (Suc below) ctx p =
     (let dep = maxSemanticJSONDepth - below; p1 = p\<lparr>sj_values := Suc (sj_values p)\<rparr>
      in if maxSemanticJSONValues < sj_values p1 then (Some SemanticJSONLimit, p1)
         else case next_token p1 of
                (GotToken k, p2) \<Rightarrow>
                  if k = Delim (CHR 0x7B) then processObject (processValue below) dep ctx p2
                  else if k = Delim (CHR ''['') then
                    (if ctx = ContextMessageContent then processContentPartsArray (processValue below) p2
                     else processArray (processValue below) ctx p2)
                  else processScalar k p2
              | (_, p2) \<Rightarrow> (Some InvalidSemanticJSON, p2))"

section \<open>A whole body\<close>

record RedactionConfig =
  red_Mode :: RedactionMode
  red_Rules :: "RedactionRule list"
  red_MaxRequestBodySize :: int

record piiScanner =
  ps_mode :: RedactionMode
  ps_rules :: "RedactionRule list"

definition newPIIScanner :: "RedactionConfig \<Rightarrow> piiScanner" where
  "newPIIScanner cfg =
     \<lparr>ps_mode = red_Mode cfg, ps_rules = (if red_Rules cfg = [] then DefaultRedactionRules else red_Rules cfg)\<rparr>"

definition scan_start :: "piiScanner \<Rightarrow> bytes \<Rightarrow> int \<Rightarrow> semanticJSONProcessor" where
  "scan_start s body outputMax =
     \<lparr>sj_decoder = NewDecoder body,
      sj_output = (if ps_mode s \<noteq> ModeDetect \<and> ps_mode s \<noteq> ModeBlock then Some [] else None),
      sj_outputMax = outputMax, sj_mode = ps_mode s, sj_rules = ps_rules s, sj_override = None,
      sj_values = 0, sj_foundPII = False\<rparr>"

definition ProcessJSON :: "piiScanner \<Rightarrow> bytes \<Rightarrow> int \<Rightarrow> (sem_error + bytes) \<times> bool" where
  "ProcessJSON s body outputMax =
     (if int (length body) > maxSemanticRequestBodyBytes \<or> outputMax \<le> 0 then (Inl SemanticJSONLimit, False)
      else let (e, p) = processValue (Suc maxSemanticJSONDepth) ContextRoot
                          (scan_start s body (min outputMax maxSemanticRequestBodyBytes))
           in case e of
                Some err \<Rightarrow> (Inl err, sj_foundPII p)
              | None \<Rightarrow>
                  if at_end (sj_decoder p)
                  then (Inr (case sj_output p of None \<Rightarrow> [] | Some out \<Rightarrow> out), sj_foundPII p)
                  else (Inl InvalidSemanticJSON, sj_foundPII p))"

end
