(* ===== verification/Redaction_Safety.thy ===== *)
theory Redaction_Safety
  imports Redaction_Scanner
begin

text \<open>
  What the scanner of the redaction middleware guarantees: it always ends, and what it hands on is one
  JSON value within the limits in which the rules have been applied everywhere.
\<close>

section \<open>The scan ends\<close>

text \<open>A step advances by \<open>n\<close> bytes when it does not run out of fuel and, if it succeeds, consumes \<open>n\<close> bytes at least.\<close>

definition advances :: "nat \<Rightarrow> semanticJSONProcessor \<Rightarrow> scan_step \<Rightarrow> bool" where
  "advances n p r \<longleftrightarrow> fst r \<noteq> Some ScanFuel \<and> (fst r = None \<longrightarrow> left_bytes (snd r) + n \<le> left_bytes p)"

lemma advances_and_ok:
  assumes "advances m p r" and "\<And>q. left_bytes q + m \<le> left_bytes p \<Longrightarrow> advances n q (k q)"
  shows "advances (m + n) p (and_ok r k)"
proof (cases r)
  case (Pair e q)
  show ?thesis
  proof (cases e)
    case None
    with Pair assms(1) have le: "left_bytes q + m \<le> left_bytes p" by (simp add: advances_def)
    from assms(2) [OF this] le show ?thesis by (auto simp: Pair None and_ok_def advances_def)
  qed (use assms(1) Pair in \<open>auto simp: and_ok_def advances_def\<close>)
qed

lemma advances_and_ok0:
  "advances 0 p r \<Longrightarrow> (\<And>q. left_bytes q \<le> left_bytes p \<Longrightarrow> advances n q (k q)) \<Longrightarrow> advances n p (and_ok r k)"
  using advances_and_ok [of 0 p r n k] by simp

lemma advances_weaken: "advances n p r \<Longrightarrow> m \<le> n \<Longrightarrow> advances m p r"
  by (auto simp: advances_def)

lemma advances_error: "e \<noteq> ScanFuel \<Longrightarrow> advances n p (Some e, q)"
  by (simp add: advances_def)

lemma advances_from: "advances m q r \<Longrightarrow> left_bytes q + n \<le> left_bytes p + m \<Longrightarrow> advances n p r"
  by (auto simp: advances_def)

lemma writeBytes_advances: "advances 0 p (writeBytes b p)"
  by (auto simp: writeBytes_def advances_def split: option.split)

lemma writeJSONString_advances: "advances 0 p (writeJSONString s p)"
  by (simp add: writeJSONString_def writeBytes_advances)

lemma blocked_match_advances: "advances 0 p (blocked_match m p)"
  by (simp add: blocked_match_def advances_def Let_def)

lemma next_token_less: "next_token p = (GotToken k, q) \<Longrightarrow> left_bytes q < left_bytes p"
  by (auto simp: next_token_def dest: dec_Token_shorter split: prod.splits)

lemma fuel_of: "x \<noteq> Inl ScanFuel \<Longrightarrow> x = Inl e \<Longrightarrow> e \<noteq> ScanFuel"
  by auto

lemma collect_spans_fuel: "collect_spans v rules count \<noteq> Inl ScanFuel"
  by (induction rules arbitrary: count) (auto simp: Let_def split: sum.split)

lemma aggregate_fuel: "aggregateRedactionSpans v rules \<noteq> Inl ScanFuel"
  using collect_spans_fuel [of v rules 0] by (auto simp: aggregateRedactionSpans_def split: sum.split)

lemma redactTextPart_fuel: "redactTextPart v gs spans \<noteq> Inl ScanFuel"
  by (auto simp: redactTextPart_def Let_def split: option.split)

lemma canonical_fuel: "canonicalNumericPIICandidate raw \<noteq> Inl ScanFuel"
  by (simp add: canonicalNumericPIICandidate_def Let_def split: option.split prod.split)

lemma processStringValue_advances: "advances 0 p (processStringValue v p)"
  by (auto simp: processStringValue_def Let_def advances_error fuel_of [OF aggregate_fuel] fuel_of [OF redactTextPart_fuel] advances_from [OF writeJSONString_advances]
        advances_def [where r = "(None, _)"] split: sum.split)

lemma processNumber_advances: "advances 0 p (processNumber raw p)"
  unfolding processNumber_def
  by (auto simp: advances_error fuel_of [OF canonical_fuel] intro!: advances_and_ok0 blocked_match_advances writeBytes_advances
      split: sum.split option.split)

lemma processScalar_advances: "advances 0 p (processScalar k p)"
  by (auto simp: processScalar_def advances_error processStringValue_advances processNumber_advances writeBytes_advances
      split: json_token.split)

lemma processKey_advances:
  assumes "processKey dep ctx seen members p = (r, q)"
  shows "r \<noteq> Inl ScanFuel" and "r = Inr key \<Longrightarrow> left_bytes q < left_bytes p"
proof -
  have run: "advances 0 p1 (writeKey members key p1)" for key p1
    unfolding writeKey_def
    by (intro advances_and_ok0 blocked_match_advances writeJSONString_advances writeBytes_advances)
      (simp add: writeBytes_advances advances_def [where r = "(None, _)"])
  from assms consider (bad) e where "r = Inl e" "e \<noteq> ScanFuel"
    | (ran) k p1 where "next_token p = (GotToken (TokString k), p1)"
        "(r, q) = (case writeKey members k p1 of (Some e, p2) \<Rightarrow> (Inl e, p2) | (None, p2) \<Rightarrow> (Inr k, p2))"
    by (auto simp: processKey_def split: prod.splits token_result.splits json_token.splits if_splits)
  then have "r \<noteq> Inl ScanFuel \<and> (r = Inr key \<longrightarrow> left_bytes q < left_bytes p)"
  proof cases
    case ran
    from run [of p1 k] ran(2) next_token_less [OF ran(1)] show ?thesis
      by (auto simp: advances_def split: prod.splits option.splits)
  qed simp
  then show "r \<noteq> Inl ScanFuel" and "r = Inr key \<Longrightarrow> left_bytes q < left_bytes p" by auto
qed

lemma closing_advances: "advances 0 p (closing c p)"
proof -
  obtain r q where n: "next_token p = (r, q)" by fastforce
  show ?thesis
  proof (cases r)
    case (GotToken k)
    with n next_token_less [of p k q] have "left_bytes q + 0 \<le> left_bytes p + 0" by simp
    from advances_from [OF writeBytes_advances this] show ?thesis
      by (simp add: closing_def n GotToken advances_error)
  qed (simp_all add: closing_def n advances_error)
qed

lemma processContentTextValue_advances: "advances 0 p (processContentTextValue dep override p)"
proof -
  let ?p = "p\<lparr>sj_values := Suc (sj_values p)\<rparr>"
  obtain r q where n: "next_token ?p = (r, q)" by fastforce
  have "advances 0 p (writeJSONString override q)" if "r = GotToken k" for k
    using next_token_less [of ?p k q] n that by (intro advances_from [OF writeJSONString_advances]) simp
  then show ?thesis
    by (auto simp: processContentTextValue_def Let_def n advances_error split: token_result.split json_token.split)
qed


text \<open>The inspection of a part.\<close>

definition inspects :: "decoder \<Rightarrow> inspection \<Rightarrow> bool" where
  "inspects d r \<longleftrightarrow> fst r \<noteq> Some ScanFuel \<and> (fst r = None \<longrightarrow> length (d_rest (fst (snd r))) \<le> length (d_rest d))"

lemma inspect_close_ends: "inspects d (inspect_close c d vals)"
  by (auto simp: inspect_close_def inspects_def dest!: dec_Token_shorter split: prod.split token_result.split)

lemma inspects_error: "e \<noteq> ScanFuel \<Longrightarrow> inspects d (Some e, d', v)"
  by (simp add: inspects_def)

lemma inspects_trans: "inspects d' r \<Longrightarrow> length (d_rest d') \<le> length (d_rest d) \<Longrightarrow> inspects d r"
  by (auto simp: inspects_def)

lemma inspects_then:
  assumes "inspects d r" and "\<And>d' v. length (d_rest d') \<le> length (d_rest d) \<Longrightarrow> inspects d (k d' v)"
  shows "inspects d (case r of (None, d', v) \<Rightarrow> k d' v | r \<Rightarrow> r)"
  using assms by (auto simp: inspects_def split: prod.split option.split)

lemma scalar_in_bounds_fuel: "scalar_in_bounds k \<noteq> Some ScanFuel"
  by (simp add: scalar_in_bounds_def split: json_token.split)

lemma inspect_ends:
  "(\<forall>k dep d vals. 2 * length (d_rest d) + 2 \<le> f \<longrightarrow> inspects d (inspectBoundedSemanticValue f k dep d vals)) \<and>
   (\<forall>dep members d vals. 2 * length (d_rest d) + 1 \<le> f \<longrightarrow> inspects d (inspect_members f dep members d vals)) \<and>
   (\<forall>dep d vals. 2 * length (d_rest d) + 1 \<le> f \<longrightarrow> inspects d (inspect_items f dep d vals))"
proof (induction f)
  case (Suc f)
  note IH = Suc [THEN conjunct1, rule_format] Suc [THEN conjunct2, THEN conjunct1, rule_format]
    Suc [THEN conjunct2, THEN conjunct2, rule_format]
  have v: "inspects d (inspectBoundedSemanticValue (Suc f) k dep d vals)" if "2 * length (d_rest d) + 2 \<le> Suc f" for k dep d vals
    using that IH(2,3) scalar_in_bounds_fuel [of k] by (simp add: inspects_error) (simp add: inspects_def)
  have sub: "inspects d (case inspectBoundedSemanticValue f k dep d' vals of (None, d3, v3) \<Rightarrow> g d3 v3 | r \<Rightarrow> r)"
    if "length (d_rest d') < length (d_rest d)" "2 * length (d_rest d) + 1 \<le> Suc f"
      "\<And>d3 v. 2 * length (d_rest d3) + 1 \<le> f \<Longrightarrow> inspects d3 (g d3 v)" for d d' k dep vals g
  proof -
    have "inspects d' (case inspectBoundedSemanticValue f k dep d' vals of (None, d3, v3) \<Rightarrow> g d3 v3 | r \<Rightarrow> r)"
      using that by (intro inspects_then IH(1) inspects_trans [OF that(3)]) auto
    then show ?thesis by (rule inspects_trans) (use that(1) in simp)
  qed
  have m: "inspects d (inspect_members (Suc f) dep members d vals)" if le: "2 * length (d_rest d) + 1 \<le> Suc f" for dep members d vals
  proof -
    have s: "inspects d (case inspectBoundedSemanticValue f k (Suc dep) d2 vals of
        (None, d3, v3) \<Rightarrow> inspect_members f dep (Suc members) d3 v3 | r \<Rightarrow> r)"
      if "dec_Token d = (GotToken k1, d1)" "dec_Token d1 = (GotToken k, d2)" for k1 k d1 d2
      using dec_Token_shorter [OF that(1)] dec_Token_shorter [OF that(2)] by (intro sub [OF _ le IH(2)]) auto
    show ?thesis
      unfolding inspect_members.simps
      by (auto simp: inspect_close_ends inspects_error dest: s split: prod.split token_result.split json_token.split)
  qed
  have i: "inspects d (inspect_items (Suc f) dep d vals)" if le: "2 * length (d_rest d) + 1 \<le> Suc f" for dep d vals
  proof -
    have "inspects d (case inspectBoundedSemanticValue f k (Suc dep) d1 vals of
        (None, d2, v2) \<Rightarrow> inspect_items f dep d2 v2 | r \<Rightarrow> r)"
      if "dec_Token d = (GotToken k, d1)" for k d1
      using dec_Token_shorter [OF that] by (intro sub [OF _ le IH(3)]) auto
    then show ?thesis
      unfolding inspect_items.simps
      by (auto simp: inspect_close_ends inspects_error split: prod.split token_result.split)
  qed
  from v m i show ?case by blast
qed simp

lemma see_key_fuel: "see_key key pf \<noteq> Inl ScanFuel"
  by (simp add: see_key_def)

lemma inspect_part_members_ends:
  "2 * length (d_rest d) + 1 \<le> f \<Longrightarrow> inspect_part_members f members pf d vals \<noteq> Inl ScanFuel"
proof (induction f arbitrary: members pf d vals)
  case (Suc f)
  have v: "inspects d2 (inspectBoundedSemanticValue f k 1 d2 vals)" "2 * length (d_rest d2) + 1 \<le> f"
    if "dec_Token d = (GotToken k1, d1)" "dec_Token d1 = (GotToken k, d2)" for k1 k d1 d2
    using dec_Token_shorter [OF that(1)] dec_Token_shorter [OF that(2)] Suc.prems inspect_ends [of f] by auto
  have e: "e \<noteq> ScanFuel" if "dec_Token d = (GotToken k1, d1)" "dec_Token d1 = (GotToken k, d2)"
      "inspectBoundedSemanticValue f k 1 d2 vals = (Some e, x)" for k1 k d1 d2 e x
    using v(1) [OF that(1,2)] that(3) by (auto simp: inspects_def)
  have r: "inspect_part_members f m pf' d3 v3 \<noteq> Inl ScanFuel"
    if "dec_Token d = (GotToken k1, d1)" "dec_Token d1 = (GotToken k, d2)"
      "inspectBoundedSemanticValue f k 1 d2 vals = (None, d3, v3)" for k1 k d1 d2 d3 v3 m pf'
    using v [OF that(1,2)] that(3) by (intro Suc.IH) (auto simp: inspects_def)
  have c: "e \<noteq> ScanFuel" if "inspect_close (CHR 0x7D) d vals = (Some e, x)" for e x
    using inspect_close_ends [of d "CHR 0x7D" vals] that by (auto simp: inspects_def)
  show ?case
    unfolding inspect_part_members.simps
    by (auto simp: fuel_of [OF see_key_fuel] dest: e c r split: prod.split sum.split token_result.split json_token.split option.split)
qed simp


lemmas inspect_value_ends = inspect_ends [THEN conjunct1, rule_format]

lemma inspectSemanticTextContentPart_ends: "inspectSemanticTextContentPart raw \<noteq> Inl ScanFuel"
proof -
  obtain r d where n: "dec_Token (NewDecoder raw) = (r, d)" by fastforce
  define f where "f = 2 * length raw + 2"
  show ?thesis
  proof (cases r)
    case (GotToken k)
    with n have len: "length (d_rest d) < length raw" using dec_Token_shorter [of "NewDecoder raw" k d] by (simp add: NewDecoder_def)
    have v: "inspects d (inspectBoundedSemanticValue f k 0 d 0)"
      by (rule inspect_value_ends) (use len in \<open>simp add: f_def\<close>)
    have m: "inspect_part_members f 0 pf d 1 \<noteq> Inl ScanFuel" for pf
      by (rule inspect_part_members_ends) (use len in \<open>simp add: f_def\<close>)
    show ?thesis
      unfolding inspectSemanticTextContentPart_def n GotToken f_def [symmetric]
      using v fuel_of [OF m]
      by (auto simp: inspects_def Let_def split: prod.split option.split sum.split)
  qed (simp_all add: inspectSemanticTextContentPart_def n)
qed

text \<open>The elements of an array that are buffered as raw text.\<close>

lemma read_parts_ends:
  assumes "read_parts f count rawBytes d = (r, d')" and "length (d_rest d) < f"
  shows "r \<noteq> Inl ScanFuel" and "r = Inr parts \<Longrightarrow> length (d_rest d') \<le> length (d_rest d)"
proof -
  have "r \<noteq> Inl ScanFuel \<and> (\<forall>parts. r = Inr parts \<longrightarrow> length (d_rest d') \<le> length (d_rest d))"
    using assms
  proof (induction f arbitrary: count rawBytes d r d')
    case (Suc f)
    show ?case
    proof (cases "dec_More d")
      case False
      with Suc.prems show ?thesis
        by (auto dest!: dec_Token_shorter split: prod.splits token_result.splits if_splits)
    next
      case True
      show ?thesis
      proof (cases "\<exists>raw d1 isText tx. dec_Decode d = (Some raw, d1) \<and> inspectSemanticTextContentPart raw = Inr (isText, tx)")
        case False
        with Suc.prems(1) True show ?thesis
          by (auto simp: inspectSemanticTextContentPart_ends dest: fuel_of [OF inspectSemanticTextContentPart_ends] split: if_splits option.splits prod.splits sum.splits)
      next
        case more: True
        then obtain raw d1 isText tx where d1: "dec_Decode d = (Some raw, d1)" "inspectSemanticTextContentPart raw = Inr (isText, tx)"
          by blast
        obtain r2 d2 where r2: "read_parts f (Suc count) (rawBytes + length raw) d1 = (r2, d2)" by fastforce
        have l: "length (d_rest d1) < length (d_rest d)" by (rule dec_Decode_shorter [OF d1(1)])
        with Suc.prems have "length (d_rest d1) < f" by simp
        from Suc.IH [OF r2 this] l Suc.prems(1) True d1 r2 show ?thesis by (auto split: if_splits sum.splits)
      qed
    qed
  qed simp
  then show "r \<noteq> Inl ScanFuel" and "r = Inr parts \<Longrightarrow> length (d_rest d') \<le> length (d_rest d)" by auto
qed

lemma override_parts_fuel: "override_parts redact spans offset n parts \<noteq> Inl ScanFuel"
  by (induction redact spans offset n parts rule: override_parts.induct)
     (auto simp: fuel_of [OF redactTextPart_fuel] split: sum.splits if_splits)

lemma processSemanticMessageText_advances:
  assumes "processSemanticMessageText parts p = (r, q)"
  shows "r \<noteq> Inl ScanFuel" and "left_bytes q = left_bytes p"
  using assms override_parts_fuel aggregate_fuel
  by (auto simp: processSemanticMessageText_def Let_def split: option.splits if_splits sum.splits)

text \<open>The loops, given that a value below advances.\<close>

lemma object_loop_advances:
  assumes child: "\<And>ctx q. advances 0 q (child ctx q)" and "left_bytes p < f"
  shows "advances 0 p (object_loop f child dep ctx seen members p)"
  using assms(2)
proof (induction f arbitrary: seen members p)
  case (Suc f)
  obtain r q where k: "processKey dep ctx seen (Suc members) p = (r, q)" by fastforce
  show ?case
  proof (cases r)
    case (Inl e)
    then show ?thesis using processKey_advances(1) [OF k] by (auto simp: k closing_advances advances_error)
  next
    case (Inr key)
    have lt: "left_bytes q < left_bytes p" by (rule processKey_advances(2) [OF k Inr])
    have v: "advances 0 q (if ctx = ContextContentPart \<and> key = ''text'' \<and> sj_override q \<noteq> None
                       then processContentTextValue (Suc dep) (the (sj_override q)) q
                       else child (child_context ctx key) q)"
      using child processContentTextValue_advances by simp
    from advances_and_ok0 [OF v] have "advances 0 q (and_ok (if ctx = ContextContentPart \<and> key = ''text'' \<and> sj_override q \<noteq> None
                       then processContentTextValue (Suc dep) (the (sj_override q)) q
                       else child (child_context ctx key) q) (object_loop f child dep ctx (key # seen) (Suc members)))"
      using Suc.IH lt Suc.prems by simp
    from advances_from [OF this, of 0] lt show ?thesis by (simp add: k Inr closing_advances advances_error)
  qed
qed simp

lemma array_loop_advances:
  assumes child: "\<And>ctx q. advances 1 q (child ctx q)" and "left_bytes p < f"
  shows "advances 0 p (array_loop f child ctx items p)"
  using assms(2)
proof (induction f arbitrary: items p)
  case (Suc f)
  have "advances (0 + 1) p (and_ok (if 0 < items then writeBytes '','' p else (None, p))
          (child (if ctx = ContextMessages then ContextMessage else ContextGeneric)))"
    by (rule advances_and_ok [OF _ child]) (simp add: writeBytes_advances advances_def [where r = "(None, _)"])
  from advances_and_ok [OF this, of 0] show ?case
    using Suc by (simp add: closing_advances advances_weaken [of 1 p _ 0])
qed simp

lemma processContentPartRaw_advances:
  assumes "\<And>ctx q. advances 1 q (child ctx q)"
  shows "advances 0 p (processContentPartRaw child part p)"
  using assms [of "part_processor part p" ContextContentPart]
  by (auto simp: processContentPartRaw_def advances_def Let_def split: prod.split option.split)

lemma parts_loop_advances:
  assumes child: "\<And>ctx q. advances 1 q (child ctx q)"
  shows "advances 0 p (parts_loop parts child i p)"
proof (induction parts arbitrary: i p)
  case (Cons part parts)
  have "advances 0 p (and_ok (if 0 < i then writeBytes '','' p else (None, p)) (processContentPartRaw child part))"
    by (rule advances_and_ok0 [OF _ processContentPartRaw_advances [OF child]])
      (simp add: writeBytes_advances advances_def [where r = "(None, _)"])
  from advances_and_ok0 [OF this Cons.IH] show ?case by simp
qed (simp add: advances_def)

lemma processContentPartsArray_advances:
  assumes child: "\<And>ctx q. advances 1 q (child ctx q)"
  shows "advances 0 p (processContentPartsArray child p)"
  unfolding processContentPartsArray_def
proof (rule advances_and_ok0 [OF writeBytes_advances])
  fix q
  obtain r d where r: "read_parts (Suc (left_bytes q)) 0 0 (sj_decoder q) = (r, d)" by (rule prod.exhaust)
  show "advances 0 q (let (r, d) = read_parts (Suc (left_bytes q)) 0 0 (sj_decoder q); p2 = q\<lparr>sj_decoder := d\<rparr>
       in case r of
            Inl e \<Rightarrow> (Some e, p2)
          | Inr parts \<Rightarrow>
              (case processSemanticMessageText parts p2 of
                 (Inl e, p3) \<Rightarrow> (Some e, p3)
               | (Inr parts', p3) \<Rightarrow> and_ok (parts_loop parts' child 0 p3) (writeBytes '']'')))"
  proof (cases r)
    case (Inl e)
    then show ?thesis using read_parts_ends(1) [OF r] by (simp add: r advances_error del: read_parts.simps)
  next
    case (Inr parts)
    have l: "length (d_rest d) \<le> left_bytes q" by (rule read_parts_ends(2) [OF r _ Inr]) simp
    obtain s p3 where s: "processSemanticMessageText parts (q\<lparr>sj_decoder := d\<rparr>) = (s, p3)" by fastforce
    note s' = processSemanticMessageText_advances [OF s]
    show ?thesis
    proof (cases s)
      case (Inr parts')
      have "advances 0 p3 (and_ok (parts_loop parts' child 0 p3) (writeBytes '']''))"
        by (rule advances_and_ok0 [OF parts_loop_advances [OF child] writeBytes_advances])
      then have "advances 0 q (and_ok (parts_loop parts' child 0 p3) (writeBytes '']''))"
        by (rule advances_from) (use s'(2) l in simp)
      with \<open>r = Inr parts\<close> Inr show ?thesis by (simp add: r s del: read_parts.simps)
    qed (use s'(1) \<open>r = Inr parts\<close> in \<open>simp add: r s advances_error del: read_parts.simps\<close>)
  qed
qed

lemma processValue_advances: "advances 1 p (processValue n ctx p)"
proof (induction n arbitrary: ctx p)
  case (Suc below)
  have below: "advances 0 q (processValue below ctx q)" for ctx q
    by (rule advances_weaken [OF Suc.IH]) simp
  let ?p = "p\<lparr>sj_values := Suc (sj_values p)\<rparr>"
  obtain r q where n: "next_token ?p = (r, q)" by fastforce
  show ?case
  proof (cases r)
    case (GotToken k)
    from next_token_less [of ?p k q] n GotToken have lt: "left_bytes q + 1 \<le> left_bytes p + 0" by simp
    have "advances 0 q (processObject (processValue below) dep ctx q)" for dep
      unfolding processObject_def by (intro advances_and_ok0 writeBytes_advances object_loop_advances below) simp
    moreover have "advances 0 q (processArray (processValue below) ctx q)"
      unfolding processArray_def by (intro advances_and_ok0 writeBytes_advances array_loop_advances Suc.IH) simp
    ultimately have "advances 0 q
       (if k = Delim (CHR 0x7B) then processObject (processValue below) (maxSemanticJSONDepth - below) ctx q
        else if k = Delim (CHR ''['') then
          (if ctx = ContextMessageContent then processContentPartsArray (processValue below) q
           else processArray (processValue below) ctx q)
        else processScalar k q)"
      using processContentPartsArray_advances [OF Suc.IH] processScalar_advances by simp
    from advances_from [OF this lt] show ?thesis
      by (simp add: n GotToken Let_def advances_error)
  qed (simp_all add: n Let_def advances_error)
qed (simp add: advances_error)

text \<open>
  C6. The scan of a request body always ends: for every body, every set of rules and every mode, the
  recursion over nested values and the loops over members, items and content parts come to an end
  within the text, so the scanner returns an answer and never the cut-off marker of the model.
\<close>
theorem ProcessJSON_ends: "fst (ProcessJSON s body outputMax) \<noteq> Inl ScanFuel"
  using processValue_advances [of "scan_start s body (min outputMax maxSemanticRequestBodyBytes)" "Suc maxSemanticJSONDepth" ContextRoot]
  by (auto simp: ProcessJSON_def advances_def Let_def simp del: processValue.simps split: prod.split option.split)

section \<open>What the scan writes\<close>

text \<open>
  A text without what the rules match: the redaction of a piece of some text against the spans of the
  whole, so that by the characterisation of redaction it holds unmatched bytes and placeholders only.
\<close>

definition redacted_text :: "RedactionRule list \<Rightarrow> string \<Rightarrow> bool" where
  "redacted_text rules s \<longleftrightarrow>
     s = [] \<or> (\<exists>whole off n spans found. aggregateRedactionSpans whole rules = Inr (spans, found)
                \<and> off + n \<le> length whole \<and> redactTextPart (take n (drop off whole)) off spans = Inr s)"

fun clean :: "RedactionRule list \<Rightarrow> json \<Rightarrow> bool" where
  "clean rules (JStr s) \<longleftrightarrow> redacted_text rules s"
| "clean rules (JNum n) \<longleftrightarrow> lex_num n = Some (n, []) \<and> \<not> rulesMatchString n rules
     \<and> (\<forall>d. canonicalNumericPIICandidate n = Inr (Some d) \<longrightarrow> \<not> rulesMatchString d rules)"
| "clean rules (JArr vs) \<longleftrightarrow> (\<forall>v \<in> set vs. clean rules v)"
| "clean rules (JObj ms) \<longleftrightarrow> distinct (map fst ms) \<and> (\<forall>(k, v) \<in> set ms. \<not> rulesMatchString k rules \<and> clean rules v)"
| "clean rules _ \<longleftrightarrow> True"

definition same_config :: "semanticJSONProcessor \<Rightarrow> semanticJSONProcessor \<Rightarrow> bool" where
  "same_config p q \<longleftrightarrow> sj_mode q = sj_mode p \<and> sj_rules q = sj_rules p \<and> sj_outputMax q = sj_outputMax p
     \<and> sj_override q = sj_override p"

definition fits :: "semanticJSONProcessor \<Rightarrow> bool" where
  "fits p \<longleftrightarrow> (\<forall>out. sj_output p = Some out \<longrightarrow> int (length out) \<le> sj_outputMax p)"

text \<open>
  A step writes a text in \<open>W\<close>: it appends to the output within the limit, keeps the configuration,
  and in block mode succeeds only without a finding.
\<close>

definition emits :: "(bytes \<Rightarrow> bool) \<Rightarrow> semanticJSONProcessor \<Rightarrow> scan_step \<Rightarrow> bool" where
  "emits W p r \<longleftrightarrow>
     (let (e, q) = r
      in same_config p q \<and> (fits p \<longrightarrow> fits q)
         \<and> (e = None \<and> sj_mode p = ModeBlock \<and> \<not> sj_foundPII p \<longrightarrow> \<not> sj_foundPII q)
         \<and> (sj_output p = None \<longleftrightarrow> sj_output q = None)
         \<and> (\<forall>out. e = None \<and> sj_mode p = ModeRedact \<and> sj_output p = Some out \<longrightarrow>
              (\<exists>b. sj_output q = Some (out @ b) \<and> W b)))"

lemma same_config_trans: "same_config p q \<Longrightarrow> same_config q r \<Longrightarrow> same_config p r"
  by (simp add: same_config_def)

lemma emits_and_ok:
  assumes r: "emits V p r" and k: "\<And>q. same_config p q \<Longrightarrow> emits W q (k q)" and U: "\<And>b c. V b \<Longrightarrow> W c \<Longrightarrow> U (b @ c)"
  shows "emits U p (and_ok r k)"
proof (cases r)
  case (Pair e q)
  show ?thesis
  proof (cases e)
    case None
    have sc: "same_config p q" using r by (simp add: Pair emits_def)
    obtain e2 q2 where k2: "k q = (e2, q2)" by fastforce
    have q: "sj_mode q = sj_mode p" "same_config q q2" using sc k [OF sc] by (simp_all add: same_config_def emits_def k2)
    have out: "\<exists>b. sj_output q2 = Some (out @ b) \<and> U b"
      if h: "e2 = None \<and> sj_mode p = ModeRedact \<and> sj_output p = Some out" for out
    proof -
      obtain b where b: "sj_output q = Some (out @ b)" "V b" using r h by (auto simp: Pair None emits_def)
      then obtain c where "sj_output q2 = Some ((out @ b) @ c)" "W c" using k [OF sc] h q(1) by (auto simp: k2 emits_def)
      with U [OF b(2)] show ?thesis by auto
    qed
    have "(fits p \<longrightarrow> fits q2)" "sj_output p = None \<longleftrightarrow> sj_output q2 = None"
      "e2 = None \<and> sj_mode p = ModeBlock \<and> \<not> sj_foundPII p \<longrightarrow> \<not> sj_foundPII q2"
      using r k [OF sc] q(1) by (simp_all add: Pair None k2 emits_def)
    with same_config_trans [OF sc q(2)] out show ?thesis by (simp add: Pair None and_ok_def k2 emits_def)
  qed (use r in \<open>simp add: Pair and_ok_def emits_def\<close>)
qed

lemma emits_weaken: "emits V p r \<Longrightarrow> (\<And>b. V b \<Longrightarrow> W b) \<Longrightarrow> emits W p r"
  unfolding emits_def by (fastforce split: prod.splits)

lemma emits_error: "same_config p q \<Longrightarrow> (fits p \<longrightarrow> fits q) \<Longrightarrow> sj_output p = None \<longleftrightarrow> sj_output q = None \<Longrightarrow> emits W p (Some e, q)"
  by (simp add: emits_def)

lemma writeBytes_emits: "emits ((=) b) p (writeBytes b p)"
  by (auto simp: writeBytes_def emits_def same_config_def fits_def split: option.split)

lemma writeJSONString_emits: "emits ((=) (quote s)) p (writeJSONString s p)"
  by (simp add: writeJSONString_def writeBytes_emits)

lemma emits_nothing: "emits ((=) []) p (None, p)"
  by (simp add: emits_def same_config_def)

lemma blocked_match_emits: "emits (\<lambda>b. b = [] \<and> \<not> m) p (blocked_match m p)"
  by (simp add: blocked_match_def emits_def same_config_def fits_def Let_def)


lemma redacted_whole:
  assumes "aggregateRedactionSpans v rules = Inr (spans, found)" and "redactTextPart v 0 spans = Inr s"
  shows "redacted_text rules s"
  unfolding redacted_text_def using assms by (intro disjI2 exI [of _ v] exI [of _ 0] exI [of _ "length v"]) auto

lemma unmatched_spans: "aggregateRedactionSpans v rules = Inr (spans, False) \<Longrightarrow> spans = []"
  by (auto simp: aggregateRedactionSpans_def sort_spans_def split: sum.splits)

lemma redactTextPart_none: "redactTextPart v off [] = Inr v"
  by (simp add: redactTextPart_def)

definition no_alias :: "json \<Rightarrow> bool" where
  "no_alias t \<longleftrightarrow> (case t of JObj ms \<Rightarrow> \<forall>(k, v) \<in> set ms. \<not> isSecurityFieldAlias k | _ \<Rightarrow> True)"

definition value_text :: "RedactionRule list \<Rightarrow> nat \<Rightarrow> bytes \<Rightarrow> bool" where
  "value_text rules n b \<longleftrightarrow>
     (\<exists>t. b = json_print t \<and> clean rules t \<and> depth t \<le> n \<and> (n = Suc maxSemanticJSONDepth \<longrightarrow> no_alias t))"

lemma value_textI:
  "clean rules t \<Longrightarrow> depth t \<le> n \<Longrightarrow> (n = Suc maxSemanticJSONDepth \<Longrightarrow> no_alias t) \<Longrightarrow> value_text rules n (json_print t)"
  by (auto simp: value_text_def)

lemma emits_other_mode: "emits V p r \<Longrightarrow> sj_mode p \<noteq> ModeRedact \<Longrightarrow> emits W p r"
  by (simp add: emits_def split: prod.splits)

lemma writeJSONString_value:
  assumes "sj_mode p = ModeRedact \<Longrightarrow> redacted_text (sj_rules p) s"
  shows "emits (value_text (sj_rules p) n) p (writeJSONString s p)"
proof (cases "sj_mode p = ModeRedact")
  case True
  with assms value_textI [of _ "JStr s"] show ?thesis
    by (intro emits_weaken [OF writeJSONString_emits]) (auto simp: no_alias_def)
qed (rule emits_other_mode [OF writeJSONString_emits])

lemma emits_found: 
  assumes "emits W (p\<lparr>sj_foundPII := True\<rparr>) r" and "sj_mode p \<noteq> ModeBlock"
  shows "emits W p r"
  using assms by (auto simp: emits_def same_config_def fits_def split: prod.splits)

lemma processStringValue_emits: "emits (value_text (sj_rules p) n) p (processStringValue v p)"
proof (cases "aggregateRedactionSpans v (sj_rules p)")
  case (Inl e)
  then show ?thesis by (simp add: processStringValue_def emits_error same_config_def)
next
  case (Inr ms)
  obtain spans matched where ms: "ms = (spans, matched)" by fastforce
  note agg = Inr [unfolded ms]
  show ?thesis
  proof (cases matched)
    case False
    have "spans = []" using agg False by (simp add: unmatched_spans)
    then have "redacted_text (sj_rules p) v" using redacted_whole [OF agg] by (simp add: redactTextPart_none)
    from writeJSONString_value [OF this] show ?thesis
      by (auto simp: processStringValue_def agg False Let_def emits_def same_config_def)
  next
    case True
    have "emits (value_text (sj_rules p) n) p (writeJSONString s (p\<lparr>sj_foundPII := True\<rparr>))"
      if "redactTextPart v 0 spans = Inr s" "sj_mode p \<noteq> ModeBlock" for s
      by (rule emits_found [OF _ that(2)]) (use writeJSONString_value [of "p\<lparr>sj_foundPII := True\<rparr>" s n] redacted_whole [OF agg that(1)] in simp)
    then show ?thesis
      by (auto simp: processStringValue_def agg True Let_def emits_def [where r = "(None, _)"] same_config_def fits_def
          intro!: emits_error split: sum.split)
  qed
qed

lemma processNumber_emits:
  assumes "lex_num raw = Some (raw, [])"
  shows "emits (value_text (sj_rules p) n) p (processNumber raw p)"
proof -
  define m where "m = (if rulesMatchString raw (sj_rules p) then Inr True
                 else case canonicalNumericPIICandidate raw of
                        Inl e \<Rightarrow> Inl e
                      | Inr None \<Rightarrow> Inr False
                      | Inr (Some digits) \<Rightarrow> Inr (rulesMatchString digits (sj_rules p)))"
  have "clean (sj_rules p) (JNum raw)" if "m = Inr False"
    using that assms by (auto simp: m_def split: if_splits sum.splits option.splits)
  then have "emits (value_text (sj_rules p) n) p (and_ok (blocked_match b p) (writeBytes raw))" if "m = Inr b" for b
    using that value_textI [of _ "JNum raw"]
    by (intro emits_and_ok [OF blocked_match_emits writeBytes_emits]) (auto simp: no_alias_def)
  then show ?thesis unfolding processNumber_def m_def [symmetric]
    by (simp add: emits_error same_config_def split: sum.split)
qed

lemma processScalar_emits:
  assumes "\<And>raw. k = TokNumber raw \<Longrightarrow> lex_num raw = Some (raw, [])"
  shows "emits (value_text (sj_rules p) n) p (processScalar k p)"
proof -
  have "emits (value_text (sj_rules p) n) p (writeBytes (json_print t) p)" if "clean (sj_rules p) t" "depth t = 0" "no_alias t" for t
    by (rule emits_weaken [OF writeBytes_emits]) (use that value_textI in auto)
  from this [of "JBool _"] this [of JNull] assms show ?thesis
    by (auto simp: no_alias_def processScalar_def processStringValue_emits processNumber_emits emits_error same_config_def
        split: json_token.split)
qed


lemma emits_decoder [simp]: "emits W (p\<lparr>sj_decoder := d\<rparr>) r = emits W p r" "emits W (p\<lparr>sj_values := n\<rparr>) r = emits W p r"
  by (simp_all add: emits_def same_config_def fits_def)

lemma emits_token: "next_token p = (k, q) \<Longrightarrow> emits W q r = emits W p r"
  by (auto simp: next_token_def split: prod.splits)

lemma emits_refused: "next_token p = (k, q) \<Longrightarrow> emits W p (Some e, q)"
  by (auto simp: emits_token [symmetric] emits_error same_config_def)

definition key_ok :: "RedactionRule list \<Rightarrow> nat \<Rightarrow> string \<Rightarrow> bool" where
  "key_ok rules dep k \<longleftrightarrow> \<not> rulesMatchString k rules \<and> (dep = 0 \<longrightarrow> \<not> isSecurityFieldAlias k)"

lemma comma_emits:
  "emits (\<lambda>b. b = (if c then '','' else [])) p (if c then writeBytes '','' p else (None, p))"
  using emits_weaken [OF writeBytes_emits] emits_weaken [OF emits_nothing] by simp

lemma writeKey_emits:
  "emits (\<lambda>b. b = (if 1 < members then '','' else []) @ quote k @ '':'' \<and> \<not> rulesMatchString k (sj_rules p)) p (writeKey members k p)"
  unfolding writeKey_def
  by (rule emits_and_ok [OF emits_and_ok [OF emits_and_ok [OF blocked_match_emits comma_emits]
        writeJSONString_emits] writeBytes_emits]) auto

lemma processKey_emits:
  assumes "processKey dep ctx seen members p = (r, q)"
  shows "r = Inl e \<Longrightarrow> emits W p (Some e, q)"
    and "r = Inr key \<Longrightarrow> key \<notin> set seen \<and>
          emits (\<lambda>b. b = (if 1 < members then '','' else []) @ quote key @ '':'' \<and> key_ok (sj_rules p) dep key) p (None, q)"
proof -
  obtain t p1 where n: "next_token p = (t, p1)" by fastforce
  have rules: "sj_rules p1 = sj_rules p" using n by (auto simp: next_token_def split: prod.splits)
  note run = writeKey_emits [of members _ p1, unfolded emits_token [OF n] rules]
  from assms consider (bad) e' where "r = Inl e'" "q = p1"
    | (stopped) k e' where "r = Inl e'" "writeKey members k p1 = (Some e', q)"
    | (ran) k where "r = Inr k" "k \<notin> set seen" "\<not> (dep = 0 \<and> isSecurityFieldAlias k)" "writeKey members k p1 = (None, q)"
    unfolding processKey_def n
    by (auto split: token_result.splits json_token.splits if_splits prod.splits option.splits)
  note cases = this
  show "emits W p (Some e, q)" if "r = Inl e"
    using cases
  proof cases
    case (stopped k e')
    with run [of k] show ?thesis using that by (simp add: emits_def)
  qed (use that emits_refused [OF n] in auto)
  show "key \<notin> set seen \<and>
          emits (\<lambda>b. b = (if 1 < members then '','' else []) @ quote key @ '':'' \<and> key_ok (sj_rules p) dep key) p (None, q)"
    if "r = Inr key"
    using cases
  proof cases
    case (ran k)
    with that have k: "k = key" by simp
    show ?thesis using ran k emits_weaken [OF run [of key, unfolded ran(4) [unfolded k]]] by (auto simp: key_ok_def)
  qed (use that in auto)
qed

lemma closing_emits: "emits ((=) [c]) p (closing c p)"
proof -
  obtain t q where n: "next_token p = (t, q)" by fastforce
  show ?thesis using writeBytes_emits [of "[c]" q]
    by (auto simp: closing_def n emits_refused [OF n] emits_token [OF n] split: token_result.split)
qed

lemma processContentTextValue_emits:
  assumes "sj_mode p = ModeRedact \<Longrightarrow> redacted_text (sj_rules p) override"
  shows "emits (value_text (sj_rules p) n) p (processContentTextValue dep override p)"
proof -
  let ?p = "p\<lparr>sj_values := Suc (sj_values p)\<rparr>"
  obtain r q where n: "next_token ?p = (r, q)" by fastforce
  have rules: "sj_rules q = sj_rules p" "sj_mode q = sj_mode p" using n by (auto simp: next_token_def split: prod.splits)
  have "emits (value_text (sj_rules p) n) p (writeJSONString override q)"
    using writeJSONString_value [of q override n] assms rules emits_token [OF n] by simp
  then show ?thesis
    using emits_refused [OF n]
    by (auto simp: processContentTextValue_def Let_def n emits_error same_config_def fits_def split: token_result.split json_token.split)
qed


text \<open>The text of the members or items that are left, and of a value, for a function that writes one value below.\<close>

definition members_text :: "RedactionRule list \<Rightarrow> nat \<Rightarrow> nat \<Rightarrow> nat \<Rightarrow> string list \<Rightarrow> bytes \<Rightarrow> bool" where
  "members_text rules dep n count seen b \<longleftrightarrow>
     (\<exists>ms. b = (if 0 < count \<and> ms \<noteq> [] then '','' else []) @ print_members ms \<and> distinct (map fst ms)
        \<and> set (map fst ms) \<inter> set seen = {}
        \<and> (\<forall>(k, v) \<in> set ms. key_ok rules dep k \<and> clean rules v \<and> depth v \<le> n))"

definition items_text :: "RedactionRule list \<Rightarrow> nat \<Rightarrow> nat \<Rightarrow> bytes \<Rightarrow> bool" where
  "items_text rules n count b \<longleftrightarrow>
     (\<exists>vs. b = (if 0 < count \<and> vs \<noteq> [] then '','' else []) @ print_elems vs \<and> (\<forall>v \<in> set vs. clean rules v \<and> depth v \<le> n))"

definition override_ok :: "semanticJSONProcessor \<Rightarrow> bool" where
  "override_ok p \<longleftrightarrow>
     (\<forall>override. sj_override p = Some override \<and> sj_mode p = ModeRedact \<longrightarrow> redacted_text (sj_rules p) override)"

definition writes_values :: "nat \<Rightarrow> value_step \<Rightarrow> bool" where
  "writes_values n child \<longleftrightarrow> (\<forall>ctx p. override_ok p \<longrightarrow> emits (value_text (sj_rules p) n) p (child ctx p))"

lemma writes_valuesD: "writes_values n child \<Longrightarrow> override_ok p \<Longrightarrow> emits (value_text (sj_rules p) n) p (child ctx p)"
  by (simp add: writes_values_def)

lemma same_rules: "same_config p q \<Longrightarrow> sj_rules q = sj_rules p"
  by (simp add: same_config_def)

lemma same_override: "same_config p q \<Longrightarrow> override_ok p \<Longrightarrow> override_ok q"
  by (simp add: same_config_def override_ok_def)

lemma member_first:
  assumes b: "b = (if 1 < Suc count then '','' else []) @ quote k @ '':''" "key_ok rules dep k" "k \<notin> set seen"
    and v: "value_text rules n c" and r: "members_text rules dep n (Suc count) (k # seen) d"
  shows "members_text rules dep n count seen (b @ c @ d)"
proof -
  obtain t where t: "c = json_print t" "clean rules t" "depth t \<le> n" using v by (auto simp: value_text_def)
  obtain ms where ms: "d = (if ms \<noteq> [] then '','' else []) @ print_members ms" "distinct (map fst ms)"
      "set (map fst ms) \<inter> set (k # seen) = {}" "\<forall>(k, v) \<in> set ms. key_ok rules dep k \<and> clean rules v \<and> depth v \<le> n"
    using r unfolding members_text_def by auto
  have "b @ c @ d = (if 0 < count \<and> (k, t) # ms \<noteq> [] then '','' else []) @ print_members ((k, t) # ms)"
    using b(1) t(1) ms(1) by (cases ms) auto
  moreover have "distinct (map fst ((k, t) # ms))" "set (map fst ((k, t) # ms)) \<inter> set seen = {}"
    using ms(2,3) b(3) by auto
  ultimately show ?thesis unfolding members_text_def using ms(4) b(2) t(2,3) by (intro exI [of _ "(k, t) # ms"]) simp
qed

lemma item_first:
  assumes "value_text rules n c" and "items_text rules n (Suc count) d"
  shows "items_text rules n count ((if 0 < count then '','' else []) @ c @ d)"
proof -
  obtain t where t: "c = json_print t" "clean rules t" "depth t \<le> n" using assms(1) by (auto simp: value_text_def)
  obtain vs where vs: "d = (if vs \<noteq> [] then '','' else []) @ print_elems vs" "\<forall>v \<in> set vs. clean rules v \<and> depth v \<le> n"
    using assms(2) unfolding items_text_def by auto
  have "(if 0 < count then '','' else []) @ c @ d = (if 0 < count \<and> t # vs \<noteq> [] then '','' else []) @ print_elems (t # vs)"
    using t(1) vs(1) by (cases vs) auto
  then show ?thesis unfolding items_text_def using vs(2) t(2,3) by (intro exI [of _ "t # vs"]) simp
qed

lemma object_loop_emits:
  assumes child: "writes_values n child" and "override_ok p"
  shows "emits (members_text (sj_rules p) dep n members seen) p (object_loop f child dep ctx seen members p)"
  using assms(2)
proof (induction f arbitrary: seen members p)
  case (Suc f)
  obtain r q where k: "processKey dep ctx seen (Suc members) p = (r, q)" by fastforce
  have stop: "emits (members_text (sj_rules p) dep n members seen) p (closing (CHR 0x7D) p)"
    by (rule emits_weaken [OF closing_emits]) (auto simp: members_text_def intro!: exI [of _ "[]"])
  show ?case
  proof (cases r)
    case (Inl e)
    then show ?thesis using processKey_emits(1) [OF k Inl] stop by (simp add: k emits_error same_config_def)
  next
    case (Inr key)
    note key = processKey_emits(2) [OF k Inr]
    let ?v = "\<lambda>q. if ctx = ContextContentPart \<and> key = ''text'' \<and> sj_override q \<noteq> None
                       then processContentTextValue (Suc dep) (the (sj_override q)) q
                       else child (child_context ctx key) q"
    have v: "emits (value_text (sj_rules p) n) q (?v q)" if "same_config p q" for q
      using writes_valuesD [OF child same_override [OF that Suc.prems]] processContentTextValue_emits [of q]
        same_override [OF that Suc.prems] same_rules [OF that] by (auto simp: override_ok_def)
    have rest: "emits (members_text (sj_rules p) dep n (Suc members) (key # seen)) q
                  (object_loop f child dep ctx (key # seen) (Suc members) q)" if "same_config p q" for q
      using Suc.IH [OF same_override [OF that Suc.prems]] same_rules [OF that] by simp
    have both: "emits (\<lambda>b. \<exists>c d. b = c @ d \<and> value_text (sj_rules p) n c \<and> members_text (sj_rules p) dep n (Suc members) (key # seen) d) q
            (and_ok (?v q) (object_loop f child dep ctx (key # seen) (Suc members)))" if "same_config p q" for q
      using same_config_trans [OF that] by (intro emits_and_ok [OF v [OF that] rest]) auto
    have "emits (members_text (sj_rules p) dep n members seen) p
            (and_ok (None, q) (\<lambda>q. and_ok (?v q) (object_loop f child dep ctx (key # seen) (Suc members))))"
    proof (rule emits_and_ok [OF key [THEN conjunct2] both])
      fix b c'
      assume "b = (if 1 < Suc members then '','' else []) @ quote key @ '':'' \<and> key_ok (sj_rules p) dep key"
        and "\<exists>c d. c' = c @ d \<and> value_text (sj_rules p) n c \<and> members_text (sj_rules p) dep n (Suc members) (key # seen) d"
      then show "members_text (sj_rules p) dep n members seen (b @ c')" using key [THEN conjunct1] member_first by blast
    qed
    then show ?thesis using stop by (simp add: k Inr and_ok_def [of "(None, _)"] emits_error same_config_def)
  qed
qed (simp add: emits_error same_config_def)

lemma array_loop_emits:
  assumes child: "writes_values n child" and "override_ok p"
  shows "emits (items_text (sj_rules p) n items) p (array_loop f child ctx items p)"
  using assms(2)
proof (induction f arbitrary: items p)
  case (Suc f)
  let ?ctx = "if ctx = ContextMessages then ContextMessage else ContextGeneric"
  have stop: "emits (items_text (sj_rules p) n items) p (closing (CHR '']'') p)"
    by (rule emits_weaken [OF closing_emits]) (auto simp: items_text_def intro!: exI [of _ "[]"])
  have v: "emits (value_text (sj_rules p) n) q (child ?ctx q)" if "same_config p q" for q
    using writes_valuesD [OF child same_override [OF that Suc.prems]] same_rules [OF that] by simp
  have rest: "emits (items_text (sj_rules p) n (Suc items)) q (array_loop f child ctx (Suc items) q)" if "same_config p q" for q
    using Suc.IH [OF same_override [OF that Suc.prems]] same_rules [OF that] by simp
  have "emits (items_text (sj_rules p) n items) p (and_ok (and_ok (if 0 < items then writeBytes '','' p else (None, p)) (child ?ctx))
          (array_loop f child ctx (Suc items)))"
    by (rule emits_and_ok [OF emits_and_ok [OF comma_emits v, where U = "\<lambda>b. \<exists>c. b = (if 0 < items then '','' else []) @ c
          \<and> value_text (sj_rules p) n c"] rest]) (auto simp: item_first [simplified])
  with stop show ?case by simp
qed (simp add: emits_error same_config_def)


lemma processObject_emits:
  assumes "writes_values n child" and "override_ok p" and "Suc n = Suc maxSemanticJSONDepth \<Longrightarrow> dep = 0"
  shows "emits (value_text (sj_rules p) (Suc n)) p (processObject child dep ctx p)"
  unfolding processObject_def
proof (rule emits_and_ok [OF writeBytes_emits])
  show "emits (members_text (sj_rules p) dep n 0 []) q (object_loop (Suc (left_bytes q)) child dep ctx [] 0 q)"
    if "same_config p q" for q
    using object_loop_emits [OF assms(1) same_override [OF that assms(2)]] same_rules [OF that] by (simp only:)
  fix b c
  assume b: "[CHR 0x7B] = b" and "members_text (sj_rules p) dep n 0 [] c"
  then obtain ms where ms: "c = print_members ms" "distinct (map fst ms)"
      "\<forall>(k, v) \<in> set ms. key_ok (sj_rules p) dep k \<and> clean (sj_rules p) v \<and> depth v \<le> n"
    unfolding members_text_def by auto
  have "foldr max (map (\<lambda>(k, v). depth v) ms) 0 \<le> n" using ms(3) by (induction ms) auto
  then have "value_text (sj_rules p) (Suc n) (json_print (JObj ms))"
    using ms(2,3) assms(3) by (intro value_textI) (auto simp: key_ok_def no_alias_def)
  then show "value_text (sj_rules p) (Suc n) (b @ c)" using b ms(1) by auto
qed

lemma items_value:
  assumes "items_text rules n 0 c"
  shows "value_text rules (Suc n) (''['' @ c)"
proof -
  obtain vs where vs: "c = print_elems vs" "\<forall>v \<in> set vs. clean rules v \<and> depth v \<le> n"
    using assms unfolding items_text_def by auto
  have "foldr max (map depth vs) 0 \<le> n" using vs(2) by (induction vs) auto
  then have "value_text rules (Suc n) (json_print (JArr vs))" using vs(2) by (intro value_textI) (auto simp: no_alias_def)
  then show ?thesis using vs(1) by simp
qed

lemma processArray_emits:
  assumes "writes_values n child" and "override_ok p"
  shows "emits (value_text (sj_rules p) (Suc n)) p (processArray child ctx p)"
  unfolding processArray_def
proof (rule emits_and_ok [OF writeBytes_emits])
  show "emits (items_text (sj_rules p) n 0) q (array_loop (Suc (left_bytes q)) child ctx 0 q)" if "same_config p q" for q
    using array_loop_emits [OF assms(1) same_override [OF that assms(2)]] same_rules [OF that] by (simp only:)
qed (use items_value in auto)

text \<open>The parts of a message.\<close>

definition part_ok :: "RedactionRule list \<Rightarrow> semanticContentPart \<Rightarrow> bool" where
  "part_ok rules part \<longleftrightarrow> (cp_isText part \<longrightarrow> redacted_text rules (cp_textOverride part))"

definition parts_ok :: "semanticJSONProcessor \<Rightarrow> semanticContentPart list \<Rightarrow> bool" where
  "parts_ok p parts \<longleftrightarrow> (sj_mode p = ModeRedact \<longrightarrow> list_all (part_ok (sj_rules p)) parts)"

lemma processContentPartRaw_emits:
  assumes "writes_values n child" and "parts_ok p [part]"
  shows "emits (value_text (sj_rules p) n) p (processContentPartRaw child part p)"
proof -
  let ?p = "part_processor part p"
  have "override_ok ?p" using assms(2) by (auto simp: override_ok_def part_processor_def part_ok_def parts_ok_def)
  from writes_valuesD [OF assms(1) this, of ContextContentPart]
  show ?thesis
    by (cases "child ContextContentPart ?p")
      (auto simp: processContentPartRaw_def part_processor_def Let_def emits_def same_config_def fits_def split: option.split)
qed

lemma parts_loop_emits:
  assumes child: "writes_values n child" and "parts_ok p parts"
  shows "emits (\<lambda>b. items_text (sj_rules p) n i (b @ '']'')) p (parts_loop parts child i p)"
  using assms(2)
proof (induction parts arbitrary: i p)
  case Nil
  show ?case by (simp, rule emits_weaken [OF emits_nothing]) (auto simp: items_text_def intro!: exI [of _ "[]"])
next
  case (Cons part parts)
  have v: "emits (value_text (sj_rules p) n) q (processContentPartRaw child part q)" if "same_config p q" for q
    using processContentPartRaw_emits [OF child, of q part] Cons.prems that by (simp add: parts_ok_def same_config_def)
  have rest: "emits (\<lambda>b. items_text (sj_rules p) n (Suc i) (b @ '']'')) q (parts_loop parts child (Suc i) q)" if "same_config p q" for q
    using Cons.IH [of q "Suc i"] Cons.prems that by (simp add: parts_ok_def same_config_def)
  have "emits (\<lambda>b. items_text (sj_rules p) n i (b @ '']'')) p
          (and_ok (and_ok (if 0 < i then writeBytes '','' p else (None, p)) (processContentPartRaw child part))
             (parts_loop parts child (Suc i)))"
    by (rule emits_and_ok [OF emits_and_ok [OF comma_emits v, where U = "\<lambda>b. \<exists>c. b = (if 0 < i then '','' else []) @ c
          \<and> value_text (sj_rules p) n c"] rest]) (auto simp: item_first [simplified])
  then show ?case by simp
qed


lemma joined_text_simps [simp]:
  "joined_text [] = []" "joined_text (part # parts) = (if cp_isText part then cp_text part else []) @ joined_text parts"
  by (simp_all add: joined_text_def)

lemma override_parts_ok:
  assumes "override_parts redact spans (length done_text) transformed parts = Inr parts'"
    and agg: "aggregateRedactionSpans (done_text @ joined_text parts) rules = Inr (spans, found)" and "redact \<or> \<not> found"
  shows "\<forall>part \<in> set parts'. part_ok rules part"
  using assms(1,2)
proof (induction parts arbitrary: done_text transformed parts')
  case (Cons part parts)
  show ?case
  proof (cases "cp_isText part")
    case False
    with Cons.prems(1) obtain ps where ps: "override_parts redact spans (length done_text) transformed parts = Inr ps" "parts' = part # ps"
      by (auto split: sum.splits)
    from Cons.IH [OF ps(1)] Cons.prems(2) False ps(2) show ?thesis by (simp add: part_ok_def)
  next
    case True
    let ?t = "cp_text part"
    from True Cons.prems(1) obtain ov ps where
      ov: "(if redact then redactTextPart ?t (length done_text) spans else Inr ?t) = Inr ov"
      and ps: "override_parts redact spans (length done_text + length ?t) (transformed + length ov) parts = Inr ps"
        "parts' = part\<lparr>cp_textOverride := ov\<rparr> # ps"
      by (auto split: sum.splits if_splits)
    have "spans = []" if "\<not> redact" using Cons.prems(2) assms(3) that by (auto simp: unmatched_spans)
    with ov have "redactTextPart ?t (length done_text) spans = Inr ov" by (cases redact) (auto simp: redactTextPart_none)
    then have "redacted_text rules ov"
      unfolding redacted_text_def using Cons.prems(2) True
      by (intro disjI2 exI [of _ "done_text @ joined_text (part # parts)"] exI [of _ "length done_text"] exI [of _ "length ?t"]) auto
    moreover have "\<forall>part \<in> set ps. part_ok rules part"
      using Cons.IH [of "done_text @ ?t" _ ps] ps(1) Cons.prems(2) True by simp
    ultimately show ?thesis using ps(2) by (simp add: part_ok_def)
  qed
qed simp

lemma processSemanticMessageText_ok:
  assumes "processSemanticMessageText parts p = (r, q)" and "\<forall>part \<in> set parts. cp_textOverride part = []"
  shows "r = Inr parts' \<Longrightarrow> parts_ok p parts'"
    and "r = Inl e \<Longrightarrow> emits W p (Some e, q)" and "r = Inr parts' \<Longrightarrow> emits ((=) []) p (None, q)"
proof -
  have empty: "part_ok rules part" if "part \<in> set parts" for rules part
    using assms(2) that by (simp add: part_ok_def redacted_text_def)
  have "\<forall>part \<in> set parts'. part_ok (sj_rules p) part" if "r = Inr parts'" "sj_mode p = ModeRedact"
    using assms(1) that empty override_parts_ok [of _ _ "[]", simplified]
    by (auto simp: processSemanticMessageText_def Let_def split: option.splits if_splits sum.splits)
  then show "r = Inr parts' \<Longrightarrow> parts_ok p parts'" by (simp add: parts_ok_def list_all_iff)
  show "r = Inl e \<Longrightarrow> emits W p (Some e, q)" "r = Inr parts' \<Longrightarrow> emits ((=) []) p (None, q)"
    using assms(1)
    by (auto simp: processSemanticMessageText_def Let_def emits_def same_config_def fits_def split: option.splits if_splits sum.splits)
qed

lemma read_parts_fresh: "read_parts f count rawBytes d = (Inr parts, d') \<Longrightarrow> \<forall>part \<in> set parts. cp_textOverride part = []"
  by (induction f arbitrary: count rawBytes d parts)
    (auto split: if_splits prod.splits sum.splits option.splits token_result.splits)


lemma processContentPartsArray_emits:
  assumes child: "writes_values n child"
  shows "emits (value_text (sj_rules p) (Suc n)) p (processContentPartsArray child p)"
  unfolding processContentPartsArray_def
proof (rule emits_and_ok [OF writeBytes_emits])
  fix q assume q: "same_config p q"
  obtain r d where r: "read_parts (Suc (left_bytes q)) 0 0 (sj_decoder q) = (r, d)" by (rule prod.exhaust)
  let ?q = "q\<lparr>sj_decoder := d\<rparr>"
  show "emits (items_text (sj_rules p) n 0) q (let (r, d) = read_parts (Suc (left_bytes q)) 0 0 (sj_decoder q); p2 = q\<lparr>sj_decoder := d\<rparr>
       in case r of
            Inl e \<Rightarrow> (Some e, p2)
          | Inr parts \<Rightarrow>
              (case processSemanticMessageText parts p2 of
                 (Inl e, p3) \<Rightarrow> (Some e, p3)
               | (Inr parts', p3) \<Rightarrow> and_ok (parts_loop parts' child 0 p3) (writeBytes '']'')))"
  proof (cases r)
    case (Inl e)
    then show ?thesis by (simp add: r emits_error same_config_def fits_def del: read_parts.simps)
  next
    case parts: (Inr parts)
    obtain s p3 where s: "processSemanticMessageText parts ?q = (s, p3)" by fastforce
    note ok = processSemanticMessageText_ok [OF s read_parts_fresh [OF r [unfolded parts]]]
    show ?thesis
    proof (cases s)
      case (Inl e)
      then show ?thesis using ok(2) [OF Inl] by (simp add: r parts s del: read_parts.simps)
    next
      case (Inr parts')
      have loop: "emits (\<lambda>b. items_text (sj_rules p) n 0 (b @ '']'')) q3 (parts_loop parts' child 0 q3)" if "same_config ?q q3" for q3
        using parts_loop_emits [OF child, of q3 parts' 0] ok(1) [OF Inr] that q by (simp add: parts_ok_def same_config_def)
      have run: "emits (items_text (sj_rules p) n 0) q3 (and_ok (parts_loop parts' child 0 q3) (writeBytes '']''))"
        if "same_config ?q q3" for q3
        by (rule emits_and_ok [OF loop [OF that] writeBytes_emits]) auto
      have "emits (items_text (sj_rules p) n 0) ?q (and_ok (None, p3) (\<lambda>q3. and_ok (parts_loop parts' child 0 q3) (writeBytes '']'')))"
        by (rule emits_and_ok [OF ok(3) [OF Inr] run]) auto
      then show ?thesis by (simp add: r parts s Inr and_ok_def [of "(None, _)"] del: read_parts.simps)
    qed
  qed
qed (use items_value in auto)

lemma processValue_emits: "n \<le> Suc maxSemanticJSONDepth \<Longrightarrow> writes_values n (processValue n)"
proof (induction n)
  case 0
  show ?case by (simp add: writes_values_def emits_error same_config_def)
next
  case (Suc below)
  then have below: "writes_values below (processValue below)" by simp
  show ?case unfolding writes_values_def
  proof (intro allI impI)
    fix ctx p assume p: "override_ok p"
    let ?p = "p\<lparr>sj_values := Suc (sj_values p)\<rparr>"
    obtain r q where n: "next_token ?p = (r, q)" by fastforce
    have q: "sj_rules q = sj_rules p" "override_ok q" using n p by (auto simp: next_token_def override_ok_def split: prod.splits)
    have e: "emits W q s = emits W p s" for W s using emits_token [OF n] by simp
    have num: "lex_num raw = Some (raw, [])" if "r = GotToken (TokNumber raw)" for raw
      using n that by (auto simp: next_token_def dest: dec_Token_number split: prod.splits)
    have "emits (value_text (sj_rules p) (Suc below)) p (processObject (processValue below) (maxSemanticJSONDepth - below) ctx q)"
      using processObject_emits [OF below q(2), of "maxSemanticJSONDepth - below" ctx] q(1) e by simp
    moreover have "emits (value_text (sj_rules p) (Suc below)) p (processArray (processValue below) ctx q)"
      using processArray_emits [OF below q(2), of ctx] q(1) e by simp
    moreover have "emits (value_text (sj_rules p) (Suc below)) p (processContentPartsArray (processValue below) q)"
      using processContentPartsArray_emits [OF below, of q] q(1) e by simp
    moreover have "emits (value_text (sj_rules p) (Suc below)) p (processScalar k q)" if "r = GotToken k" for k
      using processScalar_emits [of k q "Suc below"] num that q(1) e by simp
    ultimately show "emits (value_text (sj_rules p) (Suc below)) p (processValue (Suc below) ctx p)"
      using emits_refused [OF n]
      by (auto simp: n Let_def emits_error same_config_def fits_def split: token_result.split)
  qed
qed

lemma scan_emits:
  "emits (value_text (ps_rules s) (Suc maxSemanticJSONDepth)) (scan_start s body m)
     (processValue (Suc maxSemanticJSONDepth) ContextRoot (scan_start s body m))"
  using writes_valuesD [OF processValue_emits [OF order_refl], of "scan_start s body m" ContextRoot]
  by (simp add: override_ok_def scan_start_def del: processValue.simps)

text \<open>
  C13. What the redaction step hands on: when a body is accepted in redact mode, the output is the
  text of one JSON value, nested no deeper than the limit and no longer than the body limit, in which
  no rule matches a key or a number (written out or as its exact integer), every string is the
  redaction of a piece of text, no object has two members of the same name, and the root object has
  no name that only differs in case from \<open>model\<close> or \<open>stream\<close>.
\<close>
theorem redacted_body_clean:
  assumes "ProcessJSON s body outputMax = (Inr out, found)" and "ps_mode s = ModeRedact"
  shows "(\<exists>t. out = json_print t \<and> clean (ps_rules s) t \<and> no_alias t \<and> depth t \<le> Suc maxSemanticJSONDepth)
         \<and> int (length out) \<le> min outputMax maxSemanticRequestBodyBytes"
proof -
  define m where "m = min outputMax maxSemanticRequestBodyBytes"
  obtain p where run: "processValue (Suc maxSemanticJSONDepth) ContextRoot (scan_start s body m) = (None, p)"
      "out = (case sj_output p of None \<Rightarrow> [] | Some out \<Rightarrow> out)" and m: "0 \<le> m"
    using assms(1) unfolding ProcessJSON_def m_def [symmetric]
    by (auto simp: Let_def m_def maxSemanticRequestBodyBytes_def simp del: processValue.simps split: if_splits prod.splits option.splits)
  have e: "emits (value_text (ps_rules s) (Suc maxSemanticJSONDepth)) (scan_start s body m) (None, p)"
    using scan_emits [of s body m] unfolding run(1) .
  then have out: "sj_output p = Some out" "value_text (ps_rules s) (Suc maxSemanticJSONDepth) out"
    using run(2) assms(2) by (auto simp: emits_def scan_start_def)
  moreover have "fits p" "sj_outputMax p = m" using e m assms(2) by (auto simp: emits_def scan_start_def fits_def same_config_def)
  ultimately show ?thesis by (auto simp: value_text_def fits_def m_def)
qed

definition example_scanner :: piiScanner where
  "example_scanner = \<lparr>ps_mode = ModeRedact, ps_rules = [ssn_rule]\<rparr>"

definition example_body :: bytes where
  "example_body = ''{ '' @ [dquote] @ ''a'' @ [dquote] @ '' : '' @ [dquote] @ ''a123-45-6789'' @ [dquote] @ ''}''"

lemma example_body_tokens:
  "dec_Token \<lparr>d_rest = example_body, d_state = tokenTopValue, d_stack = []\<rparr> =
     (GotToken (Delim (CHR 0x7B)), \<lparr>d_rest = tl example_body, d_state = tokenObjectStart, d_stack = [tokenTopValue]\<rparr>)"
  "dec_Token \<lparr>d_rest = tl example_body, d_state = tokenObjectStart, d_stack = [tokenTopValue]\<rparr> =
     (GotToken (TokString ''a''), \<lparr>d_rest = drop 5 example_body, d_state = tokenObjectColon, d_stack = [tokenTopValue]\<rparr>)"
  "dec_Token \<lparr>d_rest = drop 5 example_body, d_state = tokenObjectColon, d_stack = [tokenTopValue]\<rparr> =
     (GotToken (TokString ''a123-45-6789''), \<lparr>d_rest = ''}'', d_state = tokenObjectComma, d_stack = [tokenTopValue]\<rparr>)"
  "dec_Token \<lparr>d_rest = ''}'', d_state = tokenObjectComma, d_stack = [tokenTopValue]\<rparr> =
     (GotToken (Delim (CHR 0x7D)), \<lparr>d_rest = [], d_state = tokenTopValue, d_stack = []\<rparr>)"
  "dec_Token \<lparr>d_rest = [], d_state = tokenTopValue, d_stack = []\<rparr> = (TokenEOF, \<lparr>d_rest = [], d_state = tokenTopValue, d_stack = []\<rparr>)"
  by code_simp+

lemma example_redaction:
  "processStringValue ''a123-45-6789'' p = (None, p\<lparr>sj_output := Some (out @ quote ''a[SSN_REDACTED]''), sj_foundPII := True\<rparr>)"
  if "sj_output p = Some out" "sj_mode p = ModeRedact" "sj_rules p = [ssn_rule]" "int (length out) + 17 \<le> sj_outputMax p"
proof -
  have "redactTextPart ''a123-45-6789'' 0 [\<lparr>sp_start = 1, sp_end = 12, sp_replacement = ''[SSN_REDACTED]'', sp_matchWidth = 11\<rparr>]
     = Inr ''a[SSN_REDACTED]''"
    by (simp add: redactTextPart_def Let_def maxSemanticJSONStringBytes_def)
  moreover have "length (quote ''a[SSN_REDACTED]'') = 17" by code_simp
  ultimately show ?thesis using that
    by (simp add: processStringValue_def example_spans Let_def writeJSONString_def writeBytes_def)
qed

abbreviation example_scan_state :: "decoder \<Rightarrow> bytes \<Rightarrow> nat \<Rightarrow> bool \<Rightarrow> semanticJSONProcessor" where
  "example_scan_state d out n found \<equiv>
     \<lparr>sj_decoder = d, sj_output = Some out, sj_outputMax = 100, sj_mode = ModeRedact, sj_rules = [ssn_rule],
      sj_override = None, sj_values = n, sj_foundPII = found\<rparr>"

lemma example_member_key:
  "processKey 0 ContextRoot [] 1 (example_scan_state \<lparr>d_rest = tl example_body, d_state = tokenObjectStart, d_stack = [tokenTopValue]\<rparr> [CHR 0x7B] 1 False)
   = (Inr ''a'', example_scan_state \<lparr>d_rest = drop 5 example_body, d_state = tokenObjectColon, d_stack = [tokenTopValue]\<rparr>
                   ([CHR 0x7B] @ quote ''a'' @ '':'') 1 False)"
proof -
  have "\<not> rulesMatchString ''a'' [ssn_rule]" "\<not> isSecurityFieldAlias ''a''" "length (quote ''a'') = 3" by code_simp+
  then show ?thesis
    by (simp add: processKey_def next_token_def example_body_tokens writeKey_def blocked_match_def writeJSONString_def writeBytes_def and_ok_def
        maxSemanticJSONStringBytes_def)
qed

lemma example_member_value:
  "processValue 64 ContextGeneric (example_scan_state \<lparr>d_rest = drop 5 example_body, d_state = tokenObjectColon, d_stack = [tokenTopValue]\<rparr>
      ([CHR 0x7B] @ quote ''a'' @ '':'') 1 False)
   = (None, example_scan_state \<lparr>d_rest = ''}'', d_state = tokenObjectComma, d_stack = [tokenTopValue]\<rparr>
              ([CHR 0x7B] @ quote ''a'' @ '':'' @ quote ''a[SSN_REDACTED]'') 2 True)"
proof -
  have "length (quote ''a'') = 3" by code_simp
  moreover have "(64 :: nat) = Suc 63" by simp
  ultimately show ?thesis
    by (simp only: processValue.simps) (simp add: next_token_def example_body_tokens processScalar_def example_redaction
        Let_def maxSemanticJSONValues_def maxSemanticJSONStringBytes_def)
qed

lemma example_redacted_body:
  "ProcessJSON example_scanner example_body 100 = (Inr ([CHR 0x7B] @ quote ''a'' @ '':'' @ quote ''a[SSN_REDACTED]'' @ [CHR 0x7D]), True)"
proof -
  have len: "length example_body = 23" "length (tl example_body) = 22" "length (quote ''a'') = 3" "length (quote ''a[SSN_REDACTED]'') = 17" by code_simp+
  have more: "dec_More \<lparr>d_rest = tl example_body, d_state = tokenObjectStart, d_stack = [tokenTopValue]\<rparr>"
    "\<not> dec_More \<lparr>d_rest = ''}'', d_state = tokenObjectComma, d_stack = [tokenTopValue]\<rparr>" by code_simp+
  let ?stop = "\<lparr>d_rest = ''}'', d_state = tokenObjectComma, d_stack = [tokenTopValue]\<rparr>"
  have close: "object_loop (Suc f) child 0 ContextRoot [''a''] (Suc 0) (example_scan_state ?stop ([CHR 0x7B] @ quote ''a'' @ '':'' @ quote ''a[SSN_REDACTED]'') 2 True)
      = (None, example_scan_state \<lparr>d_rest = [], d_state = tokenTopValue, d_stack = []\<rparr>
                 ([CHR 0x7B] @ quote ''a'' @ '':'' @ quote ''a[SSN_REDACTED]'' @ [CHR 0x7D]) 2 True)" for child f
    by (simp add: more closing_def next_token_def example_body_tokens writeBytes_def len)
  have loop: "object_loop (Suc (Suc f)) (processValue 64) 0 ContextRoot [] 0
      (example_scan_state \<lparr>d_rest = tl example_body, d_state = tokenObjectStart, d_stack = [tokenTopValue]\<rparr> [CHR 0x7B] 1 False)
      = (None, example_scan_state \<lparr>d_rest = [], d_state = tokenTopValue, d_stack = []\<rparr>
                 ([CHR 0x7B] @ quote ''a'' @ '':'' @ quote ''a[SSN_REDACTED]'' @ [CHR 0x7D]) 2 True)" for f
    unfolding object_loop.simps(2) [of "Suc f"]
    using example_member_key example_member_value close [of f "processValue 64"] more(1)
    by (simp add: child_context_def and_ok_def maxSemanticJSONObjectMembers_def del: object_loop.simps)
  have "processValue (Suc 64) ContextRoot (scan_start example_scanner example_body 100)
      = (None, example_scan_state \<lparr>d_rest = [], d_state = tokenTopValue, d_stack = []\<rparr>
                 ([CHR 0x7B] @ quote ''a'' @ '':'' @ quote ''a[SSN_REDACTED]'' @ [CHR 0x7D]) 2 True)"
    unfolding processValue.simps(2) [of 64] processObject_def
    using loop [of 21]
    by (simp add: scan_start_def example_scanner_def NewDecoder_def next_token_def example_body_tokens Let_def writeBytes_def and_ok_def len
        maxSemanticJSONValues_def maxSemanticJSONDepth_def del: object_loop.simps)
  then show ?thesis
    by (simp add: ProcessJSON_def len at_end_def example_body_tokens maxSemanticRequestBodyBytes_def maxSemanticJSONDepth_def del: processValue.simps)
qed

theorem redacted_body_clean_witness:
  "(\<exists>t. [CHR 0x7B] @ quote ''a'' @ '':'' @ quote ''a[SSN_REDACTED]'' @ [CHR 0x7D] = json_print t \<and> clean [ssn_rule] t \<and> no_alias t
      \<and> depth t \<le> Suc maxSemanticJSONDepth)"
  using redacted_body_clean [OF example_redacted_body] by (simp add: example_scanner_def)

end
