(* ===== verification/Egress_Policy.thy ===== *)
theory Egress_Policy
  imports Json_Text
begin

text \<open>
  The outbound allowlist of \<open>internal/egress/egress.go\<close>: IP addresses and prefixes as \<open>net/netip\<close>
  has them (an IPv4 address is a 32 bit word, an IPv6 address a 128 bit word with a zone), the
  parsers for rules, authorities and HTTPS targets, the matching of an endpoint against the rules,
  and the test a DNS answer has to pass. Errors are the messages of the source. What the source
  uses of \<open>net.SplitHostPort\<close>, \<open>netip.ParseAddr\<close>, \<open>netip.Addr.String\<close> and \<open>url.URL.Hostname\<close> is
  written out; \<open>url.Parse\<close>, whose host syntax differs between Go releases, is a parameter of
  \<open>ParseHTTPSURL\<close>, so what is proved of it holds for every parser.
\<close>

unbundle bit_operations_syntax

type_synonym 'a result = "string + 'a"

section \<open>Addresses and prefixes\<close>

text \<open>The zero \<open>netip.Addr\<close> is \<open>NoAddr\<close>; it is what a DNS endpoint carries in its address field.\<close>

datatype netip_addr = NoAddr | Addr4 "32 word" | Addr6 "128 word" string

datatype netip_prefix = Prefix4 "32 word" nat | Prefix6 "128 word" nat

fun zone_of :: "netip_addr \<Rightarrow> string" where
  "zone_of (Addr6 a z) = z"
| "zone_of _ = []"

definition is_4in6 :: "128 word \<Rightarrow> bool" where
  "is_4in6 a \<longleftrightarrow> drop_bit 32 a = 0xFFFF"

text \<open>\<open>Unmap\<close> removes the mapping prefix, and the zone with it.\<close>

fun unmap_addr :: "netip_addr \<Rightarrow> netip_addr" where
  "unmap_addr (Addr6 a z) = (if is_4in6 a then Addr4 (ucast a) else Addr6 a z)"
| "unmap_addr a = a"

fun prefix_contains :: "netip_prefix \<Rightarrow> netip_addr \<Rightarrow> bool" where
  "prefix_contains (Prefix4 p n) (Addr4 a) \<longleftrightarrow> drop_bit (32 - n) a = drop_bit (32 - n) p"
| "prefix_contains (Prefix6 p n) (Addr6 a z) \<longleftrightarrow> z = [] \<and> drop_bit (128 - n) a = drop_bit (128 - n) p"
| "prefix_contains _ _ \<longleftrightarrow> False"

text \<open>The classification methods, on addresses that are not 4-in-6.\<close>

fun is_loopback :: "netip_addr \<Rightarrow> bool" where
  "is_loopback (Addr4 a) \<longleftrightarrow> drop_bit 24 a = 127"
| "is_loopback (Addr6 a z) \<longleftrightarrow> a = 1"
| "is_loopback NoAddr \<longleftrightarrow> False"

fun is_multicast :: "netip_addr \<Rightarrow> bool" where
  "is_multicast (Addr4 a) \<longleftrightarrow> drop_bit 28 a = 0xE"
| "is_multicast (Addr6 a z) \<longleftrightarrow> drop_bit 120 a = 0xFF"
| "is_multicast NoAddr \<longleftrightarrow> False"

fun is_link_local_unicast :: "netip_addr \<Rightarrow> bool" where
  "is_link_local_unicast (Addr4 a) \<longleftrightarrow> drop_bit 16 a = 0xA9FE"
| "is_link_local_unicast (Addr6 a z) \<longleftrightarrow> drop_bit 118 a = 0x3FA"
| "is_link_local_unicast NoAddr \<longleftrightarrow> False"

fun is_link_local_multicast :: "netip_addr \<Rightarrow> bool" where
  "is_link_local_multicast (Addr4 a) \<longleftrightarrow> drop_bit 8 a = 0xE00000"
| "is_link_local_multicast (Addr6 a z) \<longleftrightarrow> drop_bit 112 a AND 0xFF0F = 0xFF02"
| "is_link_local_multicast NoAddr \<longleftrightarrow> False"

fun is_private :: "netip_addr \<Rightarrow> bool" where
  "is_private (Addr4 a) \<longleftrightarrow> drop_bit 24 a = 10 \<or> drop_bit 20 a = 0xAC1 \<or> drop_bit 16 a = 0xC0A8"
| "is_private (Addr6 a z) \<longleftrightarrow> drop_bit 121 a = 0x7E"
| "is_private NoAddr \<longleftrightarrow> False"

fun is_unspecified :: "netip_addr \<Rightarrow> bool" where
  "is_unspecified (Addr4 a) \<longleftrightarrow> a = 0"
| "is_unspecified (Addr6 a z) \<longleftrightarrow> a = 0 \<and> z = []"
| "is_unspecified NoAddr \<longleftrightarrow> False"

fun is_global_unicast :: "netip_addr \<Rightarrow> bool" where
  "is_global_unicast NoAddr \<longleftrightarrow> False"
| "is_global_unicast (Addr4 a) \<longleftrightarrow>
     a \<noteq> 0 \<and> a \<noteq> 0xFFFFFFFF \<and> \<not> is_loopback (Addr4 a) \<and> \<not> is_multicast (Addr4 a)
     \<and> \<not> is_link_local_unicast (Addr4 a)"
| "is_global_unicast (Addr6 a z) \<longleftrightarrow>
     \<not> (a = 0 \<and> z = []) \<and> \<not> is_loopback (Addr6 a z) \<and> \<not> is_multicast (Addr6 a z)
     \<and> \<not> is_link_local_unicast (Addr6 a z)"

section \<open>The prefix tables\<close>

definition v4 :: "nat \<Rightarrow> nat \<Rightarrow> nat \<Rightarrow> nat \<Rightarrow> 32 word" where
  "v4 a b c d = of_nat (((a * 256 + b) * 256 + c) * 256 + d)"

definition v6 :: "nat list \<Rightarrow> 128 word" where
  "v6 gs = of_nat (fold (\<lambda>g n. n * 65536 + g) gs 0)"

definition ianaAllocatedGlobalIPv6Prefixes :: "netip_prefix list" where
  "ianaAllocatedGlobalIPv6Prefixes =
     [Prefix6 (v6 [0x2001, 0x200, 0, 0, 0, 0, 0, 0]) 23,
      Prefix6 (v6 [0x2001, 0x400, 0, 0, 0, 0, 0, 0]) 23,
      Prefix6 (v6 [0x2001, 0x600, 0, 0, 0, 0, 0, 0]) 23,
      Prefix6 (v6 [0x2001, 0x800, 0, 0, 0, 0, 0, 0]) 22,
      Prefix6 (v6 [0x2001, 0xc00, 0, 0, 0, 0, 0, 0]) 23,
      Prefix6 (v6 [0x2001, 0xe00, 0, 0, 0, 0, 0, 0]) 23,
      Prefix6 (v6 [0x2001, 0x1200, 0, 0, 0, 0, 0, 0]) 23,
      Prefix6 (v6 [0x2001, 0x1400, 0, 0, 0, 0, 0, 0]) 22,
      Prefix6 (v6 [0x2001, 0x1800, 0, 0, 0, 0, 0, 0]) 23,
      Prefix6 (v6 [0x2001, 0x1a00, 0, 0, 0, 0, 0, 0]) 23,
      Prefix6 (v6 [0x2001, 0x1c00, 0, 0, 0, 0, 0, 0]) 22,
      Prefix6 (v6 [0x2001, 0x2000, 0, 0, 0, 0, 0, 0]) 19,
      Prefix6 (v6 [0x2001, 0x4000, 0, 0, 0, 0, 0, 0]) 23,
      Prefix6 (v6 [0x2001, 0x4200, 0, 0, 0, 0, 0, 0]) 23,
      Prefix6 (v6 [0x2001, 0x4400, 0, 0, 0, 0, 0, 0]) 23,
      Prefix6 (v6 [0x2001, 0x4600, 0, 0, 0, 0, 0, 0]) 23,
      Prefix6 (v6 [0x2001, 0x4800, 0, 0, 0, 0, 0, 0]) 23,
      Prefix6 (v6 [0x2001, 0x4a00, 0, 0, 0, 0, 0, 0]) 23,
      Prefix6 (v6 [0x2001, 0x4c00, 0, 0, 0, 0, 0, 0]) 23,
      Prefix6 (v6 [0x2001, 0x5000, 0, 0, 0, 0, 0, 0]) 20,
      Prefix6 (v6 [0x2001, 0x8000, 0, 0, 0, 0, 0, 0]) 19,
      Prefix6 (v6 [0x2001, 0xa000, 0, 0, 0, 0, 0, 0]) 20,
      Prefix6 (v6 [0x2001, 0xb000, 0, 0, 0, 0, 0, 0]) 20,
      Prefix6 (v6 [0x2003, 0, 0, 0, 0, 0, 0, 0]) 18,
      Prefix6 (v6 [0x2400, 0, 0, 0, 0, 0, 0, 0]) 12,
      Prefix6 (v6 [0x2410, 0, 0, 0, 0, 0, 0, 0]) 12,
      Prefix6 (v6 [0x2600, 0, 0, 0, 0, 0, 0, 0]) 12,
      Prefix6 (v6 [0x2610, 0, 0, 0, 0, 0, 0, 0]) 23,
      Prefix6 (v6 [0x2620, 0, 0, 0, 0, 0, 0, 0]) 23,
      Prefix6 (v6 [0x2630, 0, 0, 0, 0, 0, 0, 0]) 12,
      Prefix6 (v6 [0x2800, 0, 0, 0, 0, 0, 0, 0]) 12,
      Prefix6 (v6 [0x2a00, 0, 0, 0, 0, 0, 0, 0]) 12,
      Prefix6 (v6 [0x2a10, 0, 0, 0, 0, 0, 0, 0]) 12,
      Prefix6 (v6 [0x2c00, 0, 0, 0, 0, 0, 0, 0]) 12]"

definition deniedDNSPrefixes :: "netip_prefix list" where
  "deniedDNSPrefixes =
     [Prefix4 (v4 0 0 0 0) 8,
      Prefix4 (v4 10 0 0 0) 8,
      Prefix4 (v4 100 64 0 0) 10,
      Prefix4 (v4 127 0 0 0) 8,
      Prefix4 (v4 169 254 0 0) 16,
      Prefix4 (v4 172 16 0 0) 12,
      Prefix4 (v4 192 0 0 0) 24,
      Prefix4 (v4 192 0 2 0) 24,
      Prefix4 (v4 192 31 196 0) 24,
      Prefix4 (v4 192 52 193 0) 24,
      Prefix4 (v4 192 88 99 0) 24,
      Prefix4 (v4 192 168 0 0) 16,
      Prefix4 (v4 192 175 48 0) 24,
      Prefix4 (v4 198 18 0 0) 15,
      Prefix4 (v4 198 51 100 0) 24,
      Prefix4 (v4 203 0 113 0) 24,
      Prefix4 (v4 240 0 0 0) 4,
      Prefix6 (v6 [0, 0, 0, 0, 0, 0, 0, 0]) 96,
      Prefix6 (v6 [0, 0, 0, 0, 0, 0xffff, 0, 0]) 96,
      Prefix6 (v6 [0x64, 0xff9b, 0, 0, 0, 0, 0, 0]) 96,
      Prefix6 (v6 [0x64, 0xff9b, 1, 0, 0, 0, 0, 0]) 48,
      Prefix6 (v6 [0x100, 0, 0, 0, 0, 0, 0, 0]) 64,
      Prefix6 (v6 [0x100, 0, 0, 1, 0, 0, 0, 0]) 64,
      Prefix6 (v6 [0x2001, 0, 0, 0, 0, 0, 0, 0]) 23,
      Prefix6 (v6 [0x2001, 0xdb8, 0, 0, 0, 0, 0, 0]) 32,
      Prefix6 (v6 [0x2002, 0, 0, 0, 0, 0, 0, 0]) 16,
      Prefix6 (v6 [0x2620, 0x4f, 0x8000, 0, 0, 0, 0, 0]) 48,
      Prefix6 (v6 [0x3fff, 0, 0, 0, 0, 0, 0, 0]) 20,
      Prefix6 (v6 [0x5f00, 0, 0, 0, 0, 0, 0, 0]) 16,
      Prefix6 (v6 [0xfec0, 0, 0, 0, 0, 0, 0, 0]) 10]"

definition prefixesContain :: "netip_prefix list \<Rightarrow> netip_addr \<Rightarrow> bool" where
  "prefixesContain ps a \<longleftrightarrow> list_ex (\<lambda>p. prefix_contains p a) ps"

fun is_6 :: "netip_addr \<Rightarrow> bool" where
  "is_6 (Addr6 a z) \<longleftrightarrow> True"
| "is_6 _ \<longleftrightarrow> False"

definition PublicDNSAddress :: "netip_addr \<Rightarrow> bool" where
  "PublicDNSAddress address \<longleftrightarrow>
     (if address = NoAddr \<or> zone_of address \<noteq> [] then False
      else let a = unmap_addr address
           in if \<not> is_global_unicast a \<or> is_private a \<or> is_loopback a \<or> is_link_local_unicast a
                \<or> is_link_local_multicast a \<or> is_multicast a \<or> is_unspecified a then False
              else if is_6 a \<and> \<not> prefixesContain ianaAllocatedGlobalIPv6Prefixes a then False
              else \<not> prefixesContain deniedDNSPrefixes a)"

section \<open>Text of addresses\<close>

text \<open>\<open>netip.ParseAddr\<close>: an IPv4 field is one to three digits without a leading zero, at most 255.\<close>

definition parse_octet :: "string \<Rightarrow> nat option" where
  "parse_octet f =
     (if f = [] \<or> \<not> list_all is_digit f \<or> (1 < length f \<and> hd f = CHR ''0'') \<or> 255 < digits_val f
      then None else Some (digits_val f))"

definition parse_ipv4 :: "string \<Rightarrow> 32 word option" where
  "parse_ipv4 s =
     (case split_on (CHR ''.'') s of
        [a, b, c, d] \<Rightarrow>
          (case (parse_octet a, parse_octet b, parse_octet c, parse_octet d) of
             (Some a, Some b, Some c, Some d) \<Rightarrow> Some (v4 a b c d)
           | _ \<Rightarrow> None)
      | _ \<Rightarrow> None)"

definition is_hex :: "char \<Rightarrow> bool" where "is_hex c \<longleftrightarrow> hex_val c \<noteq> None"

definition hex_num :: "string \<Rightarrow> nat" where
  "hex_num s = fold (\<lambda>c n. n * 16 + (case hex_val c of Some v \<Rightarrow> v | None \<Rightarrow> 0)) s 0"

text \<open>
  The loop of \<open>parseIPv6\<close>, on groups of 16 bits instead of bytes: the text that is left, the groups
  read so far and where the ellipsis stood. It ends with what it could not read.
\<close>

function v6_groups :: "string \<Rightarrow> nat list \<Rightarrow> nat option \<Rightarrow> (nat list \<times> nat option \<times> string) option" where
  "v6_groups s gs ell =
     (if 8 \<le> length gs then Some (gs, ell, s)
      else let h = takeWhile is_hex s; r = dropWhile is_hex s; gs' = gs @ [hex_num h]
           in if h = [] \<or> 4 < length h then None
              else if r \<noteq> [] \<and> hd r = CHR ''.'' then
                (if ell = None \<and> length gs \<noteq> 6 \<or> 6 < length gs then None
                 else case parse_ipv4 s of
                        None \<Rightarrow> None
                      | Some a \<Rightarrow> Some (gs @ [unat a div 65536, unat a mod 65536], ell, []))
              else if r = [] then Some (gs', ell, [])
              else if hd r \<noteq> CHR '':'' \<or> tl r = [] then None
              else if hd (tl r) = CHR '':'' then
                (if ell \<noteq> None then None
                 else if tl (tl r) = [] then Some (gs', Some (length gs'), [])
                 else v6_groups (tl (tl r)) gs' (Some (length gs')))
              else v6_groups (tl r) gs' ell)"
  by pat_completeness auto
termination
proof (relation "measure (\<lambda>(s, gs, ell). length s)", goal_cases)
  case 1
  show ?case by simp
next
  case (2 s gs ell h r gs')
  have "length r \<le> length s" using 2 length_dropWhile_le by simp
  moreover have "0 < length s" using 2 by (cases s) auto
  ultimately have "length (tl (tl r)) < length s" by (simp only: length_tl)
  then show ?case by (simp only: in_measure split_conv)
next
  case (3 s gs ell h r gs')
  have "length r \<le> length s" using 3 length_dropWhile_le by simp
  moreover have "0 < length s" using 3 by (cases s) auto
  ultimately have "length (tl r) < length s" by (simp only: length_tl)
  then show ?case by (simp only: in_measure split_conv)
qed

declare v6_groups.simps [simp del]

definition parse_ipv6 :: "string \<Rightarrow> netip_addr option" where
  "parse_ipv6 text =
     (let s = takeWhile (\<lambda>c. c \<noteq> CHR ''%'') text;
          marked = CHR ''%'' \<in> set text;
          zone = drop (Suc (length s)) text;
          leading = has_prefix s ''::'';
          t = (if leading then drop 2 s else s)
      in if marked \<and> zone = [] then None
         else if leading \<and> t = [] then Some (Addr6 0 zone)
         else case v6_groups t [] (if leading then Some 0 else None) of
                None \<Rightarrow> None
              | Some (gs, ell, left) \<Rightarrow>
                  if left \<noteq> [] then None
                  else (case ell of
                          None \<Rightarrow> if length gs < 8 then None else Some (Addr6 (v6 gs) zone)
                        | Some e \<Rightarrow>
                            if length gs < 8
                            then Some (Addr6 (v6 (take e gs @ replicate (8 - length gs) 0 @ drop e gs)) zone)
                            else None))"

definition ParseAddr :: "string \<Rightarrow> netip_addr option" where
  "ParseAddr s =
     (case find (\<lambda>c. c = CHR ''.'' \<or> c = CHR '':'' \<or> c = CHR ''%'') s of
        None \<Rightarrow> None
      | Some c \<Rightarrow>
          if c = CHR ''.'' then map_option Addr4 (parse_ipv4 s)
          else if c = CHR '':'' then parse_ipv6 s
          else None)"

text \<open>\<open>netip.Addr.String\<close>: the first longest run of at least two zero groups is written as \<open>::\<close>.\<close>

fun format_hex :: "nat \<Rightarrow> string" where
  "format_hex n = (if n < 16 then [hex_digit n] else format_hex (n div 16) @ [hex_digit (n mod 16)])"

declare format_hex.simps [simp del]

fun join_colons :: "nat list \<Rightarrow> string" where
  "join_colons gs = join_with (CHR '':'') (map format_hex gs)"

definition addr4_text :: "32 word \<Rightarrow> string" where
  "addr4_text a =
     join_with (CHR ''.'')
       (map (\<lambda>k. format_nat (unat (drop_bit k a AND 255))) [24, 16, 8, 0])"

definition v6_parts :: "128 word \<Rightarrow> nat list" where
  "v6_parts a = map (\<lambda>k. unat (drop_bit (16 * k) a AND 0xFFFF)) [7, 6, 5, 4, 3, 2, 1, 0]"

definition zero_run :: "nat list \<Rightarrow> nat \<times> nat" where
  "zero_run gs =
     fold (\<lambda>i (start, len).
             let l = length (takeWhile (\<lambda>g. g = 0) (drop i gs))
             in if 2 \<le> l \<and> len < l then (i, l) else (start, len))
       [0..<length gs] (0, 0)"

definition addr6_text :: "128 word \<Rightarrow> string" where
  "addr6_text a =
     (let gs = v6_parts a; (start, len) = zero_run gs
      in if is_4in6 a then ''::ffff:'' @ addr4_text (ucast a)
         else if len = 0 then join_colons gs
         else join_colons (take start gs) @ ''::'' @ join_colons (drop (start + len) gs))"

fun addr_String :: "netip_addr \<Rightarrow> string" where
  "addr_String NoAddr = ''invalid IP''"
| "addr_String (Addr4 a) = addr4_text a"
| "addr_String (Addr6 a z) = addr6_text a @ (if z = [] then [] else CHR ''%'' # z)"

section \<open>Rules and endpoints\<close>

record Rule =
  rule_host :: string
  rule_port :: string
  rule_wildcard :: bool
  rule_ipLiteral :: bool
  rule_ip :: netip_addr

record Endpoint =
  Host :: string
  Port :: string
  IPLiteral :: bool
  IP :: netip_addr

definition defaultHTTPSPort :: string where "defaultHTTPSPort = ''443''"

text \<open>
  \<open>strings.ToLower\<close> on a host. Only two runes beyond ASCII have an ASCII letter as their lower case:
  U+0130 and the Kelvin sign U+212A. Every other one maps to bytes above 127, which
  \<open>validateDNSName\<close> refuses as it refuses the bytes kept here.
\<close>

function to_lower :: "string \<Rightarrow> string" where
  "to_lower [] = []"
| "to_lower (c # s) =
     (if take 2 (c # s) = [CHR 0xC4, CHR 0xB0] then CHR ''i'' # to_lower (drop 1 s)
      else if take 3 (c # s) = [CHR 0xE2, CHR 0x84, CHR 0xAA] then CHR ''k'' # to_lower (drop 2 s)
      else ascii_lower c # to_lower s)"
  by pat_completeness auto
termination by (relation "measure length") auto

declare to_lower.simps(2) [simp del]

text \<open>One label: the position of the byte, what is left of the label, and the label's length.\<close>

fun label_error :: "nat \<Rightarrow> string \<Rightarrow> nat \<Rightarrow> string option" where
  "label_error index [] len = None"
| "label_error index (c # cs) len =
     (if \<not> in_range 0x61 0x7A c \<and> \<not> is_digit c \<and> c \<noteq> CHR ''-''
      then Some ''DNS hostname contains an invalid character''
      else if c = CHR ''-'' \<and> (index = 0 \<or> index = len - 1)
      then Some ''DNS hostname label cannot start or end with a hyphen''
      else label_error (Suc index) cs len)"

fun labels_error :: "string list \<Rightarrow> string option" where
  "labels_error [] = None"
| "labels_error (l # ls) =
     (if l = [] \<or> 63 < length l then Some ''DNS hostname contains an invalid label length''
      else case label_error 0 l (length l) of
             Some e \<Rightarrow> Some e
           | None \<Rightarrow> labels_error ls)"

definition validateDNSName :: "string \<Rightarrow> string option" where
  "validateDNSName host =
     (if 253 < length host then Some ''DNS hostname exceeds 253 bytes''
      else labels_error (split_on (CHR ''.'') host))"

definition normalizePort :: "string \<Rightarrow> string result" where
  "normalizePort raw =
     (if raw = [] then Inl ''port must not be empty''
      else if \<not> list_all is_digit raw then Inl ''port must be numeric''
      else let port = digits_val raw
           in if port < 1 \<or> 65535 < port then Inl ''port must be between 1 and 65535''
              else Inr (format_nat port))"

definition trim_dot :: "string \<Rightarrow> string" where
  "trim_dot s = (if has_suffix s ''.'' then butlast s else s)"

definition endpointForHost :: "string \<Rightarrow> string \<Rightarrow> Endpoint result" where
  "endpointForHost rawHost port =
     (let host = trim_dot rawHost
      in if host = [] then Inl ''host must not be empty''
         else case ParseAddr host of
           Some addr \<Rightarrow>
             if zone_of addr \<noteq> [] then Inl ''scoped IP literals are not allowed''
             else let addr = unmap_addr addr
                  in Inr \<lparr>Host = addr_String addr, Port = port, IPLiteral = True, IP = addr\<rparr>
         | None \<Rightarrow>
             if CHR '':'' \<in> set host then Inl ''invalid IP literal''
             else let host = to_lower host
                  in case validateDNSName host of
                       Some e \<Rightarrow> Inl e
                     | None \<Rightarrow> Inr \<lparr>Host = host, Port = port, IPLiteral = False, IP = NoAddr\<rparr>)"

text \<open>
  \<open>net.SplitHostPort\<close>. The port starts after the last colon; a bracketed host has to end just
  before it, any other host may not contain a colon.
\<close>

definition before_last :: "char \<Rightarrow> string \<Rightarrow> string" where
  "before_last c s = rev (tl (dropWhile (\<lambda>x. x \<noteq> c) (rev s)))"

definition after_last :: "char \<Rightarrow> string \<Rightarrow> string" where
  "after_last c s = rev (takeWhile (\<lambda>x. x \<noteq> c) (rev s))"

definition SplitHostPort :: "string \<Rightarrow> (string \<times> string) option" where
  "SplitHostPort hostport =
     (if CHR '':'' \<notin> set hostport then None
      else let i = length (before_last (CHR '':'') hostport);
               port = after_last (CHR '':'') hostport
           in if hd hostport = CHR ''['' then
                (let e = length (takeWhile (\<lambda>c. c \<noteq> CHR '']'') hostport)
                 in if e = length hostport \<or> Suc e \<noteq> i then None
                    else if CHR ''['' \<in> set (drop 1 hostport) \<or> CHR '']'' \<in> set (drop (Suc e) hostport) then None
                    else Some (take (e - 1) (drop 1 hostport), port))
              else if CHR '':'' \<in> set (take i hostport) then None
              else if CHR ''['' \<in> set hostport \<or> CHR '']'' \<in> set hostport then None
              else Some (take i hostport, port))"

definition parseRuleAuthority :: "string \<Rightarrow> (Endpoint \<times> bool) result" where
  "parseRuleAuthority raw =
     (if has_prefix raw ''['' \<or> count_list raw (CHR '':'') = 1 then
        (case SplitHostPort raw of
           None \<Rightarrow> Inl ''invalid host:port authority''
         | Some (host, port) \<Rightarrow>
             (case normalizePort port of
                Inl e \<Rightarrow> Inl e
              | Inr normalizedPort \<Rightarrow>
                  (case endpointForHost host normalizedPort of
                     Inl e \<Rightarrow> Inl e
                   | Inr endpoint \<Rightarrow> Inr (endpoint, True))))
      else case endpointForHost raw defaultHTTPSPort of
             Inl e \<Rightarrow> Inl e
           | Inr endpoint \<Rightarrow> Inr (endpoint, False))"

definition unclean :: "string \<Rightarrow> bool" where
  "unclean raw \<longleftrightarrow>
     raw \<noteq> trim_space raw
     \<or> contains_any raw [CHR '' '', CHR 0x09, CHR 0x0D, CHR 0x0A, CHR ''/'', CHR ''@'', CHR ''?'', CHR ''#'']
     \<or> contains_sub raw ''://''"

definition parseAuthority :: "string \<Rightarrow> bool \<Rightarrow> Endpoint result" where
  "parseAuthority raw allowImplicitPort =
     (if raw = [] \<or> unclean raw then Inl ''invalid target authority''
      else case parseRuleAuthority raw of
             Inl e \<Rightarrow> Inl e
           | Inr (endpoint, explicitPort) \<Rightarrow>
               if \<not> explicitPort \<and> \<not> allowImplicitPort
               then Inl ''target authority requires an explicit port''
               else Inr endpoint)"

definition ParseAuthority :: "string \<Rightarrow> Endpoint result" where
  "ParseAuthority raw = parseAuthority raw False"

definition parseRule :: "string \<Rightarrow> Rule result" where
  "parseRule raw =
     (if raw = [] then Inl ''entry must not be empty''
      else if unclean raw then Inl ''entry must be a host, wildcard host, or exact host:port''
      else let wildcard = has_prefix raw ''*.'';
               rest = (if wildcard then drop 2 raw else raw)
           in if wildcard \<and> CHR '':'' \<in> set rest then Inl ''wildcard entries cannot specify a port''
              else case parseRuleAuthority rest of
                Inl e \<Rightarrow> Inl e
              | Inr (endpoint, explicitPort) \<Rightarrow>
                  if wildcard \<and> IPLiteral endpoint then Inl ''wildcard entries require a DNS hostname''
                  else if IPLiteral endpoint \<and> \<not> explicitPort
                  then Inl ''IP literal entries require an explicit port''
                  else Inr \<lparr>rule_host = Host endpoint, rule_port = Port endpoint, rule_wildcard = wildcard,
                             rule_ipLiteral = IPLiteral endpoint, rule_ip = IP endpoint\<rparr>)"

fun parse_entries :: "nat \<Rightarrow> string list \<Rightarrow> (Rule list) result" where
  "parse_entries index [] = Inr []"
| "parse_entries index (raw # entries) =
     (case parseRule raw of
        Inl e \<Rightarrow> Inl (''egress allowlist entry '' @ format_nat index @ '': '' @ e)
      | Inr rule \<Rightarrow>
          (case parse_entries (Suc index) entries of
             Inl e \<Rightarrow> Inl e
           | Inr rules \<Rightarrow> Inr (rule # rules)))"

definition ParseAllowlist :: "string list \<Rightarrow> (Rule list) result" where
  "ParseAllowlist entries =
     (if entries = [] then Inl ''egress allowlist must not be empty'' else parse_entries 0 entries)"

definition ValidateAllowlist :: "string list \<Rightarrow> string option" where
  "ValidateAllowlist entries = (case ParseAllowlist entries of Inl e \<Rightarrow> Some e | Inr _ \<Rightarrow> None)"

fun EndpointAllowed :: "Endpoint \<Rightarrow> Rule list \<Rightarrow> bool" where
  "EndpointAllowed endpoint [] \<longleftrightarrow> False"
| "EndpointAllowed endpoint (rule # rules) \<longleftrightarrow>
     (if Port endpoint \<noteq> rule_port rule then EndpointAllowed endpoint rules
      else if IPLiteral endpoint then
        (if rule_ipLiteral rule \<and> IP endpoint = rule_ip rule then True
         else EndpointAllowed endpoint rules)
      else if rule_ipLiteral rule then EndpointAllowed endpoint rules
      else if rule_wildcard rule then
        (if Host endpoint \<noteq> rule_host rule \<and> has_suffix (Host endpoint) (CHR ''.'' # rule_host rule)
         then True else EndpointAllowed endpoint rules)
      else if Host endpoint = rule_host rule then True
      else EndpointAllowed endpoint rules)"

definition HostAllowed :: "string \<Rightarrow> string list \<Rightarrow> bool" where
  "HostAllowed authority allowedDomains =
     (case ParseAllowlist allowedDomains of
        Inl e \<Rightarrow> False
      | Inr rules \<Rightarrow>
          (case parseAuthority authority True of
             Inl e \<Rightarrow> False
           | Inr endpoint \<Rightarrow> EndpointAllowed endpoint rules))"

definition NormalizeHost :: "string \<Rightarrow> string" where
  "NormalizeHost host = (case parseAuthority host True of Inl e \<Rightarrow> [] | Inr endpoint \<Rightarrow> Host endpoint)"

section \<open>HTTPS targets\<close>

text \<open>What the source reads of a parsed URL; \<open>Hostname\<close> and \<open>Port\<close> are computed from the host field.\<close>

record parsed_url =
  url_Scheme :: string
  url_Opaque :: string
  url_has_User :: bool
  url_Host :: string
  url_Fragment :: string
  url_RawFragment :: string

definition url_split :: "string \<Rightarrow> string \<times> string" where
  "url_split hostPort =
     (let with_port = CHR '':'' \<in> set hostPort \<and> list_all is_digit (after_last (CHR '':'') hostPort);
          host = (if with_port then before_last (CHR '':'') hostPort else hostPort);
          port = (if with_port then after_last (CHR '':'') hostPort else [])
      in (if has_prefix host ''['' \<and> has_suffix host '']'' then butlast (tl host) else host, port))"

definition ParseHTTPSURL :: "(string \<Rightarrow> parsed_url option) \<Rightarrow> string \<Rightarrow> Endpoint result" where
  "ParseHTTPSURL url_Parse raw =
     (if CHR ''#'' \<in> set raw then Inl ''target URL must not contain a fragment''
      else case url_Parse raw of
        None \<Rightarrow> Inl ''invalid target URL''
      | Some parsed \<Rightarrow>
          let (hostname, portText) = url_split (url_Host parsed)
          in if url_Scheme parsed \<noteq> ''https'' \<or> url_Opaque parsed \<noteq> []
             then Inl ''target URL must use hierarchical https''
             else if url_has_User parsed then Inl ''target URL must not contain userinfo''
             else if url_Fragment parsed \<noteq> [] \<or> url_RawFragment parsed \<noteq> []
             then Inl ''target URL must not contain a fragment''
             else if url_Host parsed = [] \<or> hostname = [] then Inl ''target URL must include a host''
             else if has_suffix (url_Host parsed) '':'' then Inl ''target URL must not contain an empty port''
             else case (if portText \<noteq> [] then normalizePort portText else Inr defaultHTTPSPort) of
                    Inl e \<Rightarrow> Inl (''invalid target URL port: '' @ e)
                  | Inr port \<Rightarrow>
                      (case endpointForHost hostname port of
                         Inl e \<Rightarrow> Inl (''invalid target URL host: '' @ e)
                       | Inr endpoint \<Rightarrow> Inr endpoint))"

section \<open>Public addresses\<close>

definition octets :: "nat \<Rightarrow> nat \<Rightarrow> nat \<Rightarrow> nat \<Rightarrow> bool" where
  "octets a b c d \<longleftrightarrow> a < 256 \<and> b < 256 \<and> c < 256 \<and> d < 256"

lemma unat_v4: 
  assumes "octets a b c d" shows "unat (v4 a b c d) = ((a * 256 + b) * 256 + c) * 256 + d"
proof -
  have "((a * 256 + b) * 256 + c) * 256 + d < 2 ^ LENGTH(32)" using assms by (simp add: octets_def)
  then show ?thesis unfolding v4_def unat_of_nat by (rule mod_less)
qed

lemma unat_drop: "unat (drop_bit n (w :: 'a::len word)) = unat w div 2 ^ n"
  using unat_drop_bit_eq [of n w] by (simp only: drop_bit_nat_def)

lemma v4_div:
  assumes "octets a b c d"
  defines "n \<equiv> ((a * 256 + b) * 256 + c) * 256 + d"
  shows "n div 2 ^ 8 = (a * 256 + b) * 256 + c" and "n div 2 ^ 16 = a * 256 + b"
    and "n div 2 ^ 17 = a * 128 + b div 2" and "n div 2 ^ 20 = a * 16 + b div 16"
    and "n div 2 ^ 22 = a * 4 + b div 64" and "n div 2 ^ 24 = a" and "n div 2 ^ 28 = a div 16"
proof -
  have lt: "a < 256" "b < 256" "c < 256" "d < 256" using assms(1) by (simp_all add: octets_def)
  have horner: "(q * 256 + r) div 256 = q" if "r < 256" for q r :: nat using that by simp
  have 8: "n div 256 = (a * 256 + b) * 256 + c" unfolding n_def by (rule horner) (rule lt)
  have 16: "n div 256 div 256 = a * 256 + b" unfolding 8 by (rule horner) (rule lt)
  have up: "n div (256 * 256 * k) = (a * 256 + b) div k" for k by (simp only: div_mult2_eq 16)
  show "n div 2 ^ 8 = (a * 256 + b) * 256 + c" using 8 by simp
  show "n div 2 ^ 16 = a * 256 + b" using up [of 1] by simp
  show "n div 2 ^ 17 = a * 128 + b div 2" using up [of 2] by simp
  show "n div 2 ^ 20 = a * 16 + b div 16" using up [of 16] by simp
  show "n div 2 ^ 22 = a * 4 + b div 64" using up [of 64] by simp
  show "n div 2 ^ 24 = a" using up [of 256] lt by simp
  have "(a * 256 + b) div (256 * 16) = a div 16" by (simp only: div_mult2_eq horner [OF lt(2)])
  then show "n div 2 ^ 28 = a div 16" using up [of 4096] by simp
qed

definition special_v4 :: "nat \<Rightarrow> nat \<Rightarrow> nat \<Rightarrow> bool" where
  "special_v4 a b c \<longleftrightarrow>
     a = 0 \<or> a = 10 \<or> a = 100 \<and> 64 \<le> b \<and> b \<le> 127 \<or> a = 127 \<or> a = 169 \<and> b = 254
     \<or> a = 172 \<and> 16 \<le> b \<and> b \<le> 31
     \<or> a = 192 \<and> b = 0 \<and> c = 0 \<or> a = 192 \<and> b = 0 \<and> c = 2 \<or> a = 192 \<and> b = 31 \<and> c = 196
     \<or> a = 192 \<and> b = 52 \<and> c = 193 \<or> a = 192 \<and> b = 88 \<and> c = 99 \<or> a = 192 \<and> b = 168
     \<or> a = 192 \<and> b = 175 \<and> c = 48
     \<or> a = 198 \<and> (b = 18 \<or> b = 19) \<or> a = 198 \<and> b = 51 \<and> c = 100
     \<or> a = 203 \<and> b = 0 \<and> c = 113 \<or> 224 \<le> a"

lemma drop_v4_eq:
  assumes "octets a b c d"
  shows "drop_bit k (v4 a b c d) = w \<longleftrightarrow> (((a * 256 + b) * 256 + c) * 256 + d) div 2 ^ k = unat w"
  by (simp only: word_unat_eq_iff unat_drop unat_v4 [OF assms])


lemma digits_eq: "r < m \<Longrightarrow> r' < m \<Longrightarrow> q * m + r = q' * m + r' \<longleftrightarrow> q = q' \<and> r = (r'::nat)"
  by (metis add.commute add_0 div_less div_mult_self1 less_nat_zero_code mod_less mod_mult_self1)

lemma block_eq:
  "b div 64 = Suc 0 \<longleftrightarrow> 64 \<le> b \<and> b \<le> (127::nat)" "b div 16 = Suc 0 \<longleftrightarrow> 16 \<le> b \<and> b \<le> (31::nat)"
  "b div 2 = 9 \<longleftrightarrow> b = 18 \<or> b = (19::nat)"
  by (rule iffI; linarith)+

lemma octet_lt: "octets a b c d \<Longrightarrow> a < 256 \<and> b < 256 \<and> c < 256"
  by (simp add: octets_def)

lemma v4_prefix:
  assumes x: "octets a b c d" 
  shows "octets A 0 0 0 \<Longrightarrow> drop_bit 24 (v4 a b c d) = drop_bit 24 (v4 A 0 0 0) \<longleftrightarrow> a = A"
    and "octets A B 0 0 \<Longrightarrow> drop_bit 16 (v4 a b c d) = drop_bit 16 (v4 A B 0 0) \<longleftrightarrow> a = A \<and> b = B"
    and "octets A B C 0 \<Longrightarrow> drop_bit 8 (v4 a b c d) = drop_bit 8 (v4 A B C 0) \<longleftrightarrow> a = A \<and> b = B \<and> c = C"
    and "drop_bit 22 (v4 a b c d) = drop_bit 22 (v4 100 64 0 0) \<longleftrightarrow> a = 100 \<and> 64 \<le> b \<and> b \<le> 127"
    and "drop_bit 20 (v4 a b c d) = drop_bit 20 (v4 172 16 0 0) \<longleftrightarrow> a = 172 \<and> 16 \<le> b \<and> b \<le> 31"
    and "drop_bit 17 (v4 a b c d) = drop_bit 17 (v4 198 18 0 0) \<longleftrightarrow> a = 198 \<and> (b = 18 \<or> b = 19)"
    and "drop_bit 28 (v4 a b c d) = drop_bit 28 (v4 240 0 0 0) \<longleftrightarrow> 240 \<le> a"
proof -
  have lit: "octets 100 64 0 0" "octets 172 16 0 0" "octets 198 18 0 0" "octets 240 0 0 0"
    by (simp_all add: octets_def)
  have lt: "a < 256" "b < 256" "c < 256" using x by (simp_all add: octets_def)
  show "drop_bit 24 (v4 a b c d) = drop_bit 24 (v4 A 0 0 0) \<longleftrightarrow> a = A" if "octets A 0 0 0"
    by (simp only: drop_v4_eq [OF x] unat_drop unat_v4 [OF that] v4_div [OF x] v4_div [OF that])
  show "drop_bit 16 (v4 a b c d) = drop_bit 16 (v4 A B 0 0) \<longleftrightarrow> a = A \<and> b = B" if "octets A B 0 0"
    by (simp only: drop_v4_eq [OF x] unat_drop unat_v4 [OF that] v4_div [OF x] v4_div [OF that]
        digits_eq lt octet_lt [OF that])
  show "drop_bit 8 (v4 a b c d) = drop_bit 8 (v4 A B C 0) \<longleftrightarrow> a = A \<and> b = B \<and> c = C" if "octets A B C 0"
    by (simp only: drop_v4_eq [OF x] unat_drop unat_v4 [OF that] v4_div [OF x] v4_div [OF that]
        digits_eq lt octet_lt [OF that] conj_assoc)
  have "b div 64 < 4" "b div 16 < 16" "b div 2 < 128" using lt by simp_all
  then show "drop_bit 22 (v4 a b c d) = drop_bit 22 (v4 100 64 0 0) \<longleftrightarrow> a = 100 \<and> 64 \<le> b \<and> b \<le> 127"
    "drop_bit 20 (v4 a b c d) = drop_bit 20 (v4 172 16 0 0) \<longleftrightarrow> a = 172 \<and> 16 \<le> b \<and> b \<le> 31"
    "drop_bit 17 (v4 a b c d) = drop_bit 17 (v4 198 18 0 0) \<longleftrightarrow> a = 198 \<and> (b = 18 \<or> b = 19)"
    using digits_eq [of "b div 64" 4 1 a 100] digits_eq [of "b div 16" 16 1 a 172]
      digits_eq [of "b div 2" 128 9 a 198]
    by (simp_all add: drop_v4_eq [OF x] unat_drop unat_v4 lit v4_div [OF x, simplified] block_eq)
  show "drop_bit 28 (v4 a b c d) = drop_bit 28 (v4 240 0 0 0) \<longleftrightarrow> 240 \<le> a"
    by (simp only: drop_v4_eq [OF x] unat_drop unat_v4 [OF lit(4)] v4_div [OF x] v4_div [OF lit(4)])
      (use lt in auto)
qed

lemma v4_class:
  assumes x: "octets a b c d" 
  shows "drop_bit 24 (v4 a b c d) = 127 \<longleftrightarrow> a = 127"
    and "drop_bit 24 (v4 a b c d) = 10 \<longleftrightarrow> a = 10"
    and "drop_bit 28 (v4 a b c d) = 0xE \<longleftrightarrow> 224 \<le> a \<and> a < 240"
    and "drop_bit 16 (v4 a b c d) = 0xA9FE \<longleftrightarrow> a = 169 \<and> b = 254"
    and "drop_bit 16 (v4 a b c d) = 0xC0A8 \<longleftrightarrow> a = 192 \<and> b = 168"
    and "drop_bit 20 (v4 a b c d) = 0xAC1 \<longleftrightarrow> a = 172 \<and> 16 \<le> b \<and> b \<le> 31"
    and "drop_bit 8 (v4 a b c d) = 0xE00000 \<longleftrightarrow> a = 224 \<and> b = 0 \<and> c = 0"
    and "v4 a b c d = 0 \<Longrightarrow> a = 0"
    and "v4 a b c d = 0xFFFFFFFF \<Longrightarrow> 224 \<le> a"
proof -
  have lt: "a < 256" "b < 256" "c < 256" "d < 256" using x by (simp_all add: octets_def)
  note n = drop_v4_eq [OF x] v4_div [OF x]
  show "drop_bit 24 (v4 a b c d) = 127 \<longleftrightarrow> a = 127" "drop_bit 24 (v4 a b c d) = 10 \<longleftrightarrow> a = 10"
    by (simp_all only: n, simp_all)
  show "drop_bit 28 (v4 a b c d) = 0xE \<longleftrightarrow> 224 \<le> a \<and> a < 240" by (simp only: n, simp) linarith
  show "drop_bit 16 (v4 a b c d) = 0xA9FE \<longleftrightarrow> a = 169 \<and> b = 254"
    using digits_eq [of b 256 254 a 169] lt by (simp only: n) simp
  show "drop_bit 16 (v4 a b c d) = 0xC0A8 \<longleftrightarrow> a = 192 \<and> b = 168"
    using digits_eq [of b 256 168 a 192] lt by (simp only: n) simp
  have "a * 16 + b div 16 = 2753 \<longleftrightarrow> a = 172 \<and> b div 16 = 1"
    using digits_eq [of "b div 16" 16 1 a 172] lt by simp
  then show "drop_bit 20 (v4 a b c d) = 0xAC1 \<longleftrightarrow> a = 172 \<and> 16 \<le> b \<and> b \<le> 31"
    by (simp only: n) (simp add: block_eq)
  show "drop_bit 8 (v4 a b c d) = 0xE00000 \<longleftrightarrow> a = 224 \<and> b = 0 \<and> c = 0"
    using digits_eq [of c 256 0 "a * 256 + b" "224 * 256 + 0"] digits_eq [of b 256 0 a 224] lt by (simp only: n) simp
  show "a = 0" if "v4 a b c d = 0" using unat_v4 [OF x] that by simp
  show "224 \<le> a" if "v4 a b c d = 0xFFFFFFFF" using unat_v4 [OF x] that lt by simp
qed

lemma denied_v4:
  assumes x: "octets a b c d"
  shows "prefixesContain deniedDNSPrefixes (Addr4 (v4 a b c d)) \<longleftrightarrow>
     a = 0 \<or> a = 10 \<or> a = 100 \<and> 64 \<le> b \<and> b \<le> 127 \<or> a = 127 \<or> a = 169 \<and> b = 254
     \<or> a = 172 \<and> 16 \<le> b \<and> b \<le> 31
     \<or> a = 192 \<and> b = 0 \<and> c = 0 \<or> a = 192 \<and> b = 0 \<and> c = 2 \<or> a = 192 \<and> b = 31 \<and> c = 196
     \<or> a = 192 \<and> b = 52 \<and> c = 193 \<or> a = 192 \<and> b = 88 \<and> c = 99 \<or> a = 192 \<and> b = 168
     \<or> a = 192 \<and> b = 175 \<and> c = 48
     \<or> a = 198 \<and> (b = 18 \<or> b = 19) \<or> a = 198 \<and> b = 51 \<and> c = 100
     \<or> a = 203 \<and> b = 0 \<and> c = 113 \<or> 240 \<le> a"
  unfolding prefixesContain_def deniedDNSPrefixes_def
  by (simp add: v4_prefix [OF x] octets_def)

lemma public_v4_octets:
  assumes x: "octets a b c d"
  shows "PublicDNSAddress (Addr4 (v4 a b c d)) \<longleftrightarrow> \<not> special_v4 a b c"
proof -
  have "224 \<le> a \<longleftrightarrow> 224 \<le> a \<and> a < 240 \<or> 240 \<le> a" "a = 224 \<longrightarrow> 224 \<le> a \<and> a < 240" by auto
  then show ?thesis
    using v4_class(8,9) [OF x] special_v4_def [of a b c] denied_v4 [OF x]
    by (simp only: PublicDNSAddress_def v4_class(1-7) [OF x] Let_def unmap_addr.simps is_6.simps zone_of.simps
       is_global_unicast.simps is_private.simps is_loopback.simps is_link_local_unicast.simps
       is_link_local_multicast.simps is_multicast.simps is_unspecified.simps netip_addr.distinct if_False simp_thms) argo
qed

lemma mapped_unat: "unat (0xFFFF00000000 + ucast (x :: 32 word) :: 128 word) = 0xFFFF00000000 + unat x"
proof -
  have lt: "unat x < 2 ^ 32" using unsigned_less [of x] by simp
  moreover have "unat (ucast x :: 128 word) = unat x"
    using lt by (simp add: unsigned_ucast_eq take_bit_nat_eq_self)
  ultimately show ?thesis by (subst unat_add_lem [THEN iffD1]) simp_all
qed

lemma unmap_mapped: "unmap_addr (Addr6 (0xFFFF00000000 + ucast (x :: 32 word)) z) = Addr4 x"
proof -
  have lt: "unat x < 4294967296" using unsigned_less [of x] by simp
  have "unat (drop_bit 32 (0xFFFF00000000 + ucast x :: 128 word)) = 0xFFFF"
    using lt by (simp add: unat_drop mapped_unat)
  then have "is_4in6 (0xFFFF00000000 + ucast x)" by (simp add: is_4in6_def word_unat_eq_iff)
  moreover have "281470681743360 + unat x = unat x + 65535 * 4294967296" by simp
  then have "(281470681743360 + unat x) mod 4294967296 = unat x"
    using lt by (simp only: mod_mult_self1 mod_less)
  then have "unat (ucast (0xFFFF00000000 + ucast x :: 128 word) :: 32 word) = unat x"
    by (simp add: unsigned_ucast_eq take_bit_nat_def mapped_unat)
  then have "ucast (0xFFFF00000000 + ucast x :: 128 word) = x" by (simp add: word_unat_eq_iff)
  ultimately show ?thesis by simp
qed

lemma public_mapped: "PublicDNSAddress (Addr6 (0xFFFF00000000 + ucast x) []) = PublicDNSAddress (Addr4 x)"
  by (simp add: PublicDNSAddress_def unmap_mapped del: unmap_addr.simps(1))


lemma allocated_table:
  "\<forall>p \<in> set ianaAllocatedGlobalIPv6Prefixes. \<exists>q n. p = Prefix6 q n \<and> 12 \<le> n \<and> drop_bit 125 q = 1"
  by (simp add: ianaAllocatedGlobalIPv6Prefixes_def v6_def)

lemma allocated_global:
  assumes "prefixesContain ianaAllocatedGlobalIPv6Prefixes (Addr6 a z)"
  shows "drop_bit 125 a = 1"
proof -
  obtain q n where "prefix_contains (Prefix6 q n) (Addr6 a z)" and n: "12 \<le> n" and q: "drop_bit 125 q = 1"
    using assms allocated_table unfolding prefixesContain_def list_ex_iff by metis
  then have "drop_bit (128 - n) a = drop_bit (128 - n) q" by simp
  moreover have "drop_bit 125 w = drop_bit (125 - (128 - n)) (drop_bit (128 - n) w)" for w :: "128 word"
    using n by (simp add: drop_bit_drop_bit)
  ultimately show ?thesis using q by metis
qed

lemma public_v6:
  assumes "PublicDNSAddress (Addr6 a z)" and "\<not> is_4in6 a"
  shows "z = []" and "drop_bit 125 a = 1" and "\<not> prefixesContain deniedDNSPrefixes (Addr6 a [])"
  using assms allocated_global [of a z] by (auto simp: PublicDNSAddress_def Let_def split: if_splits)

section \<open>Matching\<close>

abbreviation labels :: "string \<Rightarrow> string list" where "labels \<equiv> split_on (CHR ''.'')"

lemma split_on_sep: "split_on c (a @ c # b) = split_on c a @ split_on c b"
proof (induction a)
  case (Cons x a)
  then show ?case using split_on_nonempty [of c a] by (cases "split_on c a") auto
qed simp

lemma join_with_append: "xs \<noteq> [] \<Longrightarrow> ys \<noteq> [] \<Longrightarrow> join_with c (xs @ ys) = join_with c xs @ c # join_with c ys"
proof (induction xs)
  case (Cons x xs)
  then show ?case by (cases xs; cases ys) auto
qed simp

lemma suffix_labels: "has_suffix h (CHR ''.'' # r) \<longleftrightarrow> (\<exists>pre. pre \<noteq> [] \<and> labels h = pre @ labels r)"
proof
  assume "has_suffix h (CHR ''.'' # r)"
  then obtain a where "h = a @ CHR ''.'' # r" by (auto simp: has_suffix_iff)
  then have "labels h = labels a @ labels r" by (simp add: split_on_sep)
  then show "\<exists>pre. pre \<noteq> [] \<and> labels h = pre @ labels r" using split_on_nonempty by blast
next
  assume "\<exists>pre. pre \<noteq> [] \<and> labels h = pre @ labels r"
  then obtain pre where pre: "pre \<noteq> []" "labels h = pre @ labels r" by blast
  have "h = join_with (CHR ''.'') (labels h)" by (simp add: join_split)
  also have "\<dots> = join_with (CHR ''.'') pre @ CHR ''.'' # r"
    using pre by (simp add: join_with_append split_on_nonempty join_split)
  finally show "has_suffix h (CHR ''.'' # r)" by (auto simp: has_suffix_iff)
qed

lemma labels_inj: "labels g = labels h \<longleftrightarrow> g = h"
  by (metis join_split)

definition permits :: "Rule \<Rightarrow> Endpoint \<Rightarrow> bool" where
  "permits r e \<longleftrightarrow>
     Port e = rule_port r \<and>
     (if IPLiteral e then rule_ipLiteral r \<and> IP e = rule_ip r
      else \<not> rule_ipLiteral r \<and>
        (if rule_wildcard r then \<exists>pre. pre \<noteq> [] \<and> labels (Host e) = pre @ labels (rule_host r)
         else labels (Host e) = labels (rule_host r)))"

lemma EndpointAllowed_permits: "EndpointAllowed e rules \<longleftrightarrow> (\<exists>r \<in> set rules. permits r e)"
proof (induction rules)
  case (Cons r rules)
  have "has_suffix (Host e) (CHR ''.'' # rule_host r) \<Longrightarrow> Host e \<noteq> rule_host r"
    by (auto simp: has_suffix_iff)
  with Cons show ?case
    by (auto simp: permits_def labels_inj suffix_labels [symmetric])
qed simp

text \<open>The parts of a split authority.\<close>

lemma last_sep: "c \<in> set s \<Longrightarrow> s = before_last c s @ c # after_last c s"
proof -
  assume "c \<in> set s"
  then have "c \<in> set (rev s)" by simp
  then have "dropWhile (\<lambda>x. x \<noteq> c) (rev s) = c # tl (dropWhile (\<lambda>x. x \<noteq> c) (rev s))"
    by (metis (mono_tags, lifting) dropWhile_eq_Nil_conv hd_dropWhile list.collapse)
  then have "rev s = takeWhile (\<lambda>x. x \<noteq> c) (rev s) @ c # tl (dropWhile (\<lambda>x. x \<noteq> c) (rev s))"
    by (metis takeWhile_dropWhile_id)
  then have "rev (rev s) = rev (takeWhile (\<lambda>x. x \<noteq> c) (rev s) @ c # tl (dropWhile (\<lambda>x. x \<noteq> c) (rev s)))"
    by simp
  then show ?thesis by (simp add: before_last_def after_last_def)
qed

lemma SplitHostPort_shape:
  assumes "SplitHostPort s = Some (h, p)"
  shows "s = h @ CHR '':'' # p \<or> s = CHR ''['' # h @ CHR '']'' # CHR '':'' # p"
proof -
  let ?b = "before_last (CHR '':'') s"
  have c: "CHR '':'' \<in> set s" using assms by (auto simp: SplitHostPort_def split: if_splits)
  note s = last_sep [OF c]
  show ?thesis
  proof (cases "hd s = CHR ''[''")
    case False
    with assms c have "h = take (length ?b) s" "p = after_last (CHR '':'') s"
      by (auto simp: SplitHostPort_def Let_def split: if_splits)
    moreover have "take (length ?b) s = ?b" using s by (metis append_eq_conv_conj)
    ultimately show ?thesis using s by simp
  next
    case True
    let ?e = "length (takeWhile (\<lambda>c. c \<noteq> CHR '']'') s)"
    from assms c True have h: "h = take (?e - 1) (drop 1 s)" and p: "p = after_last (CHR '':'') s"
      and e: "?e \<noteq> length s" "Suc ?e = length ?b"
      by (auto simp: SplitHostPort_def Let_def split: if_splits)
    have "?e < length s" using e(1) length_takeWhile_le [of _ s] le_neq_implies_less by blast
    then have close: "s ! ?e = CHR '']''" using nth_length_takeWhile [of "\<lambda>c. c \<noteq> CHR '']''" s] by simp
    obtain t where t: "s = CHR ''['' # t" using True c by (cases s) auto
    have pos: "0 < ?e" using t by simp
    have "?b = take (Suc ?e) s" using s e(2) by (metis append_eq_conv_conj)
    also have "\<dots> = take ?e s @ [CHR '']'']" using \<open>?e < length s\<close> close by (simp add: take_Suc_conv_app_nth)
    also have "take ?e s = CHR ''['' # h" using pos t h by (cases ?e) (simp_all)
    finally show ?thesis using s p by simp
  qed
qed


text \<open>What a parsed rule remembers of its entry.\<close>

lemma endpointForHost_dns:
  assumes "endpointForHost h p = Inr e" and "\<not> IPLiteral e"
  shows "Host e = to_lower (trim_dot h)" and "Port e = p" and "IP e = NoAddr"
    and "validateDNSName (Host e) = None" and "ParseAddr (trim_dot h) = None"
    and "CHR '':'' \<notin> set (trim_dot h)" and "trim_dot h \<noteq> []"
  using assms by (auto simp: endpointForHost_def Let_def split: if_splits option.splits)

lemma endpointForHost_port: "endpointForHost h p = Inr e \<Longrightarrow> Port e = p"
  by (auto simp: endpointForHost_def Let_def split: if_splits option.splits)

lemma parseRuleAuthority_cases:
  assumes "parseRuleAuthority raw = Inr (e, explicitPort)"
  shows "if explicitPort
         then \<exists>h p q. SplitHostPort raw = Some (h, p) \<and> normalizePort p = Inr q \<and> endpointForHost h q = Inr e
         else endpointForHost raw defaultHTTPSPort = Inr e"
  using assms by (auto simp: parseRuleAuthority_def split: if_splits option.splits sum.splits)

lemma parseRule_wildcard:
  assumes "parseRule raw = Inr r" and "rule_wildcard r"
  shows "rule_port r = defaultHTTPSPort" and "\<not> rule_ipLiteral r"
proof -
  from assms obtain e x where pr: "parseRuleAuthority (drop 2 raw) = Inr (e, x)" and col: "CHR '':'' \<notin> set (drop 2 raw)"
    and r: "rule_port r = Port e" "rule_ipLiteral r = IPLiteral e" and dns: "\<not> IPLiteral e"
    by (auto simp: parseRule_def Let_def split: if_splits sum.splits)
  have "\<not> x" using parseRuleAuthority_cases [OF pr] SplitHostPort_shape [of "drop 2 raw"] col by fastforce
  then have "endpointForHost (drop 2 raw) defaultHTTPSPort = Inr e"
    using parseRuleAuthority_cases [OF pr] by simp
  with r dns show "rule_port r = defaultHTTPSPort" "\<not> rule_ipLiteral r"
    by (simp_all add: endpointForHost_port)
qed

text \<open>An entry that names its port.\<close>

definition exact_entry :: "string \<Rightarrow> string \<Rightarrow> string \<Rightarrow> bool" where
  "exact_entry raw host port \<longleftrightarrow>
     raw = host @ CHR '':'' # port \<or> raw = CHR ''['' # host @ CHR '']'' # CHR '':'' # port"

lemma parseRule_port:
  assumes "parseRule raw = Inr r" and "rule_port r \<noteq> defaultHTTPSPort \<or> rule_ipLiteral r"
  shows "\<exists>h p e. exact_entry raw h p \<and> normalizePort p = Inr (rule_port r)
           \<and> endpointForHost h (rule_port r) = Inr e \<and> Host e = rule_host r
           \<and> IPLiteral e = rule_ipLiteral r \<and> IP e = rule_ip r"
proof -
  have "\<not> rule_wildcard r" using assms parseRule_wildcard by blast
  with assms(1) obtain e x where pr: "parseRuleAuthority raw = Inr (e, x)"
    and r: "rule_host r = Host e" "rule_port r = Port e" "rule_ipLiteral r = IPLiteral e" "rule_ip r = IP e"
    and lit: "IPLiteral e \<Longrightarrow> x"
    by (auto simp: parseRule_def Let_def split: if_splits sum.splits)
  have x: "x"
  proof (rule ccontr)
    assume n: "\<not> x"
    then have "endpointForHost raw defaultHTTPSPort = Inr e" using parseRuleAuthority_cases [OF pr] by simp
    with assms(2) r lit n show False using endpointForHost_port by auto
  qed
  then obtain h p q where s: "SplitHostPort raw = Some (h, p)" "normalizePort p = Inr q" "endpointForHost h q = Inr e"
    using parseRuleAuthority_cases [OF pr] by auto
  then have "Port e = q" by (simp add: endpointForHost_port)
  with s r SplitHostPort_shape [OF s(1)] show ?thesis unfolding exact_entry_def by metis
qed

lemma parse_entries_rules: "parse_entries i entries = Inr rules \<Longrightarrow> r \<in> set rules \<Longrightarrow> \<exists>raw \<in> set entries. parseRule raw = Inr r"
  by (induction entries arbitrary: i rules) (simp, fastforce split: sum.splits)

lemma ParseAllowlist_rules: "ParseAllowlist entries = Inr rules \<Longrightarrow> r \<in> set rules \<Longrightarrow> \<exists>raw \<in> set entries. parseRule raw = Inr r"
  by (auto simp: ParseAllowlist_def parse_entries_rules split: if_splits)

section \<open>Normal forms\<close>

definition name_char :: "char \<Rightarrow> bool" where
  "name_char c \<longleftrightarrow> in_range 0x61 0x7A c \<or> is_digit c \<or> c = CHR ''-''"

lemma label_chars: "label_error i l n = None \<Longrightarrow> list_all name_char l"
  by (induction i l n rule: label_error.induct) (auto simp: name_char_def split: if_splits)

lemma labels_chars: "labels_error ls = None \<Longrightarrow> l \<in> set ls \<Longrightarrow> l \<noteq> [] \<and> list_all name_char l"
  by (induction ls) (auto simp: label_chars split: if_splits option.splits)

lemma set_join_with: "set (join_with c xs) \<subseteq> \<Union> (set ` set xs) \<union> {c}"
  by (induction c xs rule: join_with.induct) auto

lemma valid_name_chars:
  assumes "validateDNSName h = None" shows "list_all (\<lambda>c. name_char c \<or> c = CHR ''.'') h"
proof -
  have "labels_error (labels h) = None" using assms by (auto simp: validateDNSName_def split: if_splits)
  then have "\<Union> (set ` set (labels h)) \<subseteq> Collect name_char" using labels_chars by (fastforce simp: list_all_iff)
  moreover have "set h \<subseteq> \<Union> (set ` set (labels h)) \<union> {CHR ''.''}"
    using set_join_with [of "CHR ''.''" "labels h"] by (simp add: join_split)
  ultimately show ?thesis by (fastforce simp: list_all_iff)
qed

lemma valid_name_ends:
  assumes "validateDNSName h = None"
  shows "h \<noteq> []" and "hd h \<noteq> CHR ''.''" and "last h \<noteq> CHR ''.''" and "\<not> has_suffix h ''.''"
proof -
  have "labels_error (labels h) = None" using assms by (auto simp: validateDNSName_def split: if_splits)
  then have ne: "[] \<notin> set (labels h)" using labels_chars by blast
  then show h: "h \<noteq> []" by auto
  show "hd h \<noteq> CHR ''.''" using ne by (cases h) auto
  have "h \<noteq> a @ ''.''" for a using ne split_on_sep [of "CHR ''.''" a "[]"] by auto
  then show "last h \<noteq> CHR ''.''" "\<not> has_suffix h ''.''" using h
    by (metis append_butlast_last_id, simp add: has_suffix_iff)
qed

lemma name_char_bytes: "name_char c \<or> c = CHR ''.'' \<Longrightarrow> 0x2D \<le> byte_val c \<and> byte_val c \<le> 0x7A \<and> \<not> (65 \<le> byte_val c \<and> byte_val c \<le> 90)
   \<and> byte_val c \<noteq> 0x3A \<and> byte_val c \<noteq> 0x2F \<and> byte_val c \<noteq> 0x3F \<and> byte_val c \<noteq> 0x40 \<and> byte_val c \<noteq> 0x5B"
  by (auto simp: name_char_def is_digit_def in_range_def byte_val_def)

lemma to_lower_name: "list_all (\<lambda>c. name_char c \<or> c = CHR ''.'') s \<Longrightarrow> to_lower s = s"
proof (induction s)
  case (Cons c s)
  then have "0x2D \<le> byte_val c \<and> byte_val c \<le> 0x7A \<and> \<not> (65 \<le> byte_val c \<and> byte_val c \<le> 90)"
    using name_char_bytes by simp
  moreover from this have "c \<noteq> CHR 0xC4" "c \<noteq> CHR 0xE2" by (auto simp: byte_val_def)
  ultimately show ?case using Cons by (auto simp: to_lower.simps ascii_lower_def)
qed simp

text \<open>Lower-casing does not turn a name into an address.\<close>

lemma to_lower_digits:
  assumes "list_all (\<lambda>c. is_digit c \<or> c = CHR ''.'') (to_lower s)" shows "to_lower s = s"
  using assms
proof (induction s rule: to_lower.induct)
  case (2 c s)
  have ik: "\<not> is_digit (CHR ''i'')" "\<not> is_digit (CHR ''k'')" by (simp_all add: is_digit_def in_range_def byte_val_def)
  have "ascii_lower c = c" if "is_digit (ascii_lower c) \<or> ascii_lower c = CHR ''.''"
    using that by (cases "65 \<le> byte_val c \<and> byte_val c \<le> 90")
      (auto simp: ascii_lower_def is_digit_def in_range_def byte_val_def dest!: arg_cong [where f = "of_char :: char \<Rightarrow> nat"])
  with 2 ik show ?case by (auto simp: to_lower.simps(2) split: if_splits)
qed simp

lemma parse_octet_digits: "parse_octet f = Some n \<Longrightarrow> list_all is_digit f"
  by (auto simp: parse_octet_def split: if_splits)

lemma parse_ipv4_chars:
  assumes "parse_ipv4 s = Some a" shows "list_all (\<lambda>c. is_digit c \<or> c = CHR ''.'') s"
proof -
  have "\<forall>f \<in> set (labels s). list_all is_digit f"
    using assms by (auto simp: parse_ipv4_def parse_octet_digits split: list.splits option.splits)
  then show ?thesis
    using set_join_with [of "CHR ''.''" "labels s"] by (auto simp: join_split list_all_iff)
qed

lemma ParseAddr_no_colon: "CHR '':'' \<notin> set s \<Longrightarrow> ParseAddr s = Some a \<Longrightarrow> \<exists>x. parse_ipv4 s = Some x \<and> a = Addr4 x"
  by (auto simp: ParseAddr_def find_Some_iff in_set_conv_nth split: option.splits if_splits)

lemma ParseAddr_name:
  assumes "ParseAddr s = None" and "CHR '':'' \<notin> set s" and "list_all (\<lambda>c. name_char c \<or> c = CHR ''.'') (to_lower s)"
  shows "ParseAddr (to_lower s) = None"
proof (rule ccontr)
  assume "ParseAddr (to_lower s) \<noteq> None"
  moreover have "CHR '':'' \<notin> set (to_lower s)" using assms(3) name_char_bytes by (fastforce simp: list_all_iff byte_val_def)
  ultimately obtain x where "parse_ipv4 (to_lower s) = Some x" using ParseAddr_no_colon by blast
  then have "to_lower s = s" using parse_ipv4_chars to_lower_digits by blast
  with assms(1) \<open>ParseAddr (to_lower s) \<noteq> None\<close> show False by simp
qed

lemma endpointForHost_normal:
  assumes "endpointForHost h p = Inr e" and "\<not> IPLiteral e"
  shows "endpointForHost (Host e) p = Inr e"
proof -
  note d = endpointForHost_dns [OF assms]
  note chars = valid_name_chars [OF d(4)] and ends = valid_name_ends [OF d(4)]
  have "ParseAddr (Host e) = None" using ParseAddr_name [OF d(5,6)] chars d(1) by simp
  moreover have "CHR '':'' \<notin> set (Host e)" using chars name_char_bytes by (fastforce simp: list_all_iff byte_val_def)
  ultimately show ?thesis
    using d(2-4) ends to_lower_name [OF chars] assms(2) by (simp add: endpointForHost_def trim_dot_def Let_def)
qed

lemma endpointForHost_other_port: "endpointForHost h p = Inr e \<Longrightarrow> endpointForHost h q = Inr (e\<lparr>Port := q\<rparr>)"
  by (auto simp: endpointForHost_def Let_def split: if_splits option.splits)

lemma name_clean:
  assumes chars: "list_all (\<lambda>c. name_char c \<or> c = CHR ''.'') h" and ne: "h \<noteq> []"
  shows "\<not> unclean h"
proof -
  have g: "graphic c \<and> c \<notin> set [CHR '' '', CHR 0x09, CHR 0x0D, CHR 0x0A, CHR ''/'', CHR ''@'', CHR ''?'', CHR ''#'']"
    if "c \<in> set h" for c
    using that chars name_char_bytes [of c] by (auto simp: list_all_iff graphic_def byte_val_def)
  have "trim_space h = h" using g ne by (intro trim_space_plain) auto
  moreover have "\<not> contains_sub h ''://''" using g contains_sub_set [of h "''://''"] by auto
  ultimately show ?thesis using g by (auto simp: unclean_def contains_any_def list_ex_iff)
qed


text \<open>The text of an IPv4 address is read back as the address.\<close>

lemma parse_octet_format: "n < 256 \<Longrightarrow> parse_octet (format_nat n) = Some n"
  using format_nat_digits [of n] format_nat_no_leading_zero [of n]
  by (auto simp: parse_octet_def digits_val_format format_nat.simps [of 0])

lemma digits_no_dot: "list_all is_digit s \<Longrightarrow> CHR ''.'' \<notin> set s"
  by (auto simp: list_all_iff is_digit_def in_range_def byte_val_def)

lemma v4_octets:
  fixes a :: "32 word"
  defines "oct k \<equiv> unat (drop_bit k a AND 255)"
  shows "v4 (oct 24) (oct 16) (oct 8) (oct 0) = a" and "oct k < 256"
proof -
  have "drop_bit k a AND 255 = take_bit 8 (drop_bit k a)" for k
    by (simp add: take_bit_eq_mask mask_eq_exp_minus_1)
  then have m: "oct k = unat a div 2 ^ k mod 256" for k
    by (simp add: oct_def unsigned_take_bit_eq take_bit_nat_def unat_drop)
  have lt: "oct k < 256" for k using m by simp
  then show "oct k < 256" .
  let ?n = "unat a"
  have "?n < 2 ^ 32" using unsigned_less [of a] by simp
  then have "?n div 2 ^ 24 < 256" by simp
  moreover have "?n div 2 ^ 16 div 2 ^ 8 = ?n div 2 ^ 24" "?n div 2 ^ 8 div 2 ^ 8 = ?n div 2 ^ 16"
    by (simp_all flip: div_mult2_eq)
  ultimately have "((oct 24 * 256 + oct 16) * 256 + oct 8) * 256 + oct 0 = ?n"
    using div_mult_mod_eq [of "?n div 2 ^ 16" 256] div_mult_mod_eq [of "?n div 2 ^ 8" 256] div_mult_mod_eq [of ?n 256]
    by (simp add: m)
  then show "v4 (oct 24) (oct 16) (oct 8) (oct 0) = a" 
    using unat_v4 [of "oct 24" "oct 16" "oct 8" "oct 0"] lt by (simp add: octets_def word_unat_eq_iff)
qed

lemma find_dot:
  "list_all (\<lambda>c. is_digit c \<or> c = CHR ''.'') s \<Longrightarrow> CHR ''.'' \<in> set s
   \<Longrightarrow> find (\<lambda>c. c = CHR ''.'' \<or> c = CHR '':'' \<or> c = CHR ''%'') s = Some (CHR ''.'')"
  by (induction s) (auto simp: is_digit_def in_range_def byte_val_def)

lemma parse_addr4_text:
  shows "ParseAddr (addr4_text a) = Some (Addr4 a)" and "CHR '':'' \<notin> set (addr4_text a)"
proof -
  let ?o = "\<lambda>k. format_nat (unat (drop_bit k a AND 255))"
  have t: "addr4_text a = ?o 24 @ CHR ''.'' # ?o 16 @ CHR ''.'' # ?o 8 @ CHR ''.'' # ?o 0" by (simp add: addr4_text_def)
  have "parse_ipv4 (addr4_text a) = Some a"
    using v4_octets(1) [of a] v4_octets(2) [of _ a] v4_octets(2) [of 0 a]
    by (simp add: t parse_ipv4_def split_on_append split_on_plain digits_no_dot format_nat_digits
        parse_octet_format)
  moreover show "CHR '':'' \<notin> set (addr4_text a)"
    using calculation parse_ipv4_chars by (fastforce simp: list_all_iff is_digit_def in_range_def byte_val_def)
  moreover have "find (\<lambda>c. c = CHR ''.'' \<or> c = CHR '':'' \<or> c = CHR ''%'') (addr4_text a) = Some (CHR ''.'')"
    using parse_ipv4_chars [OF calculation(1)] by (intro find_dot) (simp_all add: t)
  ultimately show "ParseAddr (addr4_text a) = Some (Addr4 a)" by (simp add: ParseAddr_def)
qed


lemma endpointForHost_ip:
  assumes "endpointForHost h p = Inr e" and "IPLiteral e"
  shows "Host e = addr_String (IP e)" and "ParseAddr (trim_dot h) \<noteq> None" and "IP e = unmap_addr (the (ParseAddr (trim_dot h)))"
  using assms by (auto simp: endpointForHost_def Let_def split: if_splits option.splits)

lemma colon_in_v6: "CHR '':'' \<in> set (addr6_text a)"
  by (cases "zero_run (v6_parts a)") (auto simp: addr6_text_def v6_parts_def Let_def)

lemma ParseAddr_valid: "ParseAddr s \<noteq> Some NoAddr"
  by (auto simp: ParseAddr_def parse_ipv6_def Let_def split: option.splits if_splits)

lemma literal_host:
  assumes "endpointForHost h p = Inr e" and "IPLiteral e" and "CHR '':'' \<notin> set (Host e)"
  shows "\<exists>a. Host e = addr4_text a"
  using endpointForHost_ip [OF assms(1,2)] assms(3) colon_in_v6 ParseAddr_valid [of "trim_dot h"]
  by (cases "the (ParseAddr (trim_dot h))") (auto split: if_splits)

lemma parseAuthority_Host:
  assumes "parseAuthority raw True = Inr e"
  shows "\<exists>h p. endpointForHost h p = Inr e"
  using assms by (auto simp: parseAuthority_def parseRuleAuthority_def split: if_splits sum.splits option.splits prod.splits)

lemma parseAuthority_plain:
  assumes "s \<noteq> []" and chars: "list_all (\<lambda>c. name_char c \<or> c = CHR ''.'') s"
  shows "parseAuthority s True = endpointForHost s defaultHTTPSPort"
proof -
  have c: "c \<noteq> CHR '':'' \<and> c \<noteq> CHR ''[''" if "c \<in> set s" for c
    using that chars name_char_bytes [of c] by (auto simp: list_all_iff byte_val_def)
  have "\<not> has_prefix s ''[''" using assms(1) c by (cases s) (auto simp: has_prefix_def)
  moreover have "CHR '':'' \<notin> set s" using c by blast
  ultimately show ?thesis using name_clean [OF chars] assms(1)
    by (auto simp: parseAuthority_def parseRuleAuthority_def count_list_0_iff split: sum.splits)
qed

lemma normalize_plain:
  assumes "s \<noteq> []" and "list_all (\<lambda>c. name_char c \<or> c = CHR ''.'') s"
    and "endpointForHost s defaultHTTPSPort = Inr e" and "Host e = s"
  shows "NormalizeHost s = s"
  using assms by (simp add: NormalizeHost_def parseAuthority_plain)

lemma addr4_text_chars: "list_all (\<lambda>c. name_char c \<or> c = CHR ''.'') (addr4_text a)"
proof -
  obtain x where "parse_ipv4 (addr4_text a) = Some x"
    using ParseAddr_no_colon parse_addr4_text by blast
  then show ?thesis using parse_ipv4_chars by (fastforce simp: name_char_def list_all_iff)
qed

lemma endpointForHost_v4: "endpointForHost (addr4_text a) p = Inr \<lparr>Host = addr4_text a, Port = p, IPLiteral = True, IP = Addr4 a\<rparr>"
proof -
  have "list_all is_digit (format_nat (unat (a AND 255)))" "format_nat (unat (a AND 255)) \<noteq> []"
    by (rule format_nat_digits)+
  then have "last (format_nat (unat (a AND 255))) \<noteq> CHR ''.''" and "format_nat (unat (a AND 255)) \<noteq> []"
    using digits_no_dot last_in_set by metis+
  then have "\<not> has_suffix (addr4_text a) ''.''" and "addr4_text a \<noteq> []"
    by (auto simp: addr4_text_def has_suffix_iff dest!: arg_cong [where f = last] split: if_splits)
  then show ?thesis by (simp add: endpointForHost_def trim_dot_def parse_addr4_text)
qed

lemma trim_space_shown: "s \<noteq> [] \<Longrightarrow> graphic (hd s) \<Longrightarrow> graphic (last s) \<Longrightarrow> unclean s \<longleftrightarrow>
   contains_any s [CHR '' '', CHR 0x09, CHR 0x0D, CHR 0x0A, CHR ''/'', CHR ''@'', CHR ''?'', CHR ''#''] \<or> contains_sub s ''://''"
  by (simp add: unclean_def trim_space_plain)

lemmas egress_eval = trim_space_shown graphic_def contains_any_def has_prefix_def has_suffix_def ParseAddr_def
  parse_ipv4_def parse_octet_def is_digit_def in_range_def byte_val_def trim_dot_def SplitHostPort_def before_last_def after_last_def
  normalizePort_def digits_val_def digit_val_def format_nat.simps to_lower.simps ascii_lower_def validateDNSName_def
  parseRuleAuthority_def endpointForHost_def Let_def char_of_def bit_Suc_0_iff

lemma example_rule: "parseRule ''api.x:8443'' = Inr \<lparr>rule_host = ''api.x'', rule_port = ''8443'', rule_wildcard = False,
     rule_ipLiteral = False, rule_ip = NoAddr\<rparr>"
  by (simp add: parseRule_def egress_eval)

lemma example_normal: "NormalizeHost ''API.x.'' = ''api.x''"
  by (simp add: NormalizeHost_def parseAuthority_def egress_eval defaultHTTPSPort_def)

lemma example_allowlist: "ParseAllowlist [''*.y'', ''api.x:8443''] =
  Inr [\<lparr>rule_host = ''y'', rule_port = ''443'', rule_wildcard = True, rule_ipLiteral = False, rule_ip = NoAddr\<rparr>,
       \<lparr>rule_host = ''api.x'', rule_port = ''8443'', rule_wildcard = False, rule_ipLiteral = False, rule_ip = NoAddr\<rparr>]"
  by (simp add: ParseAllowlist_def parseRule_def egress_eval defaultHTTPSPort_def)

section \<open>Properties\<close>

text \<open>
  C25. Which IPv4 answers a DNS lookup may give, in octets: an address is usable for egress exactly
  when it lies in none of the listed special-purpose blocks, and its IPv4-mapped IPv6 form is
  treated the same way.
\<close>
theorem public_v4_equivalence:
  assumes "octets a b c d"
  shows "(PublicDNSAddress (Addr4 (v4 a b c d)) \<longleftrightarrow> \<not> special_v4 a b c)
         \<and> (PublicDNSAddress (Addr6 (0xFFFF00000000 + ucast (v4 a b c d)) []) \<longleftrightarrow> \<not> special_v4 a b c)"
  using public_v4_octets [OF assms] public_mapped by simp

theorem public_v4_equivalence_witness:
  "\<not> PublicDNSAddress (Addr6 (0xFFFF00000000 + ucast (v4 169 254 169 254)) [])
   \<and> PublicDNSAddress (Addr4 (v4 8 8 8 8))"
  using public_v4_equivalence [of 169 254 169 254] public_v4_equivalence [of 8 8 8 8]
  by (simp add: octets_def special_v4_def)

text \<open>
  An IPv6 answer that is usable for egress carries no zone, lies in the global unicast block
  2000::/3, and is neither a 6to4, a Teredo or other protocol-assignment address, nor a
  documentation address; every other IPv6 address, unallocated space included, is refused.
\<close>
theorem public_v6_global:
  assumes "PublicDNSAddress (Addr6 a z)" and "\<not> is_4in6 a"
  shows "z = [] \<and> drop_bit 125 a = 1 \<and> drop_bit 112 a \<noteq> 0x2002 \<and> drop_bit 105 a \<noteq> 0x100080
         \<and> drop_bit 96 a \<noteq> 0x20010DB8 \<and> drop_bit 108 a \<noteq> 0x3FFF0"
  using public_v6 [OF assms]
  by (simp add: prefixesContain_def deniedDNSPrefixes_def v6_def)

theorem public_v6_global_witness:
  "drop_bit 125 (v6 [0x2606, 0x4700, 0, 0, 0, 0, 0, 0x1111]) = (1 :: 128 word)"
  using public_v6_global [of "v6 [0x2606, 0x4700, 0, 0, 0, 0, 0, 0x1111]" "[]"]
  by (simp add: PublicDNSAddress_def v6_def is_4in6_def prefixesContain_def
      ianaAllocatedGlobalIPv6Prefixes_def deniedDNSPrefixes_def)

text \<open>
  C24. Matching refines a specification on DNS labels: an endpoint is allowed exactly when some rule
  has its port and either the same IP literal, the same name, or, for a wildcard, a name that
  consists of at least one more label followed by the labels of the rule.
\<close>
theorem EndpointAllowed_refines_labels:
  "EndpointAllowed e rules \<longleftrightarrow> (\<exists>r \<in> set rules. permits r e)"
  by (rule EndpointAllowed_permits)

text \<open>
  A port other than 443, and every IP literal, is only reached through an entry of the
  configured allowlist that names that host and that port: host-only and wildcard entries authorise
  DNS names on port 443 and nothing else.
\<close>
theorem other_port_needs_exact_entry:
  assumes "ParseAllowlist entries = Inr rules" and "EndpointAllowed e rules"
    and "Port e \<noteq> ''443'' \<or> IPLiteral e"
  shows "\<exists>raw \<in> set entries. \<exists>h p e'. exact_entry raw h p \<and> normalizePort p = Inr (Port e)
           \<and> endpointForHost h (Port e) = Inr e'
           \<and> (if IPLiteral e then IPLiteral e' \<and> IP e' = IP e else \<not> IPLiteral e' \<and> Host e' = Host e)"
proof -
  obtain r where r: "r \<in> set rules" "permits r e" using assms(2) by (auto simp: EndpointAllowed_permits)
  then obtain raw where raw: "raw \<in> set entries" "parseRule raw = Inr r" using assms(1) ParseAllowlist_rules by blast
  from r(2) have eq: "rule_port r = Port e" "rule_ipLiteral r = IPLiteral e" by (auto simp: permits_def split: if_splits)
  then have "rule_port r \<noteq> defaultHTTPSPort \<or> rule_ipLiteral r" using assms(3) by (simp add: defaultHTTPSPort_def)
  note exact = parseRule_port [OF raw(2) this]
  have "\<not> rule_wildcard r" using parseRule_wildcard [OF raw(2)] eq assms(3) by (auto simp: defaultHTTPSPort_def)
  with r(2) have "if IPLiteral e then rule_ip r = IP e else rule_host r = Host e"
    by (auto simp: permits_def labels_inj split: if_splits)
  with exact eq raw(1) show ?thesis by (metis (full_types))
qed

theorem other_port_needs_exact_entry_witness:
  "\<exists>raw \<in> set [''*.y'', ''api.x:8443'']. \<exists>h p. exact_entry raw h p \<and> normalizePort p = Inr ''8443''"
  using other_port_needs_exact_entry [OF example_allowlist,
      of "\<lparr>Host = ''api.x'', Port = ''8443'', IPLiteral = False, IP = NoAddr\<rparr>"]
  by (simp add: has_suffix_def has_prefix_def) blast

text \<open>
  Normalising a host is idempotent for DNS names and IPv4 literals: the allowlist compares
  canonical forms.
\<close>
theorem NormalizeHost_idempotent:
  assumes "CHR '':'' \<notin> set (NormalizeHost raw)"
  shows "NormalizeHost (NormalizeHost raw) = NormalizeHost raw"
proof (cases "parseAuthority raw True")
  case (Inl e)
  then show ?thesis by (simp add: NormalizeHost_def parseAuthority_def)
next
  case (Inr e)
  then have n: "NormalizeHost raw = Host e" by (simp add: NormalizeHost_def)
  obtain h p where ep: "endpointForHost h p = Inr e" using parseAuthority_Host Inr by blast
  show ?thesis
  proof (cases "IPLiteral e")
    case False
    note v = endpointForHost_dns(4) [OF ep False]
    have "\<exists>e'. endpointForHost (Host e) defaultHTTPSPort = Inr e' \<and> Host e' = Host e"
      using endpointForHost_other_port [OF endpointForHost_normal [OF ep False], of defaultHTTPSPort] by simp
    then show ?thesis using n normalize_plain valid_name_chars [OF v] valid_name_ends(1) [OF v] by metis
  next
    case True
    then obtain a where "Host e = addr4_text a" using literal_host [OF ep] assms n by auto
    moreover have "addr4_text a \<noteq> []" by (simp add: addr4_text_def)
    ultimately show ?thesis using n normalize_plain [OF _ addr4_text_chars endpointForHost_v4] by simp
  qed
qed

theorem NormalizeHost_idempotent_witness: "NormalizeHost (NormalizeHost ''API.x.'') = ''api.x''"
  using NormalizeHost_idempotent [of "''API.x.''"] by (simp add: example_normal)

end
