(* ===== verification/Float64.thy ===== *)
theory Float64
  imports Go_Prelude Complex_Main "HOL-Library.Log_Nat"
begin

text \<open>
  Go's \<open>float64\<close> as far as budgets and prices need it: the finite values are rationals, every
  operation computes the exact rational result and rounds it once to the nearest binary64 value,
  ties to even, with gradual underflow and overflow to infinity. The sign of zero is not kept: no
  comparison of the gateway can observe it. The lemmas the components use are that rounding is
  monotone and leaves representable values alone, so adding a non-negative amount never decreases
  a sum and comparisons with a fixed bound are stable.
\<close>

section \<open>Rounding\<close>

text \<open>The exponent of the leading binary digit of a positive rational.\<close>

definition leading_exp :: "rat \<Rightarrow> int" where
  "leading_exp x =
     (let (n, d) = quotient_of x; k = bitlen n - bitlen d
      in if 2 powi k \<le> x then k else k - 1)"

text \<open>Round to the nearest integer, ties to even.\<close>

definition round_even :: "rat \<Rightarrow> int" where
  "round_even y =
     (let f = \<lfloor>y\<rfloor>; r = y - of_int f
      in if r < 1 / 2 \<or> (r = 1 / 2 \<and> even f) then f else f + 1)"

text \<open>The exponent of the last of the 53 binary digits, not below that of the least subnormal.\<close>

definition ulp_exp :: "rat \<Rightarrow> int" where
  "ulp_exp x = max (leading_exp x - 52) (-1074)"

definition round_pos :: "rat \<Rightarrow> rat" where
  "round_pos x = of_int (round_even (x / 2 powi ulp_exp x)) * 2 powi ulp_exp x"

definition round_rat :: "rat \<Rightarrow> rat" where
  "round_rat x = (if x = 0 then 0 else if 0 < x then round_pos x else - round_pos (- x))"

lemma bitlen_rat_bounds:
  assumes "0 < (n::int)"
  shows "2 powi (bitlen n - 1) \<le> (of_int n :: rat)" and "(of_int n :: rat) < 2 powi bitlen n"
proof -
  have b: "2 ^ nat (bitlen n - 1) \<le> n" "n < 2 ^ nat (bitlen n)"
    using bitlen_bounds [OF assms] by auto
  have pos: "1 \<le> bitlen n" using assms bitlen_eq_zero_iff [of n] bitlen_nonneg [of n] by auto
  have "2 powi (bitlen n - 1) = (of_int (2 ^ nat (bitlen n - 1)) :: rat)"
    using pos by (simp add: power_int_def)
  also have "\<dots> \<le> of_int n" using b(1) by (simp only: of_int_le_iff)
  finally show "2 powi (bitlen n - 1) \<le> (of_int n :: rat)" .
  have "(of_int n :: rat) < of_int (2 ^ nat (bitlen n))" using b(2) by (simp only: of_int_less_iff)
  also have "\<dots> = 2 powi bitlen n" using pos by (simp add: power_int_def)
  finally show "(of_int n :: rat) < 2 powi bitlen n" .
qed

lemma leading_exp_bounds:
  assumes "0 < x"
  shows "2 powi leading_exp x \<le> x" and "x < 2 powi (leading_exp x + 1)"
proof -
  obtain n d where q: "quotient_of x = (n, d)" by fastforce
  then have d: "0 < d" and x: "x = of_int n / of_int d"
    by (auto simp: quotient_of_denom_pos quotient_of_div)
  with assms have n: "0 < n" by (simp add: zero_less_divide_iff)
  let ?k = "bitlen n - bitlen d"
  note bn = bitlen_rat_bounds [OF n] and bd = bitlen_rat_bounds [OF d]
  have "x < 2 powi bitlen n / 2 powi (bitlen d - 1)"
    unfolding x using bn bd d n by (intro frac_less) auto
  also have "\<dots> = 2 powi (?k + 1)"
    by (subst power_int_diff [symmetric]) (auto simp: algebra_simps)
  finally have up: "x < 2 powi (?k + 1)" .
  have "2 powi (?k - 1) = 2 powi (bitlen n - 1) / (2 powi bitlen d :: rat)"
    by (subst power_int_diff [symmetric]) (auto simp: algebra_simps)
  also have "\<dots> \<le> x" unfolding x using bn bd d n by (intro frac_le) auto
  finally have "2 powi (?k - 1) \<le> x" .
  with up show "2 powi leading_exp x \<le> x" "x < 2 powi (leading_exp x + 1)"
    by (auto simp: leading_exp_def q Let_def)
qed

lemma powi2_pos [simp]: "(0::rat) < 2 powi k"
  by (simp add: zero_less_power_int)

lemma powi2_not_neg [simp]: "\<not> (2::rat) powi k < 0"
  by (simp add: not_less less_imp_le)

lemma powi2_le_iff [simp]: "(2::rat) powi a \<le> 2 powi b \<longleftrightarrow> a \<le> b"
proof
  assume le: "(2::rat) powi a \<le> 2 powi b"
  show "a \<le> b"
  proof (rule ccontr)
    assume "\<not> a \<le> b"
    then have "(2::rat) powi b < 2 powi a" by (intro power_int_strict_increasing) auto
    with le show False by simp
  qed
qed (simp add: power_int_increasing)

lemma powi2_less_iff [simp]: "(2::rat) powi a < 2 powi b \<longleftrightarrow> a < b"
  by (simp add: not_le [symmetric])

lemma leading_exp_less: "0 < x \<Longrightarrow> x < 2 powi k \<Longrightarrow> leading_exp x < k"
  using leading_exp_bounds(1) [of x] by (meson le_less_trans powi2_less_iff)

lemma leading_exp_mono: "0 < x \<Longrightarrow> x \<le> y \<Longrightarrow> leading_exp x \<le> leading_exp y"
  using leading_exp_less [of x "leading_exp y + 1"] leading_exp_bounds(2) [of y] by auto

lemma round_even_of_int [simp]: "round_even (of_int z) = z"
  by (simp add: round_even_def)

lemma round_even_mono: "y \<le> z \<Longrightarrow> round_even y \<le> round_even z"
proof -
  assume le: "y \<le> z"
  then have f: "\<lfloor>y\<rfloor> \<le> \<lfloor>z\<rfloor>" by (rule floor_mono)
  show ?thesis
  proof (cases "\<lfloor>y\<rfloor> = \<lfloor>z\<rfloor>")
    case True
    with le show ?thesis by (auto simp: round_even_def Let_def)
  next
    case False
    with f have "\<lfloor>y\<rfloor> + 1 \<le> \<lfloor>z\<rfloor>" by simp
    then show ?thesis by (auto simp: round_even_def Let_def)
  qed
qed

text \<open>A value with at most 53 significant binary digits is not changed.\<close>

definition representable :: "rat \<Rightarrow> bool" where
  "representable x \<longleftrightarrow> (\<exists>m e. x = of_int m * 2 powi e \<and> \<bar>m\<bar> \<le> 2 ^ 53 \<and> -1074 \<le> e)"

lemma powi2_integer:
  assumes "a \<le> b" shows "(2::rat) powi b = of_int (2 ^ nat (b - a)) * 2 powi a"
proof -
  have "(2::rat) powi b = 2 powi (b - a) * 2 powi a"
    by (subst power_int_add [symmetric]) auto
  then show ?thesis using assms by (simp add: power_int_def)
qed

lemma round_pos_exact_aux:
  assumes "0 < m" and "m < 2 ^ 53" and "-1074 \<le> e"
  shows "round_pos (of_int m * 2 powi e) = of_int m * 2 powi e"
proof -
  let ?x = "of_int m * 2 powi e :: rat"
  have "(of_int m :: rat) < of_int (2 ^ 53)" using assms(2) by (simp only: of_int_less_iff)
  then have "?x < 2 powi 53 * 2 powi e" by (intro mult_strict_right_mono) auto
  then have "?x < 2 powi (e + 53)" by (simp add: power_int_add)
  moreover have "0 < ?x" using assms(1) by simp
  ultimately have "leading_exp ?x < e + 53" by (rule leading_exp_less [rotated])
  then have e: "ulp_exp ?x \<le> e" using assms(3) by (simp add: ulp_exp_def)
  define u where "u = ulp_exp ?x"
  have "?x / 2 powi u = of_int (m * 2 ^ nat (e - u))"
    using powi2_integer [OF e [folded u_def]] by simp
  then have "round_pos ?x = of_int (m * 2 ^ nat (e - u)) * 2 powi u"
    unfolding round_pos_def u_def [symmetric] by (simp only: round_even_of_int)
  also have "\<dots> = ?x" using powi2_integer [OF e [folded u_def]] by simp
  finally show ?thesis .
qed

lemma round_pos_exact:
  assumes "0 < m" and "m \<le> 2 ^ 53" and "-1074 \<le> e"
  shows "round_pos (of_int m * 2 powi e) = of_int m * 2 powi e"
proof (cases "m = 2 ^ 53")
  case True
  have "(of_int m * 2 powi e :: rat) = of_int (2 ^ 52) * 2 powi (e + 1)"
    using True by (simp add: power_int_add)
  with round_pos_exact_aux [of "2 ^ 52" "e + 1"] assms(3) show ?thesis by simp
next
  case False
  with assms show ?thesis by (intro round_pos_exact_aux) auto
qed

lemma round_rat_exact:
  assumes "representable x" shows "round_rat x = x"
proof -
  obtain m e where x: "x = of_int m * 2 powi e" "\<bar>m\<bar> \<le> 2 ^ 53" "-1074 \<le> e"
    using assms by (auto simp: representable_def)
  then show ?thesis
    using round_pos_exact [of m e] round_pos_exact [of "- m" e]
    by (cases "m = 0"; cases "0 < m")
      (auto simp: round_rat_def zero_less_mult_iff mult_less_0_iff)
qed

text \<open>Powers of two on the grid of a value bound its rounding.\<close>

lemma round_pos_le_pow:
  assumes "x \<le> 2 powi l" and "ulp_exp x \<le> l" shows "round_pos x \<le> 2 powi l"
proof -
  let ?u = "ulp_exp x"
  note g = powi2_integer [OF assms(2)]
  have "x / 2 powi ?u \<le> of_int (2 ^ nat (l - ?u))"
    using assms(1) by (simp add: pos_divide_le_eq g)
  from round_even_mono [OF this] have "round_even (x / 2 powi ?u) \<le> 2 ^ nat (l - ?u)"
    by (simp only: round_even_of_int)
  then have "(of_int (round_even (x / 2 powi ?u)) :: rat) \<le> of_int (2 ^ nat (l - ?u))"
    by (simp only: of_int_le_iff)
  then show ?thesis unfolding round_pos_def g by (intro mult_right_mono) auto
qed

lemma pow_le_round_pos:
  assumes "2 powi l \<le> x" and "ulp_exp x \<le> l" shows "2 powi l \<le> round_pos x"
proof -
  let ?u = "ulp_exp x"
  note g = powi2_integer [OF assms(2)]
  have "of_int (2 ^ nat (l - ?u)) \<le> x / 2 powi ?u"
    using assms(1) by (simp add: pos_le_divide_eq g)
  from round_even_mono [OF this] have "2 ^ nat (l - ?u) \<le> round_even (x / 2 powi ?u)"
    by (simp only: round_even_of_int)
  then have "of_int (2 ^ nat (l - ?u)) \<le> (of_int (round_even (x / 2 powi ?u)) :: rat)"
    by (simp only: of_int_le_iff)
  then show ?thesis unfolding round_pos_def g by (intro mult_right_mono) auto
qed

lemma round_pos_mono:
  assumes "0 < x" and "x \<le> y" shows "round_pos x \<le> round_pos y"
proof (cases "ulp_exp x = ulp_exp y")
  case True
  have "x / 2 powi ulp_exp y \<le> y / 2 powi ulp_exp y" using assms(2) by (simp add: divide_right_mono)
  from round_even_mono [OF this] show ?thesis
    unfolding round_pos_def True by (intro mult_right_mono) auto
next
  case False
  let ?l = "leading_exp y"
  have "leading_exp x \<le> ?l" using assms by (rule leading_exp_mono)
  with False have u: "ulp_exp y = ?l - 52" "ulp_exp x < ?l - 52" "leading_exp x + 1 \<le> ?l"
    by (auto simp: ulp_exp_def)
  have "x < 2 powi (leading_exp x + 1)" using leading_exp_bounds(2) assms(1) by blast
  then have "x \<le> 2 powi ?l" using u(3) by (meson less_le_trans less_imp_le powi2_le_iff)
  then have "round_pos x \<le> 2 powi ?l" using u(2) by (intro round_pos_le_pow) auto
  also have "\<dots> \<le> round_pos y"
    using leading_exp_bounds(1) assms u(1) by (intro pow_le_round_pos) auto
  finally show ?thesis .
qed

lemma round_pos_nonneg: "0 < x \<Longrightarrow> 0 \<le> round_pos x"
  using round_even_mono [of 0 "x / 2 powi ulp_exp x"] round_even_of_int [of 0]
  by (simp add: round_pos_def)

lemma round_rat_mono:
  assumes "x \<le> y" shows "round_rat x \<le> round_rat y"
proof -
  consider "0 < x" | "y < 0" | "x \<le> 0" "0 \<le> y" by linarith
  then show ?thesis
  proof cases
    case 1
    with round_pos_mono [OF 1 assms] assms show ?thesis by (simp add: round_rat_def)
  next
    case 2
    with round_pos_mono [of "- y" "- x"] assms show ?thesis by (simp add: round_rat_def)
  next
    case 3
    have "round_rat x \<le> 0" using 3(1) round_pos_nonneg [of "- x"] by (simp add: round_rat_def)
    also have "0 \<le> round_rat y" using 3(2) round_pos_nonneg [of y] by (simp add: round_rat_def)
    finally show ?thesis .
  qed
qed

lemma round_rat_zero [simp]: "round_rat 0 = 0"
  by (simp add: round_rat_def)

lemma round_rat_nonneg: "0 \<le> x \<Longrightarrow> 0 \<le> round_rat x"
  using round_rat_mono [of 0 x] by simp

lemma round_even_bound: "y < of_int z \<Longrightarrow> round_even y \<le> z"
  using round_even_mono [of y "of_int z"] by simp

lemma round_pos_representable:
  assumes "0 < x" shows "representable (round_pos x)"
proof -
  let ?u = "ulp_exp x"
  have "x < 2 powi (?u + 53)"
    using leading_exp_bounds(2) [OF assms] by (rule less_le_trans) (simp add: ulp_exp_def)
  also have "\<dots> = of_int (2 ^ 53) * 2 powi ?u" by (simp add: power_int_add)
  finally have "x / 2 powi ?u < of_int (2 ^ 53)" by (simp add: pos_divide_less_eq)
  then have "round_even (x / 2 powi ?u) \<le> 2 ^ 53" by (rule round_even_bound)
  moreover have "0 \<le> round_even (x / 2 powi ?u)"
    using round_even_mono [of 0 "x / 2 powi ?u"] round_even_of_int [of 0] assms by simp
  ultimately show ?thesis
    unfolding representable_def round_pos_def
    by (intro exI [of _ "round_even (x / 2 powi ?u)"] exI [of _ ?u]) (simp add: ulp_exp_def)
qed

lemma representable_minus: "representable x \<Longrightarrow> representable (- x)"
proof -
  assume "representable x"
  then obtain m e where "x = of_int m * 2 powi e" "\<bar>m\<bar> \<le> 2 ^ 53" "-1074 \<le> e"
    by (auto simp: representable_def)
  then have "- x = of_int (- m) * 2 powi e" "\<bar>- m\<bar> \<le> 2 ^ 53" by auto
  with \<open>-1074 \<le> e\<close> show ?thesis unfolding representable_def by blast
qed

lemma representable_zero [simp]: "representable 0"
  unfolding representable_def by (intro exI [of _ 0]) simp

lemma representable_round_rat: "representable (round_rat x)"
  by (auto simp: round_rat_def intro!: round_pos_representable representable_minus)

lemma round_rat_idem [simp]: "round_rat (round_rat x) = round_rat x"
  by (rule round_rat_exact [OF representable_round_rat])

lemma representable_int: "\<bar>m\<bar> \<le> 2 ^ 53 \<Longrightarrow> representable (of_int m)"
  unfolding representable_def by (intro exI [of _ m] exI [of _ 0]) simp

lemma representable_pow2: "representable (2 ^ k)"
  unfolding representable_def by (intro exI [of _ 1] exI [of _ "int k"]) simp

section \<open>Values and operations\<close>

text \<open>\<open>FInf True\<close> is positive infinity.\<close>

datatype float64 = Fin rat | FInf bool | NaN

definition float_of_rat :: "rat \<Rightarrow> float64" where
  "float_of_rat x =
     (let r = round_rat x
      in if 2 ^ 1024 \<le> r then FInf True else if r \<le> - (2 ^ 1024) then FInf False else Fin r)"

definition float_of_int :: "int \<Rightarrow> float64" where
  "float_of_int n = float_of_rat (of_int n)"

fun f_add :: "float64 \<Rightarrow> float64 \<Rightarrow> float64" where
  "f_add (Fin x) (Fin y) = float_of_rat (x + y)"
| "f_add (FInf s) (FInf t) = (if s = t then FInf s else NaN)"
| "f_add (FInf s) (Fin _) = FInf s"
| "f_add (Fin _) (FInf s) = FInf s"
| "f_add _ _ = NaN"

fun f_mul :: "float64 \<Rightarrow> float64 \<Rightarrow> float64" where
  "f_mul (Fin x) (Fin y) = float_of_rat (x * y)"
| "f_mul (FInf s) (FInf t) = FInf (s = t)"
| "f_mul (FInf s) (Fin x) = (if x = 0 then NaN else FInf (s = (0 < x)))"
| "f_mul (Fin x) (FInf s) = (if x = 0 then NaN else FInf (s = (0 < x)))"
| "f_mul _ _ = NaN"

text \<open>The only divisor in the program is the constant one million, so the divisor is a rational.\<close>

fun f_div_const :: "float64 \<Rightarrow> rat \<Rightarrow> float64" where
  "f_div_const (Fin x) d = float_of_rat (x / d)"
| "f_div_const (FInf s) d = FInf (s = (0 < d))"
| "f_div_const NaN d = NaN"

fun f_less :: "float64 \<Rightarrow> float64 \<Rightarrow> bool" where
  "f_less (Fin x) (Fin y) \<longleftrightarrow> x < y"
| "f_less (Fin _) (FInf t) \<longleftrightarrow> t"
| "f_less (FInf s) (Fin _) \<longleftrightarrow> \<not> s"
| "f_less (FInf s) (FInf t) \<longleftrightarrow> \<not> s \<and> t"
| "f_less _ _ \<longleftrightarrow> False"

fun f_le :: "float64 \<Rightarrow> float64 \<Rightarrow> bool" where
  "f_le (Fin x) (Fin y) \<longleftrightarrow> x \<le> y"
| "f_le (Fin _) (FInf t) \<longleftrightarrow> t"
| "f_le (FInf s) (Fin _) \<longleftrightarrow> \<not> s"
| "f_le (FInf s) (FInf t) \<longleftrightarrow> \<not> s \<or> t"
| "f_le _ _ \<longleftrightarrow> False"

abbreviation f_zero :: float64 where "f_zero \<equiv> Fin 0"

text \<open>The values Go can hold: finite ones are representable and in range.\<close>

fun f_valid :: "float64 \<Rightarrow> bool" where
  "f_valid (Fin x) \<longleftrightarrow> round_rat x = x \<and> \<bar>x\<bar> < 2 ^ 1024"
| "f_valid _ \<longleftrightarrow> True"

lemma f_valid_float_of_rat [simp]: "f_valid (float_of_rat x)"
  by (auto simp: float_of_rat_def Let_def abs_less_iff)

lemma f_valid_add [simp]: "f_valid (f_add a b)"
  by (cases "(a, b)" rule: f_add.cases) simp_all

lemma f_valid_mul [simp]: "f_valid (f_mul a b)"
  by (cases "(a, b)" rule: f_mul.cases) simp_all

lemma f_valid_of_int [simp]: "f_valid (float_of_int n)"
  by (simp add: float_of_int_def)

lemma f_le_trans: "f_le a b \<Longrightarrow> f_le b c \<Longrightarrow> f_le a c"
  by (cases a; cases b; cases c) auto

lemma f_le_refl: "a \<noteq> NaN \<Longrightarrow> f_le a a"
  by (cases a) auto

lemma float_of_rat_mono: "x \<le> y \<Longrightarrow> f_le (float_of_rat x) (float_of_rat y)"
  using round_rat_mono [of x y] by (auto simp: float_of_rat_def Let_def)

lemma float_of_rat_valid: "f_valid (Fin x) \<Longrightarrow> float_of_rat x = Fin x"
  by (auto simp: float_of_rat_def Let_def abs_less_iff)

lemma f_nonneg_float_of_rat: "0 \<le> x \<Longrightarrow> f_le f_zero (float_of_rat x)"
  using float_of_rat_mono [of 0 x] by (simp add: float_of_rat_valid)

text \<open>Adding a non-negative amount never decreases a sum.\<close>

lemma f_add_increases:
  assumes "f_valid a" and "f_le f_zero a" and "f_le f_zero b"
  shows "f_le a (f_add a b)"
proof (cases "(a, b)" rule: f_add.cases)
  case (1 x y)
  with assms have "f_le (float_of_rat x) (float_of_rat (x + y))" by (intro float_of_rat_mono) simp
  with 1 assms(1) show ?thesis by (simp add: float_of_rat_valid)
qed (use assms in auto)

lemma f_nonneg_add: "f_le f_zero a \<Longrightarrow> f_le f_zero b \<Longrightarrow> f_le f_zero (f_add a b)"
  by (cases "(a, b)" rule: f_add.cases) (auto intro: f_nonneg_float_of_rat)

lemma f_le_infinity: "f_le (float_of_rat x) (FInf True)"
  by (simp add: float_of_rat_def Let_def)

lemma f_add_mono:
  assumes "f_le f_zero a" "f_le a a'" "f_le f_zero b" "f_le b b'"
  shows "f_le (f_add a b) (f_add a' b')"
  using assms by (cases a; cases b; cases a'; cases b') (auto intro: float_of_rat_mono f_le_infinity)

text \<open>A product of a non-negative amount with a finite non-negative price is non-negative.\<close>

lemma f_nonneg_mul: "f_le f_zero (Fin x) \<Longrightarrow> f_le f_zero (Fin p) \<Longrightarrow> f_le f_zero (f_mul (Fin x) (Fin p))"
  by (simp add: f_nonneg_float_of_rat)

end
