(* ===== verification/Gateway_Pipeline.thy ===== *)
theory Gateway_Pipeline
  imports Json_Text Float64
begin

text \<open>
  The request pipeline of \<open>internal/server/pipeline.go\<close> with the helpers it uses: HTTP headers, the
  request identifier of \<open>internal/requestid\<close>, and the zeroed buffers of \<open>internal/utils/memzero.go\<close>.

  A handler works on one state: the request context, the client's response writer, the byte
  buffers and \<open>SecureBytes\<close> objects that were allocated for the request (addressed by their
  position, because several fields share them), and the audit log. A middleware takes the rest of
  the chain as a function, as in Go, and returns or panics with a state. The state is extensible:
  later theories add the shared components.
\<close>

section \<open>HTTP headers\<close>

text \<open>\<open>http.Header\<close>: canonical keys with their values, in some iteration order.\<close>

type_synonym headers = "(string \<times> string list) list"

definition token_byte :: "char \<Rightarrow> bool" where
  "token_byte c \<longleftrightarrow>
     in_range 0x30 0x39 c \<or> in_range 0x41 0x5A c \<or> in_range 0x61 0x7A c
     \<or> c \<in> set [CHR ''!'', CHR ''#'', CHR ''$'', CHR ''%'', CHR ''&'', CHR 0x27, CHR ''*'', CHR ''+'', CHR ''-'',
                CHR ''.'', CHR ''^'', CHR ''_'', CHR 0x60, CHR ''|'', CHR ''~'']"

definition byte_upper :: "char \<Rightarrow> char" where
  "byte_upper c = (if in_range 0x61 0x7A c then char_of (byte_val c - 32) else c)"

fun canonical_bytes :: "bool \<Rightarrow> string \<Rightarrow> string" where
  "canonical_bytes up [] = []"
| "canonical_bytes up (c # s) = (if up then byte_upper c else ascii_lower c) # canonical_bytes (c = CHR ''-'') s"

definition CanonicalHeaderKey :: "string \<Rightarrow> string" where
  "CanonicalHeaderKey s = (if list_all token_byte s then canonical_bytes True s else s)"

definition hdr_Get :: "headers \<Rightarrow> string \<Rightarrow> string" where
  "hdr_Get h key = (case map_of h (CanonicalHeaderKey key) of Some (v # _) \<Rightarrow> v | _ \<Rightarrow> [])"

definition hdr_Del :: "string \<Rightarrow> headers \<Rightarrow> headers" where
  "hdr_Del key h = filter (\<lambda>kv. fst kv \<noteq> CanonicalHeaderKey key) h"

definition hdr_Set :: "string \<Rightarrow> string \<Rightarrow> headers \<Rightarrow> headers" where
  "hdr_Set key v h = hdr_Del key h @ [(CanonicalHeaderKey key, [v])]"

definition hdr_Add :: "string \<Rightarrow> string \<Rightarrow> headers \<Rightarrow> headers" where
  "hdr_Add key v h =
     (case map_of h (CanonicalHeaderKey key) of
        None \<Rightarrow> h @ [(CanonicalHeaderKey key, [v])]
      | Some vs \<Rightarrow> hdr_Del key h @ [(CanonicalHeaderKey key, vs @ [v])])"

section \<open>Secrets in memory\<close>

text \<open>
  A \<open>SecureBytes\<close> object: the memory behind its slice, and whether the slice is still held (after
  \<open>Close\<close> it is nil).
\<close>

record SecureBytes =
  sb_mem :: bytes
  sb_held :: bool

definition MemZero :: "bytes \<Rightarrow> bytes" where
  "MemZero b = replicate (length b) (CHR 0x00)"

definition NewSecureBytes :: "bytes \<Rightarrow> SecureBytes" where
  "NewSecureBytes d = \<lparr>sb_mem = d, sb_held = True\<rparr>"

definition sb_Bytes :: "SecureBytes \<Rightarrow> bytes" where
  "sb_Bytes sb = (if sb_held sb then sb_mem sb else [])"

definition sb_Close :: "SecureBytes \<Rightarrow> SecureBytes" where
  "sb_Close sb = (if sb_held sb then sb\<lparr>sb_mem := MemZero (sb_mem sb), sb_held := False\<rparr> else sb)"

definition zeroed :: "bytes \<Rightarrow> bool" where
  "zeroed b \<longleftrightarrow> list_all (\<lambda>c. c = CHR 0x00) b"

lemma zeroed_MemZero [simp]: "zeroed (MemZero b)"
  by (simp add: zeroed_def MemZero_def list_all_iff)

lemma MemZero_length [simp]: "length (MemZero b) = length b"
  by (simp add: MemZero_def)

section \<open>Request identifiers\<close>

definition MaxLength :: nat where "MaxLength = 128"

definition id_byte :: "char \<Rightarrow> bool" where
  "id_byte c \<longleftrightarrow>
     in_range 0x61 0x7A c \<or> in_range 0x41 0x5A c \<or> in_range 0x30 0x39 c
     \<or> c = CHR ''-'' \<or> c = CHR ''_'' \<or> c = CHR ''.'' \<or> c = CHR '':''"

definition Safe :: "string \<Rightarrow> bool" where
  "Safe i \<longleftrightarrow> i \<noteq> [] \<and> length i \<le> MaxLength \<and> trim_space i = i \<and> list_all id_byte i"

definition hex_bytes :: "bytes \<Rightarrow> string" where
  "hex_bytes b = concat (map (\<lambda>c. [hex_digit (byte_val c div 16), hex_digit (byte_val c mod 16)]) b)"

text \<open>The random source fails or gives sixteen bytes; on failure the clock names the request.\<close>

definition Generate :: "bytes option \<Rightarrow> go_time \<Rightarrow> string" where
  "Generate random now =
     (case random of
        None \<Rightarrow> ''req_'' @ format_int now
      | Some b \<Rightarrow> ''req_'' @ hex_bytes b)"

section \<open>Requests, contexts and responses\<close>

text \<open>
  Where a request body is read from: nothing, the client's connection (its bytes and whether
  reading it fails at the end), a buffer of the gateway, or an empty reader.
\<close>

datatype body_reader = NilBody | ClientStream bytes bool | BufferReader nat | EmptyReader

record http_request =
  rq_Method :: string
  rq_Path :: string
  rq_Header :: headers
  rq_RemoteAddr :: string
  rq_Body :: body_reader
  rq_ContentLength :: int
  rq_cancelled :: bool

record responseCommitState =
  committed :: bool
  statusCode :: int

record RequestContext =
  rc_Request :: http_request
  rc_RequestBody :: "nat option"
  rc_RequestBodyLoaded :: bool
  rc_VirtualKeyID :: string
  rc_Permissions :: "string list"
  rc_Budget :: float64
  rc_KeySource :: string
  rc_BYOKKeyID :: string
  rc_MaxRPM :: int
  rc_MaxTPM :: int
  rc_MaxConcurrency :: int
  rc_ProviderID :: string
  rc_ProviderType :: string
  rc_ProviderAPIKeyID :: string
  rc_ProviderAPIVersion :: string
  rc_Model :: string
  rc_BaseURL :: string
  rc_TargetPath :: string
  rc_IsStreaming :: bool
  rc_CanFallback :: bool
  rc_RetryableAttempt :: bool
  rc_UpstreamAuthHeader :: string
  rc_UpstreamAuthPrefix :: string
  rc_UpstreamExtraHeaders :: "(string \<times> string) list"
  rc_TransformResponse :: "(bytes \<Rightarrow> bytes option) option"
  rc_TransformStreamLine :: "(string \<Rightarrow> (string \<times> bool) option) option"
  rc_ProviderAPIKey :: "nat option"
  rc_InputTokens :: int
  rc_OutputTokens :: int
  rc_StatusCode :: int
  rc_ProviderResponded :: bool
  rc_ProviderFailure :: bool
  rc_aborted :: bool
  rc_abortCode :: int
  rc_abortBody :: bytes
  rc_response :: responseCommitState

text \<open>
  The connection to the client, as \<open>net/http\<close> keeps it: the header map, the status line of every
  response that was sent (informational 1xx lines, which precede a response, are not responses), the
  body bytes that were sent, and which of the coming writes will fail.
\<close>

record client_conn =
  cc_Header :: headers
  cc_status :: "int list"
  cc_body :: bytes
  cc_flushes :: nat
  cc_faults :: "bool list"

record audit_line =
  al_method :: string
  al_path :: string
  al_status :: int
  al_input_tokens :: int
  al_output_tokens :: int
  al_provider :: string
  al_virtual_key_id :: string

record gw =
  gw_ctx :: RequestContext
  gw_conn :: client_conn
  gw_flusher :: bool
  gw_bufs :: "bytes list"
  gw_secures :: "SecureBytes list"
  gw_audit :: "audit_line list"

definition on_ctx :: "(RequestContext \<Rightarrow> RequestContext) \<Rightarrow> 'a gw_scheme \<Rightarrow> 'a gw_scheme" where
  "on_ctx f g = g\<lparr>gw_ctx := f (gw_ctx g)\<rparr>"

definition on_conn :: "(client_conn \<Rightarrow> client_conn) \<Rightarrow> 'a gw_scheme \<Rightarrow> 'a gw_scheme" where
  "on_conn f g = g\<lparr>gw_conn := f (gw_conn g)\<rparr>"

abbreviation is_committed :: "'a gw_scheme \<Rightarrow> bool" where
  "is_committed g \<equiv> committed (rc_response (gw_ctx g))"

abbreviation IsAborted :: "'a gw_scheme \<Rightarrow> bool" where
  "IsAborted g \<equiv> rc_aborted (gw_ctx g)"

section \<open>The tracking response writer\<close>

text \<open>
  \<open>WriteHeader\<close> of \<open>net/http\<close>: it panics on a code outside 100 to 999, sends an informational line for
  a 1xx code other than 101 and leaves the response open, and otherwise starts the response.
\<close>

definition final_status :: "int \<Rightarrow> bool" where
  "final_status status \<longleftrightarrow> status = 101 \<or> 200 \<le> status \<and> status \<le> 999"

definition conn_WriteHeader :: "int \<Rightarrow> client_conn \<Rightarrow> client_conn" where
  "conn_WriteHeader status c = (if final_status status then c\<lparr>cc_status := cc_status c @ [status]\<rparr> else c)"

text \<open>A response that was not started when bytes are written, flushed or the handler returns gets a 200.\<close>

definition conn_finish :: "client_conn \<Rightarrow> client_conn" where
  "conn_finish c = (if cc_status c = [] then conn_WriteHeader 200 c else c)"

text \<open>
  The tracking writer marks the response as committed and remembers the code before it calls the
  connection, so that both stay when the connection panics; \<open>header_panics\<close> says whether it does.
\<close>

definition trw_WriteHeader :: "int \<Rightarrow> 'a gw_scheme \<Rightarrow> 'a gw_scheme" where
  "trw_WriteHeader status g =
     (if is_committed g then g
      else on_conn (conn_WriteHeader status)
        (on_ctx (\<lambda>rc. rc\<lparr>rc_response := \<lparr>committed = True, statusCode = status\<rparr>,
                         rc_StatusCode := (if rc_StatusCode rc = 0 then status else rc_StatusCode rc)\<rparr>) g))"

definition header_panics :: "int \<Rightarrow> 'a gw_scheme \<Rightarrow> bool" where
  "header_panics status g \<longleftrightarrow> \<not> is_committed g \<and> (status < 100 \<or> 999 < status)"

text \<open>The connection's own \<open>Write\<close>: it sends the bytes or reports an error.\<close>

definition conn_Write :: "bytes \<Rightarrow> client_conn \<Rightarrow> bool \<times> client_conn" where
  "conn_Write b c =
     (let c = conn_finish c
      in case cc_faults c of
           [] \<Rightarrow> (True, c\<lparr>cc_body := cc_body c @ b\<rparr>)
         | bad # rest \<Rightarrow>
             if bad then (False, c\<lparr>cc_faults := rest\<rparr>)
             else (True, c\<lparr>cc_body := cc_body c @ b, cc_faults := rest\<rparr>))"

definition trw_Write :: "bytes \<Rightarrow> 'a gw_scheme \<Rightarrow> bool \<times> 'a gw_scheme" where
  "trw_Write b g =
     (let g = (if is_committed g then g else trw_WriteHeader 200 g);
          (ok, c) = conn_Write b (gw_conn g)
      in (ok, g\<lparr>gw_conn := c\<rparr>))"

definition trw_Flush :: "'a gw_scheme \<Rightarrow> 'a gw_scheme" where
  "trw_Flush g =
     (let g = (if is_committed g then g else trw_WriteHeader 200 g)
      in on_conn (\<lambda>c. (conn_finish c)\<lparr>cc_flushes := Suc (cc_flushes c)\<rparr>) g)"

definition trw_SetHeader :: "string \<Rightarrow> string \<Rightarrow> 'a gw_scheme \<Rightarrow> 'a gw_scheme" where
  "trw_SetHeader k v g = on_conn (\<lambda>c. c\<lparr>cc_Header := hdr_Set k v (cc_Header c)\<rparr>) g"

definition trw_AddHeader :: "string \<Rightarrow> string \<Rightarrow> 'a gw_scheme \<Rightarrow> 'a gw_scheme" where
  "trw_AddHeader k v g = on_conn (\<lambda>c. c\<lparr>cc_Header := hdr_Add k v (cc_Header c)\<rparr>) g"

section \<open>The context's own operations\<close>

definition Abort :: "int \<Rightarrow> bytes \<Rightarrow> 'a gw_scheme \<Rightarrow> 'a gw_scheme" where
  "Abort status body g =
     on_ctx (\<lambda>rc. rc\<lparr>rc_aborted := True, rc_abortCode := status, rc_abortBody := body,
                      rc_StatusCode := status\<rparr>) g"

text \<open>Close the \<open>SecureBytes\<close> object at an address; every holder of the pointer sees it closed.\<close>

definition close_secure :: "nat \<Rightarrow> 'a gw_scheme \<Rightarrow> 'a gw_scheme" where
  "close_secure p g = g\<lparr>gw_secures := (gw_secures g)[p := sb_Close (gw_secures g ! p)]\<rparr>"

definition close_key :: "'a gw_scheme \<Rightarrow> 'a gw_scheme" where
  "close_key g =
     (case rc_ProviderAPIKey (gw_ctx g) of
        None \<Rightarrow> g
      | Some p \<Rightarrow> on_ctx (\<lambda>rc. rc\<lparr>rc_ProviderAPIKey := None\<rparr>) (close_secure p g))"

definition ResetAttempt :: "'a gw_scheme \<Rightarrow> 'a gw_scheme" where
  "ResetAttempt g =
     close_key (on_ctx (\<lambda>rc. rc\<lparr>rc_ProviderID := [], rc_ProviderType := [], rc_ProviderAPIKeyID := [],
       rc_ProviderAPIVersion := [], rc_BaseURL := [], rc_TargetPath := [], rc_CanFallback := False,
       rc_RetryableAttempt := False, rc_ProviderResponded := False, rc_ProviderFailure := False,
       rc_UpstreamAuthHeader := [], rc_UpstreamAuthPrefix := [], rc_UpstreamExtraHeaders := [],
       rc_TransformResponse := None, rc_TransformStreamLine := None\<rparr>) g)"

definition zero_buffer :: "nat option \<Rightarrow> 'a gw_scheme \<Rightarrow> 'a gw_scheme" where
  "zero_buffer a g =
     (case a of
        None \<Rightarrow> g
      | Some i \<Rightarrow> g\<lparr>gw_bufs := (gw_bufs g)[i := MemZero (gw_bufs g ! i)]\<rparr>)"

section \<open>The chain\<close>

text \<open>A call returns or panics; a panic carries the state it left behind.\<close>

datatype 'g run = Returned 'g | Panicked 'g

type_synonym 'g middleware = "('g \<Rightarrow> 'g run) \<Rightarrow> 'g \<Rightarrow> 'g run"

fun state_of :: "'g run \<Rightarrow> 'g" where
  "state_of (Returned g) = g"
| "state_of (Panicked g) = g"

fun and_then :: "'g run \<Rightarrow> ('g \<Rightarrow> 'g) \<Rightarrow> 'g run" where
  "and_then (Returned g) f = Returned (f g)"
| "and_then (Panicked g) f = Panicked g"

definition no_response_body :: bytes where
  "no_response_body =
     ''{'' @ quote ''error'' @ '':{'' @ quote ''message'' @ '':'' @ quote ''gateway pipeline produced no response''
     @ '','' @ quote ''type'' @ '':'' @ quote ''server_error'' @ ''}}''"

definition require_response :: "'a gw_scheme \<Rightarrow> 'a gw_scheme" where
  "require_response g =
     (if \<not> IsAborted g \<and> \<not> is_committed g \<and> \<not> rc_RetryableAttempt (gw_ctx g)
      then Abort 500 no_response_body g else g)"

primrec execute :: "('a gw_scheme) middleware list \<Rightarrow> 'a gw_scheme \<Rightarrow> ('a gw_scheme) run" where
  "execute [] g = Returned (require_response g)"
| "execute (m # ms) g = (if IsAborted g then Returned g else and_then (m (execute ms) g) require_response)"

definition RecoveryMiddleware :: "('a gw_scheme) middleware" where
  "RecoveryMiddleware next g =
     (case next g of
        Returned g' \<Rightarrow> Returned g'
      | Panicked g' \<Rightarrow> Returned (Abort 500 (''{'' @ quote ''error'' @ '':'' @ quote ''internal server error'' @ ''}'') g'))"

definition RequestIDMiddleware :: "bytes option \<Rightarrow> go_time \<Rightarrow> ('a gw_scheme) middleware" where
  "RequestIDMiddleware random now next g =
     (let reqID = hdr_Get (rq_Header (rc_Request (gw_ctx g))) ''X-Request-ID'';
          reqID = (if Safe reqID then reqID else Generate random now)
      in next (trw_SetHeader ''X-Request-ID'' reqID g))"

definition audit_entry :: "bool \<Rightarrow> 'a gw_scheme \<Rightarrow> audit_line" where
  "audit_entry panicked g =
     (let rc = gw_ctx g
      in \<lparr>al_method = rq_Method (rc_Request rc), al_path = rq_Path (rc_Request rc),
          al_status = (if committed (rc_response rc) then statusCode (rc_response rc)
                       else if panicked then 500 else rc_StatusCode rc),
          al_input_tokens = rc_InputTokens rc, al_output_tokens = rc_OutputTokens rc,
          al_provider = rc_ProviderID rc, al_virtual_key_id = rc_VirtualKeyID rc\<rparr>)"

definition AuditMiddleware :: "('a gw_scheme) middleware" where
  "AuditMiddleware next g =
     (case next g of
        Returned g' \<Rightarrow> Returned (g'\<lparr>gw_audit := gw_audit g' @ [audit_entry False g']\<rparr>)
      | Panicked g' \<Rightarrow> Panicked (g'\<lparr>gw_audit := gw_audit g' @ [audit_entry True g']\<rparr>))"

text \<open>\<open>NewPipeline\<close> registers the infrastructure middleware; \<open>Use\<close> appends the others.\<close>

definition NewPipeline :: "bytes option \<Rightarrow> go_time \<Rightarrow> ('a gw_scheme) middleware list" where
  "NewPipeline random now = [RecoveryMiddleware, RequestIDMiddleware random now, AuditMiddleware]"

definition Use :: "'g middleware \<Rightarrow> 'g middleware list \<Rightarrow> 'g middleware list" where
  "Use m ms = ms @ [m]"

definition new_context :: "http_request \<Rightarrow> RequestContext" where
  "new_context r =
     \<lparr>rc_Request = r, rc_RequestBody = None, rc_RequestBodyLoaded = False, rc_VirtualKeyID = [],
      rc_Permissions = [], rc_Budget = f_zero, rc_KeySource = [], rc_BYOKKeyID = [], rc_MaxRPM = 0,
      rc_MaxTPM = 0, rc_MaxConcurrency = 0, rc_ProviderID = [], rc_ProviderType = [],
      rc_ProviderAPIKeyID = [], rc_ProviderAPIVersion = [], rc_Model = [], rc_BaseURL = [],
      rc_TargetPath = [], rc_IsStreaming = False, rc_CanFallback = False, rc_RetryableAttempt = False,
      rc_UpstreamAuthHeader = [], rc_UpstreamAuthPrefix = [], rc_UpstreamExtraHeaders = [],
      rc_TransformResponse = None, rc_TransformStreamLine = None, rc_ProviderAPIKey = None,
      rc_InputTokens = 0, rc_OutputTokens = 0, rc_StatusCode = 0, rc_ProviderResponded = False,
      rc_ProviderFailure = False, rc_aborted = False, rc_abortCode = 0, rc_abortBody = [],
      rc_response = \<lparr>committed = False, statusCode = 0\<rparr>\<rparr>"

text \<open>
  The end of \<open>ServeHTTP\<close>. The codes of \<open>Abort\<close> are the error codes of the middleware, on which the
  connection does not panic.
\<close>

definition finish_request :: "'a gw_scheme \<Rightarrow> 'a gw_scheme" where
  "finish_request g =
     (let g1 = (if \<not> IsAborted g \<and> \<not> is_committed g then Abort 500 no_response_body g else g);
          g2 = (if IsAborted g1 \<and> \<not> is_committed g1
                then snd (trw_Write (rc_abortBody (gw_ctx g1))
                       (trw_WriteHeader (rc_abortCode (gw_ctx g1))
                         (trw_SetHeader ''Content-Type'' ''application/json'' g1)))
                else g1);
          g3 = close_key g2;
          g4 = zero_buffer (rc_RequestBody (gw_ctx g3)) g3
      in on_ctx (\<lambda>rc. rc\<lparr>rc_RequestBody := None, rc_RequestBodyLoaded := False\<rparr>) g4)"

definition ServeHTTP ::
  "('a gw_scheme) middleware list \<Rightarrow> http_request \<Rightarrow> 'a gw_scheme \<Rightarrow> ('a gw_scheme) run" where
  "ServeHTTP middlewares r g =
     and_then (execute middlewares (g\<lparr>gw_ctx := new_context r\<rparr>)) finish_request"

section \<open>Contracts of middleware\<close>

text \<open>
  A middleware keeps a predicate when it keeps it whatever the rest of the chain does, provided the
  rest keeps it too; panics included.
\<close>

definition keeps :: "('g \<Rightarrow> bool) \<Rightarrow> 'g middleware \<Rightarrow> bool" where
  "keeps P m \<longleftrightarrow>
     (\<forall>next. (\<forall>g. P g \<longrightarrow> P (state_of (next g))) \<longrightarrow> (\<forall>g. P g \<longrightarrow> P (state_of (m next g))))"

lemma keepsI:
  "(\<And>next g. (\<And>g. P g \<Longrightarrow> P (state_of (next g))) \<Longrightarrow> P g \<Longrightarrow> P (state_of (m next g))) \<Longrightarrow> keeps P m"
  by (simp add: keeps_def)

lemma keepsD: "keeps P m \<Longrightarrow> (\<And>g. P g \<Longrightarrow> P (state_of (next g))) \<Longrightarrow> P g \<Longrightarrow> P (state_of (m next g))"
  by (simp add: keeps_def)

lemma state_of_and_then: "P (state_of r) \<Longrightarrow> (\<And>g. P g \<Longrightarrow> P (f g)) \<Longrightarrow> P (state_of (and_then r f))"
  by (cases r) auto

text \<open>
  The interface between the pipeline and its middleware: an invariant of the state that \<open>Abort\<close>,
  the header map and the audit log cannot break. Every such invariant goes through the whole chain.
\<close>

locale chain_invariant =
  fixes P :: "'a gw_scheme \<Rightarrow> bool"
  assumes abort_keeps: "P g \<Longrightarrow> P (Abort status body g)"
    and header_keeps: "P g \<Longrightarrow> P (trw_SetHeader k v g)"
    and audit_keeps: "P g \<Longrightarrow> P (g\<lparr>gw_audit := l\<rparr>)"
begin

lemma require_keeps: "P g \<Longrightarrow> P (require_response g)"
  by (simp add: require_response_def abort_keeps)

lemma execute_keeps: "\<forall>m \<in> set ms. keeps P m \<Longrightarrow> P g \<Longrightarrow> P (state_of (execute ms g))"
proof (induction ms arbitrary: g)
  case Nil
  then show ?case by (simp add: require_keeps)
next
  case (Cons m ms)
  have "P (state_of (m (execute ms) g))" using Cons by (intro keepsD [of P m]) auto
  with Cons.prems show ?case by (simp add: state_of_and_then require_keeps)
qed

lemma infrastructure_keeps: "m \<in> set (NewPipeline random now) \<Longrightarrow> keeps P m"
proof -
  have "keeps P RecoveryMiddleware"
    by (rule keepsI) (fastforce simp: RecoveryMiddleware_def abort_keeps split: run.split)
  moreover have "keeps P (RequestIDMiddleware random now)"
    by (rule keepsI) (simp add: RequestIDMiddleware_def Let_def header_keeps)
  moreover have "keeps P AuditMiddleware"
    by (rule keepsI) (fastforce simp: AuditMiddleware_def audit_keeps split: run.split)
  ultimately show "m \<in> set (NewPipeline random now) \<Longrightarrow> keeps P m" by (auto simp: NewPipeline_def)
qed

lemma pipeline_keeps:
  "\<forall>m \<in> set ms. keeps P m \<Longrightarrow> P g \<Longrightarrow> P (state_of (execute (NewPipeline random now @ ms) g))"
  using infrastructure_keeps by (intro execute_keeps) auto

end

text \<open>The first middleware turns every panic into a value, so the pipeline returns.\<close>

lemma execute_returns: "\<exists>g'. execute (NewPipeline random now @ ms) g = Returned g'"
  by (simp add: NewPipeline_def RecoveryMiddleware_def split: run.split)

section \<open>One response per request\<close>

text \<open>
  The client has seen the status the context remembers, or nothing. When the remembered code is one
  the connection cannot send, the client has seen nothing or an implicit 200.
\<close>

definition wire_inv :: "'a gw_scheme \<Rightarrow> bool" where
  "wire_inv g \<longleftrightarrow>
     (if \<not> is_committed g then cc_status (gw_conn g) = [] \<and> cc_body (gw_conn g) = []
      else if final_status (statusCode (rc_response (gw_ctx g)))
      then cc_status (gw_conn g) = [statusCode (rc_response (gw_ctx g))]
      else cc_status (gw_conn g) = [200] \<or> cc_status (gw_conn g) = [] \<and> cc_body (gw_conn g) = [])"

lemmas gw_defs = on_ctx_def on_conn_def Abort_def trw_SetHeader_def trw_AddHeader_def

lemma final_status_ok [simp]: "final_status 200" "200 \<le> s \<Longrightarrow> s \<le> 999 \<Longrightarrow> final_status s"
  by (simp_all add: final_status_def)

lemma conn_WriteHeader_fields [simp]:
  "cc_Header (conn_WriteHeader s c) = cc_Header c" "cc_body (conn_WriteHeader s c) = cc_body c"
  "cc_flushes (conn_WriteHeader s c) = cc_flushes c" "cc_faults (conn_WriteHeader s c) = cc_faults c"
  "cc_status (conn_WriteHeader s c) = cc_status c @ (if final_status s then [s] else [])"
  by (simp_all add: conn_WriteHeader_def)

lemma conn_finish_fields [simp]:
  "cc_Header (conn_finish c) = cc_Header c" "cc_body (conn_finish c) = cc_body c"
  "cc_flushes (conn_finish c) = cc_flushes c" "cc_faults (conn_finish c) = cc_faults c"
  "cc_status (conn_finish c) = (if cc_status c = [] then [200] else cc_status c)"
  by (simp_all add: conn_finish_def)

interpretation wire: chain_invariant wire_inv
  by unfold_locales (auto simp: wire_inv_def gw_defs)

lemma wire_WriteHeader: "wire_inv g \<Longrightarrow> wire_inv (trw_WriteHeader status g)"
  by (auto simp: wire_inv_def trw_WriteHeader_def gw_defs)

lemma committed_WriteHeader [simp]: "is_committed (trw_WriteHeader status g)"
  by (simp add: trw_WriteHeader_def gw_defs)

lemma conn_Write_status: "conn_Write b c = (ok, c') \<Longrightarrow> cc_status c' = cc_status (conn_finish c)"
  by (auto simp: conn_Write_def Let_def split: list.splits if_splits)

text \<open>Whatever starts the response implicitly keeps the invariant of a committed context.\<close>

lemma wire_implicit:
  "wire_inv g \<Longrightarrow> is_committed g \<Longrightarrow> cc_status c' = cc_status (conn_finish (gw_conn g)) \<Longrightarrow> wire_inv (g\<lparr>gw_conn := c'\<rparr>)"
  by (auto simp: wire_inv_def split: if_splits)

lemma wire_Write: "wire_inv g \<Longrightarrow> wire_inv (snd (trw_Write b g))"
  using wire_WriteHeader [of g 200] committed_WriteHeader [of 200 g]
  by (auto simp: trw_Write_def Let_def split: prod.split intro!: wire_implicit dest: conn_Write_status)

lemma committed_Write [simp]: "is_committed (snd (trw_Write b g))"
  by (auto simp: trw_Write_def Let_def split: prod.split)

lemma wire_Flush: "wire_inv g \<Longrightarrow> wire_inv (trw_Flush g)"
  using wire_WriteHeader [of g 200] committed_WriteHeader [of 200 g]
  by (auto simp: trw_Flush_def Let_def on_conn_def intro!: wire_implicit)

text \<open>What the client has received once the handler has returned.\<close>

lemma wire_finished:
  "wire_inv g \<Longrightarrow> is_committed g \<Longrightarrow>
   cc_status (conn_finish (gw_conn g)) =
     [if final_status (statusCode (rc_response (gw_ctx g))) then statusCode (rc_response (gw_ctx g)) else 200]"
  by (auto simp: wire_inv_def split: if_splits)

lemma wire_AddHeader: "wire_inv g \<Longrightarrow> wire_inv (trw_AddHeader k v g)"
  by (auto simp: wire_inv_def gw_defs)

lemma close_key_frame [simp]:
  "gw_conn (close_key g) = gw_conn g" "rc_response (gw_ctx (close_key g)) = rc_response (gw_ctx g)"
  "rc_ProviderAPIKey (gw_ctx (close_key g)) = None" "gw_audit (close_key g) = gw_audit g"
  "gw_bufs (close_key g) = gw_bufs g" "rc_RequestBody (gw_ctx (close_key g)) = rc_RequestBody (gw_ctx g)"
  "rc_aborted (gw_ctx (close_key g)) = rc_aborted (gw_ctx g)"
  by (auto simp: close_key_def close_secure_def on_ctx_def split: option.split)

lemma zero_buffer_frame [simp]:
  "gw_conn (zero_buffer a g) = gw_conn g" "gw_ctx (zero_buffer a g) = gw_ctx g"
  "gw_audit (zero_buffer a g) = gw_audit g" "gw_secures (zero_buffer a g) = gw_secures g"
  by (auto simp: zero_buffer_def split: option.split)

lemma finish_committed: "is_committed (finish_request g)"
  by (auto simp: finish_request_def Let_def on_ctx_def Abort_def)

lemma finish_wire: "wire_inv g \<Longrightarrow> wire_inv (finish_request g)"
proof -
  assume w: "wire_inv g"
  define g1 where "g1 = (if \<not> IsAborted g \<and> \<not> is_committed g then Abort 500 no_response_body g else g)"
  define g2 where "g2 = (if IsAborted g1 \<and> \<not> is_committed g1
                then snd (trw_Write (rc_abortBody (gw_ctx g1))
                       (trw_WriteHeader (rc_abortCode (gw_ctx g1))
                         (trw_SetHeader ''Content-Type'' ''application/json'' g1)))
                else g1)"
  have "wire_inv g1" using w by (simp add: g1_def wire.abort_keeps)
  then have "wire_inv g2" by (simp add: g2_def wire_Write wire_WriteHeader wire.header_keeps)
  moreover have "finish_request g = (let g3 = close_key g2;
          g4 = zero_buffer (rc_RequestBody (gw_ctx g3)) g3
      in on_ctx (\<lambda>rc. rc\<lparr>rc_RequestBody := None, rc_RequestBodyLoaded := False\<rparr>) g4)"
    by (simp only: finish_request_def Let_def g1_def g2_def)
  ultimately show ?thesis by (simp add: wire_inv_def Let_def on_ctx_def)
qed

lemma serve_once:
  assumes "\<forall>m \<in> set ms. keeps wire_inv m" and "cc_status (gw_conn g) = []" and "cc_body (gw_conn g) = []"
  shows "\<exists>g'. ServeHTTP (NewPipeline random now @ ms) r g = Returned g' \<and> wire_inv g' \<and> is_committed g'"
proof -
  obtain g' where e: "execute (NewPipeline random now @ ms) (g\<lparr>gw_ctx := new_context r\<rparr>) = Returned g'"
    using execute_returns by blast
  have "wire_inv (g\<lparr>gw_ctx := new_context r\<rparr>)" using assms(2,3) by (simp add: wire_inv_def new_context_def)
  then have "wire_inv g'" using wire.pipeline_keeps [OF assms(1)] e by (metis state_of.simps(1))
  then show ?thesis using e by (simp add: ServeHTTP_def finish_wire finish_committed)
qed

end
