(* ===== verification/Upstream_Engine.thy ===== *)
theory Upstream_Engine
  imports Egress_Policy Gateway_Pipeline
begin

text \<open>
  The proxy engine of \<open>internal/proxy/stream.go\<close>, the credential check of
  \<open>internal/utils/provider_credential.go\<close> and the capture buffer of
  \<open>internal/middleware/capture.go\<close>.

  Go's \<open>http.ResponseWriter\<close> interface is a record of operations, so that the engine can write to
  the client or to a capture buffer. Parameters are what lies outside the process: the resolver,
  the dialer and the HTTP client's round trip (a response with its chunks, or a failure), whether
  the request's context has ended, and \<open>url.Parse\<close>. Timeouts only decide when these fail.
\<close>

section \<open>Provider credentials\<close>

definition MaxProviderCredentialBytes :: nat where "MaxProviderCredentialBytes = 16384"

definition ValidateProviderCredentialHeaderValue :: "bytes \<Rightarrow> string option" where
  "ValidateProviderCredentialHeaderValue credential =
     (if credential = [] then Some ''provider credential must not be empty''
      else if MaxProviderCredentialBytes < length credential
      then Some ''provider credential exceeds 16384-byte limit''
      else if list_ex (\<lambda>b. \<not> in_range 0x20 0x7E b) credential
      then Some ''provider credential must contain only printable ASCII bytes (0x20-0x7e)''
      else None)"

section \<open>Response writers\<close>

record 'w response_writer =
  w_SetHeader :: "string \<Rightarrow> string \<Rightarrow> 'w \<Rightarrow> 'w"
  w_AddHeader :: "string \<Rightarrow> string \<Rightarrow> 'w \<Rightarrow> 'w"
  w_WriteHeader :: "int \<Rightarrow> 'w \<Rightarrow> 'w"
  w_Write :: "bytes \<Rightarrow> 'w \<Rightarrow> bool \<times> 'w"
  w_Flush :: "'w \<Rightarrow> 'w option"
  w_panics :: "int \<Rightarrow> 'w \<Rightarrow> bool"

text \<open>\<open>w_panics\<close> says whether \<open>WriteHeader\<close> panics, in the state before the call.\<close>

definition client_writer :: "('a gw_scheme) response_writer" where
  "client_writer =
     \<lparr>w_SetHeader = trw_SetHeader, w_AddHeader = trw_AddHeader, w_WriteHeader = trw_WriteHeader,
      w_Write = trw_Write, w_Flush = (\<lambda>g. if gw_flusher g then Some (trw_Flush g) else None),
      w_panics = header_panics\<rparr>"

definition MaxCapturedResponseBytes :: nat where "MaxCapturedResponseBytes = 4194304"

record captureWriter =
  cw_header :: headers
  cw_body :: bytes
  cw_status :: int
  cw_wroteHead :: bool
  cw_overflowed :: bool

definition newCaptureWriter :: captureWriter where
  "newCaptureWriter =
     \<lparr>cw_header = [], cw_body = [], cw_status = 200, cw_wroteHead = False, cw_overflowed = False\<rparr>"

definition cw_WriteHeader :: "int \<Rightarrow> captureWriter \<Rightarrow> captureWriter" where
  "cw_WriteHeader status w = (if cw_wroteHead w then w else w\<lparr>cw_wroteHead := True, cw_status := status\<rparr>)"

definition cw_Write :: "bytes \<Rightarrow> captureWriter \<Rightarrow> bool \<times> captureWriter" where
  "cw_Write p w =
     (let w = (if cw_wroteHead w then w else cw_WriteHeader 200 w)
      in if MaxCapturedResponseBytes < length (cw_body w) + length p
         then (True, w\<lparr>cw_overflowed := True\<rparr>)
         else (True, w\<lparr>cw_body := cw_body w @ p\<rparr>))"

definition capture_writer :: "captureWriter response_writer" where
  "capture_writer =
     \<lparr>w_SetHeader = (\<lambda>k v w. w\<lparr>cw_header := hdr_Set k v (cw_header w)\<rparr>),
      w_AddHeader = (\<lambda>k v w. w\<lparr>cw_header := hdr_Add k v (cw_header w)\<rparr>),
      w_WriteHeader = cw_WriteHeader, w_Write = cw_Write, w_Flush = (\<lambda>w. None),
      w_panics = (\<lambda>status w. False)\<rparr>"

fun add_headers :: "'w response_writer \<Rightarrow> headers \<Rightarrow> 'w \<Rightarrow> 'w" where
  "add_headers ops [] w = w"
| "add_headers ops ((k, vs) # h) w = add_headers ops h (fold (w_AddHeader ops k) vs w)"

definition FlushTo :: "captureWriter \<Rightarrow> 'a gw_scheme \<Rightarrow> ('a gw_scheme) run" where
  "FlushTo cw g =
     (let g1 = add_headers client_writer (cw_header cw) g; g2 = trw_WriteHeader (cw_status cw) g1
      in if header_panics (cw_status cw) g1 then Panicked g2 else Returned (snd (trw_Write (cw_body cw) g2)))"

section \<open>Dialling\<close>

definition JoinHostPort :: "string \<Rightarrow> string \<Rightarrow> string" where
  "JoinHostPort host port =
     (if CHR '':'' \<in> set host \<or> CHR ''%'' \<in> set host
      then CHR ''['' # host @ '']:'' @ port else host @ CHR '':'' # port)"

datatype dial_error =
  DialPolicy string | DialResolve | DialEmpty | DialDisallowed netip_addr | DialCancelled | DialFailed

text \<open>
  The result and the addresses handed to the dialer, in order. The dialer answers each address; a
  failed attempt may find the context ended.
\<close>

datatype dial_answer = Connected | Refused | RefusedAndEnded

fun validate_addresses :: "netip_addr list \<Rightarrow> netip_addr list \<Rightarrow> netip_addr + netip_addr list" where
  "validate_addresses validated [] = Inr validated"
| "validate_addresses validated (a # as) =
     (if PublicDNSAddress (unmap_addr a) then validate_addresses (validated @ [unmap_addr a]) as
      else Inl (unmap_addr a))"

fun dial_loop ::
  "(string \<Rightarrow> dial_answer) \<Rightarrow> string \<Rightarrow> netip_addr list \<Rightarrow> (dial_error option) \<times> string list" where
  "dial_loop dialer port [] = (Some DialFailed, [])"
| "dial_loop dialer port (a # as) =
     (let target = JoinHostPort (addr_String a) port
      in case dialer target of
           Connected \<Rightarrow> (None, [target])
         | RefusedAndEnded \<Rightarrow> (Some DialCancelled, [target])
         | Refused \<Rightarrow> (let (r, ts) = dial_loop dialer port as in (r, target # ts)))"

definition dialContext ::
  "(string \<Rightarrow> (netip_addr list) option) \<Rightarrow> (string \<Rightarrow> dial_answer) \<Rightarrow> string list \<Rightarrow> string
   \<Rightarrow> (dial_error option) \<times> string list" where
  "dialContext resolver dialer allowedDomains authority =
     (case ParseAllowlist allowedDomains of
        Inl e \<Rightarrow> (Some (DialPolicy e), [])
      | Inr rules \<Rightarrow>
         (case ParseAuthority authority of
            Inl e \<Rightarrow> (Some (DialPolicy (''invalid egress dial authority: '' @ e)), [])
          | Inr endpoint \<Rightarrow>
              if \<not> EndpointAllowed endpoint rules
              then (Some (DialPolicy (''dial endpoint not in egress allowlist: '' @ Host endpoint @ '':'' @ Port endpoint)), [])
              else if IPLiteral endpoint
              then (let target = JoinHostPort (addr_String (IP endpoint)) (Port endpoint)
                    in (case dialer target of Connected \<Rightarrow> None | _ \<Rightarrow> Some DialFailed, [target]))
              else case resolver (Host endpoint) of
                None \<Rightarrow> (Some DialResolve, [])
              | Some addresses \<Rightarrow>
                  if addresses = [] then (Some DialEmpty, [])
                  else case validate_addresses [] addresses of
                         Inl a \<Rightarrow> (Some (DialDisallowed a), [])
                       | Inr validated \<Rightarrow> dial_loop dialer (Port endpoint) validated))"

section \<open>Headers\<close>

definition allowedRequestHeaders :: "string list" where
  "allowedRequestHeaders = [''Accept'', ''Content-Type'', ''User-Agent'']"

definition allowedResponseHeaders :: "string list" where
  "allowedResponseHeaders =
     [''Content-Type'', ''Openai-Processing-Ms'', ''Openai-Version'', ''Ratelimit-Limit'', ''Ratelimit-Remaining'',
      ''Ratelimit-Reset'', ''Retry-After'', ''X-Ratelimit-Limit-Tokens'', ''X-Ratelimit-Limit-Requests'',
      ''X-Ratelimit-Remaining-Tokens'', ''X-Ratelimit-Remaining-Requests'', ''X-Ratelimit-Reset-Tokens'',
      ''X-Ratelimit-Reset-Requests'']"

definition renamedResponseHeader :: "string \<Rightarrow> string option" where
  "renamedResponseHeader key =
     (if key = CanonicalHeaderKey ''X-Request-ID'' then Some ''X-Upstream-Request-Id'' else None)"

fun copyHeaders :: "headers \<Rightarrow> headers \<Rightarrow> headers" where
  "copyHeaders dst [] = dst"
| "copyHeaders dst ((key, values) # src) =
     (if CanonicalHeaderKey key \<notin> set allowedRequestHeaders then copyHeaders dst src
      else copyHeaders (fold (hdr_Add key) values dst) src)"

fun copyResponseHeaders :: "'w response_writer \<Rightarrow> headers \<Rightarrow> 'w \<Rightarrow> 'w" where
  "copyResponseHeaders ops [] w = w"
| "copyResponseHeaders ops ((key, values) # src) w =
     (case renamedResponseHeader (CanonicalHeaderKey key) of
        Some target \<Rightarrow> copyResponseHeaders ops src (fold (w_AddHeader ops target) (filter Safe values) w)
      | None \<Rightarrow>
          if CanonicalHeaderKey key \<notin> set allowedResponseHeaders then copyResponseHeaders ops src w
          else copyResponseHeaders ops src (fold (w_AddHeader ops key) values w))"

section \<open>Responses\<close>

text \<open>An upstream response: its body arrives in chunks and ends with end-of-file or with an error.\<close>

record upstream_response =
  rs_StatusCode :: int
  rs_Header :: headers
  rs_chunks :: "bytes list"
  rs_broken :: bool

text \<open>
  How copying a response ends early. \<open>HeaderPanic\<close> is no error value: the writer panicked on the
  status code, and the panic goes up through \<open>Dispatch\<close> and its caller.
\<close>

datatype copy_error = UpstreamRead | ClientWrite | NoFlusher | HeaderPanic

definition sseScannerMaxLineSize :: nat where "sseScannerMaxLineSize = 1048576"

text \<open>
  \<open>bufio.Scanner\<close> splitting lines: a line ends at a newline or at the end of the input, one trailing
  carriage return is dropped, and a line that does not fit the buffer stops the scan. The flag says
  whether that happened.
\<close>

definition lf :: char where "lf = CHR 0x0A"

definition drop_cr :: "string \<Rightarrow> string" where
  "drop_cr s = (if has_suffix s [CHR 0x0D] then butlast s else s)"

function scan_lines :: "bytes \<Rightarrow> string list \<times> bool" where
  "scan_lines s =
     (let line = takeWhile (\<lambda>c. c \<noteq> lf) s; rest = dropWhile (\<lambda>c. c \<noteq> lf) s
      in if s = [] then ([], False)
         else if sseScannerMaxLineSize \<le> length line then ([], True)
         else if rest = [] then ([drop_cr line], False)
         else let (ls, tooLong) = scan_lines (tl rest) in (drop_cr line # ls, tooLong))"
  by pat_completeness auto
termination
proof (relation "measure length", goal_cases)
  case 1
  show ?case by simp
next
  case (2 s line rest)
  have "length rest \<le> length s" using 2 length_dropWhile_le by simp
  moreover have "0 < length rest" using 2 by simp
  ultimately have "length (tl rest) < length s" by (simp only: length_tl)
  then show ?case by (simp only: in_measure)
qed

declare scan_lines.simps [simp del]

definition countTokensFromChunk :: "string \<Rightarrow> int" where
  "countTokensFromChunk d = (if contains_sub d (quote ''content'') then 1 else 0)"

text \<open>
  The loop over the scanned lines: the transformed line is written and flushed, tokens are counted,
  and the end marker stops the loop. The result is the count, an error, and whether the marker was
  seen.
\<close>

fun sse_loop ::
  "'w response_writer \<Rightarrow> (string \<Rightarrow> (string \<times> bool) option) option \<Rightarrow> int \<Rightarrow> string list \<Rightarrow> 'w
   \<Rightarrow> int \<times> copy_error option \<times> bool \<times> 'w" where
  "sse_loop ops transform n [] w = (n, None, False, w)"
| "sse_loop ops transform n (line # ls) w =
     (case (case transform of None \<Rightarrow> Some (line, False) | Some f \<Rightarrow> f line) of
        None \<Rightarrow> (n, Some UpstreamRead, False, w)
      | Some (line', skip) \<Rightarrow>
          if skip then sse_loop ops transform n ls w
          else let (ok, w1) = w_Write ops (line' @ [lf]) w
               in if \<not> ok then (n, Some ClientWrite, False, w1)
                  else let w2 = (case w_Flush ops w1 of Some w' \<Rightarrow> w' | None \<Rightarrow> w1)
                       in if has_prefix line' ''data: '' then
                            (if drop 6 line' = ''[DONE]'' then (n, None, True, w2)
                             else sse_loop ops transform (wrap64 (n + countTokensFromChunk (drop 6 line'))) ls w2)
                          else sse_loop ops transform n ls w2)"

definition sse_head :: "'w response_writer \<Rightarrow> 'w \<Rightarrow> 'w" where
  "sse_head ops w =
     (let w = w_SetHeader ops ''Content-Type'' ''text/event-stream'' w;
          w = w_SetHeader ops ''Cache-Control'' ''no-cache'' w;
          w = w_SetHeader ops ''Connection'' ''keep-alive'' w;
          w = w_SetHeader ops ''X-Accel-Buffering'' ''no'' w
      in w_WriteHeader ops 200 w)"

definition streamSSE ::
  "'w response_writer \<Rightarrow> upstream_response \<Rightarrow> (string \<Rightarrow> (string \<times> bool) option) option \<Rightarrow> 'w
   \<Rightarrow> int \<times> copy_error option \<times> 'w" where
  "streamSSE ops resp transform w =
     (let w = sse_head ops w
      in if w_Flush ops w = None then (0, Some NoFlusher, w)
         else let (ls, tooLong) = scan_lines (concat (rs_chunks resp));
                  (n, err, finished, w) = sse_loop ops transform 0 ls w
              in if err \<noteq> None then (n, err, w)
                 else if \<not> finished \<and> (tooLong \<or> rs_broken resp) then (n, Some UpstreamRead, w)
                 else (n, None, w))"

text \<open>\<open>io.Copy\<close> between the two error-recording wrappers: read a chunk, write it.\<close>

fun io_Copy :: "'w response_writer \<Rightarrow> bytes list \<Rightarrow> bool \<Rightarrow> 'w \<Rightarrow> copy_error option \<times> 'w" where
  "io_Copy ops [] broken w = (if broken then Some UpstreamRead else None, w)"
| "io_Copy ops (c # cs) broken w =
     (if c = [] then io_Copy ops cs broken w
      else let (ok, w1) = w_Write ops c w
           in if ok then io_Copy ops cs broken w1 else (Some ClientWrite, w1))"

text \<open>A byte reader hands out its content through the copy buffer of 32 KiB.\<close>

function reader_chunks :: "bytes \<Rightarrow> bytes list" where
  "reader_chunks b = (if b = [] then [] else take 32768 b # reader_chunks (drop 32768 b))"
  by pat_completeness auto
termination by (relation "measure length") auto

declare reader_chunks.simps [simp del]

definition forwardResponse ::
  "'w response_writer \<Rightarrow> upstream_response \<Rightarrow> (bytes \<Rightarrow> bytes option) option \<Rightarrow> int \<Rightarrow> 'w
   \<Rightarrow> copy_error option \<times> 'w" where
  "forwardResponse ops resp transform maxTransformBytes w =
     (case (case transform of
              Some f \<Rightarrow>
                if rs_StatusCode resp = 200 then
                  (let limit = (if maxTransformBytes \<le> 0 then int MaxCapturedResponseBytes else maxTransformBytes);
                       content = concat (rs_chunks resp)
                   in if int (length content) > limit then None
                      else if rs_broken resp then None
                      else case f content of
                             None \<Rightarrow> None
                           | Some b \<Rightarrow> Some (reader_chunks b, False, hdr_Set ''Content-Type'' ''application/json'' (rs_Header resp)))
                else Some (rs_chunks resp, rs_broken resp, rs_Header resp)
            | None \<Rightarrow> Some (rs_chunks resp, rs_broken resp, rs_Header resp)) of
        None \<Rightarrow> (Some UpstreamRead, w)
      | Some (chunks, broken, h) \<Rightarrow>
          let w1 = copyResponseHeaders ops h w; w2 = w_WriteHeader ops (rs_StatusCode resp) w1
          in if w_panics ops (rs_StatusCode resp) w1 then (Some HeaderPanic, w2) else io_Copy ops chunks broken w2)"

section \<open>Dispatch\<close>

record DispatchConfig =
  dc_TargetURL :: string
  dc_IsStreaming :: bool
  dc_AuthHeader :: string
  dc_AuthPrefix :: string
  dc_ExtraHeaders :: "(string \<times> string) list"
  dc_TransformResponse :: "(bytes \<Rightarrow> bytes option) option"
  dc_TransformStreamLine :: "(string \<Rightarrow> (string \<times> bool) option) option"
  dc_MaxTransformBytes :: int

record upstream_request =
  up_Method :: string
  up_URL :: string
  up_Header :: headers
  up_Body :: bytes

record ProxyResult =
  pr_StatusCode :: int
  pr_InputTokens :: int
  pr_OutputTokens :: int

datatype dispatch_error =
    KeyMissing | KeyInvalid | EgressBlocked string | BadUpstreamRequest | UpstreamTransport
  | RequestFailed | ContextEnded | Streaming copy_error | Forwarding copy_error

text \<open>
  The key is closed before the round trip and again on return; the outcome carries the object as the
  caller finds it. The request object that was sent is not used again, so deleting its
  authentication header after the round trip leaves nothing to observe.

  The world of one dispatch: the URL parser, the round trip, and whether the context has ended.\<close>

record net_env =
  ne_url_Parse :: "string \<Rightarrow> parsed_url option"
  ne_Do :: "upstream_request \<Rightarrow> upstream_response option"
  ne_ended :: bool

record dispatch_outcome =
  do_result :: "ProxyResult option"
  do_error :: "dispatch_error option"
  do_key :: "SecureBytes option"
  do_sent :: "upstream_request option"

definition validateEgress :: "(string \<Rightarrow> parsed_url option) \<Rightarrow> string list \<Rightarrow> string \<Rightarrow> string option" where
  "validateEgress url_Parse allowedDomains targetURL =
     (if allowedDomains = [] then Some ''no egress allowlist configured''
      else case ParseAllowlist allowedDomains of
        Inl e \<Rightarrow> Some e
      | Inr rules \<Rightarrow>
         (case ParseHTTPSURL url_Parse targetURL of
            Inl e \<Rightarrow> Some e
          | Inr endpoint \<Rightarrow>
              if EndpointAllowed endpoint rules then None
              else Some (''endpoint not in egress allowlist: '' @ Host endpoint @ '':'' @ Port endpoint)))"

definition set_extra :: "(string \<times> string) list \<Rightarrow> headers \<Rightarrow> headers" where
  "set_extra extra h = fold (\<lambda>(name, v) h. if blank name then h else hdr_Set name v h) extra h"

definition auth_header_of :: "DispatchConfig \<Rightarrow> string \<times> string" where
  "auth_header_of cfg =
     (if blank (dc_AuthHeader cfg) then (''Authorization'', ''Bearer '')
      else (dc_AuthHeader cfg, dc_AuthPrefix cfg))"

definition upstream_headers :: "headers \<Rightarrow> DispatchConfig \<Rightarrow> bytes \<Rightarrow> headers" where
  "upstream_headers client cfg key =
     (let (name, prefix) = auth_header_of cfg
      in set_extra (dc_ExtraHeaders cfg) (hdr_Set name (prefix @ key) (copyHeaders [] client)))"

definition valid_method :: "string \<Rightarrow> bool" where
  "valid_method m \<longleftrightarrow> list_all token_byte m"

text \<open>The response is streamed or copied; the result is the count of tokens and how it ended.\<close>

definition relay ::
  "'w response_writer \<Rightarrow> DispatchConfig \<Rightarrow> upstream_response \<Rightarrow> 'w \<Rightarrow> int \<times> dispatch_error option \<times> 'w" where
  "relay ops cfg resp w =
     (if dc_IsStreaming cfg \<and> rs_StatusCode resp = 200
      then (let (n, e, w1) = streamSSE ops resp (dc_TransformStreamLine cfg) w in (n, map_option Streaming e, w1))
      else (let (e, w1) = forwardResponse ops resp (dc_TransformResponse cfg) (dc_MaxTransformBytes cfg) w
            in (0, map_option Forwarding e, w1)))"

definition Dispatch ::
  "'w response_writer \<Rightarrow> net_env \<Rightarrow> string list \<Rightarrow> string \<Rightarrow> headers \<Rightarrow> bytes \<Rightarrow> DispatchConfig
   \<Rightarrow> SecureBytes option \<Rightarrow> 'w \<Rightarrow> dispatch_outcome \<times> 'w" where
  "Dispatch ops env allowedDomains method client_headers body cfg apiKey w =
     (case apiKey of
        None \<Rightarrow> (\<lparr>do_result = None, do_error = Some KeyMissing, do_key = None, do_sent = None\<rparr>, w)
      | Some key \<Rightarrow>
          let stop = (\<lambda>e. \<lparr>do_result = None, do_error = Some e, do_key = Some (sb_Close key), do_sent = None\<rparr>)
          in if ValidateProviderCredentialHeaderValue (sb_Bytes key) \<noteq> None then (stop KeyInvalid, w)
             else case validateEgress (ne_url_Parse env) allowedDomains (dc_TargetURL cfg) of
               Some e \<Rightarrow> (stop (EgressBlocked e), w)
             | None \<Rightarrow>
                 if \<not> valid_method method \<or> ne_url_Parse env (dc_TargetURL cfg) = None
                 then (stop BadUpstreamRequest, w)
                 else let sent = \<lparr>up_Method = method, up_URL = dc_TargetURL cfg,
                                  up_Header = upstream_headers client_headers cfg (sb_Bytes key), up_Body = body\<rparr>
                      in case ne_Do env sent of
                           None \<Rightarrow>
                             (\<lparr>do_result = None,
                               do_error = Some (if ne_ended env then RequestFailed else UpstreamTransport),
                               do_key = Some (sb_Close key), do_sent = Some sent\<rparr>, w)
                         | Some resp \<Rightarrow>
                             let (tokens, err, w') = relay ops cfg resp w
                             in if err = Some (Forwarding HeaderPanic)
                                then (\<lparr>do_result = None, do_error = err, do_key = Some (sb_Close key), do_sent = Some sent\<rparr>, w')
                                else (\<lparr>do_result = Some \<lparr>pr_StatusCode = rs_StatusCode resp, pr_InputTokens = 0,
                                                          pr_OutputTokens = tokens\<rparr>,
                                       do_error = (if err \<noteq> None \<and> ne_ended env then Some ContextEnded else err),
                                       do_key = Some (sb_Close key), do_sent = Some sent\<rparr>, w'))"

definition panicking :: "dispatch_outcome \<Rightarrow> bool" where
  "panicking out \<longleftrightarrow> do_error out = Some (Forwarding HeaderPanic)"

definition is_transport :: "dispatch_error option \<Rightarrow> bool" where
  "is_transport e \<longleftrightarrow> e = Some UpstreamTransport"

definition is_upstream_read :: "dispatch_error option \<Rightarrow> bool" where
  "is_upstream_read e \<longleftrightarrow> e = Some (Streaming UpstreamRead) \<or> e = Some (Forwarding UpstreamRead)"

section \<open>What every writer keeps\<close>

text \<open>
  The contract between the engine and a response writer: an invariant of the writer that its own
  operations keep. The engine keeps it through header copying, streaming, copying and dispatch.
\<close>

locale writer_invariant =
  fixes ops :: "'w response_writer" and P :: "'w \<Rightarrow> bool"
  assumes set_keeps: "P w \<Longrightarrow> P (w_SetHeader ops k v w)"
    and add_keeps: "P w \<Longrightarrow> P (w_AddHeader ops k v w)"
    and head_keeps: "P w \<Longrightarrow> P (w_WriteHeader ops status w)"
    and write_keeps: "P w \<Longrightarrow> P (snd (w_Write ops b w))"
    and flush_keeps: "P w \<Longrightarrow> w_Flush ops w = Some w' \<Longrightarrow> P w'"
begin

lemma fold_add_keeps: "P w \<Longrightarrow> P (fold (w_AddHeader ops k) vs w)"
  by (induction vs arbitrary: w) (auto simp: add_keeps)

lemma copy_headers_keeps: "P w \<Longrightarrow> P (copyResponseHeaders ops src w)"
proof (induction src arbitrary: w)
  case (Cons kv src)
  then show ?case by (cases kv) (auto simp: fold_add_keeps split: option.split)
qed simp

lemma add_headers_keeps: "P w \<Longrightarrow> P (add_headers ops h w)"
proof (induction h arbitrary: w)
  case (Cons kv h)
  then show ?case by (cases kv) (simp add: fold_add_keeps)
qed simp

lemma sse_keeps: "P w \<Longrightarrow> P (snd (snd (snd (sse_loop ops transform n ls w))))"
proof (induction ls arbitrary: n w)
  case (Cons line ls)
  show ?case
  proof (cases "case transform of None \<Rightarrow> Some (line, False) | Some f \<Rightarrow> f line")
    case None
    with Cons show ?thesis by simp
  next
    case (Some r)
    obtain line' skip where r: "r = (line', skip)" by (cases r)
    obtain ok w1 where w1: "w_Write ops (line' @ [lf]) w = (ok, w1)" by (cases "w_Write ops (line' @ [lf]) w")
    have "P w1" using write_keeps [OF Cons.prems, of "line' @ [lf]"] w1 by simp
    then have "P (case w_Flush ops w1 of Some w' \<Rightarrow> w' | None \<Rightarrow> w1)"
      by (auto split: option.split intro: flush_keeps)
    with Some r w1 \<open>P w1\<close> Cons show ?thesis by (simp add: Let_def)
  qed
qed simp

lemma stream_keeps: "P w \<Longrightarrow> streamSSE ops resp transform w = (n, e, w') \<Longrightarrow> P w'"
proof -
  assume "P w" and s: "streamSSE ops resp transform w = (n, e, w')"
  then have h: "P (sse_head ops w)" by (simp add: sse_head_def set_keeps head_keeps)
  then have "P (snd (snd (snd (sse_loop ops transform 0 ls (sse_head ops w)))))" for ls by (rule sse_keeps)
  then show "P w'" using s h
    by (auto simp: streamSSE_def Let_def split: prod.splits if_splits) (metis snd_conv)+
qed

lemma copy_keeps: "P w \<Longrightarrow> P (snd (io_Copy ops cs broken w))"
proof (induction cs arbitrary: w)
  case (Cons c cs)
  have "P (snd (w_Write ops c w))" using Cons.prems by (rule write_keeps)
  with Cons show ?case by (cases "w_Write ops c w") auto
qed simp

lemma forward_keeps: "P w \<Longrightarrow> P (snd (forwardResponse ops resp transform m w))"
  by (auto simp: forwardResponse_def Let_def copy_keeps head_keeps copy_headers_keeps split: option.splits prod.splits)

lemma relay_keeps: "P w \<Longrightarrow> relay ops cfg resp w = (n, e, w') \<Longrightarrow> P w'"
  using forward_keeps [of w resp "dc_TransformResponse cfg" "dc_MaxTransformBytes cfg"]
    stream_keeps [of w resp "dc_TransformStreamLine cfg"]
  by (auto simp: relay_def split: if_splits prod.splits)

lemma dispatch_keeps: "P w \<Longrightarrow> P (snd (Dispatch ops env doms method hs body cfg key w))"
  by (simp add: Dispatch_def Let_def relay_keeps split: option.split prod.split)

end

text \<open>The client's writer keeps the one-response invariant; the capture buffer keeps its bound.\<close>

interpretation client: writer_invariant client_writer wire_inv
  by unfold_locales
    (auto simp: client_writer_def wire.header_keeps wire_AddHeader wire_WriteHeader wire_Write wire_Flush split: if_splits)

definition capture_inv :: "captureWriter \<Rightarrow> bool" where
  "capture_inv w \<longleftrightarrow> length (cw_body w) \<le> MaxCapturedResponseBytes \<and> (cw_body w \<noteq> [] \<longrightarrow> cw_wroteHead w)"

interpretation capture: writer_invariant capture_writer capture_inv
  by unfold_locales (auto simp: capture_writer_def capture_inv_def cw_WriteHeader_def cw_Write_def Let_def)

section \<open>Headers that cross the gateway\<close>

definition hdr_keys :: "headers \<Rightarrow> string set" where
  "hdr_keys h = fst ` set h"

lemma keys_Del: "hdr_keys (hdr_Del k h) = hdr_keys h - {CanonicalHeaderKey k}"
  by (auto simp: hdr_keys_def hdr_Del_def)

lemma keys_Set: "hdr_keys (hdr_Set k v h) = insert (CanonicalHeaderKey k) (hdr_keys h)"
  using keys_Del [of k h] by (auto simp: hdr_Set_def hdr_keys_def)

lemma keys_Add: "hdr_keys (hdr_Add k v h) = insert (CanonicalHeaderKey k) (hdr_keys h)"
  using keys_Del [of k h] by (auto simp: hdr_Add_def hdr_keys_def split: option.split)

lemma keys_fold_Add: "hdr_keys (fold (hdr_Add k) vs h) \<subseteq> insert (CanonicalHeaderKey k) (hdr_keys h)"
proof (induction vs arbitrary: h)
  case (Cons v vs)
  from Cons [of "hdr_Add k v h"] show ?case by (simp add: keys_Add)
qed auto

lemma keys_copyHeaders: "hdr_keys (copyHeaders dst src) \<subseteq> hdr_keys dst \<union> set allowedRequestHeaders"
proof (induction src arbitrary: dst)
  case (Cons kv src)
  obtain k vs where kv: "kv = (k, vs)" by (cases kv)
  show ?case
    using Cons [of dst] Cons [of "fold (hdr_Add k) vs dst"] keys_fold_Add [of k vs dst] by (auto simp: kv)
qed simp

lemma keys_set_extra: "hdr_keys (set_extra extra h) \<subseteq> hdr_keys h \<union> CanonicalHeaderKey ` fst ` set extra"
proof (induction extra arbitrary: h)
  case (Cons e extra)
  obtain k v where e: "e = (k, v)" by (cases e)
  show ?case
    using Cons [of h] Cons [of "hdr_Set k v h"] by (auto simp: e set_extra_def keys_Set)
qed (simp add: set_extra_def)

lemma map_of_Del: "map_of (hdr_Del k h) j = (if j = CanonicalHeaderKey k then None else map_of h j)"
  by (induction h) (auto simp: hdr_Del_def)

lemma map_of_Set: "map_of (hdr_Set k v h) j = (if j = CanonicalHeaderKey k then Some [v] else map_of h j)"
  by (auto simp: hdr_Set_def map_of_Del map_add_def split: option.split)

lemma map_of_set_extra:
  assumes "j \<notin> CanonicalHeaderKey ` fst ` set extra"
  shows "map_of (set_extra extra h) j = map_of h j"
  using assms unfolding set_extra_def
proof (induction extra arbitrary: h)
  case (Cons e extra)
  then show ?case by (cases e) (auto simp: map_of_Set)
qed simp

lemma keys_Nil: "hdr_keys [] = {}"
  by (simp add: hdr_keys_def)

section \<open>Dialled addresses\<close>

lemma validate_addresses_public:
  "validate_addresses acc as = Inr vs \<Longrightarrow> vs = acc @ map unmap_addr as \<and> (\<forall>a \<in> set as. PublicDNSAddress (unmap_addr a))"
  by (induction acc as rule: validate_addresses.induct) (auto split: if_splits)

lemma dial_loop_targets:
  "set (snd (dial_loop dialer port as)) \<subseteq> (\<lambda>a. JoinHostPort (addr_String a) port) ` set as"
  by (induction dialer port as rule: dial_loop.induct) (auto simp: Let_def split: dial_answer.splits prod.splits)

lemma dial_loop_length: "length (snd (dial_loop dialer port as)) \<le> length as"
  by (induction dialer port as rule: dial_loop.induct) (auto simp: Let_def split: dial_answer.splits prod.splits)

text \<open>
  C10. Nothing is dialled outside the policy: a dialled address belongs to an authority that parses,
  that the allowlist permits, and it is either the permitted IP literal itself or one of the
  resolver's answers, and then every answer of that lookup was a public address, so that a single
  private answer stops the connection before the first dial.
\<close>
theorem dialled_only_public:
  assumes "dialContext resolver dialer doms authority = (r, targets)" and "t \<in> set targets"
  shows "\<exists>rules e. ParseAllowlist doms = Inr rules \<and> ParseAuthority authority = Inr e
    \<and> (\<exists>rule \<in> set rules. permits rule e)
    \<and> (if IPLiteral e then t = JoinHostPort (addr_String (IP e)) (Port e)
       else \<exists>as. resolver (Host e) = Some as \<and> (\<forall>a \<in> set as. PublicDNSAddress (unmap_addr a))
              \<and> t \<in> (\<lambda>a. JoinHostPort (addr_String (unmap_addr a)) (Port e)) ` set as)"
proof -
  from assms obtain rules e where re: "ParseAllowlist doms = Inr rules" "ParseAuthority authority = Inr e"
      "EndpointAllowed e rules"
    by (auto simp: dialContext_def split: sum.splits if_splits)
  show ?thesis
  proof (cases "IPLiteral e")
    case True
    with assms re have "t = JoinHostPort (addr_String (IP e)) (Port e)" by (auto simp: dialContext_def Let_def)
    with True re show ?thesis by (auto simp: EndpointAllowed_permits)
  next
    case False
    with assms re obtain as vs where a: "resolver (Host e) = Some as" "validate_addresses [] as = Inr vs"
        "dial_loop dialer (Port e) vs = (r, targets)"
      by (auto simp: dialContext_def split: option.splits if_splits sum.splits)
    note v = validate_addresses_public [OF a(2)]
    have "t \<in> (\<lambda>a. JoinHostPort (addr_String a) (Port e)) ` set vs"
      using dial_loop_targets [of dialer "Port e" vs] assms(2) a(3) by auto
    with v False a(1) re show ?thesis by (auto simp: EndpointAllowed_permits)
  qed
qed

section \<open>What leaves the gateway\<close>

lemma keys_upstream:
  "hdr_keys (upstream_headers client cfg key) \<subseteq>
     {''Accept'', ''Content-Type'', ''User-Agent'', CanonicalHeaderKey (fst (auth_header_of cfg))}
     \<union> CanonicalHeaderKey ` fst ` set (dc_ExtraHeaders cfg)"
proof -
  obtain name prefix where a: "auth_header_of cfg = (name, prefix)" by (cases "auth_header_of cfg")
  let ?h = "hdr_Set name (prefix @ key) (copyHeaders [] client)"
  have "hdr_keys ?h \<subseteq> {''Accept'', ''Content-Type'', ''User-Agent'', CanonicalHeaderKey name}"
    using keys_copyHeaders [of "[]" client] by (auto simp: keys_Set keys_Nil allowedRequestHeaders_def)
  then show ?thesis
    using keys_set_extra [of "dc_ExtraHeaders cfg" ?h] by (auto simp: upstream_headers_def a)
qed

lemma upstream_auth_value:
  assumes "CanonicalHeaderKey (fst (auth_header_of cfg)) \<notin> CanonicalHeaderKey ` fst ` set (dc_ExtraHeaders cfg)"
  shows "map_of (upstream_headers client cfg key) (CanonicalHeaderKey (fst (auth_header_of cfg))) =
           Some [snd (auth_header_of cfg) @ key]"
  using assms by (auto simp: upstream_headers_def map_of_set_extra map_of_Set split: prod.split)

lemma forbidden_names:
  "{''Cookie'', ''Authorization'', ''Proxy-Authorization'', ''X-Api-Key''} \<inter> {''Accept'', ''Content-Type'', ''User-Agent''} = {}"
  by simp

lemma kept_out: "A \<inter> B = {} \<Longrightarrow> K \<subseteq> B \<union> C \<union> D \<Longrightarrow> x \<in> A - C - D \<Longrightarrow> x \<notin> K"
  by blast

text \<open>
  C38. The headers of an upstream request: of the client's headers only Accept, Content-Type and
  User-Agent are forwarded, everything else is the provider's authentication header or one of the
  adapter's extra headers. So no Cookie, Authorization or X-Api-Key of the client gets through: under
  such a name the request carries nothing, unless the provider's own authentication header or an
  extra header has it. Provided that no extra header has the name of the authentication header
  (no adapter adds such a header), that header carries the provider key and nothing the client sent.
\<close>
theorem upstream_headers_allowlisted:
  fixes cfg :: DispatchConfig
  defines "auth \<equiv> CanonicalHeaderKey (fst (auth_header_of cfg))"
    and "extra \<equiv> CanonicalHeaderKey ` fst ` set (dc_ExtraHeaders cfg)"
  assumes "auth \<notin> extra"
  shows "hdr_keys (upstream_headers client cfg key)
           \<subseteq> {''Accept'', ''Content-Type'', ''User-Agent''} \<union> {auth} \<union> extra
         \<and> (\<forall>name \<in> {''Cookie'', ''Authorization'', ''Proxy-Authorization'', ''X-Api-Key''} - {auth} - extra.
              map_of (upstream_headers client cfg key) name = None)
         \<and> map_of (upstream_headers client cfg key) auth = Some [snd (auth_header_of cfg) @ key]"
proof -
  let ?sent = "upstream_headers client cfg key"
  have keys: "hdr_keys ?sent \<subseteq> {''Accept'', ''Content-Type'', ''User-Agent''} \<union> {auth} \<union> extra"
    using keys_upstream [of client cfg key] unfolding auth_def extra_def by blast
  have "map_of ?sent name = None"
    if name: "name \<in> {''Cookie'', ''Authorization'', ''Proxy-Authorization'', ''X-Api-Key''} - {auth} - extra" for name
  proof -
    have "name \<notin> hdr_keys ?sent" by (rule kept_out [OF forbidden_names keys name])
    then show ?thesis by (simp add: hdr_keys_def map_of_eq_None_iff)
  qed
  with keys show ?thesis
    using upstream_auth_value [of cfg client key] assms(3) unfolding auth_def extra_def by (intro conjI ballI)
qed

lemma sb_Close_zeroed: "sb_held key \<or> zeroed (sb_mem key) \<Longrightarrow> zeroed (sb_mem (sb_Close key)) \<and> \<not> sb_held (sb_Close key)"
  by (auto simp: sb_Close_def)

text \<open>
  C14. What a dispatch needs before anything is sent: the credential is non-empty, bounded and
  printable, and the target parses as an HTTPS endpoint that some rule of the allowlist permits.
  Whatever the outcome, the provider key has been overwritten with zeros when Dispatch returns.
\<close>
theorem dispatch_guarded:
  assumes "Dispatch ops env doms method hs body cfg (Some key) w = (out, w')"
    and "sb_held key"
  shows "(\<forall>s. do_sent out = Some s \<longrightarrow>
            up_URL s = dc_TargetURL cfg
            \<and> 0 < length (sb_mem key) \<and> length (sb_mem key) \<le> 16384 \<and> list_all (in_range 0x20 0x7E) (sb_mem key)
            \<and> (\<exists>rules e rule. ParseAllowlist doms = Inr rules \<and> ParseHTTPSURL (ne_url_Parse env) (up_URL s) = Inr e
                 \<and> rule \<in> set rules \<and> permits rule e))
         \<and> (\<exists>key'. do_key out = Some key' \<and> \<not> sb_held key' \<and> zeroed (sb_mem key'))"
proof -
  have k: "do_key out = Some (sb_Close key)"
    using assms(1) by (auto simp: Dispatch_def Let_def split: if_splits option.splits prod.splits)
  have "up_URL s = dc_TargetURL cfg \<and> ValidateProviderCredentialHeaderValue (sb_Bytes key) = None
      \<and> validateEgress (ne_url_Parse env) doms (dc_TargetURL cfg) = None" if "do_sent out = Some s" for s
    using assms(1) that by (auto simp: Dispatch_def Let_def split: if_splits option.splits prod.splits)
  moreover have "0 < length (sb_mem key) \<and> length (sb_mem key) \<le> 16384 \<and> list_all (in_range 0x20 0x7E) (sb_mem key)"
    if "ValidateProviderCredentialHeaderValue (sb_Bytes key) = None"
    using that assms(2)
    by (auto simp: ValidateProviderCredentialHeaderValue_def sb_Bytes_def MaxProviderCredentialBytes_def
        list_all_iff list_ex_iff split: if_splits)
  moreover have "\<exists>rules e rule. ParseAllowlist doms = Inr rules \<and> ParseHTTPSURL (ne_url_Parse env) u = Inr e
                 \<and> rule \<in> set rules \<and> permits rule e" if "validateEgress (ne_url_Parse env) doms u = None" for u
    using that by (auto simp: validateEgress_def EndpointAllowed_permits split: if_splits sum.splits)
  ultimately show ?thesis using k sb_Close_zeroed [of key] assms(2) by auto
qed

section \<open>Status codes the connection refuses\<close>

definition same_response :: "'a gw_scheme \<Rightarrow> 'a gw_scheme \<Rightarrow> bool" where
  "same_response g g' \<longleftrightarrow> gw_ctx g' = gw_ctx g \<and> cc_status (gw_conn g') = cc_status (gw_conn g) \<and> cc_body (gw_conn g') = cc_body (gw_conn g)"

lemma same_response_add: "same_response g h \<Longrightarrow> same_response g (fold (trw_AddHeader k) vs h)"
  by (induction vs arbitrary: h) (auto simp: same_response_def trw_AddHeader_def on_conn_def)

lemma same_response_copy: "same_response g h \<Longrightarrow> same_response g (copyResponseHeaders client_writer src h)"
proof (induction src arbitrary: h)
  case (Cons kv src)
  obtain k vs where kv: "kv = (k, vs)" by (cases kv)
  have add: "w_AddHeader client_writer = trw_AddHeader" by (simp add: client_writer_def)
  show ?case using Cons by (simp add: kv add same_response_add split: option.split)
qed simp

text \<open>
  A status code that \<open>net/http\<close> refuses is remembered and never sent: the call panics after the
  tracking writer has committed to the code, and the client receives an empty 200.
\<close>
theorem refused_status_becomes_200:
  assumes "\<not> is_committed g" and "cc_status (gw_conn g) = []"
    and "rs_StatusCode resp < 100 \<or> 999 < rs_StatusCode resp"
  shows "\<exists>g'. forwardResponse client_writer resp None n g = (Some HeaderPanic, g') \<and> is_committed g' \<and>
           statusCode (rc_response (gw_ctx g')) = rs_StatusCode resp \<and>
           cc_status (conn_finish (gw_conn g')) = [200] \<and> cc_body (gw_conn g') = cc_body (gw_conn g)"
proof -
  let ?h = "copyResponseHeaders client_writer (rs_Header resp) g"
  have h: "same_response g ?h" by (rule same_response_copy) (simp add: same_response_def)
  have panics: "header_panics (rs_StatusCode resp) ?h" "\<not> final_status (rs_StatusCode resp)"
    using h assms by (auto simp: header_panics_def same_response_def final_status_def)
  have ops: "w_WriteHeader client_writer = trw_WriteHeader" "w_panics client_writer = header_panics"
    by (simp_all add: client_writer_def)
  have "forwardResponse client_writer resp None n g = (Some HeaderPanic, trw_WriteHeader (rs_StatusCode resp) ?h)"
    using panics(1) by (simp add: forwardResponse_def Let_def ops)
  then show ?thesis
    using h assms(1,2) panics(2) by (simp add: same_response_def trw_WriteHeader_def gw_defs)
qed

section \<open>Streaming\<close>

text \<open>The lines up to and including the end marker, and what they count for.\<close>

fun until_done :: "string list \<Rightarrow> string list" where
  "until_done [] = []"
| "until_done (l # ls) = (if l = ''data: [DONE]'' then [l] else l # until_done ls)"

definition content_lines :: "string list \<Rightarrow> nat" where
  "content_lines ls =
     length (filter (\<lambda>l. has_prefix l ''data: '' \<and> contains_sub (drop 6 l) (quote ''content'')) ls)"


text \<open>A connection on which a response was started, that can flush and does not fail.\<close>

definition healthy :: "'a gw_scheme \<Rightarrow> bool" where
  "healthy g \<longleftrightarrow> is_committed g \<and> gw_flusher g \<and> cc_faults (gw_conn g) = [] \<and> cc_status (gw_conn g) \<noteq> []"

lemma conn_finish_started: "cc_status c \<noteq> [] \<Longrightarrow> conn_finish c = c"
  by (simp add: conn_finish_def)

lemma healthy_write:
  assumes "healthy g"
  shows "trw_Write b g = (True, on_conn (\<lambda>c. c\<lparr>cc_body := cc_body c @ b\<rparr>) g)"
  using assms by (simp add: healthy_def trw_Write_def conn_Write_def on_conn_def conn_finish_started Let_def)

lemma healthy_step:
  assumes "healthy g"
  shows "healthy (trw_Flush (on_conn (\<lambda>c. c\<lparr>cc_body := cc_body c @ b\<rparr>) g))"
    and "cc_body (gw_conn (trw_Flush (on_conn (\<lambda>c. c\<lparr>cc_body := cc_body c @ b\<rparr>) g))) = cc_body (gw_conn g) @ b"
  using assms by (simp_all add: healthy_def trw_Flush_def on_conn_def)

lemma healthy_flush: "healthy g \<Longrightarrow> gw_flusher (on_conn f g)"
  by (simp add: healthy_def on_conn_def)

lemma marker_line: "has_prefix l ''data: '' \<and> drop 6 l = ''[DONE]'' \<longleftrightarrow> l = ''data: [DONE]''"
proof
  assume "has_prefix l ''data: '' \<and> drop 6 l = ''[DONE]''"
  then have "take 6 l = ''data: ''" "drop 6 l = ''[DONE]''" by (simp_all add: has_prefix_def numeral_eq_Suc)
  then have "l = ''data: '' @ ''[DONE]''" by (metis append_take_drop_id)
  then show "l = ''data: [DONE]''" by simp
qed (simp add: has_prefix_def)

lemma marker_no_content: "\<not> contains_sub ''[DONE]'' (quote ''content'')"
  using contains_sub_set [of "''[DONE]''" "quote ''content''"] by (auto simp: quote_def dquote_def)

lemma sse_forward:
  fixes g :: "'a gw_scheme"
  assumes "healthy g" and "transform = None \<or> transform = Some (\<lambda>l. Some (l, False))"
    and "0 \<le> n" and "in_int64 (n + int (length ls))"
  shows "\<exists>g'. sse_loop client_writer transform n ls g
            = (n + int (content_lines (until_done ls)), None, ''data: [DONE]'' \<in> set ls, g')
          \<and> healthy g' \<and> cc_body (gw_conn g') = cc_body (gw_conn g) @ concat (map (\<lambda>l. l @ [lf]) (until_done ls))"
  using assms
proof (induction ls arbitrary: n g)
  case Nil
  then show ?case by (simp add: content_lines_def)
next
  case (Cons l ls)
  let ?g1 = "on_conn (\<lambda>c. c\<lparr>cc_body := cc_body c @ l @ [lf]\<rparr>) g"
  let ?g2 = "trw_Flush ?g1"
  let ?k = "if has_prefix l ''data: '' then countTokensFromChunk (drop 6 l) else 0"
  have c: "0 \<le> ?k" "?k \<le> 1" by (auto simp: countTokensFromChunk_def)
  then have w: "wrap64 (n + ?k) = n + ?k" using Cons.prems(3,4) by (intro wrap64_exact) (simp add: int64_defs)
  have tr: "(case transform of None \<Rightarrow> Some (l, False) | Some f \<Rightarrow> f l) = Some (l, False)" using Cons.prems(2) by auto
  have step: "sse_loop client_writer transform n (l # ls) g =
     (if l = ''data: [DONE]'' then (n, None, True, ?g2) else sse_loop client_writer transform (n + ?k) ls ?g2)"
    using marker_line [of l] w healthy_flush [OF Cons.prems(1)]
    by (auto simp: tr client_writer_def healthy_write [OF Cons.prems(1)] wrap64_exact)
  show ?case
  proof (cases "l = ''data: [DONE]''")
    case True
    have s: "sse_loop client_writer transform n (l # ls) g = (n, None, True, ?g2)"
      by (rule trans [OF step if_P [OF True]])
    have "until_done (l # ls) = [l]" "content_lines [l] = 0" "''data: [DONE]'' \<in> set (l # ls)"
      using True marker_no_content by (simp_all add: content_lines_def)
    then show ?thesis using s healthy_step [OF Cons.prems(1), of "l @ [lf]"]
      by (intro exI [of _ ?g2]) (simp del: sse_loop.simps until_done.simps)
  next
    case False
    have "in_int64 (n + ?k + int (length ls))" using c Cons.prems(3,4) by (auto simp: int64_defs)
    then obtain g' where g': "sse_loop client_writer transform (n + ?k) ls ?g2
            = (n + ?k + int (content_lines (until_done ls)), None, ''data: [DONE]'' \<in> set ls, g')"
        "healthy g'" "cc_body (gw_conn g') = cc_body (gw_conn ?g2) @ concat (map (\<lambda>l. l @ [lf]) (until_done ls))"
      using Cons.IH [of ?g2 "n + ?k"] healthy_step(1) [OF Cons.prems(1)] c Cons.prems(2,3) by auto
    moreover have "int (content_lines (until_done (l # ls))) = ?k + int (content_lines (until_done ls))"
      using False by (simp add: content_lines_def countTokensFromChunk_def)
    ultimately show ?thesis using False healthy_step(2) [OF Cons.prems(1)] by (simp add: step del: sse_loop.simps)
  qed
qed

lemma sse_head_client:
  assumes "\<not> is_committed g" and "gw_flusher g" and "cc_faults (gw_conn g) = []"
  shows "healthy (sse_head client_writer g)" and "cc_body (gw_conn (sse_head client_writer g)) = cc_body (gw_conn g)"
    and "w_Flush client_writer (sse_head client_writer g) \<noteq> None"
  using assms by (auto simp: sse_head_def client_writer_def healthy_def trw_WriteHeader_def gw_defs Let_def)

text \<open>
  Streaming is transparent: with a passthrough transform and a healthy client every line of the
  upstream stream up to the end marker reaches the client unchanged and in order, the count is the
  number of forwarded data lines that mention content, and reading problems after the marker do
  not matter.
\<close>
theorem stream_transparent:
  fixes g :: "'a gw_scheme"
  assumes "\<not> is_committed g" and "gw_flusher g" and "cc_faults (gw_conn g) = []"
    and "transform = None \<or> transform = Some (\<lambda>l. Some (l, False))"
    and "scan_lines (concat (rs_chunks resp)) = (ls, tooLong)" and "in_int64 (int (length ls))"
  shows "\<exists>g'. streamSSE client_writer resp transform g =
            (int (content_lines (until_done ls)),
             if ''data: [DONE]'' \<in> set ls \<or> \<not> tooLong \<and> \<not> rs_broken resp then None else Some UpstreamRead, g')
          \<and> cc_body (gw_conn g') = cc_body (gw_conn g) @ concat (map (\<lambda>l. l @ [lf]) (until_done ls))"
proof -
  note h = sse_head_client [OF assms(1-3)]
  obtain g' where g': "sse_loop client_writer transform 0 ls (sse_head client_writer g)
            = (int (content_lines (until_done ls)), None, ''data: [DONE]'' \<in> set ls, g')"
    "cc_body (gw_conn g') = cc_body (gw_conn g) @ concat (map (\<lambda>l. l @ [lf]) (until_done ls))"
    using sse_forward [OF h(1) assms(4), of 0 ls] assms(6) h(2) by auto
  then show ?thesis using h(3) assms(5) by (intro exI [of _ g']) (auto simp: streamSSE_def Let_def)
qed

lemma capture_bounded_example: "capture_inv newCaptureWriter"
  by (simp add: capture_inv_def newCaptureWriter_def)

text \<open>
  A buffered attempt stays within its budget: whatever the upstream sends and however it is
  transformed, the capture buffer never holds more than four MiB.
\<close>
theorem capture_bounded:
  "length (cw_body (snd (Dispatch capture_writer env doms method hs body cfg key newCaptureWriter))) \<le> 4194304"
  using capture.dispatch_keeps [OF capture_bounded_example]
  by (simp add: capture_inv_def MaxCapturedResponseBytes_def)

text \<open>Concrete instances.\<close>

definition example_resolver :: "string \<Rightarrow> (netip_addr list) option" where
  "example_resolver h = (if h = ''a.y'' then Some [Addr4 (v4 8 8 8 8)] else None)"

lemma example_dial:
  "dialContext example_resolver (\<lambda>_. Connected) [''*.y'', ''api.x:8443''] ''a.y:443'' = (None, [''8.8.8.8:443''])"
proof -
  have p: "PublicDNSAddress (Addr4 (v4 8 8 8 8))"
    using public_v4_octets [of 8 8 8 8] by (simp add: octets_def special_v4_def)
  have s: "addr4_text (v4 8 8 8 8) = ''8.8.8.8''"
    by (simp add: addr4_text_def v4_def format_nat.simps char_of_def bit_Suc_0_iff)
  have a: "ParseAuthority ''a.y:443'' = Inr \<lparr>Host = ''a.y'', Port = ''443'', IPLiteral = False, IP = NoAddr\<rparr>"
    by (simp add: ParseAuthority_def parseAuthority_def egress_eval)
  show ?thesis
    by (simp add: dialContext_def example_allowlist a p s example_resolver_def JoinHostPort_def has_suffix_def has_prefix_def)
qed

theorem dialled_only_public_witness:
  "\<exists>rules e. ParseAllowlist [''*.y'', ''api.x:8443''] = Inr rules \<and> ParseAuthority ''a.y:443'' = Inr e
     \<and> (\<exists>rule \<in> set rules. permits rule e)"
  using dialled_only_public [OF example_dial, of "''8.8.8.8:443''"] by auto

definition example_dispatch :: DispatchConfig where
  "example_dispatch =
     \<lparr>dc_TargetURL = ''https://a.y/v1/messages'', dc_IsStreaming = False, dc_AuthHeader = ''x-api-key'',
      dc_AuthPrefix = [], dc_ExtraHeaders = [(''anthropic-version'', ''2023-06-01'')],
      dc_TransformResponse = None, dc_TransformStreamLine = None, dc_MaxTransformBytes = 0\<rparr>"

lemma canonical_examples:
  "CanonicalHeaderKey ''x-api-key'' = ''X-Api-Key''" "CanonicalHeaderKey ''anthropic-version'' = ''Anthropic-Version''"
  "CanonicalHeaderKey ''Cookie'' = ''Cookie''" "CanonicalHeaderKey ''X-Request-ID'' = ''X-Request-Id''"
  by (simp_all add: CanonicalHeaderKey_def token_byte_def in_range_def byte_val_def byte_upper_def ascii_lower_def char_of_def
      bit_Suc_0_iff)

lemma example_auth: "auth_header_of example_dispatch = (''x-api-key'', [])"
  by (simp add: auth_header_of_def example_dispatch_def trim_space_plain graphic_def)

theorem upstream_headers_allowlisted_witness:
  "let sent = upstream_headers [(''Cookie'', [''c'']), (''Authorization'', [''Bearer t'']), (''X-Api-Key'', [''forged''])]
                example_dispatch ''secret''
   in map_of sent ''Cookie'' = None \<and> map_of sent ''Authorization'' = None \<and> map_of sent ''X-Api-Key'' = Some [''secret'']"
proof -
  have names: "CanonicalHeaderKey (fst (auth_header_of example_dispatch)) = ''X-Api-Key''"
      "CanonicalHeaderKey ` fst ` set (dc_ExtraHeaders example_dispatch) = {''Anthropic-Version''}"
      "snd (auth_header_of example_dispatch) = []"
    by (simp add: example_auth canonical_examples, simp add: example_dispatch_def canonical_examples, simp add: example_auth)
  show ?thesis
    using upstream_headers_allowlisted [of example_dispatch
        "[(''Cookie'', [''c'']), (''Authorization'', [''Bearer t'']), (''X-Api-Key'', [''forged''])]" "''secret''"]
    unfolding names by (simp add: Let_def)
qed

definition example_env :: net_env where
  "example_env =
     \<lparr>ne_url_Parse = (\<lambda>u. Some \<lparr>url_Scheme = ''https'', url_Opaque = [], url_has_User = False, url_Host = ''a.y'',
                          url_Fragment = [], url_RawFragment = []\<rparr>),
      ne_Do = (\<lambda>s. Some \<lparr>rs_StatusCode = 204, rs_Header = [], rs_chunks = [], rs_broken = False\<rparr>), ne_ended = False\<rparr>"

lemma example_target:
  "validateEgress (ne_url_Parse example_env) [''*.y'', ''api.x:8443''] ''https://a.y/v1/messages'' = None"
  by (simp add: validateEgress_def example_allowlist ParseHTTPSURL_def example_env_def url_split_def egress_eval
      defaultHTTPSPort_def)

definition example_outcome :: "dispatch_outcome \<times> captureWriter" where
  "example_outcome =
     Dispatch capture_writer example_env [''*.y'', ''api.x:8443''] ''POST'' [] [] example_dispatch
       (Some (NewSecureBytes ''secret'')) newCaptureWriter"

lemma example_sent: "do_sent (fst example_outcome) \<noteq> None"
proof -
  have "ValidateProviderCredentialHeaderValue (sb_Bytes (NewSecureBytes ''secret'')) = None"
    by (simp add: ValidateProviderCredentialHeaderValue_def sb_Bytes_def NewSecureBytes_def
        MaxProviderCredentialBytes_def in_range_def byte_val_def)
  moreover have "valid_method ''POST''" by (simp add: valid_method_def token_byte_def in_range_def byte_val_def)
  moreover have "ne_url_Parse example_env u \<noteq> None" "ne_Do example_env s \<noteq> None" for u s by (simp_all add: example_env_def)
  moreover have "dc_TargetURL example_dispatch = ''https://a.y/v1/messages''" by (simp add: example_dispatch_def)
  ultimately show ?thesis
    using example_target by (auto simp: example_outcome_def Dispatch_def Let_def split: option.split prod.split)
qed

theorem dispatch_guarded_witness:
  "(\<exists>s. do_sent (fst example_outcome) = Some s)
   \<and> (\<exists>key'. do_key (fst example_outcome) = Some key' \<and> \<not> sb_held key' \<and> zeroed (sb_mem key'))"
proof -
  obtain out w where oc: "example_outcome = (out, w)" by (cases example_outcome)
  have "sb_held (NewSecureBytes ''secret'')" by (simp add: NewSecureBytes_def)
  then show ?thesis
    using dispatch_guarded [OF oc [unfolded example_outcome_def]] example_sent by (auto simp: oc)
qed

definition example_client :: gw where
  "example_client =
     \<lparr>gw_ctx = new_context \<lparr>rq_Method = ''POST'', rq_Path = ''/v1/chat/completions'', rq_Header = [], rq_RemoteAddr = [],
        rq_Body = NilBody, rq_ContentLength = 0, rq_cancelled = False\<rparr>,
      gw_conn = \<lparr>cc_Header = [], cc_status = [], cc_body = [], cc_flushes = 0, cc_faults = []\<rparr>,
      gw_flusher = True, gw_bufs = [], gw_secures = [], gw_audit = []\<rparr>"

lemma example_scan: "scan_lines (''ab'' @ [CHR 0x0D, lf] @ ''data: [DONE]'' @ [lf] @ ''x'') = ([''ab'', ''data: [DONE]'', ''x''], False)"
  by (simp add: scan_lines.simps lf_def sseScannerMaxLineSize_def drop_cr_def has_suffix_def has_prefix_def)

theorem stream_transparent_witness:
  "\<exists>g'. streamSSE client_writer
      \<lparr>rs_StatusCode = 200, rs_Header = [], rs_chunks = [''ab'' @ [CHR 0x0D, lf], ''data: [DONE]'' @ [lf] @ ''x''], rs_broken = True\<rparr>
      None example_client = (0, None, g') \<and> cc_body (gw_conn g') = ''ab'' @ [lf] @ ''data: [DONE]'' @ [lf]"
  using stream_transparent [of example_client None
    "\<lparr>rs_StatusCode = 200, rs_Header = [], rs_chunks = [''ab'' @ [CHR 0x0D, lf], ''data: [DONE]'' @ [lf] @ ''x''], rs_broken = True\<rparr>"
    "[''ab'', ''data: [DONE]'', ''x'']" False] example_scan
  by (simp add: example_client_def new_context_def content_lines_def has_prefix_def quote_def dquote_def int64_defs quote_body.simps escape_def)

end
