(* ===== verification/Circuit_Router.thy ===== *)
theory Circuit_Router
  imports Go_Prelude
begin

text \<open>
  Provider selection of \<^verbatim>\<open>internal/middleware/router.go\<close>: the circuit breaker of one provider, the
  routing table with its priority groups and weighted lottery, and the model permission checks.
  (The retry loop of the middleware itself is in the theory of the request pipeline.)

  A breaker operation runs under the breaker's mutex and is one function on \<open>circuitBreaker\<close>; its
  clock reading is an argument. \<open>Route\<close> reads breaker states without the mutex before it acquires a
  lease, so these readings are the argument \<open>seen\<close>, which may be stale. The lottery's draw from
  \<^verbatim>\<open>crypto/rand\<close> is the argument \<open>draw\<close>: \<open>draw n\<close> is the value drawn below \<open>n\<close>, or \<open>None\<close>
  when the reader fails.
\<close>

section \<open>Circuit breaker\<close>

datatype circuitState = stateClosed | stateOpen | stateHalfOpen

record circuitBreaker =
  cb_state :: circuitState
  cb_failures :: int
  cb_lastFailure :: int
  cb_generation :: "64 word"
  cb_threshold :: int
  cb_recoveryTime :: go_duration

record circuitLease =
  cl_generation :: "64 word"
  cl_probe :: bool

definition CircuitBreakerFailureThreshold :: int where "CircuitBreakerFailureThreshold = 5"
definition CircuitBreakerRecovery :: go_duration where "CircuitBreakerRecovery = 30 * second"

definition newCircuitBreaker :: circuitBreaker where
  "newCircuitBreaker =
     \<lparr>cb_state = stateClosed, cb_failures = 0, cb_lastFailure = 0, cb_generation = 0,
      cb_threshold = CircuitBreakerFailureThreshold, cb_recoveryTime = CircuitBreakerRecovery\<rparr>"

definition AcquireClosed :: "circuitBreaker \<Rightarrow> circuitLease option" where
  "AcquireClosed cb =
     (if cb_state cb \<noteq> stateClosed then None
      else Some \<lparr>cl_generation = cb_generation cb, cl_probe = False\<rparr>)"

definition recovered :: "go_time \<Rightarrow> circuitBreaker \<Rightarrow> bool" where
  "recovered now cb \<longleftrightarrow> cb_recoveryTime cb < now - cb_lastFailure cb * second"

definition AllowProbe :: "go_time \<Rightarrow> circuitBreaker \<Rightarrow> circuitLease option \<times> circuitBreaker" where
  "AllowProbe now cb =
     (if cb_state cb \<noteq> stateOpen then (None, cb)
      else if recovered now cb
      then (Some \<lparr>cl_generation = cb_generation cb, cl_probe = True\<rparr>, cb\<lparr>cb_state := stateHalfOpen\<rparr>)
      else (None, cb))"

definition cb_RecordFailure :: "go_time \<Rightarrow> circuitLease \<Rightarrow> circuitBreaker \<Rightarrow> circuitBreaker" where
  "cb_RecordFailure now lease cb =
     (if cb_generation cb \<noteq> cl_generation lease then cb
      else if cl_probe lease then
        (if cb_state cb \<noteq> stateHalfOpen then cb
         else cb\<lparr>cb_failures := wrap64 (cb_failures cb + 1), cb_lastFailure := unix now,
                 cb_state := stateOpen, cb_generation := cb_generation cb + 1\<rparr>)
      else if cb_state cb \<noteq> stateClosed then cb
      else
        let failures = wrap64 (cb_failures cb + 1)
        in if cb_threshold cb \<le> failures
           then cb\<lparr>cb_failures := failures, cb_lastFailure := unix now,
                   cb_state := stateOpen, cb_generation := cb_generation cb + 1\<rparr>
           else cb\<lparr>cb_failures := failures, cb_lastFailure := unix now\<rparr>)"

definition cb_RecordSuccess :: "circuitLease \<Rightarrow> circuitBreaker \<Rightarrow> circuitBreaker" where
  "cb_RecordSuccess lease cb =
     (if cb_generation cb \<noteq> cl_generation lease then cb
      else if cl_probe lease then
        (if cb_state cb = stateHalfOpen
         then cb\<lparr>cb_state := stateClosed, cb_failures := 0, cb_generation := cb_generation cb + 1\<rparr>
         else cb)
      else if cb_state cb = stateClosed then cb\<lparr>cb_failures := 0\<rparr> else cb)"

definition cb_ReleaseProbe :: "circuitLease \<Rightarrow> circuitBreaker \<Rightarrow> circuitBreaker" where
  "cb_ReleaseProbe lease cb =
     (if \<not> cl_probe lease \<or> cb_generation cb \<noteq> cl_generation lease then cb
      else if cb_state cb = stateHalfOpen then cb\<lparr>cb_state := stateOpen\<rparr> else cb)"

section \<open>Routing table\<close>

record providerChannel =
  pc_ID :: string
  pc_Name :: string
  pc_Type :: string
  pc_BaseURL :: string
  pc_KeyID :: string
  pc_Models :: "string list"
  pc_Weight :: int
  pc_Priority :: int
  pc_APIVersion :: string
  pc_Enabled :: bool

record routerTable =
  rt_channels :: "providerChannel list"
  rt_breakers :: "string \<rightharpoonup> circuitBreaker"

definition newRouterTable :: "providerChannel list \<Rightarrow> routerTable" where
  "newRouterTable channels =
     \<lparr>rt_channels = channels,
      rt_breakers = (\<lambda>i. if i \<in> set (map pc_ID channels) then Some newCircuitBreaker else None)\<rparr>"

fun isModelAllowed :: "string \<Rightarrow> string list \<Rightarrow> bool" where
  "isModelAllowed model [] \<longleftrightarrow> False"
| "isModelAllowed model (m # allowed) \<longleftrightarrow>
     (if m = model \<or> m = ''*'' then True else isModelAllowed model allowed)"

fun supportsModels :: "string list \<Rightarrow> string \<Rightarrow> bool" where
  "supportsModels [] model \<longleftrightarrow> False"
| "supportsModels (m # ms) model \<longleftrightarrow> (if m = model \<or> m = ''*'' then True else supportsModels ms model)"

definition supportsModel :: "providerChannel \<Rightarrow> string \<Rightarrow> bool" where
  "supportsModel ch model = supportsModels (pc_Models ch) model"

definition DefaultProviderWeight :: int where "DefaultProviderWeight = 1"

definition channel_weight :: "providerChannel \<Rightarrow> int" where
  "channel_weight ch = (if pc_Weight ch \<le> 0 then DefaultProviderWeight else pc_Weight ch)"

fun total_weight :: "int \<Rightarrow> providerChannel list \<Rightarrow> int" where
  "total_weight acc [] = acc"
| "total_weight acc (ch # chs) = total_weight (wrap64 (acc + channel_weight ch)) chs"

text \<open>The final loop of \<open>pickWeighted\<close>; running off its end yields the last channel.\<close>

fun pick_loop :: "int \<Rightarrow> providerChannel list \<Rightarrow> providerChannel option \<Rightarrow> providerChannel option" where
  "pick_loop n [] lst = lst"
| "pick_loop n (ch # chs) lst =
     (if n < channel_weight ch then Some ch else pick_loop (n - channel_weight ch) chs (Some ch))"

definition cryptoRandIntn :: "(int \<Rightarrow> int option) \<Rightarrow> int \<Rightarrow> int option" where
  "cryptoRandIntn draw n = (if n \<le> 0 then None else draw n)"

definition pickWeighted :: "(int \<Rightarrow> int option) \<Rightarrow> providerChannel list \<Rightarrow> providerChannel option" where
  "pickWeighted draw channels =
     (case channels of
        [] \<Rightarrow> None
      | [ch] \<Rightarrow> Some ch
      | ch # _ \<Rightarrow>
          (case cryptoRandIntn draw (total_weight 0 channels) of
             None \<Rightarrow> Some ch
           | Some n \<Rightarrow> pick_loop n channels None))"

definition candidate :: "string \<Rightarrow> string set \<Rightarrow> providerChannel \<Rightarrow> bool" where
  "candidate model exclude ch \<longleftrightarrow>
     pc_Enabled ch \<and> pc_ID ch \<notin> exclude \<and> supportsModel ch model"

text \<open>One priority group: lottery among the channels whose breaker was seen closed.\<close>

definition route_group ::
  "(int \<Rightarrow> int option) \<Rightarrow> (string \<Rightarrow> circuitState) \<Rightarrow> (string \<rightharpoonup> circuitBreaker) \<Rightarrow> providerChannel list
   \<Rightarrow> (providerChannel \<times> circuitLease) option" where
  "route_group draw seen breakers grp =
     (let closed = filter (\<lambda>ch. breakers (pc_ID ch) \<noteq> None \<and> seen (pc_ID ch) = stateClosed) grp
      in case pickWeighted draw closed of
           None \<Rightarrow> None
         | Some chosen \<Rightarrow>
             (case breakers (pc_ID chosen) of
                None \<Rightarrow> None
              | Some b \<Rightarrow>
                  (case AcquireClosed b of
                     None \<Rightarrow> None
                   | Some lease \<Rightarrow> Some (chosen, lease))))"

abbreviation same_priority :: "providerChannel \<Rightarrow> providerChannel \<Rightarrow> bool" where
  "same_priority c ch \<equiv> pc_Priority ch = pc_Priority c"

text \<open>The loop over the groups of the sorted candidates, best priority first.\<close>

function route_groups ::
  "(int \<Rightarrow> int option) \<Rightarrow> (string \<Rightarrow> circuitState) \<Rightarrow> (string \<rightharpoonup> circuitBreaker) \<Rightarrow> providerChannel list
   \<Rightarrow> (providerChannel \<times> circuitLease) option" where
  "route_groups draw seen breakers [] = None"
| "route_groups draw seen breakers (c # cs) =
     (case route_group draw seen breakers (takeWhile (same_priority c) (c # cs)) of
        Some r \<Rightarrow> Some r
      | None \<Rightarrow> route_groups draw seen breakers (dropWhile (same_priority c) (c # cs)))"
  by pat_completeness auto
termination
  by (relation "measure (\<lambda>(d, s, b, cs). length cs)") (auto simp: le_imp_less_Suc length_dropWhile_le)

text \<open>The second pass: the first candidate in priority order whose breaker grants a probe.\<close>

fun route_probe ::
  "go_time \<Rightarrow> (string \<rightharpoonup> circuitBreaker) \<Rightarrow> providerChannel list
   \<Rightarrow> (providerChannel \<times> circuitLease) option \<times> (string \<rightharpoonup> circuitBreaker)" where
  "route_probe now breakers [] = (None, breakers)"
| "route_probe now breakers (ch # chs) =
     (case breakers (pc_ID ch) of
        None \<Rightarrow> route_probe now breakers chs
      | Some b \<Rightarrow>
          (case AllowProbe now b of
             (Some lease, b') \<Rightarrow> (Some (ch, lease), breakers(pc_ID ch \<mapsto> b'))
           | (None, _) \<Rightarrow> route_probe now breakers chs))"

definition Route ::
  "go_time \<Rightarrow> (int \<Rightarrow> int option) \<Rightarrow> (string \<Rightarrow> circuitState) \<Rightarrow> string \<Rightarrow> string set \<Rightarrow> routerTable
   \<Rightarrow> (providerChannel \<times> circuitLease) option \<times> routerTable" where
  "Route now draw seen model exclude rt =
     (let candidates = sort_key pc_Priority (filter (candidate model exclude) (rt_channels rt))
      in case route_groups draw seen (rt_breakers rt) candidates of
           Some r \<Rightarrow> (Some r, rt)
         | None \<Rightarrow>
             (let (r, bs) = route_probe now (rt_breakers rt) candidates
              in (r, rt\<lparr>rt_breakers := bs\<rparr>)))"

definition hasUnusedCandidate :: "go_time \<Rightarrow> string \<Rightarrow> string set \<Rightarrow> routerTable \<Rightarrow> bool" where
  "hasUnusedCandidate now model exclude rt \<longleftrightarrow>
     list_ex (\<lambda>ch. candidate model exclude ch \<and>
        (case rt_breakers rt (pc_ID ch) of
           None \<Rightarrow> False
         | Some b \<Rightarrow> cb_state b = stateClosed \<or> (cb_state b = stateOpen \<and> recovered now b)))
       (rt_channels rt)"

definition update_breaker ::
  "string \<Rightarrow> (circuitBreaker \<Rightarrow> circuitBreaker) \<Rightarrow> routerTable \<Rightarrow> routerTable" where
  "update_breaker channelID f rt =
     (case rt_breakers rt channelID of
        None \<Rightarrow> rt
      | Some b \<Rightarrow> rt\<lparr>rt_breakers := (rt_breakers rt)(channelID \<mapsto> f b)\<rparr>)"

definition RecordFailure :: "go_time \<Rightarrow> string \<Rightarrow> circuitLease \<Rightarrow> routerTable \<Rightarrow> routerTable" where
  "RecordFailure now channelID lease rt = update_breaker channelID (cb_RecordFailure now lease) rt"

definition RecordSuccess :: "string \<Rightarrow> circuitLease \<Rightarrow> routerTable \<Rightarrow> routerTable" where
  "RecordSuccess channelID lease rt = update_breaker channelID (cb_RecordSuccess lease) rt"

definition ReleaseProbe :: "string \<Rightarrow> circuitLease \<Rightarrow> routerTable \<Rightarrow> routerTable" where
  "ReleaseProbe channelID lease rt = update_breaker channelID (cb_ReleaseProbe lease) rt"

text \<open>\<open>settleProviderLease\<close>, with the two health flags of the request context as arguments.\<close>

definition settleProviderLease ::
  "go_time \<Rightarrow> bool \<Rightarrow> bool \<Rightarrow> string \<Rightarrow> circuitLease \<Rightarrow> routerTable \<Rightarrow> routerTable" where
  "settleProviderLease now providerFailure providerResponded channelID lease rt =
     (if providerFailure then RecordFailure now channelID lease rt
      else if providerResponded then RecordSuccess channelID lease rt
      else if cl_probe lease then ReleaseProbe channelID lease rt
      else rt)"

section \<open>Breaker: reachable states\<close>

lemmas breaker_defs = AcquireClosed_def AllowProbe_def cb_RecordFailure_def cb_RecordSuccess_def
  cb_ReleaseProbe_def Let_def

text \<open>What \<open>settleProviderLease\<close> does to the breaker of the channel.\<close>

definition settle_breaker :: "go_time \<Rightarrow> bool \<Rightarrow> bool \<Rightarrow> circuitLease \<Rightarrow> circuitBreaker \<Rightarrow> circuitBreaker" where
  "settle_breaker now failure responded lease cb =
     (if failure then cb_RecordFailure now lease cb
      else if responded then cb_RecordSuccess lease cb
      else if cl_probe lease then cb_ReleaseProbe lease cb
      else cb)"

lemma settleProviderLease_eq:
  "settleProviderLease now failure responded channelID lease rt =
     update_breaker channelID (settle_breaker now failure responded lease) rt"
  by (auto simp: settleProviderLease_def settle_breaker_def RecordFailure_def RecordSuccess_def
      ReleaseProbe_def update_breaker_def fun_upd_idem split: option.split)

text \<open>
  All interleavings of requests on one breaker: requests obtain leases and settle each lease once.
  \<open>out\<close> are the leases not settled yet, \<open>k\<close> counts the steps.
\<close>

inductive breaker_run :: "nat \<Rightarrow> circuitBreaker \<Rightarrow> circuitLease list \<Rightarrow> bool" where
  start: "breaker_run 0 newCircuitBreaker []"
| closed: "breaker_run k cb out \<Longrightarrow> AcquireClosed cb = Some l \<Longrightarrow> breaker_run (Suc k) cb (l # out)"
| probe: "breaker_run k cb out \<Longrightarrow> AllowProbe now cb = (Some l, cb') \<Longrightarrow> breaker_run (Suc k) cb' (l # out)"
| settle: "breaker_run k cb out \<Longrightarrow> l \<in> set out \<Longrightarrow>
     breaker_run (Suc k) (settle_breaker now failure responded l cb) (remove1 l out)"

definition current :: "circuitBreaker \<Rightarrow> circuitLease list \<Rightarrow> circuitLease list" where
  "current cb out = filter (\<lambda>l. cl_generation l = cb_generation cb) out"

definition breaker_inv :: "circuitBreaker \<Rightarrow> circuitLease list \<Rightarrow> bool" where
  "breaker_inv cb out \<longleftrightarrow>
     (\<forall>l \<in> set out. unat (cl_generation l) \<le> unat (cb_generation cb)) \<and>
     cb_threshold cb = CircuitBreakerFailureThreshold \<and>
     (case cb_state cb of
        stateClosed \<Rightarrow> (\<forall>l \<in> set (current cb out). \<not> cl_probe l) \<and>
          0 \<le> cb_failures cb \<and> cb_failures cb < cb_threshold cb
      | stateOpen \<Rightarrow> current cb out = []
      | stateHalfOpen \<Rightarrow> (\<exists>l. current cb out = [l] \<and> cl_probe l))"

lemma unat_Suc_word: "unat (g::64 word) < 2 ^ 64 - 1 \<Longrightarrow> unat (g + 1) = Suc (unat g)"
  by (simp add: unat_word_ariths)

lemma current_bumped:
  assumes "\<forall>l \<in> set out. unat (cl_generation l) \<le> unat (cb_generation cb)"
    and "unat (cb_generation cb') = Suc (unat (cb_generation cb))"
  shows "current cb' (remove1 l out) = []"
proof -
  have "cl_generation x \<noteq> cb_generation cb'" if "x \<in> set (remove1 l out)" for x
  proof -
    have "x \<in> set out" by (meson notin_set_remove1 that)
    with assms show ?thesis by (metis Suc_n_not_le_n)
  qed
  then show ?thesis by (simp add: current_def filter_empty_conv)
qed

lemma current_remove1: "current cb (remove1 l out) = remove1 l (current cb out)"
  by (induction out) (auto simp: current_def filter_remove1)

lemma settle_inv:
  assumes inv: "breaker_inv cb out" and l: "l \<in> set out"
    and small: "unat (cb_generation cb) < 2 ^ 64 - 1"
  shows "breaker_inv (settle_breaker now f r l cb) (remove1 l out) \<and>
         unat (cb_generation (settle_breaker now f r l cb)) \<le> Suc (unat (cb_generation cb))"
proof (cases "cl_generation l = cb_generation cb")
  case False
  then have same: "settle_breaker now f r l cb = cb" by (auto simp: settle_breaker_def breaker_defs)
  have "current cb (remove1 l out) = current cb out"
    unfolding current_remove1 by (rule remove1_idem) (simp add: False current_def)
  with inv same show ?thesis
    by (auto simp: breaker_inv_def dest: notin_set_remove1 split: circuitState.splits)
next
  case True
  let ?cb = "settle_breaker now f r l cb"
  have old: "\<forall>x \<in> set out. unat (cl_generation x) \<le> unat (cb_generation cb)"
    and old': "\<forall>x \<in> set (remove1 l out). unat (cl_generation x) \<le> unat (cb_generation cb)"
    using inv by (auto simp: breaker_inv_def dest: notin_set_remove1)
  have lc: "l \<in> set (current cb out)" using l True by (simp add: current_def)
  have bump: "unat (cb_generation cb + 1) = Suc (unat (cb_generation cb))"
    using small by (rule unat_Suc_word)
  have gen: "current cb' (remove1 l out) = []" if "cb_generation cb' = cb_generation cb + 1" for cb'
    using current_bumped [OF old, of cb'] bump that by simp
  have keep: "current cb' (remove1 l out) = remove1 l (current cb out)"
    if "cb_generation cb' = cb_generation cb" for cb'
    using that current_remove1 [of cb l out] by (simp add: current_def)
  have wr: "wrap64 (cb_failures cb + 1) = cb_failures cb + 1"
    if "cb_state cb = stateClosed"
    using that inv by (auto simp: breaker_inv_def CircuitBreakerFailureThreshold_def int64_defs)
  show ?thesis
  proof (cases "cb_state cb")
    case stateOpen
    with inv lc show ?thesis by (auto simp: breaker_inv_def)
  next
    case stateHalfOpen
    with inv lc have "current cb out = [l]" and "cl_probe l" by (auto simp: breaker_inv_def)
    with stateHalfOpen inv old' True show ?thesis
      by (auto simp: breaker_inv_def settle_breaker_def breaker_defs gen keep bump
          CircuitBreakerFailureThreshold_def intro: le_SucI)
  next
    case stateClosed
    with inv lc have "\<not> cl_probe l" and "\<forall>x \<in> set (remove1 l (current cb out)). \<not> cl_probe x"
      by (auto simp: breaker_inv_def dest: notin_set_remove1)
    with stateClosed inv old' True wr [OF stateClosed] show ?thesis
      by (auto simp: breaker_inv_def settle_breaker_def breaker_defs gen keep bump intro: le_SucI)
  qed
qed

lemma breaker_run_inv:
  assumes "breaker_run k cb out" and "k < 2 ^ 64"
  shows "breaker_inv cb out \<and> unat (cb_generation cb) \<le> k"
  using assms
proof (induction rule: breaker_run.induct)
  case start
  show ?case by (simp add: breaker_inv_def current_def newCircuitBreaker_def CircuitBreakerFailureThreshold_def)
next
  case (closed k cb out l)
  then show ?case by (auto simp: breaker_inv_def current_def AcquireClosed_def split: if_splits)
next
  case (probe k cb out now l cb')
  then show ?case by (auto simp: breaker_inv_def current_def AllowProbe_def split: if_splits)
next
  case (settle k cb out l now f r)
  then have "breaker_inv cb out" "unat (cb_generation cb) < 2 ^ 64 - 1" "unat (cb_generation cb) \<le> k"
    by auto
  from settle_inv [OF this(1) settle.hyps(2) this(2), of now f r] this(3) show ?case by simp
qed

text \<open>
  C19. At any time at most one request probes a provider: in every reachable state of a breaker (with
  fewer than \<open>2^64\<close> steps, so that generations do not repeat) there is exactly one unsettled probe
  of the current generation when the circuit is half-open and none otherwise; while the circuit is
  half-open no other request is let through; settling that probe, however it ended, always leaves the
  half-open state, so a provider is never stuck in it; and settling an outstanding lease of an earlier
  generation changes nothing.
\<close>

theorem single_probe:
  assumes "breaker_run k cb out" and "k < 2 ^ 64"
  shows "length (filter cl_probe (current cb out)) = (if cb_state cb = stateHalfOpen then 1 else 0) \<and>
    (cb_state cb = stateHalfOpen \<longrightarrow>
       AcquireClosed cb = None \<and> fst (AllowProbe now cb) = None \<and>
       (\<forall>l \<in> set (current cb out). \<forall>f r. cb_state (settle_breaker now f r l cb) \<noteq> stateHalfOpen)) \<and>
    (\<forall>l \<in> set out - set (current cb out). \<forall>f r. settle_breaker now f r l cb = cb)"
proof -
  have inv: "breaker_inv cb out" using breaker_run_inv [OF assms] by blast
  have "\<forall>l \<in> set out - set (current cb out). \<forall>f r. settle_breaker now f r l cb = cb"
    by (auto simp: current_def settle_breaker_def breaker_defs)
  moreover have "length (filter cl_probe (current cb out)) = (if cb_state cb = stateHalfOpen then 1 else 0) \<and>
    (cb_state cb = stateHalfOpen \<longrightarrow>
       AcquireClosed cb = None \<and> fst (AllowProbe now cb) = None \<and>
       (\<forall>l \<in> set (current cb out). \<forall>f r. cb_state (settle_breaker now f r l cb) \<noteq> stateHalfOpen))"
  proof (cases "cb_state cb")
    case stateHalfOpen
    with inv obtain l where l: "current cb out = [l]" "cl_probe l" by (auto simp: breaker_inv_def)
    have "l \<in> set (current cb out)" by (simp add: l)
    then have "cl_generation l = cb_generation cb" by (simp add: current_def)
    with stateHalfOpen l show ?thesis by (auto simp: settle_breaker_def breaker_defs)
  qed (use inv in \<open>auto simp: breaker_inv_def filter_empty_conv\<close>)
  ultimately show ?thesis by blast
qed

text \<open>A breaker in use: a slow request, five failing ones that open the circuit, and the probe after the recovery time.\<close>

definition slow_lease :: circuitLease where "slow_lease = \<lparr>cl_generation = 0, cl_probe = False\<rparr>"

fun failed_requests :: "nat \<Rightarrow> circuitBreaker" where
  "failed_requests 0 = newCircuitBreaker"
| "failed_requests (Suc n) = settle_breaker 0 True True slow_lease (failed_requests n)"

lemma failed_requests_closed:
  "n < 5 \<Longrightarrow> failed_requests n =
     \<lparr>cb_state = stateClosed, cb_failures = int n, cb_lastFailure = 0, cb_generation = 0, cb_threshold = 5, cb_recoveryTime = CircuitBreakerRecovery\<rparr>"
proof (induction n)
  case (Suc n)
  moreover have "wrap64 (int n + 1) = int n + 1" using Suc.prems by (simp add: wrap64_exact int64_defs)
  ultimately show ?case by (simp add: slow_lease_def settle_breaker_def cb_RecordFailure_def unix_def)
qed (simp add: newCircuitBreaker_def CircuitBreakerFailureThreshold_def)

lemma failed_requests_run: "n \<le> 5 \<Longrightarrow> breaker_run (2 * n + 1) (failed_requests n) [slow_lease]"
proof (induction n)
  case 0
  show ?case using breaker_run.closed [OF breaker_run.start, of slow_lease]
    by (simp add: AcquireClosed_def newCircuitBreaker_def slow_lease_def)
next
  case (Suc n)
  then have "breaker_run (2 * n + 1) (failed_requests n) [slow_lease]" by simp
  from breaker_run.settle [OF breaker_run.closed [OF this, of slow_lease], of slow_lease 0 True True] Suc.prems
  show ?case by (simp add: failed_requests_closed AcquireClosed_def slow_lease_def)
qed

lemma failed_requests_open:
  "failed_requests 5 =
     \<lparr>cb_state = stateOpen, cb_failures = 5, cb_lastFailure = 0, cb_generation = 1, cb_threshold = 5, cb_recoveryTime = CircuitBreakerRecovery\<rparr>"
proof -
  have "failed_requests 5 = settle_breaker 0 True True slow_lease (failed_requests 4)" by (simp add: numeral_eq_Suc)
  moreover have "wrap64 5 = 5" by (simp add: wrap64_exact int64_defs)
  ultimately show ?thesis
    by (simp add: failed_requests_closed slow_lease_def settle_breaker_def cb_RecordFailure_def unix_def)
qed

definition probing :: circuitBreaker where
  "probing = snd (AllowProbe (CircuitBreakerRecovery + second) (failed_requests 5))"

theorem single_probe_witness:
  "let probe = \<lparr>cl_generation = 1, cl_probe = True\<rparr>
   in cb_state probing = stateHalfOpen \<and> filter cl_probe (current probing [probe, slow_lease]) = [probe] \<and>
      fst (AllowProbe (100 * second) probing) = None \<and> settle_breaker (100 * second) True True slow_lease probing = probing"
proof -
  let ?probe = "\<lparr>cl_generation = 1, cl_probe = True\<rparr>"
  have a: "AllowProbe (CircuitBreakerRecovery + second) (failed_requests 5) = (Some ?probe, probing)"
    by (simp add: probing_def failed_requests_open AllowProbe_def recovered_def second_def)
  have "breaker_run 11 (failed_requests 5) [slow_lease]" using failed_requests_run [of 5] by simp
  from breaker_run.probe [OF this a] have run: "breaker_run 12 probing [?probe, slow_lease]" by simp
  have h: "cb_state probing = stateHalfOpen" "cb_generation probing = 1"
    by (simp_all add: probing_def failed_requests_open AllowProbe_def recovered_def second_def)
  from single_probe [OF run, of "100 * second"] h show ?thesis
    by (simp add: Let_def current_def slow_lease_def)
qed

lemma failures_below_threshold:
  assumes "cb_state cb = stateClosed" and "0 \<le> cb_failures cb" and "cb_threshold cb \<le> max_int64"
    and "cb_failures cb + int (length nows) < cb_threshold cb"
    and "l = \<lparr>cl_generation = cb_generation cb, cl_probe = False\<rparr>"
  shows "let cb' = fold (\<lambda>now. cb_RecordFailure now l) nows cb in
    cb_state cb' = stateClosed \<and> cb_failures cb' = cb_failures cb + int (length nows) \<and>
    cb_generation cb' = cb_generation cb \<and> cb_threshold cb' = cb_threshold cb \<and>
    cb_recoveryTime cb' = cb_recoveryTime cb"
  using assms
proof (induction nows arbitrary: cb)
  case (Cons now nows)
  let ?cb = "cb_RecordFailure now l cb"
  have "in_int64 (cb_failures cb + 1)" using Cons.prems by (auto simp: int64_defs)
  with Cons.prems have 1: "?cb = cb\<lparr>cb_failures := cb_failures cb + 1, cb_lastFailure := unix now\<rparr>"
    by (auto simp: cb_RecordFailure_def Let_def)
  have "let cb' = fold (\<lambda>now. cb_RecordFailure now l) nows ?cb in
    cb_state cb' = stateClosed \<and> cb_failures cb' = cb_failures ?cb + int (length nows) \<and>
    cb_generation cb' = cb_generation ?cb \<and> cb_threshold cb' = cb_threshold ?cb \<and>
    cb_recoveryTime cb' = cb_recoveryTime ?cb"
    by (rule Cons.IH) (use Cons.prems 1 in auto)
  with 1 show ?case by (simp add: Let_def)
qed (simp add: Let_def)

text \<open>
  A closed circuit opens on exactly the threshold-th consecutive failure: recording failures of
  leases of the current generation keeps it closed, with the number of failures counted, until the
  threshold is reached; then it is open, its generation has moved on, so that every lease handed
  out before is stale, and it grants neither ordinary leases nor probes before the recovery time
  has passed since the last failure.
\<close>

theorem opens_at_threshold:
  assumes "cb_state cb = stateClosed" and "0 \<le> cb_failures cb" and "cb_threshold cb \<le> max_int64"
    and "cb_failures cb + int (length nows) + 1 = cb_threshold cb"
    and "l = \<lparr>cl_generation = cb_generation cb, cl_probe = False\<rparr>"
  shows "let before = fold (\<lambda>now. cb_RecordFailure now l) nows cb;
             after = cb_RecordFailure now l before
    in cb_state before = stateClosed \<and> cb_state after = stateOpen \<and>
       cb_generation after = cb_generation cb + 1 \<and> AcquireClosed after = None \<and>
       (\<forall>later \<le> unix now * second + cb_recoveryTime cb. fst (AllowProbe later after) = None)"
proof -
  define before where "before = fold (\<lambda>now. cb_RecordFailure now l) nows cb"
  have b: "cb_state before = stateClosed" "cb_failures before = cb_failures cb + int (length nows)"
    "cb_generation before = cb_generation cb" "cb_threshold before = cb_threshold cb"
    "cb_recoveryTime before = cb_recoveryTime cb"
    using failures_below_threshold [of cb nows l] assms(1-5) unfolding before_def Let_def by auto
  have "in_int64 (cb_failures before + 1)" using b(2) assms(2-4) by (auto simp: int64_defs)
  with b assms(4,5) have "cb_RecordFailure now l before = before\<lparr>cb_failures := cb_failures before + 1,
      cb_lastFailure := unix now, cb_state := stateOpen, cb_generation := cb_generation before + 1\<rparr>"
    by (simp add: cb_RecordFailure_def Let_def)
  with b show ?thesis
    unfolding before_def [symmetric] Let_def by (auto simp: AcquireClosed_def AllowProbe_def recovered_def)
qed

theorem opens_at_threshold_witness:
  "let l = \<lparr>cl_generation = 0, cl_probe = False\<rparr>;
       before = fold (\<lambda>now. cb_RecordFailure now l) [1, 2, 3, 4] newCircuitBreaker
   in cb_state before = stateClosed \<and> cb_state (cb_RecordFailure 5 l before) = stateOpen"
  using opens_at_threshold [of newCircuitBreaker "[1, 2, 3, 4]" "\<lparr>cl_generation = 0, cl_probe = False\<rparr>" 5]
  by (simp add: newCircuitBreaker_def CircuitBreakerFailureThreshold_def max_int64_def Let_def)

section \<open>The weighted lottery\<close>

definition weight_before :: "nat \<Rightarrow> providerChannel list \<Rightarrow> int" where
  "weight_before i channels = sum_list (map channel_weight (take i channels))"

lemma channel_weight_pos: "0 < channel_weight ch"
  by (simp add: channel_weight_def DefaultProviderWeight_def)

lemma weight_sum_nonneg: "0 \<le> sum_list (map channel_weight chs)"
  using channel_weight_pos by (intro sum_list_nonneg_map) (simp add: less_imp_le)

lemma total_weight_exact:
  "0 \<le> acc \<Longrightarrow> acc + sum_list (map channel_weight chs) \<le> max_int64 \<Longrightarrow>
   total_weight acc chs = acc + sum_list (map channel_weight chs)"
proof (induction chs arbitrary: acc)
  case (Cons ch chs)
  have "0 \<le> sum_list (map channel_weight chs)" by (rule weight_sum_nonneg)
  with Cons.prems channel_weight_pos [of ch] have "in_int64 (acc + channel_weight ch)"
    by (auto simp: in_int64_def min_int64_def)
  with Cons channel_weight_pos [of ch] show ?case by simp
qed simp

lemma pick_loop_interval:
  assumes "i < length chs" and "weight_before i chs \<le> n" and "n < weight_before i chs + channel_weight (chs ! i)"
  shows "pick_loop n chs lst = Some (chs ! i)"
  using assms
proof (induction chs arbitrary: i n lst)
  case (Cons ch chs)
  show ?case
  proof (cases i)
    case 0
    with Cons.prems show ?thesis by (simp add: weight_before_def)
  next
    case (Suc j)
    have "0 \<le> sum_list (map channel_weight (take j chs))" by (rule weight_sum_nonneg)
    with Suc Cons.prems have "channel_weight ch \<le> n" by (simp add: weight_before_def)
    with Suc Cons show ?thesis by (simp add: weight_before_def)
  qed
qed simp

lemma pick_loop_mem: "pick_loop n chs lst = Some ch \<Longrightarrow> ch \<in> set chs \<or> lst = Some ch"
  by (induction chs arbitrary: n lst) (auto split: if_splits)

lemma pick_loop_total: "chs \<noteq> [] \<or> lst \<noteq> None \<Longrightarrow> pick_loop n chs lst \<noteq> None"
  by (induction chs arbitrary: n lst) auto

lemma pickWeighted_mem: "pickWeighted draw chs = Some ch \<Longrightarrow> ch \<in> set chs"
  by (auto simp: pickWeighted_def simp del: pick_loop.simps split: list.splits option.splits
      dest!: pick_loop_mem)

lemma pickWeighted_None: "pickWeighted draw chs = None \<longleftrightarrow> chs = []"
  using pick_loop_total [of chs None]
  by (auto simp: pickWeighted_def simp del: pick_loop.simps split: list.splits option.splits)

text \<open>
  C33. The lottery is exactly proportional: when the weights do not overflow, the draws below their
  sum split into consecutive intervals, one per channel in list order, each as long as the weight of
  its channel (a weight that is not positive counts as one), and a draw selects the channel whose
  interval holds it.
\<close>

theorem lottery_proportional:
  assumes "2 \<le> length channels" and "sum_list (map channel_weight channels) \<le> max_int64"
    and "i < length channels"
    and "weight_before i channels \<le> n" and "n < weight_before i channels + channel_weight (channels ! i)"
    and "draw (sum_list (map channel_weight channels)) = Some n"
  shows "pickWeighted draw channels = Some (channels ! i)"
proof -
  obtain c d cs where chs: "channels = c # d # cs"
    using assms(1) by (cases channels; cases "tl channels") auto
  have t: "total_weight 0 channels = sum_list (map channel_weight channels)"
    using total_weight_exact [of 0 channels] assms(2) by simp
  have "0 < total_weight 0 channels"
    using channel_weight_pos [of c] weight_sum_nonneg [of "d # cs"] unfolding t by (simp add: chs)
  then show ?thesis
    using pick_loop_interval [OF assms(3-5)] assms(6) t
    by (simp add: pickWeighted_def chs cryptoRandIntn_def)
qed

definition example_channel :: "string \<Rightarrow> int \<Rightarrow> int \<Rightarrow> providerChannel" where
  "example_channel i weight priority =
     \<lparr>pc_ID = i, pc_Name = i, pc_Type = ''openai'', pc_BaseURL = ''https://api.openai.com'',
      pc_KeyID = i, pc_Models = [''gpt-4o''], pc_Weight = weight, pc_Priority = priority,
      pc_APIVersion = [], pc_Enabled = True\<rparr>"

theorem lottery_proportional_witness:
  "pickWeighted (\<lambda>_. Some 3) [example_channel ''a'' 3 0, example_channel ''b'' 2 0] =
     Some (example_channel ''b'' 2 0)"
  using lottery_proportional [of "[example_channel ''a'' 3 0, example_channel ''b'' 2 0]" 1 3 "\<lambda>_. Some 3"]
  by (simp add: example_channel_def channel_weight_def weight_before_def max_int64_def)

section \<open>Route: soundness, best choice, completeness\<close>

text \<open>The readings of the breaker states are accurate when no other request interferes.\<close>

definition accurate :: "(string \<Rightarrow> circuitState) \<Rightarrow> (string \<rightharpoonup> circuitBreaker) \<Rightarrow> bool" where
  "accurate seen breakers \<longleftrightarrow> (\<forall>i b. breakers i = Some b \<longrightarrow> seen i = cb_state b)"

definition is_closed :: "(string \<rightharpoonup> circuitBreaker) \<Rightarrow> providerChannel \<Rightarrow> bool" where
  "is_closed breakers ch \<longleftrightarrow> (\<exists>b. breakers (pc_ID ch) = Some b \<and> cb_state b = stateClosed)"

definition probeable :: "go_time \<Rightarrow> (string \<rightharpoonup> circuitBreaker) \<Rightarrow> providerChannel \<Rightarrow> bool" where
  "probeable now breakers ch \<longleftrightarrow>
     (\<exists>b. breakers (pc_ID ch) = Some b \<and> cb_state b = stateOpen \<and> recovered now b)"

lemma route_group_sound:
  assumes "route_group draw seen breakers grp = Some (ch, lease)"
  shows "ch \<in> set grp" and "\<exists>b. breakers (pc_ID ch) = Some b \<and> AcquireClosed b = Some lease"
  using assms by (auto simp: route_group_def Let_def split: option.splits dest!: pickWeighted_mem)

lemma route_group_None:
  assumes "accurate seen breakers"
  shows "route_group draw seen breakers grp = None \<longleftrightarrow> (\<forall>ch \<in> set grp. \<not> is_closed breakers ch)"
proof -
  let ?closed = "filter (\<lambda>ch. breakers (pc_ID ch) \<noteq> None \<and> seen (pc_ID ch) = stateClosed) grp"
  have eq: "?closed = filter (is_closed breakers) grp"
    using assms by (intro filter_cong) (auto simp: is_closed_def accurate_def)
  show ?thesis
  proof (cases "pickWeighted draw ?closed")
    case None
    then have "?closed = []" by (simp only: pickWeighted_None)
    with None eq show ?thesis by (simp add: route_group_def filter_empty_conv)
  next
    case (Some ch)
    then have "ch \<in> set ?closed" by (rule pickWeighted_mem)
    then have "ch \<in> set grp" "is_closed breakers ch" unfolding eq by auto
    with Some show ?thesis by (auto simp: route_group_def is_closed_def AcquireClosed_def)
  qed
qed

lemma takeWhile_dropWhile_set: "set xs = set (takeWhile P xs) \<union> set (dropWhile P xs)"
  by (metis set_append takeWhile_dropWhile_id)

lemma route_groups_sound:
  "route_groups draw seen breakers cands = Some (ch, lease) \<Longrightarrow>
     ch \<in> set cands \<and> (\<exists>b. breakers (pc_ID ch) = Some b \<and> AcquireClosed b = Some lease)"
proof (induction draw seen breakers cands rule: route_groups.induct)
  case (2 draw seen breakers c cs)
  then show ?case
    using takeWhile_dropWhile_set [of "c # cs" "same_priority c"] route_group_sound [of draw seen breakers]
    by (auto simp del: takeWhile.simps dropWhile.simps split: option.splits)
qed simp

lemma route_groups_None:
  assumes "accurate seen breakers"
  shows "route_groups draw seen breakers cands = None \<longleftrightarrow> (\<forall>ch \<in> set cands. \<not> is_closed breakers ch)"
  using assms
proof (induction draw seen breakers cands rule: route_groups.induct)
  case (2 draw seen breakers c cs)
  then show ?case
    using takeWhile_dropWhile_set [of "c # cs" "same_priority c"]
      route_group_None [of seen breakers draw "takeWhile (same_priority c) (c # cs)"]
    by (auto simp del: takeWhile.simps dropWhile.simps split: option.split)
qed simp

lemma route_groups_best:
  assumes "accurate seen breakers" and "sorted (map pc_Priority cands)"
    and "route_groups draw seen breakers cands = Some (ch, lease)"
    and "c' \<in> set cands" and "is_closed breakers c'"
  shows "pc_Priority ch \<le> pc_Priority c'"
  using assms
proof (induction draw seen breakers cands rule: route_groups.induct)
  case (2 draw seen breakers c cs)
  let ?g = "takeWhile (same_priority c) (c # cs)" and ?r = "dropWhile (same_priority c) (c # cs)"
  have min: "pc_Priority c \<le> pc_Priority x" if "x \<in> set (c # cs)" for x using that "2.prems"(2) by auto
  show ?case
  proof (cases "route_group draw seen breakers ?g")
    case (Some r)
    with "2.prems"(3) have "route_group draw seen breakers ?g = Some (ch, lease)" by simp
    then have "pc_Priority ch = pc_Priority c"
      using route_group_sound(1) set_takeWhileD by fast
    with min "2.prems"(4) show ?thesis by simp
  next
    case None
    then have "c' \<notin> set ?g" using route_group_None "2.prems"(1,5) by blast
    then have c': "c' \<in> set ?r" using takeWhile_dropWhile_set [of "c # cs" "same_priority c"] "2.prems"(4) by simp
    have srt: "sorted (map pc_Priority ?r)"
      using "2.prems"(2) unfolding sorted_map by (rule sorted_wrt_dropWhile)
    have "route_groups draw seen breakers ?r = Some (ch, lease)" using "2.prems"(3) None by simp
    from "2.IH" [OF None "2.prems"(1) srt this c' "2.prems"(5)] show ?thesis .
  qed
qed simp

lemma route_probe_sound:
  assumes "route_probe now breakers cands = (r, breakers')"
  shows "(r = None \<longleftrightarrow> (\<forall>ch \<in> set cands. \<not> probeable now breakers ch)) \<and>
    (r = None \<longrightarrow> breakers' = breakers) \<and>
    (\<forall>ch lease. r = Some (ch, lease) \<longrightarrow>
       ch \<in> set cands \<and> probeable now breakers ch \<and> cl_probe lease \<and>
       (\<exists>b. breakers (pc_ID ch) = Some b \<and> cl_generation lease = cb_generation b \<and>
          breakers' = breakers(pc_ID ch \<mapsto> b\<lparr>cb_state := stateHalfOpen\<rparr>)))"
  using assms
proof (induction cands arbitrary: r breakers')
  case (Cons c cs)
  then show ?case
    by (fastforce simp: probeable_def AllowProbe_def split: option.splits if_splits prod.splits)
qed simp

text \<open>
  C34. Routing never leaves the configured table and always takes the best choice: the selected
  channel is configured, enabled, not excluded and serves the model. An ordinary lease goes to a
  channel with a closed circuit of the best priority among those with a closed circuit, and leaves
  the table as it was. A probe is granted only when no eligible circuit is closed, to an open circuit
  past its recovery time, which is then half-open. Nothing is selected only when no eligible
  circuit is closed or ready for a probe, which is what \<open>hasUnusedCandidate\<close> reports.
\<close>

theorem Route_correct:
  assumes "accurate seen (rt_breakers rt)" and "Route now draw seen model exclude rt = (r, rt')"
  defines "eligible \<equiv> (\<lambda>ch. ch \<in> set (rt_channels rt) \<and> candidate model exclude ch)"
  shows "case r of
      None \<Rightarrow> \<not> hasUnusedCandidate now model exclude rt \<and> rt' = rt
    | Some (ch, lease) \<Rightarrow> eligible ch \<and>
        (if cl_probe lease
         then (\<forall>c. eligible c \<longrightarrow> \<not> is_closed (rt_breakers rt) c) \<and> probeable now (rt_breakers rt) ch \<and>
              (\<exists>b. rt_breakers rt (pc_ID ch) = Some b \<and> rt' = rt\<lparr>rt_breakers :=
                 (rt_breakers rt)(pc_ID ch \<mapsto> b\<lparr>cb_state := stateHalfOpen\<rparr>)\<rparr>)
         else is_closed (rt_breakers rt) ch \<and> rt' = rt \<and>
              (\<forall>c. eligible c \<and> is_closed (rt_breakers rt) c \<longrightarrow> pc_Priority ch \<le> pc_Priority c))"
proof -
  let ?bs = "rt_breakers rt"
  define cands where "cands = sort_key pc_Priority (filter (candidate model exclude) (rt_channels rt))"
  have mem: "ch \<in> set cands \<longleftrightarrow> eligible ch" for ch by (auto simp: cands_def eligible_def)
  have srt: "sorted (map pc_Priority cands)" by (simp add: cands_def)
  show ?thesis
  proof (cases "route_groups draw seen ?bs cands")
    case (Some cl)
    obtain ch lease where cl: "cl = (ch, lease)" by fastforce
    with Some have r: "r = Some (ch, lease)" "rt' = rt"
      using assms(2) by (auto simp: Route_def cands_def [symmetric])
    have "ch \<in> set cands" "is_closed ?bs ch" "\<not> cl_probe lease"
      using route_groups_sound [of draw seen ?bs cands ch lease] Some cl
      by (auto simp: is_closed_def AcquireClosed_def split: if_splits)
    with r mem route_groups_best [OF assms(1) srt] Some cl show ?thesis by auto
  next
    case None
    then have nc: "\<not> is_closed ?bs c" if "eligible c" for c
      using that route_groups_None [OF assms(1)] mem by blast
    obtain r0 bs where rp: "route_probe now ?bs cands = (r0, bs)" by fastforce
    with None have r: "r = r0" "rt' = rt\<lparr>rt_breakers := bs\<rparr>"
      using assms(2) by (auto simp: Route_def cands_def [symmetric])
    note ps = route_probe_sound [OF rp]
    show ?thesis
    proof (cases r0)
      case None
      with ps have "\<forall>ch. eligible ch \<longrightarrow> \<not> probeable now ?bs ch" "bs = ?bs" using mem by auto
      with nc r None show ?thesis
        by (auto simp: hasUnusedCandidate_def list_ex_iff eligible_def is_closed_def probeable_def
            split: option.splits)
    next
      case (Some cl)
      obtain ch lease where "cl = (ch, lease)" by fastforce
      with Some ps r nc mem show ?thesis by fastforce
    qed
  qed
qed

theorem Route_correct_witness:
  "let rt = newRouterTable [example_channel ''b'' 1 5, example_channel ''a'' 1 0];
       r = Route 0 (\<lambda>_. None) (\<lambda>_. stateClosed) ''gpt-4o'' {} rt
   in (\<exists>ch lease. fst r = Some (ch, lease) \<and> pc_ID ch = ''a'' \<and> is_closed (rt_breakers rt) ch)"
proof -
  let ?rt = "newRouterTable [example_channel ''b'' 1 5, example_channel ''a'' 1 0]"
  let ?r = "Route 0 (\<lambda>_. None) (\<lambda>_. stateClosed) ''gpt-4o'' {} ?rt"
  have acc: "accurate (\<lambda>_. stateClosed) (rt_breakers ?rt)"
    by (simp add: accurate_def newRouterTable_def newCircuitBreaker_def)
  have r: "fst ?r = Some (example_channel ''a'' 1 0, \<lparr>cl_generation = 0, cl_probe = False\<rparr>)"
    by (simp add: Route_def newRouterTable_def example_channel_def candidate_def supportsModel_def
        route_group_def pickWeighted_def AcquireClosed_def newCircuitBreaker_def)
  from Route_correct [OF acc prod.collapse [symmetric], where now = 0 and draw = "\<lambda>_. None" and model = "''gpt-4o''" and exclude = "{}"] r
  show ?thesis by (simp add: Let_def example_channel_def)
qed

end
