(* ===== verification/Rate_Limit.thy ===== *)
theory Rate_Limit
  imports Go_Prelude
begin

text \<open>
  The in-memory rate limiter of \<^verbatim>\<open>internal/middleware/ratelimit.go\<close>: sliding windows for requests
  and tokens per minute, concurrency trackers, and the policy arithmetic around them.

  \<^item> \<open>slidingWindow\<close>, \<open>timestampedCount\<close>, \<open>memoryLimiter\<close> are the structs of the source. The Go
    maps are partial functions; their pointer values are explicit where identity matters:
    \<open>conc\<close> maps a key to the address of a tracker in \<open>trackers\<close>, and the variables that a
    \<open>release\<close> closure captures live in \<open>leases\<close>.
  \<^item> Every operation runs under the limiter's mutex, so an interleaving of concurrent requests is
    a sequence of whole operations; the clock reading of an operation is its argument \<open>now\<close>.
  \<^item> The contract of the \<open>Limiter\<close> interface is the locale \<open>window_limiter\<close>, interpreted on
    \<open>memoryLimiter\<close>: a run of admissions never exceeds the limit inside one window.
\<close>

section \<open>Data\<close>

record timestampedCount =
  ts_time :: go_time
  ts_count :: int

record slidingWindow =
  sw_counts :: "timestampedCount list"
  sw_window :: go_duration
  sw_head :: nat
  sw_total :: int

text \<open>The environment of one \<open>release\<close> closure: its key, its tracker and its \<open>released\<close> flag.\<close>

record lease =
  ls_key :: string
  ls_tracker :: nat
  ls_released :: bool

record memoryLimiter =
  windows :: "string \<rightharpoonup> slidingWindow"
  conc :: "string \<rightharpoonup> nat"
  trackers :: "int list"
  leases :: "lease list"
  operations :: "64 word"

definition memoryLimiterCleanupEvery :: "64 word" where "memoryLimiterCleanupEvery = 256"

definition newMemoryLimiter :: memoryLimiter where
  "newMemoryLimiter =
     \<lparr>windows = Map.empty, conc = Map.empty, trackers = [], leases = [], operations = 0\<rparr>"

definition CharsPerTokenEstimate :: nat where "CharsPerTokenEstimate = 4"
definition MinEstimatedTokens :: nat where "MinEstimatedTokens = 1"

section \<open>Sliding windows\<close>

text \<open>The loop of \<open>slidingWindow.prune\<close>: advance \<open>head\<close> over the entries at or before the cutoff.\<close>

function prune_loop :: "go_time \<Rightarrow> slidingWindow \<Rightarrow> slidingWindow" where
  "prune_loop cutoff sw =
     (if sw_head sw < length (sw_counts sw) \<and> \<not> cutoff < ts_time (sw_counts sw ! sw_head sw)
      then prune_loop cutoff
             (sw\<lparr>sw_total := wrap64 (sw_total sw - ts_count (sw_counts sw ! sw_head sw)),
                 sw_head := Suc (sw_head sw)\<rparr>)
      else sw)"
  by pat_completeness auto
termination
  by (relation "measure (\<lambda>(c, sw). length (sw_counts sw) - sw_head sw)") auto

declare prune_loop.simps [simp del]

definition prune :: "go_time \<Rightarrow> slidingWindow \<Rightarrow> slidingWindow" where
  "prune now sw =
     (let sw' = prune_loop (now - sw_window sw) sw in
      if sw_head sw' = length (sw_counts sw')
      then sw'\<lparr>sw_counts := [], sw_head := 0, sw_total := 0\<rparr>
      else if 1024 \<le> sw_head sw' \<and> length (sw_counts sw') \<le> sw_head sw' * 2
      then sw'\<lparr>sw_counts := drop (sw_head sw') (sw_counts sw'), sw_head := 0\<rparr>
      else sw')"

definition cleanupExpiredWindows :: "go_time \<Rightarrow> memoryLimiter \<Rightarrow> memoryLimiter" where
  "cleanupExpiredWindows now m =
     m\<lparr>windows := (\<lambda>key. case windows m key of
          None \<Rightarrow> None
        | Some sw \<Rightarrow>
            if sw_window sw \<le> 0 then None
            else let sw' = prune now sw in if sw_total sw' = 0 then None else Some sw')\<rparr>"

definition compositeKey :: "string \<Rightarrow> string \<Rightarrow> string" where
  "compositeKey key dimension = key @ '':'' @ dimension"

text \<open>\<open>windowLocked\<close> returns the pruned window, which it leaves stored under the composite key.\<close>

definition windowLocked ::
  "string \<Rightarrow> string \<Rightarrow> go_duration \<Rightarrow> go_time \<Rightarrow> memoryLimiter \<Rightarrow> slidingWindow \<times> memoryLimiter" where
  "windowLocked key dimension window now m =
     (let ck = compositeKey key dimension;
          sw = (case windows m ck of
                  Some sw \<Rightarrow> sw
                | None \<Rightarrow> \<lparr>sw_counts = [], sw_window = window, sw_head = 0, sw_total = 0\<rparr>);
          sw' = prune now (sw\<lparr>sw_window := window\<rparr>)
      in (sw', m\<lparr>windows := (windows m)(ck \<mapsto> sw')\<rparr>))"

definition sw_append :: "go_time \<Rightarrow> int \<Rightarrow> slidingWindow \<Rightarrow> slidingWindow" where
  "sw_append now n sw =
     sw\<lparr>sw_counts := sw_counts sw @ [\<lparr>ts_time = now, ts_count = n\<rparr>],
        sw_total := wrap64 (sw_total sw + n)\<rparr>"

definition AllowN ::
  "go_time \<Rightarrow> string \<Rightarrow> string \<Rightarrow> int \<Rightarrow> int \<Rightarrow> go_duration \<Rightarrow> memoryLimiter \<Rightarrow> bool \<times> memoryLimiter" where
  "AllowN now key dimension n limit window m =
     (if n \<le> 0 then (True, m)
      else if limit \<le> 0 then (True, m)
      else
        let m1 = m\<lparr>operations := operations m + 1\<rparr>;
            m2 = (if operations m1 mod memoryLimiterCleanupEvery = 0
                  then cleanupExpiredWindows now m1 else m1);
            (sw, m3) = windowLocked key dimension window now m2
        in if wrap64 (sw_total sw + n) > limit then (False, m3)
           else (True, m3\<lparr>windows := (windows m3)(compositeKey key dimension \<mapsto> sw_append now n sw)\<rparr>))"

definition Allow ::
  "go_time \<Rightarrow> string \<Rightarrow> string \<Rightarrow> int \<Rightarrow> go_duration \<Rightarrow> memoryLimiter \<Rightarrow> bool \<times> memoryLimiter" where
  "Allow now key dimension limit window m = AllowN now key dimension 1 limit window m"

definition Record ::
  "go_time \<Rightarrow> string \<Rightarrow> string \<Rightarrow> int \<Rightarrow> go_duration \<Rightarrow> memoryLimiter \<Rightarrow> memoryLimiter" where
  "Record now key dimension n window m =
     (if n \<le> 0 then m
      else let (sw, m1) = windowLocked key dimension window now m
           in m1\<lparr>windows := (windows m1)(compositeKey key dimension \<mapsto> sw_append now n sw)\<rparr>)"

section \<open>Concurrency\<close>

text \<open>
  \<open>AcquireConcurrency\<close> returns the index of the closure environment of its \<open>release\<close> function;
  \<open>None\<close> in the pair is the no-op release of an unlimited key.
\<close>

datatype acquired = NotAcquired | Unlimited | Leased nat

definition AcquireConcurrency ::
  "string \<Rightarrow> int \<Rightarrow> memoryLimiter \<Rightarrow> acquired \<times> memoryLimiter" where
  "AcquireConcurrency key maxConc m =
     (if maxConc \<le> 0 then (Unlimited, m)
      else
        let (ct, m1) =
              (case conc m key of
                 Some ct \<Rightarrow> (ct, m)
               | None \<Rightarrow> (length (trackers m),
                          m\<lparr>trackers := trackers m @ [0],
                            conc := (conc m)(key \<mapsto> length (trackers m))\<rparr>))
        in if maxConc \<le> trackers m1 ! ct then (NotAcquired, m1)
           else (Leased (length (leases m1)),
                 m1\<lparr>trackers := (trackers m1)[ct := trackers m1 ! ct + 1],
                    leases := leases m1 @ [\<lparr>ls_key = key, ls_tracker = ct, ls_released = False\<rparr>]\<rparr>))"

definition release :: "nat \<Rightarrow> memoryLimiter \<Rightarrow> memoryLimiter" where
  "release i m =
     (if i < length (leases m) \<and> \<not> ls_released (leases m ! i)
      then
        let l = leases m ! i;
            ct = ls_tracker l;
            cur = trackers m ! ct - 1;
            m1 = m\<lparr>leases := (leases m)[i := l\<lparr>ls_released := True\<rparr>],
                   trackers := (trackers m)[ct := cur]\<rparr>
        in if cur = 0 \<and> conc m (ls_key l) = Some ct
           then m1\<lparr>conc := (conc m)(ls_key l := None)\<rparr> else m1
      else m)"

section \<open>Policy arithmetic\<close>

definition effectivePolicyLimit :: "int \<Rightarrow> int \<Rightarrow> int" where
  "effectivePolicyLimit defaultMax keyMax =
     (if keyMax \<le> 0 then defaultMax
      else if defaultMax \<le> 0 then keyMax
      else if keyMax < defaultMax then keyMax
      else defaultMax)"

definition estimateTokensFromBody :: "bytes \<Rightarrow> nat" where
  "estimateTokensFromBody body =
     (if length body = 0 then MinEstimatedTokens
      else let tokens = (length body + CharsPerTokenEstimate - 1) div CharsPerTokenEstimate
           in if tokens < MinEstimatedTokens then MinEstimatedTokens else tokens)"

section \<open>Invariant and abstraction of a sliding window\<close>

definition live_entries :: "slidingWindow \<Rightarrow> timestampedCount list" where
  "live_entries sw = drop (sw_head sw) (sw_counts sw)"

definition entry_sum :: "timestampedCount list \<Rightarrow> int" where
  "entry_sum es = sum_list (map ts_count es)"

definition entries_after :: "go_time \<Rightarrow> timestampedCount list \<Rightarrow> timestampedCount list" where
  "entries_after cutoff es = filter (\<lambda>e. cutoff < ts_time e) es"

text \<open>
  The representation invariant: \<open>head\<close> is in range, the entries are in clock order with no entry
  later than \<open>t\<close>, live counts are positive, and \<open>total\<close> is their exact sum.
\<close>

definition window_inv :: "go_time \<Rightarrow> slidingWindow \<Rightarrow> bool" where
  "window_inv t sw \<longleftrightarrow>
     sw_head sw \<le> length (sw_counts sw) \<and>
     sorted (map ts_time (sw_counts sw)) \<and>
     (\<forall>e \<in> set (sw_counts sw). ts_time e \<le> t) \<and>
     (\<forall>e \<in> set (live_entries sw). 0 < ts_count e) \<and>
     sw_total sw = entry_sum (live_entries sw) \<and>
     in_int64 (sw_total sw)"

lemma entry_sum_simps [simp]:
  "entry_sum [] = 0"
  "entry_sum (e # es) = ts_count e + entry_sum es"
  "entry_sum (es @ fs) = entry_sum es + entry_sum fs"
  by (simp_all add: entry_sum_def)

lemma entries_after_Nil [simp]: "entries_after c [] = []"
  by (simp add: entries_after_def)

lemma entry_sum_nonneg: "\<forall>e \<in> set es. 0 < ts_count e \<Longrightarrow> 0 \<le> entry_sum es"
  by (induction es) auto

lemma entry_sum_zero: "\<forall>e \<in> set es. 0 < ts_count e \<Longrightarrow> entry_sum es = 0 \<Longrightarrow> es = []"
  using entry_sum_nonneg by (cases es) force+

lemma entry_sum_filter_le:
  "\<forall>e \<in> set es. 0 < ts_count e \<Longrightarrow> entry_sum (filter P es) \<le> entry_sum es"
  by (induction es) auto

lemma entry_sum_filter_mono:
  "\<forall>e \<in> set es. 0 < ts_count e \<Longrightarrow> (\<And>e. P e \<Longrightarrow> Q e) \<Longrightarrow>
   entry_sum (filter P es) \<le> entry_sum (filter Q es)"
  by (induction es) auto

lemma window_inv_live:
  assumes "window_inv t sw" and "sw_head sw < length (sw_counts sw)"
  shows "live_entries sw = sw_counts sw ! sw_head sw # drop (Suc (sw_head sw)) (sw_counts sw)"
  using assms by (simp add: live_entries_def Cons_nth_drop_Suc)

text \<open>Pruning removes exactly the entries at or before the cutoff, and keeps the exact total.\<close>

lemma prune_loop_spec:
  assumes "window_inv t sw"
  shows "window_inv t (prune_loop c sw) \<and>
         live_entries (prune_loop c sw) = dropWhile (\<lambda>e. ts_time e \<le> c) (live_entries sw) \<and>
         sw_counts (prune_loop c sw) = sw_counts sw \<and>
         sw_window (prune_loop c sw) = sw_window sw"
  using assms
proof (induction c sw rule: prune_loop.induct)
  case (1 c sw)
  let ?h = "sw_head sw" and ?e = "sw_counts sw ! sw_head sw"
  let ?sw = "sw\<lparr>sw_total := wrap64 (sw_total sw - ts_count ?e), sw_head := Suc ?h\<rparr>"
  show ?case
  proof (cases "?h < length (sw_counts sw) \<and> \<not> c < ts_time ?e")
    case False
    then have same: "prune_loop c sw = sw" by (auto simp: prune_loop.simps [of c sw])
    show ?thesis
    proof (cases "?h < length (sw_counts sw)")
      case True
      with False "1.prems" same show ?thesis by (simp add: window_inv_live)
    next
      case False
      with "1.prems" same show ?thesis by (simp add: live_entries_def)
    qed
  next
    case True
    then have live: "live_entries sw = ?e # drop (Suc ?h) (sw_counts sw)"
      using "1.prems" by (simp add: window_inv_live)
    have live': "live_entries ?sw = drop (Suc ?h) (sw_counts sw)" by (simp add: live_entries_def)
    have pos: "0 < ts_count ?e" "\<forall>e \<in> set (live_entries ?sw). 0 < ts_count e"
      and tot: "sw_total sw = ts_count ?e + entry_sum (live_entries ?sw)"
      and rng: "in_int64 (sw_total sw)"
      using "1.prems" live live' by (auto simp: window_inv_def)
    from pos tot rng have "in_int64 (sw_total sw - ts_count ?e)"
      using entry_sum_nonneg [OF pos(2)] by (auto intro: in_int64_between [of _ "sw_total sw"])
    with True "1.prems" pos tot have "window_inv t ?sw"
      by (auto simp: window_inv_def)
    from "1.IH" [OF True this] True live live' show ?thesis
      by (simp add: prune_loop.simps [of c sw] prune_loop.simps [of c ?sw, symmetric])
  qed
qed

lemma window_inv_compact:
  assumes "window_inv t sw"
  shows "window_inv t (sw\<lparr>sw_counts := drop (sw_head sw) (sw_counts sw), sw_head := 0\<rparr>)"
  using assms
  by (auto simp: window_inv_def live_entries_def drop_map [symmetric] sorted_wrt_drop dest: in_set_dropD)

lemma window_inv_empty [simp]:
  "window_inv t (sw\<lparr>sw_counts := [], sw_head := 0, sw_total := 0\<rparr>)"
  by (simp add: window_inv_def live_entries_def)

lemma window_inv_fresh [simp]:
  "window_inv t \<lparr>sw_counts = [], sw_window = w, sw_head = 0, sw_total = 0\<rparr>"
  by (simp add: window_inv_def live_entries_def)

lemma prune_spec:
  assumes "window_inv t sw"
  shows window_inv_prune: "window_inv t (prune now sw)"
    and live_entries_prune: "live_entries (prune now sw) = entries_after (now - sw_window sw) (live_entries sw)"
    and sw_window_prune: "sw_window (prune now sw) = sw_window sw"
proof -
  let ?p = "prune_loop (now - sw_window sw) sw"
  have p: "window_inv t ?p" "sw_window ?p = sw_window sw"
    "live_entries ?p = dropWhile (\<lambda>e. ts_time e \<le> now - sw_window sw) (live_entries sw)"
    using prune_loop_spec [OF assms] by auto
  have "sorted (map ts_time (live_entries sw))"
    using assms by (simp add: window_inv_def live_entries_def drop_map [symmetric] sorted_wrt_drop)
  with p(3) have f: "live_entries ?p = entries_after (now - sw_window sw) (live_entries sw)"
    by (simp add: entries_after_def dropWhile_eq_filter_sorted)
  have l0: "live_entries (?p\<lparr>sw_counts := [], sw_head := 0, sw_total := 0\<rparr>) = live_entries ?p"
    if "sw_head ?p = length (sw_counts ?p)" using that by (simp add: live_entries_def)
  have l1: "live_entries (?p\<lparr>sw_counts := drop (sw_head ?p) (sw_counts ?p), sw_head := 0\<rparr>) = live_entries ?p"
    by (simp add: live_entries_def)
  show "window_inv t (prune now sw)"
    using p(1) window_inv_compact [OF p(1)] by (simp add: prune_def Let_def)
  show "live_entries (prune now sw) = entries_after (now - sw_window sw) (live_entries sw)"
    using f l0 l1 by (simp add: prune_def Let_def)
  show "sw_window (prune now sw) = sw_window sw"
    using p(2) by (simp add: prune_def Let_def)
qed

lemma window_inv_append:
  assumes "window_inv t sw" and "t \<le> now" and "0 < n" and "in_int64 (sw_total sw + n)"
  shows "window_inv now (sw_append now n sw)"
    and "live_entries (sw_append now n sw) = live_entries sw @ [\<lparr>ts_time = now, ts_count = n\<rparr>]"
  using assms by (fastforce simp: window_inv_def live_entries_def sw_append_def sorted_append)+

lemma window_inv_later: "window_inv t sw \<Longrightarrow> t \<le> t' \<Longrightarrow> window_inv t' sw"
  by (fastforce simp: window_inv_def)

section \<open>Invariant and abstraction of the limiter\<close>

text \<open>
  \<open>usage now w ck m\<close> is what the limiter has admitted or recorded under the composite key within
  the window of length \<open>w\<close> that ends at \<open>now\<close>. All windows of the limiter have length \<open>w\<close>: the
  middleware always passes \<open>time.Minute\<close>.
\<close>

definition usage :: "go_duration \<Rightarrow> go_time \<Rightarrow> string \<Rightarrow> memoryLimiter \<Rightarrow> int" where
  "usage w now ck m =
     (case windows m ck of None \<Rightarrow> 0
      | Some sw \<Rightarrow> entry_sum (entries_after (now - w) (live_entries sw)))"

definition limiter_inv :: "go_duration \<Rightarrow> go_time \<Rightarrow> memoryLimiter \<Rightarrow> bool" where
  "limiter_inv w t m \<longleftrightarrow>
     0 < w \<and> (\<forall>ck sw. windows m ck = Some sw \<longrightarrow> window_inv t sw \<and> sw_window sw = w)"

lemma limiter_inv_new: "0 < w \<Longrightarrow> limiter_inv w t newMemoryLimiter"
  by (simp add: limiter_inv_def newMemoryLimiter_def)

lemma usage_new [simp]: "usage w now ck newMemoryLimiter = 0"
  by (simp add: usage_def newMemoryLimiter_def)

lemma entries_after_after: "c \<le> d \<Longrightarrow> entries_after d (entries_after c es) = entries_after d es"
  by (auto simp: entries_after_def intro: filter_cong)

lemma usage_antimono:
  assumes "limiter_inv w t m" and "now \<le> now'"
  shows "usage w now' ck m \<le> usage w now ck m"
proof (cases "windows m ck")
  case (Some sw)
  with assms(1) have "\<forall>e \<in> set (live_entries sw). 0 < ts_count e"
    by (auto simp: limiter_inv_def window_inv_def)
  with Some assms(2) show ?thesis
    by (auto simp: usage_def entries_after_def intro: entry_sum_filter_mono)
qed (simp add: usage_def)

lemma usage_nonneg: "limiter_inv w t m \<Longrightarrow> 0 \<le> usage w now ck m"
  by (auto simp: usage_def limiter_inv_def window_inv_def entries_after_def
      intro!: entry_sum_nonneg split: option.split)

text \<open>Pruning any window, or dropping an empty one, is invisible to later readings.\<close>

lemma cleanup_spec:
  assumes "limiter_inv w t m" and "now \<le> now'"
  shows "limiter_inv w t (cleanupExpiredWindows now m)"
    and "usage w now' ck (cleanupExpiredWindows now m) = usage w now' ck m"
proof -
  show "limiter_inv w t (cleanupExpiredWindows now m)"
    using assms
    by (auto simp: limiter_inv_def cleanupExpiredWindows_def Let_def sw_window_prune [of t] window_inv_prune
        split: option.splits if_splits)
  show "usage w now' ck (cleanupExpiredWindows now m) = usage w now' ck m"
  proof (cases "windows m ck")
    case (Some sw)
    with assms(1) have inv: "window_inv t sw" "sw_window sw = w" "0 < w"
      by (auto simp: limiter_inv_def)
    let ?es = "entries_after (now - w) (live_entries sw)"
    have live: "live_entries (prune now sw) = ?es"
      using inv by (simp add: live_entries_prune)
    have z: "?es = []" if "sw_total (prune now sw) = 0"
      using that window_inv_prune [OF inv(1), of now] live
      by (auto simp: window_inv_def intro: entry_sum_zero)
    have "entries_after (now' - w) (live_entries sw) = entries_after (now' - w) ?es"
      using assms(2) by (simp add: entries_after_after)
    with z Some inv live show ?thesis
      by (auto simp: usage_def cleanupExpiredWindows_def Let_def)
  qed (simp add: usage_def cleanupExpiredWindows_def)
qed

lemma windowLocked_spec:
  assumes "limiter_inv w t m" and "windowLocked key dim w now m = (sw, m')"
  shows "limiter_inv w t m'"
    and "windows m' (compositeKey key dim) = Some sw"
    and "sw_total sw = usage w now (compositeKey key dim) m"
    and "now \<le> now' \<Longrightarrow> usage w now' ck m' = usage w now' ck m"
proof -
  let ?ck = "compositeKey key dim"
  define sw0 where "sw0 = (case windows m ?ck of Some sw \<Rightarrow> sw
    | None \<Rightarrow> \<lparr>sw_counts = [], sw_window = w, sw_head = 0, sw_total = 0\<rparr>)"
  have w: "sw_window sw0 = w" and i0: "window_inv t sw0"
    using assms(1) by (auto simp: sw0_def limiter_inv_def split: option.splits)
  have "sw0\<lparr>sw_window := w\<rparr> = sw0" using w by (cases sw0) simp
  then have sw: "sw = prune now sw0" and m': "m' = m\<lparr>windows := (windows m)(?ck \<mapsto> sw)\<rparr>"
    using assms(2) by (auto simp: windowLocked_def Let_def sw0_def)
  have live: "live_entries sw = entries_after (now - w) (live_entries sw0)"
    using i0 w sw by (simp add: live_entries_prune)
  have u0: "usage w n ?ck m = entry_sum (entries_after (n - w) (live_entries sw0))" for n
    by (auto simp: usage_def sw0_def live_entries_def entries_after_def split: option.split)
  show "limiter_inv w t m'"
    using assms(1) i0 w sw m' by (auto simp: limiter_inv_def sw_window_prune [of t] window_inv_prune)
  show "windows m' ?ck = Some sw" using m' by simp
  have "window_inv t sw" using i0 sw by (simp add: window_inv_prune)
  then show "sw_total sw = usage w now ?ck m"
    using live u0 by (simp add: window_inv_def)
  show "usage w now' ck m' = usage w now' ck m" if "now \<le> now'"
  proof (cases "ck = ?ck")
    case True
    with that m' live u0 show ?thesis by (simp add: usage_def entries_after_after)
  next
    case False
    with m' show ?thesis by (simp add: usage_def)
  qed
qed

lemma store_append_spec:
  assumes "limiter_inv w t m" and "windows m ck = Some sw" and "t \<le> now" and "0 < n"
    and "in_int64 (sw_total sw + n)"
  defines "m' \<equiv> m\<lparr>windows := (windows m)(ck \<mapsto> sw_append now n sw)\<rparr>"
  shows "limiter_inv w now m'"
    and "usage w now' ck' m' = usage w now' ck' m + (if ck' = ck \<and> now' - w < now then n else 0)"
proof -
  have i: "window_inv t sw" "sw_window sw = w" using assms(1,2) by (auto simp: limiter_inv_def)
  have ap: "window_inv now (sw_append now n sw)"
    "live_entries (sw_append now n sw) = live_entries sw @ [\<lparr>ts_time = now, ts_count = n\<rparr>]"
    using window_inv_append [OF i(1) assms(3,4,5)] by auto
  have win: "sw_window (sw_append now n sw) = w" using i by (simp add: sw_append_def)
  show "limiter_inv w now m'"
    using assms(1,3) ap(1) win by (auto simp: limiter_inv_def m'_def intro: window_inv_later)
  show "usage w now' ck' m' = usage w now' ck' m + (if ck' = ck \<and> now' - w < now then n else 0)"
    using assms(2) ap(2) by (auto simp: usage_def m'_def entries_after_def)
qed

lemma limiter_inv_later: "limiter_inv w t m \<Longrightarrow> t \<le> t' \<Longrightarrow> limiter_inv w t' m"
  by (auto simp: limiter_inv_def intro: window_inv_later)

lemma limiter_inv_ops [simp]: "limiter_inv w t (m\<lparr>operations := x\<rparr>) = limiter_inv w t m"
  "usage w now ck (m\<lparr>operations := x\<rparr>) = usage w now ck m"
  by (auto simp: limiter_inv_def usage_def)

text \<open>The state in which \<open>AllowN\<close> takes its decision, after the occasional clean-up.\<close>

lemma AllowN_spec:
  assumes inv: "limiter_inv w t m" and t: "t \<le> now" and n: "0 < n" and lim: "0 < limit"
    and rng: "in_int64 (usage w now (compositeKey key dim) m + n)"
    and eq: "AllowN now key dim n limit w m = (b, m')"
  shows "limiter_inv w now m'"
    and "b \<longleftrightarrow> usage w now (compositeKey key dim) m + n \<le> limit"
    and "now \<le> now' \<Longrightarrow> usage w now' ck m' = usage w now' ck m +
           (if b \<and> ck = compositeKey key dim \<and> now' - w < now then n else 0)"
proof -
  let ?ck = "compositeKey key dim"
  define m1 where "m1 = m\<lparr>operations := operations m + 1\<rparr>"
  define m2 where "m2 = (if operations m1 mod memoryLimiterCleanupEvery = 0
    then cleanupExpiredWindows now m1 else m1)"
  obtain sw m3 where wl: "windowLocked key dim w now m2 = (sw, m3)" by fastforce
  have i1: "limiter_inv w t m1" "\<And>s c. usage w s c m1 = usage w s c m"
    using inv by (simp_all add: m1_def)
  have i2: "limiter_inv w t m2" and u2: "\<And>s c. now \<le> s \<Longrightarrow> usage w s c m2 = usage w s c m"
    using i1 cleanup_spec [OF i1(1)] by (auto simp: m2_def)
  note ws = windowLocked_spec [OF i2 wl]
  have tot: "sw_total sw = usage w now ?ck m" using ws(3) u2 by simp
  have u3: "usage w s c m3 = usage w s c m" if "now \<le> s" for s c
    using ws(4) [OF that] u2 [OF that] by simp
  have r: "in_int64 (sw_total sw + n)" using rng tot by simp
  note app = store_append_spec [OF ws(1,2) t n r]
  have out: "(b, m') = (if wrap64 (sw_total sw + n) > limit then (False, m3)
      else (True, m3\<lparr>windows := (windows m3)(?ck \<mapsto> sw_append now n sw)\<rparr>))"
    using eq n lim wl unfolding m1_def m2_def by (simp add: AllowN_def Let_def)
  then have b: "b \<longleftrightarrow> usage w now ?ck m + n \<le> limit"
    using r tot by (auto split: if_splits)
  show "limiter_inv w now m'"
    using out ws(1) t app(1) by (auto intro: limiter_inv_later split: if_splits)
  show "b \<longleftrightarrow> usage w now ?ck m + n \<le> limit" by (rule b)
  show "usage w now' ck m' = usage w now' ck m + (if b \<and> ck = ?ck \<and> now' - w < now then n else 0)"
    if "now \<le> now'"
    using out app(2) u3 [OF that] by (auto split: if_splits)
qed

lemma Record_spec:
  assumes inv: "limiter_inv w t m" and t: "t \<le> now" and n: "0 < n"
    and rng: "in_int64 (usage w now (compositeKey key dim) m + n)"
  shows "limiter_inv w now (Record now key dim n w m)"
    and "now \<le> now' \<Longrightarrow> usage w now' ck (Record now key dim n w m) = usage w now' ck m +
           (if ck = compositeKey key dim \<and> now' - w < now then n else 0)"
proof -
  obtain sw m3 where wl: "windowLocked key dim w now m = (sw, m3)" by fastforce
  note ws = windowLocked_spec [OF inv wl]
  have "in_int64 (sw_total sw + n)" using rng ws(3) by simp
  note app = store_append_spec [OF ws(1,2) t n this]
  have eq: "Record now key dim n w m =
      m3\<lparr>windows := (windows m3)(compositeKey key dim \<mapsto> sw_append now n sw)\<rparr>"
    using n wl by (simp add: Record_def)
  show "limiter_inv w now (Record now key dim n w m)" using app(1) eq by simp
  show "usage w now' ck (Record now key dim n w m) = usage w now' ck m +
      (if ck = compositeKey key dim \<and> now' - w < now then n else 0)" if "now \<le> now'"
    using app(2) ws(4) [OF that] eq by simp
qed

section \<open>The window contract\<close>

text \<open>
  What the middleware relies on, for one fixed window length \<open>w\<close>: the decision is exact, an
  admission is charged once and expires after \<open>w\<close>, and keys do not interfere. \<open>inv t l\<close> says that
  no operation so far had a clock reading later than \<open>t\<close>.
\<close>

locale window_limiter =
  fixes allow :: "go_time \<Rightarrow> 'k \<Rightarrow> int \<Rightarrow> int \<Rightarrow> 'l \<Rightarrow> bool \<times> 'l"
    and spent :: "go_time \<Rightarrow> 'k \<Rightarrow> 'l \<Rightarrow> int"
    and inv :: "go_time \<Rightarrow> 'l \<Rightarrow> bool"
    and w :: go_duration
  assumes allow_inv: "inv t l \<Longrightarrow> t \<le> now \<Longrightarrow> 0 < n \<Longrightarrow> 0 < limit \<Longrightarrow>
        in_int64 (spent now k l + n) \<Longrightarrow> allow now k n limit l = (b, l') \<Longrightarrow> inv now l'"
    and allow_exact: "inv t l \<Longrightarrow> t \<le> now \<Longrightarrow> 0 < n \<Longrightarrow> 0 < limit \<Longrightarrow>
        in_int64 (spent now k l + n) \<Longrightarrow> allow now k n limit l = (b, l') \<Longrightarrow>
        b \<longleftrightarrow> spent now k l + n \<le> limit"
    and allow_spent: "inv t l \<Longrightarrow> t \<le> now \<Longrightarrow> 0 < n \<Longrightarrow> 0 < limit \<Longrightarrow>
        in_int64 (spent now k l + n) \<Longrightarrow> allow now k n limit l = (b, l') \<Longrightarrow> now \<le> now' \<Longrightarrow>
        spent now' k' l' = spent now' k' l + (if b \<and> k' = k \<and> now' - w < now then n else 0)"
    and spent_antimono: "inv t l \<Longrightarrow> now \<le> now' \<Longrightarrow> spent now' k l \<le> spent now k l"
    and spent_nonneg: "inv t l \<Longrightarrow> 0 \<le> spent now k l"
begin

text \<open>A run of requests \<open>(now, key, n)\<close> under per-key limits, with the admissions it made.\<close>

fun run :: "('k \<Rightarrow> int) \<Rightarrow> (go_time \<times> 'k \<times> int) list \<Rightarrow> 'l \<Rightarrow> (go_time \<times> 'k \<times> int) list \<times> 'l" where
  "run limit [] l = ([], l)"
| "run limit ((now, k, n) # rs) l =
     (let (b, l1) = allow now k n (limit k) l;
          (as, l2) = run limit rs l1
      in (if b then (now, k, n) # as else as, l2))"

text \<open>The clock readings of a run are in order, its requests positive and far from overflow.\<close>

fun well_timed :: "('k \<Rightarrow> int) \<Rightarrow> go_time \<Rightarrow> (go_time \<times> 'k \<times> int) list \<Rightarrow> bool" where
  "well_timed limit t [] \<longleftrightarrow> True"
| "well_timed limit t ((now, k, n) # rs) \<longleftrightarrow>
     t \<le> now \<and> 0 < n \<and> 0 < limit k \<and> limit k + n \<le> max_int64 \<and> well_timed limit now rs"

definition admitted_in :: "go_time \<Rightarrow> 'k \<Rightarrow> (go_time \<times> 'k \<times> int) list \<Rightarrow> int" where
  "admitted_in now' k as = sum_list (map (\<lambda>(now, k', n). if k' = k \<and> now' - w < now then n else 0) as)"

lemma allow_in_range:
  assumes "inv t l" and "spent now k l \<le> limit" and "0 < n" and "limit + n \<le> max_int64"
  shows "in_int64 (spent now k l + n)"
  using assms spent_nonneg [OF assms(1), of now k]
  by (auto simp: in_int64_def min_int64_def)

lemma run_spec:
  assumes "inv t l" and "well_timed limit t rs"
    and "\<And>k now. t \<le> now \<Longrightarrow> spent now k l \<le> limit k \<or> limit k \<le> 0"
    and "run limit rs l = (as, l')"
    and "\<forall>(now, k, n) \<in> set rs. now \<le> now'" and "t \<le> now'"
  shows "(spent now' k l' \<le> limit k \<or> limit k \<le> 0) \<and> spent now' k l' = spent now' k l + admitted_in now' k as"
  using assms
proof (induction rs arbitrary: t l as)
  case Nil
  then show ?case by (auto simp: admitted_in_def)
next
  case (Cons r rs)
  obtain now k1 n where r: "r = (now, k1, n)" by (cases r)
  obtain b l1 where al: "allow now k1 n (limit k1) l = (b, l1)" by fastforce
  obtain as' where rn: "run limit rs l1 = (as', l')" and as: "as = (if b then (now, k1, n) # as' else as')"
    using Cons.prems(4) r al by (auto split: prod.splits)
  from Cons.prems(2) r have wt: "t \<le> now" "0 < n" "0 < limit k1" "limit k1 + n \<le> max_int64"
    "well_timed limit now rs" by auto
  have "spent now k1 l \<le> limit k1" using Cons.prems(3) [OF wt(1), of k1] wt(3) by auto
  from allow_in_range [OF Cons.prems(1) this wt(2,4)]
  have rng: "in_int64 (spent now k1 l + n)" .
  note step = Cons.prems(1) wt(1-3) rng al
  have i1: "inv now l1" by (rule allow_inv [OF step])
  have sp: "spent s k l1 = spent s k l + (if b \<and> k = k1 \<and> s - w < now then n else 0)" if "now \<le> s" for s k
    by (rule allow_spent [OF step that])
  have bd: "spent s k l1 \<le> limit k \<or> limit k \<le> 0" if "now \<le> s" for s k
  proof -
    have "spent s k l \<le> spent now k l" using Cons.prems(1) that by (rule spent_antimono)
    moreover have "b \<Longrightarrow> spent now k1 l + n \<le> limit k1" using allow_exact [OF step] by simp
    moreover have "spent s k l \<le> limit k \<or> limit k \<le> 0" using Cons.prems(3) that wt(1) by simp
    ultimately show ?thesis using sp [OF that, of k] by auto
  qed
  have now': "now \<le> now'" using Cons.prems(5) r by auto
  have "(spent now' k l' \<le> limit k \<or> limit k \<le> 0) \<and> spent now' k l' = spent now' k l1 + admitted_in now' k as'"
    using Cons.IH [OF i1 wt(5) bd rn _ now'] Cons.prems(5) by auto
  with sp [OF now', of k] as show ?case by (auto simp: admitted_in_def)
qed

text \<open>From a state with nothing spent, what a key is admitted in any window stays within its limit.\<close>

lemma admitted_le_limit:
  assumes "inv t l" and "\<And>k now. spent now k l = 0" and "well_timed limit t rs"
    and "run limit rs l = (as, l')" and "\<forall>(now, k, n) \<in> set rs. now \<le> now'" and "t \<le> now'"
    and "0 < limit k"
  shows "admitted_in now' k as \<le> limit k"
proof -
  have "\<And>k now. t \<le> now \<Longrightarrow> spent now k l \<le> limit k \<or> limit k \<le> 0"
    using assms(2) by (metis linear)
  from run_spec [OF assms(1,3) this assms(4-6), of k] assms(2,7) show ?thesis by simp
qed

end

lemma compositeKey_inj:
  "d \<in> {''rpm'', ''tpm''} \<Longrightarrow> d' \<in> {''rpm'', ''tpm''} \<Longrightarrow>
   compositeKey k d = compositeKey k' d' \<longleftrightarrow> k = k' \<and> d = d'"
  by (auto simp: compositeKey_def)

text \<open>
  The provider: \<open>memoryLimiter\<close> with one-minute windows. The keys of the contract are pairs of a
  virtual key and one of the two rate dimensions, and different pairs have different windows.
\<close>

datatype dimension = RPM | TPM

fun dimension_name :: "dimension \<Rightarrow> string" where
  "dimension_name RPM = ''rpm''"
| "dimension_name TPM = ''tpm''"

lemma dimension_key_inj:
  "compositeKey k (dimension_name d) = compositeKey k' (dimension_name d') \<longleftrightarrow> k = k' \<and> d = d'"
  by (cases d; cases d') (simp_all add: compositeKey_def)

definition allow_minute :: "go_time \<Rightarrow> string \<times> dimension \<Rightarrow> int \<Rightarrow> int \<Rightarrow> memoryLimiter \<Rightarrow> bool \<times> memoryLimiter" where
  "allow_minute now kd n limit m = AllowN now (fst kd) (dimension_name (snd kd)) n limit minute m"

definition spent_minute :: "go_time \<Rightarrow> string \<times> dimension \<Rightarrow> memoryLimiter \<Rightarrow> int" where
  "spent_minute now kd m = usage minute now (compositeKey (fst kd) (dimension_name (snd kd))) m"

interpretation mem: window_limiter allow_minute spent_minute "limiter_inv minute" minute
proof (unfold_locales, goal_cases)
  case (1 t l now n limit k b l')
  then show ?case using AllowN_spec(1) by (fastforce simp: allow_minute_def spent_minute_def)
next
  case (2 t l now n limit k b l')
  then show ?case using AllowN_spec(2) by (fastforce simp: allow_minute_def spent_minute_def)
next
  case (3 t l now n limit k b l' now' k')
  have "k' = k \<longleftrightarrow> compositeKey (fst k') (dimension_name (snd k')) = compositeKey (fst k) (dimension_name (snd k))"
    by (auto simp: dimension_key_inj prod_eq_iff)
  with AllowN_spec(3) [OF 3(1-4) _ _ 3(7)] 3(5,6) show ?case
    by (simp add: allow_minute_def spent_minute_def)
next
  case (4 t l now now' k)
  then show ?case by (auto simp: spent_minute_def intro: usage_antimono)
next
  case (5 t l now k)
  then show ?case by (auto simp: spent_minute_def intro: usage_nonneg)
qed

text \<open>
  A run of requests against the limiter, with the admissions it made, and what a key was admitted
  in the minute before \<open>now'\<close>.
\<close>

type_synonym admission = "go_time \<times> (string \<times> dimension) \<times> int"

fun run_requests ::
  "(string \<times> dimension \<Rightarrow> int) \<Rightarrow> admission list \<Rightarrow> memoryLimiter \<Rightarrow> admission list \<times> memoryLimiter" where
  "run_requests limit [] m = ([], m)"
| "run_requests limit ((now, kd, n) # rs) m =
     (let (b, m1) = AllowN now (fst kd) (dimension_name (snd kd)) n (limit kd) minute m;
          (as, m2) = run_requests limit rs m1
      in (if b then (now, kd, n) # as else as, m2))"

definition admitted_within :: "go_time \<Rightarrow> string \<times> dimension \<Rightarrow> admission list \<Rightarrow> int" where
  "admitted_within now' kd as =
     sum_list (map (\<lambda>(now, kd', n). n) (filter (\<lambda>(now, kd', n). kd' = kd \<and> now' - minute < now) as))"

fun requests_in_order :: "(string \<times> dimension \<Rightarrow> int) \<Rightarrow> go_time \<Rightarrow> admission list \<Rightarrow> bool" where
  "requests_in_order limit t [] \<longleftrightarrow> True"
| "requests_in_order limit t ((now, kd, n) # rs) \<longleftrightarrow>
     t \<le> now \<and> 0 < n \<and> 0 < limit kd \<and> limit kd + n \<le> max_int64 \<and> requests_in_order limit now rs"

lemma run_requests_eq: "run_requests limit rs m = mem.run limit rs m"
proof (induction rs arbitrary: m)
  case (Cons r rs)
  obtain now kd n where "r = (now, kd, n)" by (cases r)
  with Cons show ?case by (simp add: allow_minute_def [symmetric] Let_def)
qed simp

lemma requests_in_order_eq: "requests_in_order limit t rs = mem.well_timed limit t rs"
  by (induction limit t rs rule: requests_in_order.induct) auto

lemma admitted_within_eq: "admitted_within now' kd as = mem.admitted_in now' kd as"
proof (induction as)
  case (Cons a as)
  obtain now kd' n where "a = (now, kd', n)" by (cases a)
  with Cons show ?case by (simp add: admitted_within_def mem.admitted_in_def)
qed (simp add: admitted_within_def mem.admitted_in_def)

text \<open>
  C17. Whatever sequence of requests reaches a fresh limiter (any interleaving of keys and of the
  two dimensions, in clock order), the tokens or requests admitted to a key within any one-minute
  window never exceed its limit.
\<close>

theorem admissions_never_exceed_limit:
  assumes "requests_in_order limit t rs" and "\<forall>(now, kd, n) \<in> set rs. now \<le> now'" and "t \<le> now'"
    and "0 < limit kd"
  shows "admitted_within now' kd (fst (run_requests limit rs newMemoryLimiter)) \<le> limit kd"
proof -
  obtain as m' where run: "mem.run limit rs newMemoryLimiter = (as, m')" by fastforce
  have inv: "limiter_inv minute t newMemoryLimiter"
    by (rule limiter_inv_new) (simp add: minute_def second_def)
  have "mem.admitted_in now' kd as \<le> limit kd"
    by (rule mem.admitted_le_limit [OF inv _ _ run assms(2,3,4)])
      (simp_all add: spent_minute_def assms(1) requests_in_order_eq [symmetric])
  then show ?thesis by (simp add: run_requests_eq admitted_within_eq run)
qed

theorem admissions_never_exceed_limit_witness:
  "admitted_within 5 (''vk'', RPM)
     (fst (run_requests (\<lambda>_. 2) [(1, (''vk'', RPM), 1), (2, (''vk'', RPM), 1), (3, (''vk'', RPM), 1)]
            newMemoryLimiter)) \<le> 2"
  by (rule admissions_never_exceed_limit [where t = 0]) (simp_all add: max_int64_def)

text \<open>
  The decision is exact in both directions: in a state that satisfies the invariant, with a
  monotone clock and no overflow, a request is admitted exactly when the usage of its window plus
  the request is within the limit; an admitted request is charged to its own key only, and a
  refused one changes no key's usage.
\<close>

theorem AllowN_exact:
  assumes "limiter_inv w t m" and "t \<le> now" and "0 < n" and "0 < limit" and "now \<le> now'"
    and "in_int64 (usage w now (compositeKey key dim) m + n)"
    and "AllowN now key dim n limit w m = (b, m')"
  shows "(b \<longleftrightarrow> usage w now (compositeKey key dim) m + n \<le> limit) \<and> limiter_inv w now m' \<and>
    (\<forall>ck. usage w now' ck m' = usage w now' ck m +
       (if b \<and> ck = compositeKey key dim \<and> now' - w < now then n else 0))"
  using AllowN_spec [OF assms(1-4,6,7)] assms(5) by blast

theorem AllowN_exact_witness:
  "(fst (AllowN 7 ''vk'' ''rpm'' 1 3 minute newMemoryLimiter)
      \<longleftrightarrow> usage minute 7 (compositeKey ''vk'' ''rpm'') newMemoryLimiter + 1 \<le> 3) \<and>
   limiter_inv minute 7 (snd (AllowN 7 ''vk'' ''rpm'' 1 3 minute newMemoryLimiter))"
  using AllowN_exact [where w = minute and t = 0 and now = 7 and now' = 8 and n = 1 and limit = 3
      and key = "''vk''" and dim = "''rpm''" and m = newMemoryLimiter]
    limiter_inv_new [of minute 0]
  by (cases "AllowN 7 ''vk'' ''rpm'' 1 3 minute newMemoryLimiter")
    (auto simp: minute_def second_def int64_defs)

section \<open>Concurrency: invariant and reachability\<close>

definition open_leases :: "(lease \<Rightarrow> bool) \<Rightarrow> memoryLimiter \<Rightarrow> nat" where
  "open_leases P m = length (filter (\<lambda>l. P l \<and> \<not> ls_released l) (leases m))"

abbreviation in_flight :: "string \<Rightarrow> memoryLimiter \<Rightarrow> nat" where
  "in_flight key m \<equiv> open_leases (\<lambda>l. ls_key l = key) m"

abbreviation held :: "nat \<Rightarrow> memoryLimiter \<Rightarrow> nat" where
  "held ct m \<equiv> open_leases (\<lambda>l. ls_tracker l = ct) m"

text \<open>
  A tracker counts the leases open on it; a key's tracker stays in the map exactly while a lease of
  the key is open, so the map never leaks a key and a closure never updates a stale tracker.
\<close>

definition conc_inv :: "memoryLimiter \<Rightarrow> bool" where
  "conc_inv m \<longleftrightarrow>
     (\<forall>ct < length (trackers m). trackers m ! ct = int (held ct m)) \<and>
     (\<forall>l \<in> set (leases m). ls_tracker l < length (trackers m)) \<and>
     (\<forall>l \<in> set (leases m). \<not> ls_released l \<longrightarrow> conc m (ls_key l) = Some (ls_tracker l)) \<and>
     (\<forall>key ct. conc m key = Some ct \<longrightarrow> ct < length (trackers m) \<and> 0 < held ct m) \<and>
     (\<forall>key key' ct. conc m key = Some ct \<and> conc m key' = Some ct \<longrightarrow> key = key')"

lemma conc_inv_new: "conc_inv newMemoryLimiter"
  by (simp add: conc_inv_def newMemoryLimiter_def)

lemma open_leases_cong:
  "(\<And>l. l \<in> set (leases m) \<Longrightarrow> \<not> ls_released l \<Longrightarrow> P l = Q l) \<Longrightarrow> open_leases P m = open_leases Q m"
  unfolding open_leases_def by (rule arg_cong [where f = length], rule filter_cong) auto

lemma open_leases_zero: "open_leases P m = 0 \<longleftrightarrow> (\<forall>l \<in> set (leases m). P l \<longrightarrow> ls_released l)"
  by (auto simp: open_leases_def filter_empty_conv)

lemma in_flight_eq:
  assumes "conc_inv m"
  shows "in_flight key m = (case conc m key of None \<Rightarrow> 0 | Some ct \<Rightarrow> held ct m)"
proof (cases "conc m key")
  case None
  with assms show ?thesis by (force simp: open_leases_zero conc_inv_def)
next
  case (Some ct)
  with assms have "open_leases (\<lambda>l. ls_key l = key) m = open_leases (\<lambda>l. ls_tracker l = ct) m"
    by (intro open_leases_cong) (force simp: conc_inv_def)
  with Some show ?thesis by simp
qed

text \<open>The counter that decides admissions: the current count of the tracker registered for a key.\<close>

definition slots_in_use :: "string \<Rightarrow> memoryLimiter \<Rightarrow> int" where
  "slots_in_use key m = (case conc m key of None \<Rightarrow> 0 | Some ct \<Rightarrow> trackers m ! ct)"

lemma slots_in_use_eq: "conc_inv m \<Longrightarrow> slots_in_use key m = int (in_flight key m)"
  by (auto simp: slots_in_use_def in_flight_eq conc_inv_def split: option.split)

lemma length_filter_update:
  assumes "i < length xs"
  shows "length (filter Q (xs[i := y])) + (if Q (xs ! i) then 1 else 0) =
         length (filter Q xs) + (if Q y then 1 else 0)"
proof -
  have "filter Q xs = filter Q (take i xs) @ filter Q (xs ! i # drop (Suc i) xs)"
    using assms by (metis id_take_nth_drop filter_append)
  moreover have "filter Q (xs[i := y]) = filter Q (take i xs) @ filter Q (y # drop (Suc i) xs)"
    using assms by (metis upd_conv_take_nth_drop filter_append)
  ultimately show ?thesis by simp
qed

lemma AcquireConcurrency_spec:
  assumes inv: "conc_inv m" and pos: "0 < maxConc"
    and eq: "AcquireConcurrency key maxConc m = (r, m')"
  shows "conc_inv m'"
    and "(r \<noteq> NotAcquired) \<longleftrightarrow> int (in_flight key m) < maxConc"
    and "in_flight k m' = in_flight k m + (if r \<noteq> NotAcquired \<and> k = key then 1 else 0)"
proof -
  define ct m1 where "ct = (case conc m key of Some ct \<Rightarrow> ct | None \<Rightarrow> length (trackers m))"
    and "m1 = (case conc m key of Some ct \<Rightarrow> m
      | None \<Rightarrow> m\<lparr>trackers := trackers m @ [0], conc := (conc m)(key \<mapsto> length (trackers m))\<rparr>)"
  have ls: "leases m1 = leases m" by (simp add: m1_def split: option.split)
  have ol: "open_leases P m1 = open_leases P m" for P by (simp add: open_leases_def ls)
  have ctlt: "ct < length (trackers m1)" and cc: "conc m1 key = Some ct"
    using inv by (auto simp: ct_def m1_def conc_inv_def split: option.split)
  have fresh: "held (length (trackers m)) m = 0"
    using inv by (auto simp: conc_inv_def open_leases_zero)
  have tr: "\<forall>c < length (trackers m1). trackers m1 ! c = int (held c m)"
    using inv fresh by (auto simp: m1_def conc_inv_def nth_append less_Suc_eq split: option.split)
  have hk: "held ct m = in_flight key m"
    using in_flight_eq [OF inv, of key] fresh by (auto simp: ct_def split: option.splits)
  have out: "(r, m') = (if maxConc \<le> trackers m1 ! ct then (NotAcquired, m1)
      else (Leased (length (leases m1)),
            m1\<lparr>trackers := (trackers m1)[ct := trackers m1 ! ct + 1],
               leases := leases m1 @ [\<lparr>ls_key = key, ls_tracker = ct, ls_released = False\<rparr>]\<rparr>))"
    using eq pos by (auto simp: AcquireConcurrency_def Let_def ct_def m1_def split: option.splits)
  have r: "r \<noteq> NotAcquired \<longleftrightarrow> int (in_flight key m) < maxConc"
    using out tr ctlt hk by (auto split: if_splits)
  then show "(r \<noteq> NotAcquired) \<longleftrightarrow> int (in_flight key m) < maxConc" .
  show "in_flight k m' = in_flight k m + (if r \<noteq> NotAcquired \<and> k = key then 1 else 0)"
    using out ls by (auto simp: open_leases_def split: if_splits)
  show "conc_inv m'"
  proof (cases "r = NotAcquired")
    case True
    have "conc m key \<noteq> None"
      using True r pos in_flight_eq [OF inv, of key] by (auto split: option.splits)
    with True out inv show ?thesis by (auto simp: m1_def split: if_splits)
  next
    case False
    with out have m': "m' = m1\<lparr>trackers := (trackers m1)[ct := trackers m1 ! ct + 1],
        leases := leases m1 @ [\<lparr>ls_key = key, ls_tracker = ct, ls_released = False\<rparr>]\<rparr>"
      by (auto split: if_splits)
    have op: "open_leases P m' = open_leases P m +
        (if P \<lparr>ls_key = key, ls_tracker = ct, ls_released = False\<rparr> then 1 else 0)" for P
      by (simp add: open_leases_def m' ls)
    have len: "length (trackers m) \<le> length (trackers m1)" by (simp add: m1_def split: option.split)
    have co: "conc m1 = (conc m)(key \<mapsto> ct)"
      by (auto simp: m1_def ct_def split: option.split)
    have old: "k = key" if "conc m k = Some ct" for k
      using that inv by (auto simp: conc_inv_def ct_def split: option.splits)
    have lk: "conc m1 (ls_key l) = Some (ls_tracker l) \<and> ls_tracker l < length (trackers m1)"
      if "l \<in> set (leases m)" "\<not> ls_released l" for l
      using that inv len by (fastforce simp: conc_inv_def m1_def split: option.split)
    have cl: "c < length (trackers m1)" if "conc m k = Some c" for k c
      using that inv len by (fastforce simp: conc_inv_def)
    show ?thesis
      unfolding conc_inv_def op
      using inv tr ctlt cc ls len old lk cl by (auto simp: m' co conc_inv_def nth_list_update)
  qed
qed

text \<open>What \<open>release\<close> does to an open lease \<open>l\<close> on the tracker \<open>ct\<close> of its key.\<close>

lemma release_open:
  assumes inv: "conc_inv m" and i: "i < length (leases m)" "\<not> ls_released (leases m ! i)"
  defines "l \<equiv> leases m ! i" and "ct \<equiv> ls_tracker (leases m ! i)"
  shows "leases (release i m) = (leases m)[i := l\<lparr>ls_released := True\<rparr>]"
    and "trackers (release i m) = (trackers m)[ct := trackers m ! ct - 1]"
    and "conc (release i m) = (if held ct m = 1 then (conc m)(ls_key l := None) else conc m)"
    and "held c (release i m) = held c m - (if c = ct then 1 else 0)"
    and "conc m (ls_key l) = Some ct" and "trackers m ! ct = int (held ct m)" and "0 < held ct m"
proof -
  have "l \<in> set (leases m)" "\<not> ls_released l" using i by (auto simp: l_def)
  then have ck: "conc m (ls_key l) = Some ct" and tr: "trackers m ! ct = int (held ct m)"
    using inv by (auto simp: conc_inv_def ct_def l_def)
  then show "conc m (ls_key l) = Some ct" "trackers m ! ct = int (held ct m)" "0 < held ct m"
    using inv by (auto simp: conc_inv_def)
  show "leases (release i m) = (leases m)[i := l\<lparr>ls_released := True\<rparr>]"
    "trackers (release i m) = (trackers m)[ct := trackers m ! ct - 1]"
    using i by (simp_all add: release_def Let_def l_def ct_def)
  show "conc (release i m) = (if held ct m = 1 then (conc m)(ls_key l := None) else conc m)"
    using i ck tr by (auto simp: release_def Let_def l_def ct_def)
  show "held c (release i m) = held c m - (if c = ct then 1 else 0)"
    using length_filter_update [of i "leases m" "\<lambda>l. ls_tracker l = c \<and> \<not> ls_released l"
        "l\<lparr>ls_released := True\<rparr>"] i
    by (auto simp: open_leases_def release_def Let_def l_def ct_def split: if_splits)
qed

text \<open>When the last lease of a tracker closes, no other lease of its key is open.\<close>

lemma release_last:
  assumes inv: "conc_inv m" and i: "i < length (leases m)" "\<not> ls_released (leases m ! i)"
    and last: "held (ls_tracker (leases m ! i)) m = 1"
    and l': "l' \<in> set (leases (release i m))" "ls_key l' = ls_key (leases m ! i)"
  shows "ls_released l'"
proof (rule ccontr)
  let ?ct = "ls_tracker (leases m ! i)"
  note ro = release_open [OF inv i]
  assume nr: "\<not> ls_released l'"
  with l'(1) have "l' \<in> set (leases m)"
    unfolding ro(1) using set_update_subset_insert by fastforce
  with nr inv l'(2) ro(5) have "ls_tracker l' = ?ct" by (auto simp: conc_inv_def)
  moreover have "held ?ct (release i m) = 0" using ro(4) last by simp
  ultimately show False using nr l'(1) by (auto simp: open_leases_zero)
qed

lemma conc_inv_release:
  assumes inv: "conc_inv m"
  shows "conc_inv (release i m)"
proof (cases "i < length (leases m) \<and> \<not> ls_released (leases m ! i)")
  case False
  then have "release i m = m" by (simp only: release_def if_False)
  with inv show ?thesis by simp
next
  case True
  then have i: "i < length (leases m)" "\<not> ls_released (leases m ! i)" by auto
  let ?l = "leases m ! i" and ?m = "release i m"
  note ro = release_open [OF inv i]
  have sub: "l' \<in> set (leases m) \<or> l' = ?l\<lparr>ls_released := True\<rparr>" if "l' \<in> set (leases ?m)" for l'
    using that set_update_subset_insert unfolding ro(1) by fastforce
  have inj: "k = ls_key ?l" if "conc m k = Some (ls_tracker ?l)" for k
    using that ro(5) inv by (auto simp: conc_inv_def)
  have "\<forall>c < length (trackers ?m). trackers ?m ! c = int (held c ?m)"
    using inv ro(6,7) by (auto simp: conc_inv_def ro(2,4) nth_list_update of_nat_diff)
  moreover have "\<forall>l' \<in> set (leases ?m). ls_tracker l' < length (trackers ?m)"
    using inv i by (auto simp: conc_inv_def ro(2) dest!: sub)
  moreover have "conc ?m (ls_key l') = Some (ls_tracker l')"
    if "l' \<in> set (leases ?m)" "\<not> ls_released l'" for l'
  proof -
    have "l' \<in> set (leases m)" using sub [OF that(1)] that(2) by auto
    then have c: "conc m (ls_key l') = Some (ls_tracker l')" using inv that(2) by (auto simp: conc_inv_def)
    have "ls_key l' \<noteq> ls_key ?l" if "held (ls_tracker ?l) m = 1"
      using release_last [OF inv i that] \<open>l' \<in> set (leases ?m)\<close> \<open>\<not> ls_released l'\<close> by blast
    with c show ?thesis by (auto simp: ro(3))
  qed
  moreover have "c < length (trackers ?m) \<and> 0 < held c ?m" if "conc ?m k = Some c" for k c
  proof -
    have k: "conc m k = Some c" and ne: "held (ls_tracker ?l) m = 1 \<Longrightarrow> k \<noteq> ls_key ?l"
      using that by (auto simp: ro(3) split: if_splits)
    have "c < length (trackers m)" "0 < held c m" using k inv by (auto simp: conc_inv_def)
    moreover have "held c m \<noteq> 1" if "c = ls_tracker ?l" using that ne inj k by auto
    ultimately show ?thesis by (auto simp: ro(2,4))
  qed
  moreover have "\<forall>k k' c. conc ?m k = Some c \<and> conc ?m k' = Some c \<longrightarrow> k = k'"
    using inv by (auto simp: conc_inv_def ro(3))
  ultimately show ?thesis unfolding conc_inv_def by blast
qed

lemma in_flight_release:
  "in_flight k (release i m) = in_flight k m -
     (if i < length (leases m) \<and> \<not> ls_released (leases m ! i) \<and> ls_key (leases m ! i) = k then 1 else 0)"
  using length_filter_update [of i "leases m" "\<lambda>l. ls_key l = k \<and> \<not> ls_released l"
      "(leases m ! i)\<lparr>ls_released := True\<rparr>"]
  by (auto simp: open_leases_def release_def Let_def split: if_splits)

text \<open>
  Concurrent requests as interleavings of the limiter's operations: every request may ask for a
  slot of its key, close one of its leases (also twice), or use the windows. \<open>maxConc\<close> is the
  effective limit of each key.
\<close>

inductive limiter_step :: "(string \<Rightarrow> int) \<Rightarrow> memoryLimiter \<Rightarrow> memoryLimiter \<Rightarrow> bool"
  for maxConc :: "string \<Rightarrow> int" where
  acquire: "AcquireConcurrency key (maxConc key) m = (r, m') \<Longrightarrow> limiter_step maxConc m m'"
| close: "limiter_step maxConc m (release i m)"
| allow: "AllowN now key dim n limit window m = (b, m') \<Longrightarrow> limiter_step maxConc m m'"
| record_usage: "limiter_step maxConc m (Record now key dim n window m)"

inductive reachable_limiter :: "(string \<Rightarrow> int) \<Rightarrow> memoryLimiter \<Rightarrow> bool"
  for maxConc :: "string \<Rightarrow> int" where
  init: "reachable_limiter maxConc newMemoryLimiter"
| step: "reachable_limiter maxConc m \<Longrightarrow> limiter_step maxConc m m' \<Longrightarrow> reachable_limiter maxConc m'"

lemma window_ops_frame:
  "AllowN now key dim n limit window m = (b, m') \<Longrightarrow>
     conc m' = conc m \<and> trackers m' = trackers m \<and> leases m' = leases m"
  "conc (Record now key dim n window m) = conc m"
  "trackers (Record now key dim n window m) = trackers m"
  "leases (Record now key dim n window m) = leases m"
  by (auto simp: AllowN_def Record_def windowLocked_def cleanupExpiredWindows_def Let_def
      split: if_splits prod.splits)

lemma conc_inv_frame:
  "conc m' = conc m \<Longrightarrow> trackers m' = trackers m \<Longrightarrow> leases m' = leases m \<Longrightarrow>
     conc_inv m' = conc_inv m \<and> open_leases P m' = open_leases P m"
  by (simp add: conc_inv_def open_leases_def)

lemma reachable_concurrency:
  assumes "reachable_limiter maxConc m"
  shows "conc_inv m \<and> (\<forall>key. 0 < maxConc key \<longrightarrow> int (in_flight key m) \<le> maxConc key)"
  using assms
proof (induction rule: reachable_limiter.induct)
  case init
  show ?case using conc_inv_new by (auto simp: open_leases_def newMemoryLimiter_def)
next
  case (step m m')
  from step.hyps(2) step.IH show ?case
  proof (cases rule: limiter_step.cases)
    case (acquire key r)
    show ?thesis
    proof (cases "0 < maxConc key")
      case True
      with step.IH AcquireConcurrency_spec [OF _ True acquire] show ?thesis by fastforce
    next
      case False
      then have "m' = m" using acquire by (simp add: AcquireConcurrency_def)
      with step.IH show ?thesis by simp
    qed
  next
    case (close i)
    with step.IH show ?thesis by (fastforce simp: conc_inv_release in_flight_release)
  next
    case (allow now key dim n limit window b)
    with step.IH show ?thesis using window_ops_frame(1) [OF allow] conc_inv_frame [of m' m] by metis
  next
    case (record_usage now key dim n window)
    with step.IH show ?thesis using window_ops_frame(2-4) conc_inv_frame by metis
  qed
qed

text \<open>
  C18. In every reachable state of the limiter, under any interleaving of requests, the counter that
  decides the admissions of a key equals the number of its leases that are not yet released and is at
  most its concurrency limit, and the limiter keeps no tracker for a key without open leases.
\<close>

theorem concurrency_bounded:
  assumes "reachable_limiter maxConc m" and "0 < maxConc key"
  shows "slots_in_use key m = int (in_flight key m) \<and> slots_in_use key m \<le> maxConc key \<and> (in_flight key m = 0 \<longrightarrow> conc m key = None)"
proof -
  have inv: "conc_inv m" and "int (in_flight key m) \<le> maxConc key"
    using reachable_concurrency [OF assms(1)] assms(2) by auto
  moreover have "conc m key = None" if "in_flight key m = 0"
    using that in_flight_eq [OF inv, of key] inv by (force simp: conc_inv_def split: option.splits)
  ultimately show ?thesis using slots_in_use_eq [OF inv, of key] by simp
qed

theorem concurrency_bounded_witness:
  "let m = snd (AcquireConcurrency ''vk'' 2 newMemoryLimiter)
   in slots_in_use ''vk'' m = int (in_flight ''vk'' m) \<and> slots_in_use ''vk'' m = 1 \<and> slots_in_use ''vk'' m \<le> 2"
proof -
  have "reachable_limiter (\<lambda>_. 2) (snd (AcquireConcurrency ''vk'' 2 newMemoryLimiter))"
    by (rule reachable_limiter.step [OF reachable_limiter.init])
      (rule limiter_step.acquire, rule prod.collapse [symmetric])
  moreover have "slots_in_use ''vk'' (snd (AcquireConcurrency ''vk'' 2 newMemoryLimiter)) = 1"
    by (simp add: slots_in_use_def AcquireConcurrency_def newMemoryLimiter_def)
  ultimately show ?thesis using concurrency_bounded [of "\<lambda>_. 2" _ "''vk''"] by (simp add: Let_def)
qed

text \<open>
  Releasing is exact and idempotent: in a state that satisfies the invariant, the first call of
  a \<open>release\<close> closure gives back one slot of its own key and of no other key, and every further
  call changes nothing.
\<close>

theorem release_once:
  assumes "conc_inv m" and "i < length (leases m)" and "\<not> ls_released (leases m ! i)"
  shows "in_flight (ls_key (leases m ! i)) (release i m) + 1 = in_flight (ls_key (leases m ! i)) m \<and>
    (\<forall>key. key \<noteq> ls_key (leases m ! i) \<longrightarrow> in_flight key (release i m) = in_flight key m) \<and>
    release i (release i m) = release i m \<and> conc_inv (release i m)"
proof -
  let ?l = "leases m ! i"
  have "0 < in_flight (ls_key ?l) m"
    using assms(3) nth_mem [OF assms(2)] by (auto simp: open_leases_def filter_empty_conv)
  moreover have "release i (release i m) = release i m"
    using assms(2,3) by (simp add: release_def [of i "release i m"] release_open(1) [OF assms])
  ultimately show ?thesis using assms conc_inv_release by (auto simp: in_flight_release)
qed

theorem release_once_witness:
  "let m = snd (AcquireConcurrency ''vk'' 2 newMemoryLimiter) in
     in_flight ''vk'' (release 0 m) + 1 = in_flight ''vk'' m \<and> release 0 (release 0 m) = release 0 m"
proof -
  let ?m = "snd (AcquireConcurrency ''vk'' 2 newMemoryLimiter)"
  have "conc_inv ?m"
    by (rule AcquireConcurrency_spec(1) [OF conc_inv_new _ prod.collapse [symmetric]]) simp
  moreover have "leases ?m = [\<lparr>ls_key = ''vk'', ls_tracker = 0, ls_released = False\<rparr>]"
    by (simp add: AcquireConcurrency_def newMemoryLimiter_def)
  ultimately show ?thesis using release_once [of ?m 0] by (simp add: Let_def)
qed

text \<open>
  A key's claim can tighten the deployment default but never widen it; the effective limit is
  unlimited only when neither is set.
\<close>

lemma effectivePolicyLimit_min:
  "0 < d \<Longrightarrow> effectivePolicyLimit d k = (if 0 < k then min d k else d)"
  "effectivePolicyLimit d k \<le> 0 \<longleftrightarrow> d \<le> 0 \<and> k \<le> 0"
  by (auto simp: effectivePolicyLimit_def)

text \<open>The estimate is the ceiling of the body length over four, and at least one token.\<close>

lemma estimateTokensFromBody_bounds:
  "1 \<le> estimateTokensFromBody body \<and> length body \<le> 4 * estimateTokensFromBody body \<and>
   4 * (estimateTokensFromBody body - 1) \<le> length body"
  by (auto simp: estimateTokensFromBody_def CharsPerTokenEstimate_def MinEstimatedTokens_def Let_def)

end
