(* ===== verification/Quota_Budget.thy ===== *)
theory Quota_Budget
  imports Float64
begin

text \<open>
  The budget manager of \<open>internal/quota/quota.go\<close>: the pricing table, the cost of a request, the
  in-memory usage store and the check that runs before a request leaves the gateway. Amounts are
  \<open>float64\<close> values; every operation is rounded on its own. Pointers into the usage map are
  resolved, so an update of a usage record is an update of the map.
\<close>

section \<open>Pricing\<close>

datatype quota_error = ErrBudgetExhausted | ErrKeyNotFound | ErrUnknownModelPricing

record ModelPricing =
  mp_Model :: string
  InputPerMillion :: float64
  OutputPerMillion :: float64

type_synonym PricingTable = "string \<rightharpoonup> ModelPricing"

definition TokensPerMillion :: rat where "TokensPerMillion = 1000000"

text \<open>A price literal in cents is the nearest \<open>float64\<close>.\<close>

definition price :: "string \<Rightarrow> int \<Rightarrow> int \<Rightarrow> ModelPricing" where
  "price model input_cents output_cents =
     \<lparr>mp_Model = model, InputPerMillion = float_of_rat (of_int input_cents / 100),
      OutputPerMillion = float_of_rat (of_int output_cents / 100)\<rparr>"

definition default_prices :: "ModelPricing list" where
  "default_prices =
     [price ''gpt-4o'' 250 1000, price ''gpt-4o-mini'' 15 60, price ''gpt-4.1'' 200 800,
      price ''claude-sonnet-4-20250514'' 300 1500, price ''claude-haiku-3-5'' 80 400,
      price ''gemini-2.5-pro'' 125 1000, price ''gemini-2.5-flash'' 15 60,
      price ''deepseek-v3'' 27 110, price ''deepseek-r1'' 55 219]"

definition pt_Set :: "ModelPricing \<Rightarrow> PricingTable \<Rightarrow> PricingTable" where
  "pt_Set p pt = pt(mp_Model p \<mapsto> p)"

definition NewPricingTable :: PricingTable where
  "NewPricingTable = fold pt_Set default_prices Map.empty"

definition CalculateCost :: "PricingTable \<Rightarrow> string \<Rightarrow> int \<Rightarrow> int \<Rightarrow> quota_error + float64" where
  "CalculateCost pt model inputTokens outputTokens =
     (case pt model of
        None \<Rightarrow> Inl ErrUnknownModelPricing
      | Some pricing \<Rightarrow>
          let inputCost = f_mul (f_div_const (float_of_int inputTokens) TokensPerMillion) (InputPerMillion pricing);
              outputCost = f_mul (f_div_const (float_of_int outputTokens) TokensPerMillion) (OutputPerMillion pricing)
          in Inr (f_add inputCost outputCost))"

fun RequireModels :: "PricingTable \<Rightarrow> string list \<Rightarrow> quota_error option" where
  "RequireModels pt [] = None"
| "RequireModels pt (model # models) =
     (if pt model = None then Some ErrUnknownModelPricing else RequireModels pt models)"

section \<open>The usage store\<close>

record Usage =
  u_KeyID :: string
  PeriodStart :: go_time
  TotalCostUSD :: float64
  TotalTokens :: int
  RequestCount :: int

record UsageEntry =
  ue_Timestamp :: go_time
  ue_Model :: string
  ue_Provider :: string
  ue_InputTokens :: int
  ue_OutputTokens :: int
  ue_CostUSD :: float64

record MemoryStore =
  budgets :: "string \<rightharpoonup> float64"
  usage :: "string \<rightharpoonup> Usage"

definition NewMemoryStore :: MemoryStore where
  "NewMemoryStore = \<lparr>budgets = Map.empty, usage = Map.empty\<rparr>"

definition new_usage :: "go_time \<Rightarrow> string \<Rightarrow> Usage" where
  "new_usage now keyID =
     \<lparr>u_KeyID = keyID, PeriodStart = now, TotalCostUSD = f_zero, TotalTokens = 0, RequestCount = 0\<rparr>"

definition GetUsage :: "go_time \<Rightarrow> string \<Rightarrow> MemoryStore \<Rightarrow> Usage" where
  "GetUsage now keyID s = (case usage s keyID of None \<Rightarrow> new_usage now keyID | Some u \<Rightarrow> u)"

definition RecordUsage :: "go_time \<Rightarrow> string \<Rightarrow> UsageEntry \<Rightarrow> MemoryStore \<Rightarrow> MemoryStore" where
  "RecordUsage now keyID entry s =
     (let u = (case usage s keyID of None \<Rightarrow> new_usage now keyID | Some u \<Rightarrow> u);
          u' = u\<lparr>TotalCostUSD := f_add (TotalCostUSD u) (ue_CostUSD entry),
                 TotalTokens := wrap64 (TotalTokens u + wrap64 (ue_InputTokens entry + ue_OutputTokens entry)),
                 RequestCount := wrap64 (RequestCount u + 1)\<rparr>
      in s\<lparr>usage := (usage s)(keyID \<mapsto> u')\<rparr>)"

definition GetBudget :: "string \<Rightarrow> MemoryStore \<Rightarrow> float64" where
  "GetBudget keyID s = (case budgets s keyID of None \<Rightarrow> f_zero | Some b \<Rightarrow> b)"

definition SetBudget :: "string \<Rightarrow> float64 \<Rightarrow> MemoryStore \<Rightarrow> MemoryStore" where
  "SetBudget keyID budgetUSD s = s\<lparr>budgets := (budgets s)(keyID \<mapsto> budgetUSD)\<rparr>"

section \<open>The manager\<close>

record Manager =
  store :: MemoryStore
  pricing :: PricingTable
  defaultBudget :: float64

definition NewManager :: "MemoryStore \<Rightarrow> float64 \<Rightarrow> Manager" where
  "NewManager s b = \<lparr>store = s, pricing = NewPricingTable, defaultBudget = b\<rparr>"

definition effectiveBudget :: "string \<Rightarrow> float64 \<Rightarrow> Manager \<Rightarrow> float64" where
  "effectiveBudget keyID keyBudget m =
     (if f_less f_zero keyBudget then keyBudget
      else let stored = GetBudget keyID (store m)
           in if f_less f_zero stored then stored else defaultBudget m)"

definition CheckBudget :: "go_time \<Rightarrow> string \<Rightarrow> float64 \<Rightarrow> Manager \<Rightarrow> quota_error option" where
  "CheckBudget now keyID keyBudget m =
     (let budget = effectiveBudget keyID keyBudget m
      in if f_le budget f_zero then None
         else if f_le budget (TotalCostUSD (GetUsage now keyID (store m))) then Some ErrBudgetExhausted
         else None)"

definition RecordRequest ::
  "go_time \<Rightarrow> string \<Rightarrow> string \<Rightarrow> string \<Rightarrow> int \<Rightarrow> int \<Rightarrow> Manager \<Rightarrow> quota_error option \<times> Manager" where
  "RecordRequest now keyID model provider inputTokens outputTokens m =
     (case CalculateCost (pricing m) model inputTokens outputTokens of
        Inl err \<Rightarrow> (Some err, m)
      | Inr cost \<Rightarrow>
          let entry = \<lparr>ue_Timestamp = now, ue_Model = model, ue_Provider = provider,
                       ue_InputTokens = inputTokens, ue_OutputTokens = outputTokens, ue_CostUSD = cost\<rparr>
          in (None, m\<lparr>store := RecordUsage now keyID entry (store m)\<rparr>))"

definition UsageOf :: "go_time \<Rightarrow> string \<Rightarrow> Manager \<Rightarrow> Usage" where
  "UsageOf now keyID m = GetUsage now keyID (store m)"

section \<open>The contract of a usage store\<close>

text \<open>
  What the manager relies on: a charge is added to the cost of its own key and to no other, the
  budgets are not touched, and with non-negative charges the costs stay non-negative values.
\<close>

locale quota_store =
  fixes cost_of :: "string \<Rightarrow> 's \<Rightarrow> float64"
    and charge :: "go_time \<Rightarrow> string \<Rightarrow> UsageEntry \<Rightarrow> 's \<Rightarrow> 's"
    and budget_of :: "string \<Rightarrow> 's \<Rightarrow> float64"
    and inv :: "'s \<Rightarrow> bool"
  assumes cost_charge: "cost_of k (charge now k' e s) =
      (if k' = k then f_add (cost_of k s) (ue_CostUSD e) else cost_of k s)"
    and budget_charge: "budget_of k (charge now k' e s) = budget_of k s"
    and inv_charge: "inv s \<Longrightarrow> f_le f_zero (ue_CostUSD e) \<Longrightarrow> inv (charge now k e s)"
    and inv_cost: "inv s \<Longrightarrow> f_valid (cost_of k s) \<and> f_le f_zero (cost_of k s)"
begin

fun charges :: "(go_time \<times> string \<times> UsageEntry) list \<Rightarrow> 's \<Rightarrow> 's" where
  "charges [] s = s"
| "charges ((now, k, e) # es) s = charges es (charge now k e s)"

lemma charge_increases:
  assumes "inv s" and "f_le f_zero (ue_CostUSD e)"
  shows "f_le (cost_of k s) (cost_of k (charge now k' e s))"
proof (cases "k' = k")
  case True
  with assms inv_cost [of s k] show ?thesis by (auto simp: cost_charge intro: f_add_increases)
next
  case False
  have "cost_of k s \<noteq> NaN" using inv_cost [OF assms(1), of k] by auto
  with False show ?thesis by (auto simp: cost_charge intro: f_le_refl)
qed

lemma charges_increase:
  assumes "inv s" and "\<forall>(now, k, e) \<in> set es. f_le f_zero (ue_CostUSD e)"
  shows "f_le (cost_of k s) (cost_of k (charges es s)) \<and> inv (charges es s)"
  using assms
proof (induction es arbitrary: s)
  case Nil
  then have "cost_of k s \<noteq> NaN" using inv_cost [of s k] by auto
  with Nil show ?case by (simp add: f_le_refl)
next
  case (Cons a es)
  obtain now k' e where a: "a = (now, k', e)" by (cases a)
  with Cons.prems have e: "f_le f_zero (ue_CostUSD e)" by simp
  from Cons.IH [of "charge now k' e s"] inv_charge [OF Cons.prems(1) e] Cons.prems(2) a
    charge_increases [OF Cons.prems(1) e] f_le_trans
  show ?case by auto blast
qed

lemma charges_budget: "budget_of k (charges es s) = budget_of k s"
  by (induction es s rule: charges.induct) (simp_all add: budget_charge)

end

definition store_inv :: "MemoryStore \<Rightarrow> bool" where
  "store_inv s \<longleftrightarrow> (\<forall>k u. usage s k = Some u \<longrightarrow> f_valid (TotalCostUSD u) \<and> f_le f_zero (TotalCostUSD u))"

definition store_cost :: "string \<Rightarrow> MemoryStore \<Rightarrow> float64" where
  "store_cost k s = TotalCostUSD (GetUsage 0 k s)"

lemma GetUsage_cost [simp]: "TotalCostUSD (GetUsage now k s) = store_cost k s"
  by (simp add: store_cost_def GetUsage_def new_usage_def split: option.split)

interpretation mstore: quota_store store_cost RecordUsage GetBudget store_inv
proof unfold_locales
  fix k k' now and e :: UsageEntry and s :: MemoryStore
  show "store_cost k (RecordUsage now k' e s) =
      (if k' = k then f_add (store_cost k s) (ue_CostUSD e) else store_cost k s)"
    by (simp add: store_cost_def GetUsage_def RecordUsage_def Let_def new_usage_def split: option.split)
  show "GetBudget k (RecordUsage now k' e s) = GetBudget k s"
    by (simp add: GetBudget_def RecordUsage_def Let_def)
next
  fix s now k and e :: UsageEntry
  assume "store_inv s" and "f_le f_zero (ue_CostUSD e)"
  then show "store_inv (RecordUsage now k e s)"
    by (auto simp: store_inv_def RecordUsage_def Let_def new_usage_def f_nonneg_add split: option.splits)
next
  fix s k
  assume "store_inv s"
  then show "f_valid (store_cost k s) \<and> f_le f_zero (store_cost k s)"
    by (auto simp: store_inv_def store_cost_def GetUsage_def new_usage_def split: option.split)
qed

lemma store_inv_new: "store_inv NewMemoryStore"
  by (simp add: store_inv_def NewMemoryStore_def)

section \<open>Cost of a request\<close>

definition finite_price :: "ModelPricing \<Rightarrow> bool" where
  "finite_price p \<longleftrightarrow>
     (\<exists>a b. InputPerMillion p = Fin a \<and> 0 \<le> a \<and> OutputPerMillion p = Fin b \<and> 0 \<le> b)"

definition prices_ok :: "PricingTable \<Rightarrow> bool" where
  "prices_ok pt \<longleftrightarrow> (\<forall>m p. pt m = Some p \<longrightarrow> finite_price p)"

text \<open>A count of tokens and a finite price give the amount \<open>n / 10^6 * p\<close>, rounded twice.\<close>

lemma token_amount_finite:
  assumes "0 \<le> n" and "in_int64 n"
  obtains x where "f_div_const (float_of_int n) TokensPerMillion = Fin x"
    and "x = round_rat (round_rat (of_int n) / 1000000)" and "0 \<le> x"
proof -
  have "round_rat (of_int n) \<le> round_rat (of_int (2 ^ 63))"
    using assms(2) by (intro round_rat_mono) (simp add: int64_defs)
  also have "\<dots> = 2 ^ 63"
    using round_rat_exact [OF representable_pow2 [of 63]] by simp
  finally have up: "round_rat (of_int n) \<le> 2 ^ 63" .
  have lo: "0 \<le> round_rat (of_int n)" using assms(1) by (intro round_rat_nonneg) simp
  let ?y = "round_rat (of_int n) / 1000000" and ?x = "round_rat (round_rat (of_int n) / 1000000)"
  have "?x \<le> round_rat (round_rat (of_int n))" using lo by (intro round_rat_mono) simp
  with up have "?x \<le> 2 ^ 63" by simp
  moreover have "0 \<le> ?x" using lo by (intro round_rat_nonneg) simp
  ultimately have "f_div_const (float_of_int n) TokensPerMillion = Fin ?x"
    using up lo by (auto simp: float_of_int_def float_of_rat_def Let_def TokensPerMillion_def)
  with that \<open>0 \<le> ?x\<close> show thesis by blast
qed

lemma token_cost:
  assumes "0 \<le> n" and "n \<le> n'" and "in_int64 n'" and "0 \<le> p"
  defines "amount \<equiv> (\<lambda>k. f_mul (f_div_const (float_of_int k) TokensPerMillion) (Fin p))"
  shows "f_le f_zero (amount n) \<and> f_le (amount n) (amount n')"
proof -
  have n: "in_int64 n" using in_int64_between [of n n'] assms(1-3) by simp
  obtain x where x: "f_div_const (float_of_int n) TokensPerMillion = Fin x"
      "x = round_rat (round_rat (of_int n) / 1000000)" "0 \<le> x"
    using token_amount_finite [OF assms(1) n] .
  obtain y where y: "f_div_const (float_of_int n') TokensPerMillion = Fin y"
      "y = round_rat (round_rat (of_int n') / 1000000)" "0 \<le> y"
    using token_amount_finite [of n'] assms(1-3) by auto
  have "x \<le> y" unfolding x(2) y(2) using assms(2)
    by (intro round_rat_mono divide_right_mono) auto
  then have "x * p \<le> y * p" using assms(4) by (rule mult_right_mono)
  with x y assms(4) show ?thesis
    unfolding amount_def by (auto intro: float_of_rat_mono f_nonneg_float_of_rat)
qed

lemma CalculateCost_nonneg:
  assumes "prices_ok pt" and "0 \<le> i" "in_int64 i" and "0 \<le> j" "in_int64 j"
    and "CalculateCost pt model i j = Inr c"
  shows "f_le f_zero c"
proof -
  obtain p where p: "pt model = Some p" using assms(6) by (auto simp: CalculateCost_def split: option.splits)
  with assms(1) obtain a b where ab: "InputPerMillion p = Fin a" "0 \<le> a" "OutputPerMillion p = Fin b" "0 \<le> b"
    unfolding prices_ok_def finite_price_def by blast
  from assms(6) p ab show ?thesis
    using token_cost [of i i a] token_cost [of j j b] assms(2-5)
    by (auto simp: CalculateCost_def Let_def intro: f_nonneg_add)
qed

text \<open>
  The cost of a request never falls when it uses more tokens: for a model with finite
  non-negative prices, more input and output tokens cost at least as much, no cost is negative, and a
  request without tokens costs nothing, whatever is lost to rounding on the way.
\<close>

theorem cost_monotone:
  assumes "pt model = Some p" and "finite_price p"
    and "0 \<le> i" "i \<le> i'" "in_int64 i'" and "0 \<le> j" "j \<le> j'" "in_int64 j'"
    and "CalculateCost pt model i j = Inr c" and "CalculateCost pt model i' j' = Inr c'"
  shows "f_le f_zero c \<and> f_le c c' \<and> CalculateCost pt model 0 0 = Inr f_zero"
proof -
  obtain a b where ab: "InputPerMillion p = Fin a" "0 \<le> a" "OutputPerMillion p = Fin b" "0 \<le> b"
    using assms(2) by (auto simp: finite_price_def)
  note t = token_cost [OF assms(3-5) ab(2)] token_cost [OF assms(6-8) ab(4)]
  have "f_le f_zero c \<and> f_le c c'"
    using assms(1,9,10) ab t by (auto simp: CalculateCost_def Let_def intro: f_nonneg_add f_add_mono)
  with assms(1) ab show ?thesis
    by (simp add: CalculateCost_def Let_def float_of_int_def float_of_rat_def)
qed

section \<open>Budgets\<close>

record request =
  rq_now :: go_time
  rq_key :: string
  rq_model :: string
  rq_provider :: string
  rq_input :: int
  rq_output :: int

abbreviation record_of :: "request \<Rightarrow> Manager \<Rightarrow> Manager" where
  "record_of r m \<equiv> snd (RecordRequest (rq_now r) (rq_key r) (rq_model r) (rq_provider r) (rq_input r) (rq_output r) m)"

definition tokens_ok :: "request \<Rightarrow> bool" where
  "tokens_ok r \<longleftrightarrow> 0 \<le> rq_input r \<and> in_int64 (rq_input r) \<and> 0 \<le> rq_output r \<and> in_int64 (rq_output r)"

definition cost_of_request :: "PricingTable \<Rightarrow> request \<Rightarrow> float64" where
  "cost_of_request pt r =
     (case CalculateCost pt (rq_model r) (rq_input r) (rq_output r) of Inl _ \<Rightarrow> f_zero | Inr c \<Rightarrow> c)"

lemma record_of_frame [simp]:
  "pricing (record_of r m) = pricing m" "defaultBudget (record_of r m) = defaultBudget m"
  "budgets (store (record_of r m)) = budgets (store m)"
  by (auto simp: RecordRequest_def RecordUsage_def Let_def split: sum.split)

lemma effectiveBudget_record [simp]: "effectiveBudget k kb (record_of r m) = effectiveBudget k kb m"
  by (simp add: effectiveBudget_def GetBudget_def Let_def)

lemma record_of_charge:
  assumes "CalculateCost (pricing m) (rq_model r) (rq_input r) (rq_output r) = Inr c"
  obtains e where "store (record_of r m) = RecordUsage (rq_now r) (rq_key r) e (store m)" "ue_CostUSD e = c"
  using assms that by (auto simp: RecordRequest_def Let_def)

lemma record_of_unknown:
  "CalculateCost (pricing m) (rq_model r) (rq_input r) (rq_output r) = Inl e \<Longrightarrow> record_of r m = m"
  by (simp add: RecordRequest_def)

lemma record_of_step:
  assumes "store_inv (store m)" and "prices_ok (pricing m)" and "tokens_ok r"
  shows "store_inv (store (record_of r m))"
    and "f_le (store_cost k (store m)) (store_cost k (store (record_of r m)))"
proof -
  have "store_inv (store (record_of r m)) \<and>
      f_le (store_cost k (store m)) (store_cost k (store (record_of r m)))"
  proof (cases "CalculateCost (pricing m) (rq_model r) (rq_input r) (rq_output r)")
    case (Inl e)
    from record_of_unknown [OF this] show ?thesis using mstore.charges_increase [of "store m" "[]" k] assms(1) by simp
  next
    case (Inr c)
    from Inr have c: "f_le f_zero c"
      using assms(2,3) CalculateCost_nonneg by (auto simp: tokens_ok_def)
    obtain e where "store (record_of r m) = RecordUsage (rq_now r) (rq_key r) e (store m)" "ue_CostUSD e = c"
      using record_of_charge [OF Inr] .
    with c mstore.charge_increases [OF assms(1), of e k] mstore.inv_charge [OF assms(1)] show ?thesis by simp
  qed
  then show "store_inv (store (record_of r m))"
    "f_le (store_cost k (store m)) (store_cost k (store (record_of r m)))" by auto
qed

lemma records_step:
  assumes "store_inv (store m)" and "prices_ok (pricing m)" and "\<forall>r \<in> set rs. tokens_ok r"
  shows "f_le (store_cost k (store m)) (store_cost k (store (fold record_of rs m))) \<and>
    effectiveBudget k kb (fold record_of rs m) = effectiveBudget k kb m"
  using assms
proof (induction rs arbitrary: m)
  case Nil
  then show ?case using mstore.charges_increase [of "store m" "[]" k] by simp
next
  case (Cons r rs)
  then have "f_le (store_cost k (store m)) (store_cost k (store (record_of r m)))"
    by (intro record_of_step) auto
  moreover have "f_le (store_cost k (store (record_of r m))) (store_cost k (store (fold record_of rs (record_of r m)))) \<and>
      effectiveBudget k kb (fold record_of rs (record_of r m)) = effectiveBudget k kb (record_of r m)"
    using Cons.prems by (intro Cons.IH record_of_step) auto
  ultimately show ?case by (auto intro: f_le_trans)
qed

text \<open>
  Once a budget is exhausted the gateway keeps failing closed: whatever further requests of any
  key are recorded, the check of that key still reports an exhausted budget.
\<close>

theorem exhausted_stays_exhausted:
  assumes "store_inv (store m)" and "prices_ok (pricing m)" and "\<forall>r \<in> set rs. tokens_ok r"
    and "CheckBudget now k kb m = Some ErrBudgetExhausted"
  shows "CheckBudget now' k kb (fold record_of rs m) = Some ErrBudgetExhausted"
  using records_step [OF assms(1-3), of k kb] assms(4)
  by (auto simp: CheckBudget_def Let_def split: if_splits intro: f_le_trans)

text \<open>
  Serving one request after the other: the check before, the charge after, as \<open>Quota\<close> in
  \<open>internal/middleware/quota.go\<close> does for a request that is answered without an error.
\<close>

definition serve :: "(string \<Rightarrow> float64) \<Rightarrow> request \<Rightarrow> Manager \<Rightarrow> Manager" where
  "serve kb r m =
     (if CheckBudget (rq_now r) (rq_key r) (kb (rq_key r)) m = None then record_of r m else m)"

text \<open>
  The bill a key should get, from the requests alone: a request of the key with a known price is
  charged exactly when what the key was charged before is below the budget, and charges add up in
  order.
\<close>

definition bill :: "float64 list \<Rightarrow> float64" where
  "bill charged = foldl f_add f_zero charged"

fun billed :: "float64 \<Rightarrow> PricingTable \<Rightarrow> string \<Rightarrow> float64 list \<Rightarrow> request list \<Rightarrow> float64 list" where
  "billed budget pt k charged [] = charged"
| "billed budget pt k charged (r # rs) =
     billed budget pt k
       (if rq_key r = k \<and> pt (rq_model r) \<noteq> None \<and> f_less (bill charged) budget
        then charged @ [cost_of_request pt r] else charged) rs"

lemma CheckBudget_None:
  assumes "f_less f_zero kb" and "f_valid c" "f_le f_zero c" "store_cost k (store m) = c"
  shows "CheckBudget now k kb m = None \<longleftrightarrow> f_less c kb"
  using assms by (cases kb; cases c) (auto simp: CheckBudget_def effectiveBudget_def Let_def)

lemma serve_frame: "pricing (serve kb r m) = pricing m"
  by (simp add: serve_def)

lemma CalculateCost_known: "CalculateCost pt model i j = Inl e \<longleftrightarrow> pt model = None \<and> e = ErrUnknownModelPricing"
  by (auto simp: CalculateCost_def Let_def split: option.split)

lemma serve_cost:
  assumes "store_inv (store m)" and "f_less f_zero (kb k)"
  shows "store_cost k (store (serve kb r m)) =
    (if rq_key r = k \<and> pricing m (rq_model r) \<noteq> None \<and> f_less (store_cost k (store m)) (kb k)
     then f_add (store_cost k (store m)) (cost_of_request (pricing m) r) else store_cost k (store m))"
proof (cases "CalculateCost (pricing m) (rq_model r) (rq_input r) (rq_output r)")
  case (Inl e)
  then show ?thesis by (simp add: serve_def record_of_unknown CalculateCost_known)
next
  case (Inr c)
  obtain e where e: "store (record_of r m) = RecordUsage (rq_now r) (rq_key r) e (store m)" "ue_CostUSD e = c"
    using record_of_charge [OF Inr] .
  have "pricing m (rq_model r) \<noteq> None" using Inr by (auto simp: CalculateCost_def split: option.splits)
  moreover have "CheckBudget now k (kb k) m = None \<longleftrightarrow> f_less (store_cost k (store m)) (kb k)" for now
    using CheckBudget_None [OF assms(2)] mstore.inv_cost [OF assms(1), of k] by blast
  ultimately show ?thesis using e by (auto simp: serve_def mstore.cost_charge cost_of_request_def Inr)
qed

lemma bill_snoc: "bill (charged @ [c]) = f_add (bill charged) c"
  by (simp add: bill_def)

lemma billed_below:
  "(charged \<noteq> [] \<longrightarrow> f_less (bill (butlast charged)) b) \<Longrightarrow>
     billed b pt k charged rs \<noteq> [] \<longrightarrow> f_less (bill (butlast (billed b pt k charged rs))) b"
  by (induction rs arbitrary: charged) simp_all

lemma serve_inv:
  assumes "store_inv (store m)" and "prices_ok (pricing m)" and "tokens_ok r"
  shows "store_inv (store (serve kb r m))"
  using record_of_step(1) [OF assms] assms(1) by (simp add: serve_def)

lemma serve_all_billed:
  assumes "store_inv (store m)" and "prices_ok (pricing m)" and "\<forall>r \<in> set rs. tokens_ok r"
    and "f_less f_zero (kb k)" and "store_cost k (store m) = bill charged"
  shows "store_cost k (store (fold (serve kb) rs m)) = bill (billed (kb k) (pricing m) k charged rs)"
  using assms
proof (induction rs arbitrary: m charged)
  case (Cons r rs)
  have "store_cost k (store (serve kb r m)) =
      bill (if rq_key r = k \<and> pricing m (rq_model r) \<noteq> None \<and> f_less (bill charged) (kb k)
            then charged @ [cost_of_request (pricing m) r] else charged)"
    using serve_cost [where kb = kb and k = k, OF Cons.prems(1,4), of r] Cons.prems(5) by (auto simp: bill_snoc)
  from Cons.IH [OF _ _ _ _ this] show ?case using Cons.prems by (simp add: serve_frame serve_inv)
qed simp

text \<open>
  C22. The recorded cost of a key is its bill, and the bill overruns the budget by at most one request:
  when requests of any keys are checked and charged one after the other, starting from an empty store,
  the cost recorded for a key with a positive budget is the sum of the costs of exactly those of its
  priced requests that came while the sum was below the budget; without the last of them the sum is
  below the budget. Prices are finite and non-negative, token counts non-negative 64-bit integers.
\<close>

theorem overspend_at_most_one_request:
  assumes "prices_ok pt" and "\<forall>r \<in> set rs. tokens_ok r" and "f_less f_zero (kb k)"
  shows "let charged = billed (kb k) pt k [] rs
    in store_cost k (store (fold (serve kb) rs \<lparr>store = NewMemoryStore, pricing = pt, defaultBudget = d\<rparr>)) = bill charged \<and>
       (charged \<noteq> [] \<longrightarrow> f_less (bill (butlast charged)) (kb k))"
proof -
  let ?m = "\<lparr>store = NewMemoryStore, pricing = pt, defaultBudget = d\<rparr>"
  have "store_inv (store ?m)" by (simp add: store_inv_new)
  moreover have "store_cost k (store ?m) = bill []"
    by (simp add: bill_def store_cost_def GetUsage_def NewMemoryStore_def new_usage_def)
  ultimately show ?thesis
    using serve_all_billed [of ?m rs kb k "[]"] billed_below [of "[]" "kb k" pt k rs] assms by (simp add: Let_def)
qed

lemma RequireModels_None: "RequireModels pt models = None \<longleftrightarrow> (\<forall>m \<in> set models. pt m \<noteq> None)"
  by (induction models) auto

lemma RequireModels_CalculateCost:
  "RequireModels pt models = None \<Longrightarrow> model \<in> set models \<Longrightarrow> \<exists>c. CalculateCost pt model i j = Inr c"
  by (auto simp: RequireModels_None CalculateCost_def Let_def)

section \<open>Witnesses\<close>

definition example_pricing :: PricingTable where
  "example_pricing = [''m'' \<mapsto> \<lparr>mp_Model = ''m'', InputPerMillion = Fin 2, OutputPerMillion = Fin 8\<rparr>]"

definition example_request :: "int \<Rightarrow> request" where
  "example_request n = \<lparr>rq_now = 0, rq_key = ''vk'', rq_model = ''m'', rq_provider = ''p'', rq_input = n, rq_output = 0\<rparr>"

lemma example_prices_ok: "prices_ok example_pricing"
  by (simp add: prices_ok_def example_pricing_def finite_price_def)

lemma float_small: "\<bar>m\<bar> \<le> 2 ^ 53 \<Longrightarrow> float_of_rat (of_int m) = Fin (of_int m)"
  using round_rat_exact [OF representable_int [of m]]
  by (auto simp: float_of_rat_def Let_def abs_le_iff)

lemma example_cost:
  assumes "0 \<le> n" and "n \<le> 1000"
  shows "CalculateCost example_pricing ''m'' (n * 1000000) 0 = Inr (Fin (of_int (n * 2)))"
proof -
  have "float_of_int (n * 1000000) = Fin (of_int (n * 1000000))"
    using assms float_small [of "n * 1000000"] by (simp add: float_of_int_def)
  moreover have "float_of_rat (of_int n) = Fin (of_int n)" "float_of_rat (of_int n * 2) = Fin (of_int n * 2)"
    using assms float_small [of n] float_small [of "n * 2"] by auto
  ultimately show ?thesis
    by (simp add: CalculateCost_def example_pricing_def TokensPerMillion_def float_of_int_def
        float_small [of 0, simplified])
qed

theorem cost_monotone_witness:
  "f_le (Fin 2) (Fin 6) \<and> CalculateCost example_pricing ''m'' 0 0 = Inr f_zero"
  using cost_monotone [of example_pricing "''m''" _ 1000000 3000000 0 0 "Fin 2" "Fin 6"]
    example_cost [of 1] example_cost [of 3]
  by (simp add: example_pricing_def finite_price_def int64_defs)

definition example_manager :: Manager where
  "example_manager = \<lparr>store = RecordUsage 0 ''vk'' \<lparr>ue_Timestamp = 0, ue_Model = ''m'', ue_Provider = ''p'',
      ue_InputTokens = 1, ue_OutputTokens = 0, ue_CostUSD = Fin 5\<rparr> NewMemoryStore,
     pricing = example_pricing, defaultBudget = f_zero\<rparr>"

theorem exhausted_stays_exhausted_witness:
  "CheckBudget 1 ''vk'' (Fin 4) (fold record_of [example_request 1000000, example_request 7] example_manager)
     = Some ErrBudgetExhausted"
proof (rule exhausted_stays_exhausted)
  have cost: "store_cost k (store example_manager) = (if k = ''vk'' then Fin 5 else f_zero)" for k
    using float_small [of 5]
    by (simp add: example_manager_def store_cost_def GetUsage_def RecordUsage_def NewMemoryStore_def
        new_usage_def Let_def)
  show "store_inv (store example_manager)"
    unfolding example_manager_def
    by (auto intro!: mstore.inv_charge store_inv_new)
  show "CheckBudget 0 ''vk'' (Fin 4) example_manager = Some ErrBudgetExhausted"
    by (simp add: CheckBudget_def effectiveBudget_def cost)
  show "\<forall>r \<in> set [example_request 1000000, example_request 7]. tokens_ok r"
    by (simp add: tokens_ok_def example_request_def int64_defs)
qed (simp add: example_manager_def example_prices_ok)

theorem overspend_at_most_one_request_witness:
  "store_cost ''vk'' (store (fold (serve (\<lambda>_. Fin 4)) [example_request 1000000, example_request 9000000, example_request 1000000]
        \<lparr>store = NewMemoryStore, pricing = example_pricing, defaultBudget = f_zero\<rparr>)) = Fin 20 \<and>
   f_less (bill [Fin 2]) (Fin 4)"
proof -
  let ?rs = "[example_request 1000000, example_request 9000000, example_request 1000000]"
  have c: "cost_of_request example_pricing (example_request 1000000) = Fin 2"
    "cost_of_request example_pricing (example_request 9000000) = Fin 18"
    using example_cost [of 1] example_cost [of 9] by (simp_all add: cost_of_request_def example_request_def)
  have s: "f_add f_zero (Fin 2) = Fin 2" "f_add (Fin 2) (Fin 18) = Fin 20"
    using float_small [of 2] float_small [of 20] by simp_all
  have k: "rq_key (example_request n) = ''vk''" "example_pricing (rq_model (example_request n)) \<noteq> None" for n
    by (simp_all add: example_request_def example_pricing_def)
  have "billed (Fin 4) example_pricing ''vk'' [] ?rs = [Fin 2, Fin 18]"
    using s by (simp add: k c bill_def)
  moreover have "\<forall>r \<in> set ?rs. tokens_ok r" by (simp add: tokens_ok_def example_request_def int64_defs)
  ultimately show ?thesis
    using overspend_at_most_one_request [OF example_prices_ok, of ?rs "\<lambda>_. Fin 4" "''vk''" f_zero] s by (simp add: Let_def bill_def)
qed

end
