(* ===== verification/Base64_Url.thy ===== *)
theory Base64_Url
  imports Go_Prelude
begin

text \<open>
  \<open>base64.RawURLEncoding\<close> of the standard library, which carries the segments of virtual keys and the
  file names of the key store: the URL alphabet, no padding. Decoding skips carriage returns and
  line feeds and does not look at the unused low bits of the last character, as the library does.
\<close>

definition b64_alphabet :: string where
  "b64_alphabet = ''ABCDEFGHIJKLMNOPQRSTUVWXYZabcdefghijklmnopqrstuvwxyz0123456789-_''"

definition b64_char :: "nat \<Rightarrow> char" where "b64_char n = b64_alphabet ! n"

definition b64_val :: "char \<Rightarrow> nat option" where
  "b64_val c = map_of (zip b64_alphabet [0..<64]) c"

fun b64_encode :: "bytes \<Rightarrow> string" where
  "b64_encode [] = []"
| "b64_encode [a] = [b64_char (byte_val a div 4), b64_char (byte_val a mod 4 * 16)]"
| "b64_encode [a, b] =
     [b64_char (byte_val a div 4), b64_char (byte_val a mod 4 * 16 + byte_val b div 16),
      b64_char (byte_val b mod 16 * 4)]"
| "b64_encode (a # b # c # s) =
     b64_char (byte_val a div 4) # b64_char (byte_val a mod 4 * 16 + byte_val b div 16)
     # b64_char (byte_val b mod 16 * 4 + byte_val c div 64) # b64_char (byte_val c mod 64) # b64_encode s"

fun b64_quanta :: "nat list \<Rightarrow> bytes option" where
  "b64_quanta [] = Some []"
| "b64_quanta [w] = None"
| "b64_quanta [w, x] = Some [char_of (w * 4 + x div 16)]"
| "b64_quanta [w, x, y] = Some [char_of (w * 4 + x div 16), char_of (x mod 16 * 16 + y div 4)]"
| "b64_quanta (w # x # y # z # ds) =
     map_option (\<lambda>s. char_of (w * 4 + x div 16) # char_of (x mod 16 * 16 + y div 4) # char_of (y mod 4 * 64 + z) # s)
       (b64_quanta ds)"

fun b64_digits :: "string \<Rightarrow> nat list option" where
  "b64_digits [] = Some []"
| "b64_digits (c # s) =
     (if c = CHR 0x0A \<or> c = CHR 0x0D then b64_digits s
      else case b64_val c of None \<Rightarrow> None | Some d \<Rightarrow> map_option ((#) d) (b64_digits s))"

definition b64_decode :: "string \<Rightarrow> bytes option" where
  "b64_decode s = (case b64_digits s of None \<Rightarrow> None | Some ds \<Rightarrow> b64_quanta ds)"

section \<open>Decoding an encoding\<close>

lemma length_b64_alphabet: "length b64_alphabet = 64"
  by (simp add: b64_alphabet_def)

lemma distinct_b64_alphabet: "distinct b64_alphabet"
  by (simp add: b64_alphabet_def)

lemma b64_val_char [simp]: "n < 64 \<Longrightarrow> b64_val (b64_char n) = Some n"
  using map_of_zip_nth [of b64_alphabet "[0..<64]" n] length_b64_alphabet distinct_b64_alphabet
  by (simp add: b64_val_def b64_char_def)

lemma b64_char_in: "n < 64 \<Longrightarrow> b64_char n \<in> set b64_alphabet"
  by (simp add: b64_char_def length_b64_alphabet)

lemma b64_alphabet_plain: "c \<in> set b64_alphabet \<Longrightarrow> c \<noteq> CHR 0x0A \<and> c \<noteq> CHR 0x0D \<and> c \<noteq> CHR ''.''"
  by (auto simp: b64_alphabet_def)

lemma b64_char_plain [simp]:
  "n < 64 \<Longrightarrow> b64_char n \<noteq> CHR 0x0A" "n < 64 \<Longrightarrow> b64_char n \<noteq> CHR 0x0D" "n < 64 \<Longrightarrow> b64_char n \<noteq> CHR ''.''"
  using b64_alphabet_plain [OF b64_char_in] by blast+

lemma byte_div [simp]: "byte_val x div 4 < 64" "byte_val x div 16 < 16" "byte_val x div 64 < 4"
  using byte_val_less [of x] by (simp_all add: less_mult_imp_div_less)

lemma b64_bounds [simp]:
  "byte_val a mod 4 * 16 + byte_val b div 16 < 64" "byte_val b mod 16 * 4 + byte_val c div 64 < 64"
  "byte_val a mod 4 * 16 < 64" "byte_val b mod 16 * 4 < 64"
proof -
  have m: "byte_val a mod 4 < 4" "byte_val b mod 16 < 16" by simp_all
  show "byte_val a mod 4 * 16 + byte_val b div 16 < 64" using m(1) byte_div(2) [of b] by linarith
  show "byte_val b mod 16 * 4 + byte_val c div 64 < 64" using m(2) byte_div(3) [of c] by linarith
  show "byte_val a mod 4 * 16 < 64" using m(1) by linarith
  show "byte_val b mod 16 * 4 < 64" using m(2) by linarith
qed

lemma byte_div_div [simp]:
  "byte_val x div 16 div 16 = 0" "byte_val x div 16 mod 16 = byte_val x div 16"
  "byte_val x div 64 div 4 = 0" "byte_val x div 64 mod 4 = byte_val x div 64"
  using byte_div [of x] by (simp_all only: div_less mod_less)

lemma b64_digits_encode:
  "\<exists>ds. b64_digits (b64_encode s) = Some ds \<and> b64_quanta ds = Some s"
  by (induction s rule: b64_encode.induct) auto

theorem b64_roundtrip: "b64_decode (b64_encode s) = Some s"
  using b64_digits_encode [of s] by (auto simp: b64_decode_def)

lemma b64_encode_alphabet: "set (b64_encode s) \<subseteq> set b64_alphabet"
  by (induction s rule: b64_encode.induct) (auto intro: b64_char_in)

lemma b64_encode_no_dot: "CHR ''.'' \<notin> set (b64_encode s)"
  using b64_encode_alphabet b64_alphabet_plain by blast

lemma length_b64_encode: "length (b64_encode s) = (length s * 4 + 2) div 3"
  by (induction s rule: b64_encode.induct) auto

end
