(* ===== verification/Virtual_Key.thy ===== *)
theory Virtual_Key
  imports Float64 Json_Text Base64_Url
begin

text \<open>
  Virtual keys (\<open>internal/virtualkey/virtualkey.go\<close>): the HS256 tokens the operator issues and the
  gateway accepts. The keyed hash is a parameter (\<open>hmac key message\<close>), and so are the random bytes
  of a generated key ID and \<open>format\<close>, the shortest decimal text of a \<open>float64\<close>, of which only the
  documented fact that it reads back is used. Instants come from the clock, so adding a lifetime
  to one does not overflow; instants rebuilt from claims may, and that arithmetic is written out.
\<close>

section \<open>Claims and options\<close>

record Claims =
  c_KeyID :: string
  c_Subject :: string
  c_Models :: "string list"
  c_MaxRPM :: int
  c_MaxTPM :: int
  c_MaxConcurrency :: int
  c_BudgetUSD :: float64
  c_KeySource :: string
  c_BYOKKeyID :: string
  c_PoolGroup :: string
  c_IssuedAt :: int
  c_ExpiresAt :: int
  c_Issuer :: string

record IssueOptions =
  o_KeyID :: string
  o_Subject :: string
  o_Models :: "string list"
  o_MaxRPM :: int
  o_MaxTPM :: int
  o_MaxConcurrency :: int
  o_BudgetUSD :: float64
  o_PoolGroup :: string
  o_TTL :: go_duration
  o_MaxTTL :: go_duration
  o_Issuer :: string
  o_Now :: "go_time option"

datatype vk_error =
    SigningKeyTooShort
  | SubjectEmpty
  | IssuerEmpty
  | ModelsEmpty
  | ModelEmpty
  | LimitsNegative
  | MaxTTLNotPositive
  | MaxTTLTooLarge
  | TTLTooShort
  | TTLTooLong
  | RandomFailed
  | KeyIDTooLong
  | EncodingFailed
  | TokenTooLong
  | InvalidFormat
  | InvalidHeader
  | UnsupportedAlgorithm
  | InvalidSignatureEncoding
  | InvalidSignature
  | InvalidPayload
  | InvalidClaims
  | MissingKeyID
  | MissingModels
  | TokenExpired
  | IssuedInFuture
  | MissingIssuedAt
  | ExpiresBeforeIssued
  | LifetimeTooLong
  | InvalidIssuer
  | MissingKeySource
  | BYOKReserved
  | BYOKNotImplemented
  | InvalidKeySource

definition MinSigningKeyBytes :: nat where "MinSigningKeyBytes = 32"
definition MaxEncodedTokenBytes :: nat where "MaxEncodedTokenBytes = 16 * 1024"
definition MaxRevocableIdentifierBytes :: nat where "MaxRevocableIdentifierBytes = 1024"
definition ClockSkew :: go_duration where "ClockSkew = 60 * second"
definition MaxTokenTTL :: go_duration where "MaxTokenTTL = max_int64 - ClockSkew"
definition KeySourcePool :: string where "KeySourcePool = ''pool''"
definition keySourceBYOK :: string where "keySourceBYOK = ''byok''"

lemmas vk_limits = MinSigningKeyBytes_def MaxEncodedTokenBytes_def MaxRevocableIdentifierBytes_def
  ClockSkew_def MaxTokenTTL_def KeySourcePool_def keySourceBYOK_def

section \<open>JSON form of the claims\<close>

text \<open>\<open>strconv.ParseFloat\<close> on a JSON number literal: the exact decimal value, rounded once.\<close>

definition json_float :: "string \<Rightarrow> float64 option" where
  "json_float s =
     (let (neg, s0) = (case s of c # t \<Rightarrow> if c = CHR ''-'' then (True, t) else (False, s) | [] \<Rightarrow> (False, s));
          i = takeWhile is_digit s0; s1 = dropWhile is_digit s0;
          f = (if take 1 s1 = ''.'' then takeWhile is_digit (tl s1) else []);
          s2 = (if take 1 s1 = ''.'' then dropWhile is_digit (tl s1) else s1);
          e = (case s2 of
                 [] \<Rightarrow> 0
               | _ # t \<Rightarrow>
                   if take 1 t = ''-'' then - int (digits_val (tl t))
                   else if take 1 t = ''+'' then int (digits_val (tl t))
                   else int (digits_val t));
          x = of_int (int (digits_val (i @ f))) * 10 powi (e - int (length f)) :: rat
      in case float_of_rat (if neg then - x else x) of Fin r \<Rightarrow> Some (Fin r) | _ \<Rightarrow> None)"

definition zero_claims :: Claims where
  "zero_claims = \<lparr>c_KeyID = [], c_Subject = [], c_Models = [], c_MaxRPM = 0, c_MaxTPM = 0, c_MaxConcurrency = 0,
     c_BudgetUSD = f_zero, c_KeySource = [], c_BYOKKeyID = [], c_PoolGroup = [], c_IssuedAt = 0, c_ExpiresAt = 0,
     c_Issuer = []\<rparr>"

text \<open>
  Decoding a member into a field: \<open>null\<close> leaves the field alone, any other value of the wrong type is
  an error. A list is decoded into the array the field already has, so an element \<open>null\<close> keeps what
  an earlier member of the same name left at its place; the second component is that array.
\<close>

definition dec_string :: "json \<Rightarrow> string \<Rightarrow> string option" where
  "dec_string v old = (case v of JStr s \<Rightarrow> Some s | JNull \<Rightarrow> Some old | _ \<Rightarrow> None)"

definition dec_int :: "json \<Rightarrow> int \<Rightarrow> int option" where
  "dec_int v old = (case v of JNum n \<Rightarrow> parse_int n | JNull \<Rightarrow> Some old | _ \<Rightarrow> None)"

definition dec_float :: "json \<Rightarrow> float64 \<Rightarrow> float64 option" where
  "dec_float v old = (case v of JNum n \<Rightarrow> json_float n | JNull \<Rightarrow> Some old | _ \<Rightarrow> None)"

fun dec_elems :: "json list \<Rightarrow> string list \<Rightarrow> string list option" where
  "dec_elems [] backing = Some []"
| "dec_elems (v # vs) backing =
     (case dec_string v (case backing of [] \<Rightarrow> [] | b # _ \<Rightarrow> b) of
        None \<Rightarrow> None
      | Some s \<Rightarrow> map_option ((#) s) (dec_elems vs (tl backing)))"

definition dec_models :: "json \<Rightarrow> string list \<Rightarrow> (string list \<times> string list) option" where
  "dec_models v backing =
     (case v of
        JNull \<Rightarrow> Some ([], [])
      | JArr vs \<Rightarrow>
          if vs = [] then Some ([], [])
          else map_option (\<lambda>xs. (xs, xs @ drop (length vs) backing)) (dec_elems vs backing)
      | _ \<Rightarrow> None)"

definition claim_names :: "string list" where
  "claim_names = [''kid'', ''sub'', ''models'', ''rpm'', ''tpm'', ''max_concurrency'', ''budget'', ''key_source'',
     ''byok_key_id'', ''pool_group'', ''iat'', ''exp'', ''iss'']"

definition dec_member :: "string \<times> json \<Rightarrow> Claims \<times> string list \<Rightarrow> (Claims \<times> string list) option" where
  "dec_member m st =
     (let (k, v) = m; (c, backing) = st
      in case find (\<lambda>name. json_key_is name k) claim_names of
           None \<Rightarrow> Some st
         | Some name \<Rightarrow>
             if name = ''kid'' then map_option (\<lambda>x. (c\<lparr>c_KeyID := x\<rparr>, backing)) (dec_string v (c_KeyID c))
             else if name = ''sub'' then map_option (\<lambda>x. (c\<lparr>c_Subject := x\<rparr>, backing)) (dec_string v (c_Subject c))
             else if name = ''models'' then map_option (\<lambda>(xs, b). (c\<lparr>c_Models := xs\<rparr>, b)) (dec_models v backing)
             else if name = ''rpm'' then map_option (\<lambda>x. (c\<lparr>c_MaxRPM := x\<rparr>, backing)) (dec_int v (c_MaxRPM c))
             else if name = ''tpm'' then map_option (\<lambda>x. (c\<lparr>c_MaxTPM := x\<rparr>, backing)) (dec_int v (c_MaxTPM c))
             else if name = ''max_concurrency'' then
               map_option (\<lambda>x. (c\<lparr>c_MaxConcurrency := x\<rparr>, backing)) (dec_int v (c_MaxConcurrency c))
             else if name = ''budget'' then map_option (\<lambda>x. (c\<lparr>c_BudgetUSD := x\<rparr>, backing)) (dec_float v (c_BudgetUSD c))
             else if name = ''key_source'' then
               map_option (\<lambda>x. (c\<lparr>c_KeySource := x\<rparr>, backing)) (dec_string v (c_KeySource c))
             else if name = ''byok_key_id'' then
               map_option (\<lambda>x. (c\<lparr>c_BYOKKeyID := x\<rparr>, backing)) (dec_string v (c_BYOKKeyID c))
             else if name = ''pool_group'' then
               map_option (\<lambda>x. (c\<lparr>c_PoolGroup := x\<rparr>, backing)) (dec_string v (c_PoolGroup c))
             else if name = ''iat'' then map_option (\<lambda>x. (c\<lparr>c_IssuedAt := x\<rparr>, backing)) (dec_int v (c_IssuedAt c))
             else if name = ''exp'' then map_option (\<lambda>x. (c\<lparr>c_ExpiresAt := x\<rparr>, backing)) (dec_int v (c_ExpiresAt c))
             else map_option (\<lambda>x. (c\<lparr>c_Issuer := x\<rparr>, backing)) (dec_string v (c_Issuer c)))"

fun dec_members :: "(string \<times> json \<Rightarrow> 'a \<Rightarrow> 'a option) \<Rightarrow> (string \<times> json) list \<Rightarrow> 'a \<Rightarrow> 'a option" where
  "dec_members f [] a = Some a"
| "dec_members f (m # ms) a = (case f m a of None \<Rightarrow> None | Some a' \<Rightarrow> dec_members f ms a')"

definition unmarshal_claims :: "bytes \<Rightarrow> Claims option" where
  "unmarshal_claims b =
     (case json_parse b of
        Some (JObj ms) \<Rightarrow> map_option fst (dec_members dec_member ms (zero_claims, []))
      | Some JNull \<Rightarrow> Some zero_claims
      | _ \<Rightarrow> None)"

text \<open>The algorithm named in the token header.\<close>

definition dec_header_member :: "string \<times> json \<Rightarrow> string \<Rightarrow> string option" where
  "dec_header_member m alg =
     (let (k, v) = m
      in if json_key_is ''alg'' k then dec_string v alg
         else if json_key_is ''typ'' k then map_option (\<lambda>_. alg) (dec_string v [])
         else Some alg)"

definition unmarshal_header :: "bytes \<Rightarrow> string option" where
  "unmarshal_header b =
     (case json_parse b of
        Some (JObj ms) \<Rightarrow> dec_members dec_header_member ms []
      | Some JNull \<Rightarrow> Some []
      | _ \<Rightarrow> None)"

definition claims_json :: "(float64 \<Rightarrow> string) \<Rightarrow> Claims \<Rightarrow> json" where
  "claims_json format c = JObj (
     [(''kid'', JStr (c_KeyID c)), (''sub'', JStr (c_Subject c)), (''models'', JArr (map JStr (c_Models c))),
      (''rpm'', JNum (format_int (c_MaxRPM c))), (''tpm'', JNum (format_int (c_MaxTPM c))),
      (''max_concurrency'', JNum (format_int (c_MaxConcurrency c))), (''budget'', JNum (format (c_BudgetUSD c))),
      (''key_source'', JStr (c_KeySource c))]
     @ (if c_BYOKKeyID c = [] then [] else [(''byok_key_id'', JStr (c_BYOKKeyID c))])
     @ (if c_PoolGroup c = [] then [] else [(''pool_group'', JStr (c_PoolGroup c))])
     @ [(''iat'', JNum (format_int (c_IssuedAt c))), (''exp'', JNum (format_int (c_ExpiresAt c))),
        (''iss'', JStr (c_Issuer c))])"

text \<open>\<open>json.Marshal\<close> refuses an infinite or undefined budget.\<close>

definition marshal_claims :: "(float64 \<Rightarrow> string) \<Rightarrow> Claims \<Rightarrow> bytes option" where
  "marshal_claims format c =
     (case c_BudgetUSD c of Fin _ \<Rightarrow> Some (json_print (claims_json format c)) | _ \<Rightarrow> None)"

definition header_json :: json where
  "header_json = JObj [(''alg'', JStr ''HS256''), (''typ'', JStr ''JWT'')]"

section \<open>Issuing\<close>

fun normalize_loop :: "string list \<Rightarrow> string set \<Rightarrow> string list \<Rightarrow> vk_error + string list" where
  "normalize_loop [] seen normalized = Inr normalized"
| "normalize_loop (m # ms) seen normalized =
     (let model = trim_space m
      in if model = [] then Inl ModelEmpty
         else if model \<in> seen then normalize_loop ms seen normalized
         else normalize_loop ms (insert model seen) (normalized @ [model]))"

definition normalizeModels :: "string list \<Rightarrow> vk_error + string list" where
  "normalizeModels models = (if models = [] then Inl ModelsEmpty else normalize_loop models {} [])"

text \<open>The random bytes are 18 bytes, or the read of the random source failed.\<close>

definition generateKeyID :: "bytes option \<Rightarrow> vk_error + string" where
  "generateKeyID random =
     (case random of None \<Rightarrow> Inl RandomFailed | Some r \<Rightarrow> Inr (''vk_'' @ b64_encode r))"

definition sign ::
  "(bytes \<Rightarrow> bytes \<Rightarrow> bytes) \<Rightarrow> (float64 \<Rightarrow> string) \<Rightarrow> bytes \<Rightarrow> Claims \<Rightarrow> vk_error + string" where
  "sign hmac format signingKey claims =
     (case marshal_claims format claims of
        None \<Rightarrow> Inl EncodingFailed
      | Some claimsJSON \<Rightarrow>
          let signingInput = b64_encode (json_print header_json) @ ''.'' @ b64_encode claimsJSON
          in Inr (signingInput @ ''.'' @ b64_encode (hmac signingKey signingInput)))"

definition Issue ::
  "(bytes \<Rightarrow> bytes \<Rightarrow> bytes) \<Rightarrow> (float64 \<Rightarrow> string) \<Rightarrow> bytes option \<Rightarrow> go_time \<Rightarrow> bytes \<Rightarrow> IssueOptions
   \<Rightarrow> vk_error + string \<times> Claims" where
  "Issue hmac format random clock signingKey opts =
     (if length signingKey < MinSigningKeyBytes then Inl SigningKeyTooShort
      else if trim_space (o_Subject opts) = [] then Inl SubjectEmpty
      else if trim_space (o_Issuer opts) = [] then Inl IssuerEmpty
      else case normalizeModels (o_Models opts) of
        Inl err \<Rightarrow> Inl err
      | Inr models \<Rightarrow>
          if o_MaxRPM opts < 0 \<or> o_MaxConcurrency opts < 0 \<or> o_MaxTPM opts < 0 \<or> f_less (o_BudgetUSD opts) f_zero
          then Inl LimitsNegative
          else if o_MaxTTL opts \<le> 0 then Inl MaxTTLNotPositive
          else if o_MaxTTL opts > MaxTokenTTL then Inl MaxTTLTooLarge
          else
            let ttl = (if o_TTL opts = 0 then o_MaxTTL opts else o_TTL opts)
            in if ttl < second then Inl TTLTooShort
               else if ttl > o_MaxTTL opts then Inl TTLTooLong
               else
                 let now = (case o_Now opts of None \<Rightarrow> clock | Some t \<Rightarrow> t);
                     trimmed = trim_space (o_KeyID opts)
                 in case (if trimmed = [] then generateKeyID random else Inr trimmed) of
                      Inl err \<Rightarrow> Inl err
                    | Inr keyID \<Rightarrow>
                        if MaxRevocableIdentifierBytes < length keyID then Inl KeyIDTooLong
                        else
                          let claims = \<lparr>c_KeyID = keyID, c_Subject = trim_space (o_Subject opts), c_Models = models,
                                c_MaxRPM = o_MaxRPM opts, c_MaxTPM = o_MaxTPM opts,
                                c_MaxConcurrency = o_MaxConcurrency opts, c_BudgetUSD = o_BudgetUSD opts,
                                c_KeySource = KeySourcePool, c_BYOKKeyID = [],
                                c_PoolGroup = trim_space (o_PoolGroup opts), c_IssuedAt = unix now,
                                c_ExpiresAt = unix (now + ttl), c_Issuer = trim_space (o_Issuer opts)\<rparr>
                          in case sign hmac format signingKey claims of
                               Inl err \<Rightarrow> Inl err
                             | Inr token \<Rightarrow>
                                 if MaxEncodedTokenBytes < length token then Inl TokenTooLong
                                 else Inr (token, claims))"

section \<open>Validation\<close>

text \<open>
  \<open>time.Unix(e, 0).Sub(time.Unix(i, 0))\<close>: seconds are kept relative to the year 1, so the conversion
  adds a constant and may wrap; \<open>Sub\<close> tests its result by adding it back and saturates otherwise.
\<close>

definition unixToInternal :: int where "unixToInternal = 62135596800"

definition addSec :: "int \<Rightarrow> int \<Rightarrow> int" where
  "addSec ext d =
     (let sum = wrap64 (ext + d)
      in if (ext < sum) = (0 < d) then sum else if 0 < d then max_int64 else - max_int64)"

definition unix_sub :: "int \<Rightarrow> int \<Rightarrow> go_duration" where
  "unix_sub e i =
     (let t = wrap64 (e + unixToInternal); u = wrap64 (i + unixToInternal);
          d = wrap64 (wrap64 (t - u) * second)
      in if addSec u (d div second) = t \<and> d mod second = 0 then d
         else if t < u then min_int64
         else max_int64)"

definition validateClaims :: "Claims \<Rightarrow> string \<Rightarrow> go_duration \<Rightarrow> go_time \<Rightarrow> vk_error option" where
  "validateClaims claims expectedIssuer maxTokenTTL now =
     (let nowUnix = unix now
      in if c_KeyID claims = [] then Some MissingKeyID
         else if MaxRevocableIdentifierBytes < length (c_KeyID claims) then Some KeyIDTooLong
         else if c_Models claims = [] then Some MissingModels
         else if c_ExpiresAt claims \<le> nowUnix then Some TokenExpired
         else if c_IssuedAt claims > wrap64 (nowUnix + ClockSkew div second) then Some IssuedInFuture
         else if maxTokenTTL > 0 \<and> c_IssuedAt claims \<le> 0 then Some MissingIssuedAt
         else if maxTokenTTL > 0 \<and> c_ExpiresAt claims \<le> c_IssuedAt claims then Some ExpiresBeforeIssued
         else if maxTokenTTL > 0 \<and> unix_sub (c_ExpiresAt claims) (c_IssuedAt claims) > maxTokenTTL
         then Some LifetimeTooLong
         else if expectedIssuer \<noteq> [] \<and> c_Issuer claims \<noteq> expectedIssuer then Some InvalidIssuer
         else if c_KeySource claims = [] then Some MissingKeySource
         else if c_KeySource claims = KeySourcePool \<and> c_BYOKKeyID claims \<noteq> [] then Some BYOKReserved
         else if c_KeySource claims = keySourceBYOK then Some BYOKNotImplemented
         else if c_KeySource claims \<noteq> KeySourcePool then Some InvalidKeySource
         else if c_MaxRPM claims < 0 \<or> f_less (c_BudgetUSD claims) f_zero \<or> c_MaxTPM claims < 0
                 \<or> c_MaxConcurrency claims < 0 then Some LimitsNegative
         else None)"

definition ValidateAt ::
  "(bytes \<Rightarrow> bytes \<Rightarrow> bytes) \<Rightarrow> string \<Rightarrow> bytes \<Rightarrow> string \<Rightarrow> go_duration \<Rightarrow> go_time \<Rightarrow> vk_error + Claims" where
  "ValidateAt hmac token signingKey expectedIssuer maxTokenTTL now =
     (if maxTokenTTL > MaxTokenTTL then Inl MaxTTLTooLarge
      else if MaxEncodedTokenBytes < length token then Inl TokenTooLong
      else if length signingKey < MinSigningKeyBytes then Inl SigningKeyTooShort
      else case split_on (CHR ''.'') token of
        [p0, p1, p2] \<Rightarrow>
          (case b64_decode p0 of
             None \<Rightarrow> Inl InvalidHeader
           | Some headerBytes \<Rightarrow>
             (case unmarshal_header headerBytes of
                None \<Rightarrow> Inl InvalidHeader
              | Some alg \<Rightarrow>
                if alg \<noteq> ''HS256'' then Inl UnsupportedAlgorithm
                else case b64_decode p2 of
                  None \<Rightarrow> Inl InvalidSignatureEncoding
                | Some signature \<Rightarrow>
                    if signature \<noteq> hmac signingKey (p0 @ ''.'' @ p1) then Inl InvalidSignature
                    else case b64_decode p1 of
                      None \<Rightarrow> Inl InvalidPayload
                    | Some claimsBytes \<Rightarrow>
                        (case unmarshal_claims claimsBytes of
                           None \<Rightarrow> Inl InvalidClaims
                         | Some claims \<Rightarrow>
                             (case validateClaims claims expectedIssuer maxTokenTTL now of
                                Some err \<Rightarrow> Inl err
                              | None \<Rightarrow> Inr claims))))
      | _ \<Rightarrow> Inl InvalidFormat)"

section \<open>Lifetimes\<close>

text \<open>For instants before the year 292277026596 the difference is exact or saturates.\<close>

lemma unix_sub_exact:
  assumes "0 \<le> i" and "i < e" and "e \<le> max_int64 - unixToInternal"
  shows "unix_sub e i = (if (e - i) * second \<le> max_int64 then (e - i) * second else max_int64)"
proof -
  have t: "wrap64 (e + unixToInternal) = e + unixToInternal" "wrap64 (i + unixToInternal) = i + unixToInternal"
    "wrap64 (e - i) = e - i"
    using assms by (auto intro!: wrap64_exact simp: in_int64_def min_int64_def max_int64_def unixToInternal_def)
  show ?thesis
  proof (cases "(e - i) * second \<le> max_int64")
    case True
    with assms have w: "wrap64 ((e - i) * second) = (e - i) * second"
      by (intro wrap64_exact) (auto simp: in_int64_def min_int64_def second_def)
    have "addSec (i + unixToInternal) (e - i) = e + unixToInternal"
      using assms t(1) by (simp add: addSec_def Let_def add.commute)
    with True t w show ?thesis by (simp add: unix_sub_def second_def)
  next
    case False
    let ?d = "wrap64 ((e - i) * second)" and ?u = "i + unixToInternal"
    define q where "q = ?d div second"
    have d: "min_int64 \<le> ?d" "?d \<le> max_int64" using wrap64_in by (auto simp: in_int64_def)
    have "q * second \<le> ?d" unfolding q_def second_def by simp
    with d(2) False have "q * second < (e - i) * second" by linarith
    then have q: "q < e - i" by (simp add: second_def)
    have "min_int64 div second \<le> q" unfolding q_def by (rule zdiv_mono1 [OF d(1)]) (simp add: second_def)
    then have "- 9223372037 \<le> q" by (simp add: min_int64_def second_def)
    with q assms have "in_int64 (?u + q)"
      by (auto simp: in_int64_def min_int64_def max_int64_def unixToInternal_def)
    then have "addSec ?u q = ?u + q" by (auto simp: addSec_def Let_def)
    with q have "addSec ?u q \<noteq> e + unixToInternal" by simp
    with False t assms show ?thesis by (simp add: unix_sub_def q_def Let_def)
  qed
qed

lemma ValidateAt_parts:
  assumes "ValidateAt hmac token key issuer maxTTL now = Inr c"
  obtains h p s where "token = h @ ''.'' @ p @ ''.'' @ s" and "b64_decode s = Some (hmac key (h @ ''.'' @ p))"
    and "Option.bind (b64_decode h) unmarshal_header = Some ''HS256''"
    and "Option.bind (b64_decode p) unmarshal_claims = Some c"
    and "validateClaims c issuer maxTTL now = None" and "maxTTL \<le> MaxTokenTTL"
proof -
  obtain h p s where parts: "split_on (CHR ''.'') token = [h, p, s]"
    using assms by (auto simp: ValidateAt_def split: if_splits list.splits)
  moreover have "token = h @ ''.'' @ p @ ''.'' @ s"
    using join_split [of "CHR ''.''" token] parts by simp
  ultimately show thesis
    using assms that [of h p s] by (auto simp: ValidateAt_def split: if_splits option.splits)
qed

text \<open>
  C12. What acceptance means: a token passes only when it consists of three segments whose last one
  decodes to the keyed hash of the first two under the configured key, the header names HS256, and
  the claims decoded from the payload hold a usable key ID, some model, a pool source without a
  reserved BYOK key, no negative limit, the expected issuer, an expiry in the future and an issue
  time at most a minute ahead of the clock.
\<close>

theorem ValidateAt_sound:
  assumes "ValidateAt hmac token key issuer maxTTL now = Inr c" and "in_int64 (unix now + 60)"
  shows "(\<exists>h p s. token = h @ ''.'' @ p @ ''.'' @ s \<and> b64_decode s = Some (hmac key (h @ ''.'' @ p)) \<and>
       Option.bind (b64_decode h) unmarshal_header = Some ''HS256'' \<and>
       Option.bind (b64_decode p) unmarshal_claims = Some c) \<and>
     c_KeyID c \<noteq> [] \<and> length (c_KeyID c) \<le> 1024 \<and> c_Models c \<noteq> [] \<and> c_KeySource c = ''pool'' \<and>
     c_BYOKKeyID c = [] \<and> 0 \<le> c_MaxRPM c \<and> 0 \<le> c_MaxTPM c \<and> 0 \<le> c_MaxConcurrency c \<and>
     \<not> f_less (c_BudgetUSD c) f_zero \<and> (issuer \<noteq> [] \<longrightarrow> c_Issuer c = issuer) \<and>
     unix now < c_ExpiresAt c \<and> c_IssuedAt c \<le> unix now + 60"
proof (rule ValidateAt_parts [OF assms(1)])
  fix h p s
  assume form: "token = h @ ''.'' @ p @ ''.'' @ s" "b64_decode s = Some (hmac key (h @ ''.'' @ p))"
      "Option.bind (b64_decode h) unmarshal_header = Some ''HS256''"
      "Option.bind (b64_decode p) unmarshal_claims = Some c"
    and "validateClaims c issuer maxTTL now = None"
  then have "c_KeyID c \<noteq> [] \<and> length (c_KeyID c) \<le> 1024 \<and> c_Models c \<noteq> [] \<and> c_KeySource c = ''pool'' \<and>
      c_BYOKKeyID c = [] \<and> 0 \<le> c_MaxRPM c \<and> 0 \<le> c_MaxTPM c \<and> 0 \<le> c_MaxConcurrency c \<and>
      \<not> f_less (c_BudgetUSD c) f_zero \<and> (issuer \<noteq> [] \<longrightarrow> c_Issuer c = issuer) \<and>
      unix now < c_ExpiresAt c \<and> c_IssuedAt c \<le> unix now + 60"
    using assms(2) by (auto simp: validateClaims_def Let_def vk_limits second_def split: if_splits)
  with form show ?thesis by blast
qed

text \<open>
  With a configured maximum, every accepted token whose expiry is a representable instant has a
  positive lifetime of at most that maximum; with the allowance for clock skew, it therefore
  expires no later than the maximum plus a minute after the moment it is accepted.
\<close>

theorem accepted_lifetime_bounded:
  assumes "ValidateAt hmac token key issuer maxTTL now = Inr c" and "0 < maxTTL"
    and "c_ExpiresAt c \<le> max_int64 - unixToInternal" and "in_int64 (unix now + 60)"
  shows "0 < c_IssuedAt c \<and> c_IssuedAt c < c_ExpiresAt c \<and>
    (c_ExpiresAt c - c_IssuedAt c) * second \<le> maxTTL \<and> c_ExpiresAt c * second \<le> now + maxTTL + ClockSkew"
proof (rule ValidateAt_parts [OF assms(1)])
  assume "validateClaims c issuer maxTTL now = None" and "maxTTL \<le> MaxTokenTTL"
  then have b: "0 < c_IssuedAt c \<and> c_IssuedAt c < c_ExpiresAt c \<and> (c_ExpiresAt c - c_IssuedAt c) * second \<le> maxTTL"
    and i: "c_IssuedAt c \<le> unix now + 60"
    using assms(2-4) unix_sub_exact [of "c_IssuedAt c" "c_ExpiresAt c"]
    by (auto simp: validateClaims_def Let_def vk_limits second_def max_int64_def split: if_splits)
  have "c_IssuedAt c * second \<le> (unix now + 60) * second" using i by (simp add: second_def)
  also have "\<dots> \<le> now + ClockSkew" using unix_le_iff [of "unix now" now] by (simp add: ClockSkew_def algebra_simps)
  finally show ?thesis using b by (simp add: algebra_simps)
qed

text \<open>
  An expiry so late that it is not a representable instant wraps in \<open>time.Unix\<close>; the difference then
  saturates at the least duration and the test of the lifetime passes.
\<close>

lemma unix_sub_wraps:
  assumes "0 \<le> i" and "i \<le> max_int64 - unixToInternal - 2 ^ 40" and "max_int64 - unixToInternal < e" and "e \<le> max_int64"
  shows "unix_sub e i = min_int64"
proof -
  let ?t = "e + unixToInternal - 2 ^ 64" and ?u = "i + unixToInternal"
  have t: "wrap64 (e + unixToInternal) = ?t" 
    using assms(3,4) by (intro wrap64_over) (simp add: int64_defs unixToInternal_def)
  have u: "wrap64 ?u = ?u" using assms(1,2) by (intro wrap64_exact) (simp add: int64_defs unixToInternal_def)
  let ?d = "wrap64 (wrap64 (?t - ?u) * second)"
  define q where "q = ?d div second"
  have d: "min_int64 \<le> ?d" "?d \<le> max_int64" using wrap64_in by (auto simp: in_int64_def)
  have "min_int64 div second \<le> q" "q \<le> max_int64 div second"
    unfolding q_def by (rule zdiv_mono1 [OF d(1)] zdiv_mono1 [OF d(2)], simp add: second_def)+
  then have q: "- 9223372037 \<le> q" "q \<le> 9223372036" by (simp_all add: int64_defs second_def)
  then have "in_int64 (?u + q)" using assms(1,2) by (simp add: int64_defs unixToInternal_def)
  then have "addSec ?u q = ?u + q" by (auto simp: addSec_def Let_def)
  moreover have "?t < 0" "0 \<le> ?u + q" using assms q by (simp_all add: int64_defs unixToInternal_def)
  ultimately show ?thesis unfolding unix_sub_def t u Let_def q_def [symmetric] using assms(1) by (simp add: unixToInternal_def)
qed

text \<open>
  C35. The maximum lifetime does not bound every signed token: whenever claims pass, the same claims
  with the latest expiry the claim can hold pass as well, under any configured maximum.
\<close>

theorem far_expiry_passes_lifetime_check:
  assumes "validateClaims c issuer maxTTL now = None" and "0 \<le> c_IssuedAt c"
    and "c_IssuedAt c \<le> max_int64 - unixToInternal - 2 ^ 40" and "unix now < max_int64"
    and "maxTTL \<ge> min_int64"
  shows "validateClaims (c\<lparr>c_ExpiresAt := max_int64\<rparr>) issuer maxTTL now = None"
proof -
  have "unix_sub max_int64 (c_IssuedAt c) = min_int64"
    using assms(2,3) by (intro unix_sub_wraps) (simp_all add: unixToInternal_def)
  moreover have "c_IssuedAt c < max_int64" using assms(3) by (simp add: unixToInternal_def)
  ultimately show ?thesis
    using assms(1,4,5) by (auto simp: validateClaims_def Let_def split: if_splits)
qed

section \<open>Issued tokens are accepted\<close>

definition claims_encodable :: "(float64 \<Rightarrow> string) \<Rightarrow> Claims \<Rightarrow> bool" where
  "claims_encodable format c \<longleftrightarrow>
     list_all valid_utf8 (c_Models c) \<and>
     list_all valid_utf8 [c_KeyID c, c_Subject c, c_KeySource c, c_BYOKKeyID c, c_PoolGroup c, c_Issuer c] \<and>
     list_all in_int64 [c_MaxRPM c, c_MaxTPM c, c_MaxConcurrency c, c_IssuedAt c, c_ExpiresAt c] \<and>
     lex_num (format (c_BudgetUSD c)) = Some (format (c_BudgetUSD c), []) \<and>
     json_float (format (c_BudgetUSD c)) = Some (c_BudgetUSD c)"

lemma fold_claim_names:
  "map fold_key claim_names = [''KID'', ''SUB'', ''MODELS'', ''RPM'', ''TPM'', ''MAX_CONCURRENCY'', ''BUDGET'', ''KEY_SOURCE'',
     ''BYOK_KEY_ID'', ''POOL_GROUP'', ''IAT'', ''EXP'', ''ISS'']"
  by (simp add: claim_names_def ascii_upper_def)

lemma find_claim_name: "k \<in> set claim_names \<Longrightarrow> find (\<lambda>name. json_key_is name k) claim_names = Some k"
  by (rule find_key_self) (simp_all add: fold_claim_names)

lemma claim_names_utf8: "k \<in> set claim_names \<Longrightarrow> valid_utf8 k"
  by (auto simp: claim_names_def valid_utf8_ascii byte_val_def)

lemma printable_claims: "claims_encodable format c \<Longrightarrow> printable (claims_json format c)"
  using claim_names_utf8
  by (auto simp: claims_encodable_def claims_json_def list_all_iff lex_num_format_int claim_names_def)

lemma depth_claims: "depth (claims_json format c) \<le> maxNestingDepth"
proof -
  have "foldr max (map depth (map JStr xs)) 0 = 0" for xs by (induction xs) auto
  then show ?thesis by (simp add: claims_json_def maxNestingDepth_def)
qed

lemma dec_elems_JStr: "dec_elems (map JStr xs) backing = Some xs"
  by (induction xs arbitrary: backing) (auto simp: dec_string_def)

lemma dec_models_JStr: "dec_models (JArr (map JStr xs)) [] = Some (xs, xs)"
  by (simp add: dec_models_def dec_elems_JStr)

lemma dec_claims:
  assumes "claims_encodable format c" and "claims_json format c = JObj ms"
  shows "dec_members dec_member ms (zero_claims, []) = Some (c, c_Models c)"
proof -
  have "parse_int (format_int n) = Some n" if "in_int64 n" for n using that by (rule parse_format_int)
  then have ints: "parse_int (format_int (c_MaxRPM c)) = Some (c_MaxRPM c)"
    "parse_int (format_int (c_MaxTPM c)) = Some (c_MaxTPM c)"
    "parse_int (format_int (c_MaxConcurrency c)) = Some (c_MaxConcurrency c)"
    "parse_int (format_int (c_IssuedAt c)) = Some (c_IssuedAt c)"
    "parse_int (format_int (c_ExpiresAt c)) = Some (c_ExpiresAt c)"
    using assms(1) by (auto simp: claims_encodable_def)
  have find: "find (\<lambda>name. json_key_is name k) claim_names = Some k" if "k \<in> set claim_names" for k
    using that by (rule find_claim_name)
  have mem: "set [''kid'', ''sub'', ''models'', ''rpm'', ''tpm'', ''max_concurrency'', ''budget'', ''key_source'',
      ''byok_key_id'', ''pool_group'', ''iat'', ''exp'', ''iss''] \<subseteq> set claim_names"
    by (simp add: claim_names_def)
  show ?thesis
    using assms ints mem
    by (auto simp: claims_json_def dec_member_def find
        dec_string_def dec_int_def dec_float_def dec_models_JStr claims_encodable_def zero_claims_def)
qed

lemma claims_roundtrip:
  assumes "claims_encodable format c" and "marshal_claims format c = Some b"
  shows "unmarshal_claims b = Some c"
proof -
  obtain ms where ms: "claims_json format c = JObj ms" by (simp add: claims_json_def)
  have "b = json_print (claims_json format c)" using assms(2) by (simp add: marshal_claims_def split: float64.splits)
  then have "json_parse b = Some (JObj ms)"
    using json_roundtrip [OF printable_claims [OF assms(1)] depth_claims] ms by simp
  with dec_claims [OF assms(1) ms] show ?thesis by (simp add: unmarshal_claims_def)
qed

lemma header_roundtrip: "unmarshal_header (json_print header_json) = Some ''HS256''"
proof -
  have "printable header_json" by (simp add: header_json_def valid_utf8_ascii byte_val_def)
  moreover have "depth header_json \<le> maxNestingDepth" by (simp add: header_json_def maxNestingDepth_def)
  ultimately have "json_parse (json_print header_json) = Some header_json" by (rule json_roundtrip)
  then show ?thesis
    by (simp add: unmarshal_header_def header_json_def dec_header_member_def dec_string_def json_key_is_def ascii_upper_def)
qed

lemma Issue_facts:
  assumes "Issue hmac format random clock key opts = Inr (token, c)"
  shows "MinSigningKeyBytes \<le> length key" and "0 < o_MaxTTL opts" and "o_MaxTTL opts \<le> MaxTokenTTL"
    and "sign hmac format key c = Inr token" and "length token \<le> MaxEncodedTokenBytes"
    and "length (c_KeyID c) \<le> MaxRevocableIdentifierBytes" and "c_KeySource c = KeySourcePool" and "c_BYOKKeyID c = []"
    and "0 \<le> c_MaxRPM c" and "0 \<le> c_MaxTPM c" and "0 \<le> c_MaxConcurrency c" and "\<not> f_less (c_BudgetUSD c) f_zero"
    and "normalizeModels (o_Models opts) = Inr (c_Models c)"
  using assms by (auto simp: Issue_def Let_def split: if_splits sum.splits)

lemma Issue_times:
  assumes "Issue hmac format random clock key opts = Inr (token, c)"
  obtains now ttl where "second \<le> ttl" and "ttl \<le> o_MaxTTL opts" and "ttl \<in> {o_TTL opts, o_MaxTTL opts}"
    and "c_IssuedAt c = unix now" and "c_ExpiresAt c = unix (now + ttl)"
proof -
  let ?ttl = "if o_TTL opts = 0 then o_MaxTTL opts else o_TTL opts"
  and ?now = "case o_Now opts of None \<Rightarrow> clock | Some t \<Rightarrow> t"
  show thesis
    by (rule that [of ?ttl ?now]) (use assms in \<open>auto simp: Issue_def Let_def split: if_splits sum.splits\<close>)
qed

lemma generateKeyID_nonempty: "generateKeyID r = Inr k \<Longrightarrow> k \<noteq> []"
  by (auto simp: generateKeyID_def split: option.splits)

lemma Issue_keyID: "Issue hmac format random clock key opts = Inr (token, c) \<Longrightarrow> c_KeyID c \<noteq> []"
  by (auto simp: Issue_def Let_def dest: generateKeyID_nonempty split: if_splits sum.splits)

lemma normalize_loop_nonempty:
  "normalize_loop ms seen acc = Inr xs \<Longrightarrow> acc \<noteq> [] \<or> (seen = {} \<and> ms \<noteq> []) \<Longrightarrow> xs \<noteq> []"
  by (induction ms seen acc rule: normalize_loop.induct) (auto simp: Let_def split: if_splits)

lemma normalizeModels_nonempty: "normalizeModels ms = Inr xs \<Longrightarrow> xs \<noteq> []"
  by (auto simp: normalizeModels_def split: if_splits dest: normalize_loop_nonempty)

lemma whole_second_lifetime:
  assumes "ttl mod second = 0" shows "(unix (now + ttl) - unix now) * second = ttl"
proof -
  obtain k where "ttl = k * second" using assms by (metis div_mult_mod_eq add.right_neutral)
  then show ?thesis by (simp add: unix_def second_def)
qed

lemma sign_validated:
  assumes "sign hmac format key c = Inr token" and "claims_encodable format c"
    and "length token \<le> MaxEncodedTokenBytes" and "MinSigningKeyBytes \<le> length key" and "maxTTL \<le> MaxTokenTTL"
  shows "ValidateAt hmac token key issuer maxTTL t =
    (case validateClaims c issuer maxTTL t of Some err \<Rightarrow> Inl err | None \<Rightarrow> Inr c)"
proof -
  obtain cj where cj: "marshal_claims format c = Some cj"
    using assms(1) by (auto simp: sign_def split: option.splits)
  let ?h = "b64_encode (json_print header_json)" and ?p = "b64_encode cj"
  have tok: "token = ?h @ ''.'' @ ?p @ ''.'' @ b64_encode (hmac key (?h @ ''.'' @ ?p))"
    using assms(1) cj by (auto simp: sign_def)
  have "split_on (CHR ''.'') token = [?h, ?p, b64_encode (hmac key (?h @ ''.'' @ ?p))]"
    unfolding tok by (simp add: split_on_append split_on_plain b64_encode_no_dot)
  then show ?thesis
    using assms claims_roundtrip [OF assms(2) cj] header_roundtrip by (simp add: ValidateAt_def b64_roundtrip)
qed

text \<open>
  C29. Issuing and validating agree: a token issued with lifetimes in whole seconds is accepted, with
  exactly the claims that issuing returned, by a gateway with the same key, issuer and maximum
  lifetime, from a minute before its issue time until it expires. The texts of the claims must be
  valid UTF-8, the formatted budget must read back, and the expiry must be a representable instant.
\<close>

theorem issue_then_validate:
  assumes "Issue hmac format random clock key opts = Inr (token, c)" and "claims_encodable format c"
    and "o_TTL opts mod second = 0" and "o_MaxTTL opts mod second = 0"
    and "0 < c_IssuedAt c" and "c_ExpiresAt c \<le> max_int64 - unixToInternal"
    and "c_IssuedAt c - 60 \<le> unix t" and "unix t < c_ExpiresAt c"
  shows "ValidateAt hmac token key (c_Issuer c) (o_MaxTTL opts) t = Inr c"
proof -
  note f = Issue_facts [OF assms(1)]
  obtain now ttl where time: "second \<le> ttl" "ttl \<le> o_MaxTTL opts" "ttl \<in> {o_TTL opts, o_MaxTTL opts}"
      "c_IssuedAt c = unix now" "c_ExpiresAt c = unix (now + ttl)"
    using Issue_times [OF assms(1)] .
  then have life: "(c_ExpiresAt c - c_IssuedAt c) * second = ttl"
    using whole_second_lifetime [of ttl now] assms(3,4) by auto
  then have less: "c_IssuedAt c < c_ExpiresAt c" using time(1) by (cases "c_IssuedAt c < c_ExpiresAt c") (auto simp: second_def)
  have "unix_sub (c_ExpiresAt c) (c_IssuedAt c) \<le> o_MaxTTL opts"
    using unix_sub_exact [OF _ less assms(6)] life time(2) f(3) assms(5)
    by (auto simp: vk_limits second_def split: if_splits)
  moreover have "in_int64 (unix t + 60)" using assms(5-8) by (auto simp: int64_defs unixToInternal_def)
  ultimately have "validateClaims c (c_Issuer c) (o_MaxTTL opts) t = None"
    using f less assms(5,7,8) Issue_keyID [OF assms(1)] normalizeModels_nonempty [OF f(13)]
    by (simp add: validateClaims_def Let_def vk_limits second_def)
  then show ?thesis using sign_validated [OF f(4) assms(2) f(5) f(1) f(3)] by simp
qed

section \<open>Witnesses\<close>

definition example_hmac :: "bytes \<Rightarrow> bytes \<Rightarrow> bytes" where "example_hmac key message = key"
definition example_format :: "float64 \<Rightarrow> string" where "example_format x = ''0''"
definition example_key :: bytes where "example_key = replicate 32 (CHR ''k'')"

definition example_opts :: IssueOptions where
  "example_opts = \<lparr>o_KeyID = ''vk'', o_Subject = ''s'', o_Models = [''m''], o_MaxRPM = 0, o_MaxTPM = 0,
     o_MaxConcurrency = 0, o_BudgetUSD = f_zero, o_PoolGroup = [], o_TTL = 2 * second, o_MaxTTL = 3600 * second,
     o_Issuer = ''i'', o_Now = Some (3 * second)\<rparr>"

definition example_claims :: Claims where
  "example_claims = \<lparr>c_KeyID = ''vk'', c_Subject = ''s'', c_Models = [''m''], c_MaxRPM = 0, c_MaxTPM = 0,
     c_MaxConcurrency = 0, c_BudgetUSD = f_zero, c_KeySource = ''pool'', c_BYOKKeyID = [], c_PoolGroup = [],
     c_IssuedAt = 3, c_ExpiresAt = 5, c_Issuer = ''i''\<rparr>"

definition example_token :: string where
  "example_token =
     (let input = b64_encode (json_print header_json) @ ''.'' @ b64_encode (json_print (claims_json example_format example_claims))
      in input @ ''.'' @ b64_encode example_key)"

lemma quote_body_ascii: "byte_val c < 0x80 \<Longrightarrow> quote_body (c # s) = escape c @ quote_body s"
  by (simp add: quote_body.simps [of "c # s"])

lemma quote_body_Nil [simp]: "quote_body [] = []"
  by (simp add: quote_body.simps)

text \<open>Letters, digits and the underscore are written as they are.\<close>

definition word_char :: "char \<Rightarrow> bool" where
  "word_char c \<longleftrightarrow> in_range 0x30 0x39 c \<or> in_range 0x41 0x5A c \<or> byte_val c = 0x5F \<or> in_range 0x61 0x7A c"

lemma escape_word: "word_char c \<Longrightarrow> escape c = [c]"
proof -
  assume w: "word_char c"
  have "c \<noteq> d" if "d \<in> {CHR 0x22, CHR 0x5C, CHR 0x08, CHR 0x0C, CHR 0x0A, CHR 0x0D, CHR 0x09, CHR ''<'', CHR ''>'', CHR ''&''}" for d
    using that w by (auto simp: word_char_def in_range_def byte_val_def)
  moreover have "\<not> byte_val c < 0x20" using w by (auto simp: word_char_def in_range_def)
  ultimately show ?thesis by (simp add: escape_def short_escape_def)
qed

lemma length_quote_word: "list_all word_char s \<Longrightarrow> length (quote s) = length s + 2"
proof (induction s)
  case (Cons c s)
  then have "byte_val c < 0x80" by (auto simp: word_char_def in_range_def)
  with Cons show ?case by (simp add: quote_def quote_body_ascii escape_word)
qed (simp add: quote_def)

lemma example_token_length: "length example_token \<le> MaxEncodedTokenBytes"
  by (simp add: example_token_def length_b64_encode header_json_def claims_json_def example_claims_def
      example_key_def example_format_def MaxEncodedTokenBytes_def length_quote_word word_char_def in_range_def
      byte_val_def format_int_def format_nat.simps)

lemma example_encodable: "claims_encodable example_format example_claims"
proof -
  have "lex_num ''0'' = Some (''0'', [])"
    by (simp add: lex_num_def lex_int_def lex_frac_def lex_exp_def)
  moreover have "json_float ''0'' = Some f_zero"
    by (simp add: json_float_def is_digit_def in_range_def byte_val_def digits_val_def digit_val_def float_of_rat_def)
  ultimately show ?thesis
    by (simp add: claims_encodable_def example_claims_def example_format_def valid_utf8_ascii byte_val_def int64_defs)
qed

lemma example_signed: "sign example_hmac example_format example_key example_claims = Inr example_token"
  by (simp add: sign_def marshal_claims_def example_claims_def example_token_def Let_def example_hmac_def)

lemma example_trim:
  "trim_space ''vk'' = ''vk''" "trim_space ''s'' = ''s''" "trim_space ''m'' = ''m''" "trim_space ''i'' = ''i''"
  by (simp_all add: trim_space_plain graphic_def)

lemma example_issued:
  "Issue example_hmac example_format None 0 example_key example_opts = Inr (example_token, example_claims)"
  using example_signed example_token_length example_trim
  by (simp add: Issue_def Let_def example_opts_def example_key_def vk_limits second_def normalizeModels_def
      max_int64_def unix_def example_claims_def)

lemma example_accepted:
  "ValidateAt example_hmac example_token example_key ''i'' (3600 * second) (4 * second) = Inr example_claims"
  by (subst sign_validated [OF example_signed example_encodable example_token_length])
    (simp_all add: example_key_def vk_limits validateClaims_def example_claims_def unix_def second_def max_int64_def
      int64_defs unix_sub_def unixToInternal_def addSec_def)

theorem issue_then_validate_witness:
  "ValidateAt example_hmac example_token example_key ''i'' (3600 * second) (4 * second) = Inr example_claims"
  using issue_then_validate [OF example_issued example_encodable, of "4 * second"]
  by (simp add: example_opts_def example_claims_def unix_def second_def max_int64_def unixToInternal_def)

theorem ValidateAt_sound_witness:
  "\<exists>h p s. example_token = h @ ''.'' @ p @ ''.'' @ s \<and>
     b64_decode s = Some (example_hmac example_key (h @ ''.'' @ p)) \<and>
     Option.bind (b64_decode p) unmarshal_claims = Some example_claims"
proof -
  have "in_int64 (unix (4 * second) + 60)" by (simp add: unix_def second_def int64_defs)
  from ValidateAt_sound [OF example_accepted this] show ?thesis by blast
qed

theorem accepted_lifetime_bounded_witness:
  "(c_ExpiresAt example_claims - c_IssuedAt example_claims) * second \<le> 3600 * second"
  using accepted_lifetime_bounded [OF example_accepted]
  by (simp add: unix_def second_def int64_defs example_claims_def unixToInternal_def)

theorem far_expiry_passes_lifetime_check_witness:
  "validateClaims (example_claims\<lparr>c_ExpiresAt := max_int64\<rparr>) ''i'' (3600 * second) (4 * second) = None"
proof (rule far_expiry_passes_lifetime_check)
  show "validateClaims example_claims ''i'' (3600 * second) (4 * second) = None"
    by (simp add: vk_limits validateClaims_def example_claims_def unix_def second_def
      int64_defs unix_sub_def unixToInternal_def addSec_def)
qed (simp_all add: example_claims_def unix_def second_def int64_defs unixToInternal_def)

lemma Issue_default_times:
  assumes "Issue hmac format random clock key opts = Inr (token, c)" and "o_TTL opts = 0" and "o_Now opts = Some now"
  shows "c_IssuedAt c = unix now \<and> c_ExpiresAt c = unix (now + o_MaxTTL opts) \<and> second \<le> o_MaxTTL opts"
  using assms by (auto simp: Issue_def Let_def split: if_splits sum.splits)

lemma default_lifetime:
  "(unix (now + ttl) - unix now) * second = ttl - ttl mod second + (if second \<le> now mod second + ttl mod second then second else 0)"
proof -
  have s: "0 < second" by (simp add: second_def)
  have "(now + ttl) div second = now div second + ttl div second + (now mod second + ttl mod second) div second"
    by (rule div_add1_eq)
  moreover have "(now mod second + ttl mod second) div second = (if second \<le> now mod second + ttl mod second then 1 else 0)"
  proof -
    have "0 \<le> now mod second" "now mod second < second" "0 \<le> ttl mod second" "ttl mod second < second" using s by simp_all
    then have "now mod second + ttl mod second - second < second" "0 \<le> now mod second + ttl mod second" by linarith+
    then show ?thesis using s by (simp add: div_pos_geq div_pos_pos_trivial)
  qed
  ultimately show ?thesis by (simp add: unix_def algebra_simps minus_mod_eq_mult_div)
qed

text \<open>
  Issuing and validating disagree on lifetimes with a fraction of a second. A token issued for the
  maximum lifetime is judged, by a gateway with the same key, issuer and maximum and at any time from a
  minute before its issue until it expires, as follows: it is refused as living too long exactly when
  the fractions of a second of the clock at its issue and of the maximum add up to a second or more, and
  otherwise accepted with its claims. With a maximum in whole seconds that never happens; with any other
  maximum it happens at the end of every second. The texts of the claims must be valid UTF-8, the
  formatted budget must read back, and the expiry must be a representable instant.
\<close>

theorem fractional_lifetime_is_refused:
  assumes "Issue hmac format random clock key opts = Inr (token, c)" and "claims_encodable format c"
    and "o_TTL opts = 0" and "o_Now opts = Some now"
    and "0 < c_IssuedAt c" and "c_ExpiresAt c \<le> max_int64 - unixToInternal"
    and "c_IssuedAt c - 60 \<le> unix t" and "unix t < c_ExpiresAt c"
  shows "ValidateAt hmac token key (c_Issuer c) (o_MaxTTL opts) t =
    (if second \<le> now mod second + o_MaxTTL opts mod second then Inl LifetimeTooLong else Inr c)"
proof -
  note f = Issue_facts [OF assms(1)]
  note time = Issue_default_times [OF assms(1,3,4)]
  let ?max = "o_MaxTTL opts"
  have s: "0 < second" by (simp add: second_def)
  have life: "(c_ExpiresAt c - c_IssuedAt c) * second = ?max - ?max mod second + (if second \<le> now mod second + ?max mod second then second else 0)"
    using default_lifetime [of now ?max] time by simp
  have m: "0 \<le> ?max mod second" "?max mod second < second" using s by simp_all
  then have "?max mod second < ?max" using time by linarith
  then have "0 < (c_ExpiresAt c - c_IssuedAt c) * second"
    unfolding life using s by simp
  then have less: "c_IssuedAt c < c_ExpiresAt c" using s by (simp add: zero_less_mult_iff)
  have "unix_sub (c_ExpiresAt c) (c_IssuedAt c) > ?max \<longleftrightarrow> second \<le> now mod second + ?max mod second"
    using unix_sub_exact [OF _ less assms(6)] life m f(3) assms(5)
    by (auto simp: vk_limits second_def split: if_splits)
  moreover have "in_int64 (unix t + 60)" using assms(5-8) by (auto simp: int64_defs unixToInternal_def)
  ultimately have "validateClaims c (c_Issuer c) ?max t = (if second \<le> now mod second + ?max mod second then Some LifetimeTooLong else None)"
    using f less assms(5,7,8) Issue_keyID [OF assms(1)] normalizeModels_nonempty [OF f(13)]
    by (simp add: validateClaims_def Let_def vk_limits second_def)
  then show ?thesis using sign_validated [OF f(4) assms(2) f(5) f(1) f(3)] by simp
qed

theorem fractional_lifetime_is_refused_witness:
  "let opts = example_opts\<lparr>o_TTL := 0, o_MaxTTL := 1500 * millisecond, o_Now := Some (3900 * millisecond)\<rparr> in
     Issue example_hmac example_format None 0 example_key opts = Inr (example_token, example_claims) \<and>
     ValidateAt example_hmac example_token example_key ''i'' (1500 * millisecond) (3900 * millisecond) = Inl LifetimeTooLong"
proof -
  let ?opts = "example_opts\<lparr>o_TTL := 0, o_MaxTTL := 1500 * millisecond, o_Now := Some (3900 * millisecond)\<rparr>"
  have i: "Issue example_hmac example_format None 0 example_key ?opts = Inr (example_token, example_claims)"
    using example_signed example_token_length example_trim
    by (simp add: Issue_def Let_def example_opts_def example_key_def vk_limits duration_defs normalizeModels_def
        max_int64_def unix_def example_claims_def)
  from fractional_lifetime_is_refused [OF i example_encodable, of "3900 * millisecond" "3900 * millisecond"] i
  show ?thesis
    by (simp add: Let_def example_opts_def example_claims_def unix_def duration_defs max_int64_def unixToInternal_def)
qed

end
