(* ===== verification/Revocation_Log.thy ===== *)
theory Revocation_Log
  imports Virtual_Key "HOL-Library.List_Lexorder" "HOL-Library.Product_Lexorder"
begin

text \<open>
  Durable revocation on one host (\<open>internal/revocation\<close>): the snapshot file and its strict reading,
  the writer that revokes a key and replaces the snapshot under a lock, and the reader that
  publishes a table for the request path and refuses every snapshot that would forget a live
  tombstone. The snapshot is kept as the bytes on disk, so reading really parses what was
  written. The digest is a parameter (\<open>sha256\<close>); the outcomes of system calls that may fail are
  arguments, so every error return is a branch.
\<close>

section \<open>Data\<close>

record rev_entry =
  e_Issuer :: string
  e_KeyID :: string
  e_RevokedAt :: int
  e_RetainUntil :: int

record snapshot =
  s_Version :: int
  s_Generation :: "64 word"
  s_UpdatedAt :: int
  s_Entries :: "rev_entry list"

record CommitResult =
  cr_Generation :: "64 word"
  cr_UpdatedAt :: int
  cr_Changed :: bool

datatype rev_error =
    ErrRollback
  | ErrNotExist
  | ErrIO
  | ErrConfig
  | ErrIdentifier
  | ErrLifetime
  | ErrParent
  | ErrNotRegular
  | ErrPermissions
  | ErrTooLarge
  | ErrJSON
  | ErrDecode
  | ErrSnapshot
  | ErrLock
  | ErrSymlink

definition snapshotVersion :: int where "snapshotVersion = 1"
definition maxSnapshotBytes :: nat where "maxSnapshotBytes = 4194304"
definition maxSnapshotEntries :: nat where "maxSnapshotEntries = 100000"
definition revocationClockSkew :: go_duration where "revocationClockSkew = 60 * second"

definition commitResult :: "snapshot \<Rightarrow> bool \<Rightarrow> CommitResult" where
  "commitResult s changed = \<lparr>cr_Generation = s_Generation s, cr_UpdatedAt = s_UpdatedAt s, cr_Changed = changed\<rparr>"

definition revocationKey :: "string \<Rightarrow> string \<Rightarrow> string" where
  "revocationKey issuer keyID = issuer @ [CHR 0x00] @ keyID"

section \<open>Checking the text of a snapshot\<close>

text \<open>
  \<open>validateSnapshotJSONStrings\<close>: a scan over the raw bytes. The flag says whether the scan is inside a
  string; escapes must be known ones and surrogates must come in pairs.
\<close>

definition string_escapes :: "char list" where
  "string_escapes = [CHR 0x22, CHR 0x5C, CHR ''/'', CHR ''b'', CHR ''f'', CHR ''n'', CHR ''r'', CHR ''t'']"

function scan_strings :: "bool \<Rightarrow> bytes \<Rightarrow> bool" where
  "scan_strings inside [] = (\<not> inside)"
| "scan_strings inside (c # s) =
     (if \<not> inside then scan_strings (c = dquote) s
      else if c = dquote then scan_strings False s
      else if c = backslash then
        (case s of
           [] \<Rightarrow> False
         | e # t \<Rightarrow>
             if e \<in> set string_escapes then scan_strings True t
             else if e = CHR ''u'' then
               (case hex4 t of
                  None \<Rightarrow> False
                | Some unit \<Rightarrow>
                    if 0xD800 \<le> unit \<and> unit \<le> 0xDBFF then
                      (if take 2 (drop 4 t) = [backslash, CHR ''u''] then
                         (case hex4 (drop 6 t) of
                            None \<Rightarrow> False
                          | Some low \<Rightarrow>
                              if low < 0xDC00 \<or> 0xDFFF < low then False else scan_strings True (drop 10 t))
                       else False)
                    else if 0xDC00 \<le> unit \<and> unit \<le> 0xDFFF then False
                    else scan_strings True (drop 4 t))
             else False)
      else if byte_val c < 0x20 then False
      else scan_strings True s)"
  by pat_completeness auto
termination
  by (relation "measure (\<lambda>(b, s). length s)") auto

definition validateSnapshotJSONStrings :: "bytes \<Rightarrow> bool" where
  "validateSnapshotJSONStrings raw = scan_strings False raw"

datatype snapshotJSONScope = snapshotJSONAny | snapshotJSONRoot | snapshotJSONEntries | snapshotJSONEntry

definition snapshotJSONMemberScope :: "snapshotJSONScope \<Rightarrow> string \<Rightarrow> snapshotJSONScope \<times> bool" where
  "snapshotJSONMemberScope scope name =
     (case scope of
        snapshotJSONRoot \<Rightarrow>
          if name \<in> {''version'', ''generation'', ''updated_at''} then (snapshotJSONAny, True)
          else if name = ''entries'' then (snapshotJSONEntries, True)
          else (snapshotJSONAny, False)
      | snapshotJSONEntry \<Rightarrow>
          if name \<in> {''issuer'', ''kid'', ''revoked_at'', ''retain_until''} then (snapshotJSONAny, True)
          else (snapshotJSONAny, False)
      | _ \<Rightarrow> (snapshotJSONAny, True))"

definition asciiFoldSnapshotJSONMember :: "string \<Rightarrow> string" where
  "asciiFoldSnapshotJSONMember name = map ascii_lower name"

text \<open>
  The walk over the decoder's tokens, as a walk over the value they spell: no member twice, no two
  members that differ in letter case only, and only known members in the root and the entries.
\<close>

definition child_scope :: "snapshotJSONScope \<Rightarrow> string \<Rightarrow> snapshotJSONScope" where
  "child_scope scope name =
     (let (s, known) = snapshotJSONMemberScope scope name in if known then s else snapshotJSONAny)"

fun scanSnapshotJSONValue :: "snapshotJSONScope \<Rightarrow> json \<Rightarrow> bool"
  and scan_members :: "snapshotJSONScope \<Rightarrow> (string \<times> json) list \<Rightarrow> bool"
  and scan_elems :: "snapshotJSONScope \<Rightarrow> json list \<Rightarrow> bool" where
  "scanSnapshotJSONValue scope (JObj ms) \<longleftrightarrow>
     distinct (map fst ms) \<and> distinct (map (asciiFoldSnapshotJSONMember \<circ> fst) ms) \<and> scan_members scope ms"
| "scanSnapshotJSONValue scope (JArr vs) \<longleftrightarrow>
     scan_elems (if scope = snapshotJSONEntries then snapshotJSONEntry else snapshotJSONAny) vs"
| "scanSnapshotJSONValue scope _ \<longleftrightarrow> True"
| "scan_members scope [] \<longleftrightarrow> True"
| "scan_members scope ((name, v) # ms) \<longleftrightarrow>
     scanSnapshotJSONValue (child_scope scope name) v \<and> snd (snapshotJSONMemberScope scope name) \<and> scan_members scope ms"
| "scan_elems scope [] \<longleftrightarrow> True"
| "scan_elems scope (v # vs) \<longleftrightarrow> scanSnapshotJSONValue scope v \<and> scan_elems scope vs"

section \<open>Decoding and validating\<close>

definition parse_uint :: "string \<Rightarrow> 64 word option" where
  "parse_uint s = (if s \<noteq> [] \<and> list_all is_digit s \<and> digits_val s < 2 ^ 64 then Some (of_nat (digits_val s)) else None)"

definition dec_uint :: "json \<Rightarrow> 64 word \<Rightarrow> 64 word option" where
  "dec_uint v old = (case v of JNum n \<Rightarrow> parse_uint n | JNull \<Rightarrow> Some old | _ \<Rightarrow> None)"

definition dec_entry_member :: "string \<times> json \<Rightarrow> rev_entry \<Rightarrow> rev_entry option" where
  "dec_entry_member m e =
     (let (k, v) = m
      in if k = ''issuer'' then map_option (\<lambda>x. e\<lparr>e_Issuer := x\<rparr>) (dec_string v (e_Issuer e))
         else if k = ''kid'' then map_option (\<lambda>x. e\<lparr>e_KeyID := x\<rparr>) (dec_string v (e_KeyID e))
         else if k = ''revoked_at'' then map_option (\<lambda>x. e\<lparr>e_RevokedAt := x\<rparr>) (dec_int v (e_RevokedAt e))
         else if k = ''retain_until'' then map_option (\<lambda>x. e\<lparr>e_RetainUntil := x\<rparr>) (dec_int v (e_RetainUntil e))
         else None)"

definition zero_entry :: rev_entry where
  "zero_entry = \<lparr>e_Issuer = [], e_KeyID = [], e_RevokedAt = 0, e_RetainUntil = 0\<rparr>"

definition dec_entry :: "json \<Rightarrow> rev_entry option" where
  "dec_entry v =
     (case v of JObj ms \<Rightarrow> dec_members dec_entry_member ms zero_entry | JNull \<Rightarrow> Some zero_entry | _ \<Rightarrow> None)"

fun dec_entries :: "json list \<Rightarrow> rev_entry list option" where
  "dec_entries [] = Some []"
| "dec_entries (v # vs) =
     (case dec_entry v of None \<Rightarrow> None | Some e \<Rightarrow> map_option ((#) e) (dec_entries vs))"

definition dec_snapshot_member :: "string \<times> json \<Rightarrow> snapshot \<Rightarrow> snapshot option" where
  "dec_snapshot_member m s =
     (let (k, v) = m
      in if k = ''version'' then map_option (\<lambda>x. s\<lparr>s_Version := x\<rparr>) (dec_int v (s_Version s))
         else if k = ''generation'' then map_option (\<lambda>x. s\<lparr>s_Generation := x\<rparr>) (dec_uint v (s_Generation s))
         else if k = ''updated_at'' then map_option (\<lambda>x. s\<lparr>s_UpdatedAt := x\<rparr>) (dec_int v (s_UpdatedAt s))
         else if k = ''entries'' then
           (case v of
              JArr vs \<Rightarrow> map_option (\<lambda>x. s\<lparr>s_Entries := x\<rparr>) (dec_entries vs)
            | JNull \<Rightarrow> Some (s\<lparr>s_Entries := []\<rparr>)
            | _ \<Rightarrow> None)
         else None)"

definition zero_snapshot :: snapshot where
  "zero_snapshot = \<lparr>s_Version = 0, s_Generation = 0, s_UpdatedAt = 0, s_Entries = []\<rparr>"

definition dec_snapshot :: "json \<Rightarrow> snapshot option" where
  "dec_snapshot v =
     (case v of
        JObj ms \<Rightarrow> dec_members dec_snapshot_member ms zero_snapshot
      | JNull \<Rightarrow> Some zero_snapshot
      | _ \<Rightarrow> None)"

fun validate_entries :: "rev_entry list \<Rightarrow> string set \<Rightarrow> bool" where
  "validate_entries [] seen \<longleftrightarrow> True"
| "validate_entries (e # es) seen \<longleftrightarrow>
     trim_space (e_Issuer e) \<noteq> [] \<and> trim_space (e_KeyID e) \<noteq> [] \<and>
     length (e_Issuer e) \<le> MaxRevocableIdentifierBytes \<and> length (e_KeyID e) \<le> MaxRevocableIdentifierBytes \<and>
     0 < e_RevokedAt e \<and> e_RevokedAt e < e_RetainUntil e \<and>
     revocationKey (e_Issuer e) (e_KeyID e) \<notin> seen \<and>
     validate_entries es (insert (revocationKey (e_Issuer e) (e_KeyID e)) seen)"

definition validateSnapshot :: "snapshot \<Rightarrow> bool" where
  "validateSnapshot s \<longleftrightarrow>
     s_Version s = snapshotVersion \<and> s_Generation s \<noteq> 0 \<and> 0 < s_UpdatedAt s \<and>
     length (s_Entries s) \<le> maxSnapshotEntries \<and> validate_entries (s_Entries s) {}"

section \<open>Files\<close>

datatype file_kind = RegularFile | SymbolicLink | OtherFile

record dir_info =
  d_symlink :: bool
  d_isdir :: bool
  d_perm :: "9 word"

record file_info =
  f_kind :: file_kind
  f_perm :: "9 word"
  f_content :: bytes

record rev_fs =
  fs_dir :: "dir_info option"
  fs_file :: "file_info option"

text \<open>Which of the system calls of one operation succeed.\<close>

record rev_io =
  io_mkdir :: bool
  io_read :: bool
  io_temp :: bool
  io_lstat :: bool
  io_rename :: bool
  io_dirsync :: bool

definition validateSecureParent :: "rev_fs \<Rightarrow> rev_error option" where
  "validateSecureParent fs =
     (case fs_dir fs of
        None \<Rightarrow> Some ErrNotExist
      | Some d \<Rightarrow>
          if d_symlink d \<or> \<not> d_isdir d then Some ErrParent
          else if and (d_perm d) 18 \<noteq> 0 then Some ErrPermissions
          else None)"

text \<open>\<open>os.MkdirAll\<close> creates a missing directory with mode 0700 and leaves an existing one alone.\<close>

definition ensureSecureParent :: "rev_io \<Rightarrow> rev_fs \<Rightarrow> rev_error option \<times> rev_fs" where
  "ensureSecureParent io fs =
     (if \<not> io_mkdir io then (Some ErrIO, fs)
      else let fs' = (case fs_dir fs of
                        None \<Rightarrow> fs\<lparr>fs_dir := Some \<lparr>d_symlink = False, d_isdir = True, d_perm = 448\<rparr>\<rparr>
                      | Some _ \<Rightarrow> fs)
           in (validateSecureParent fs', fs'))"

definition decode_snapshot :: "bytes \<Rightarrow> rev_error + snapshot" where
  "decode_snapshot raw =
     (if \<not> valid_utf8 raw \<or> \<not> validateSnapshotJSONStrings raw then Inl ErrJSON
      else case json_parse raw of
        None \<Rightarrow> Inl ErrJSON
      | Some v \<Rightarrow>
          if \<not> scanSnapshotJSONValue snapshotJSONRoot v then Inl ErrJSON
          else case dec_snapshot v of
            None \<Rightarrow> Inl ErrDecode
          | Some s \<Rightarrow> if validateSnapshot s then Inr s else Inl ErrSnapshot)"

definition readSnapshot :: "(bytes \<Rightarrow> bytes) \<Rightarrow> rev_io \<Rightarrow> rev_fs \<Rightarrow> rev_error + snapshot \<times> bytes" where
  "readSnapshot sha256 io fs =
     (case validateSecureParent fs of
        Some err \<Rightarrow> Inl err
      | None \<Rightarrow>
          (case fs_file fs of
             None \<Rightarrow> Inl ErrNotExist
           | Some f \<Rightarrow>
               if f_kind f = SymbolicLink then Inl ErrIO
               else if \<not> io_read io then Inl ErrIO
               else if f_kind f \<noteq> RegularFile then Inl ErrNotRegular
               else if and (f_perm f) 63 \<noteq> 0 then Inl ErrPermissions
               else if maxSnapshotBytes < length (f_content f) then Inl ErrTooLarge
               else case decode_snapshot (f_content f) of
                 Inl err \<Rightarrow> Inl err
               | Inr s \<Rightarrow> Inr (s, sha256 (f_content f))))"

section \<open>Writing\<close>

definition entry_json :: "rev_entry \<Rightarrow> json" where
  "entry_json e = JObj [(''issuer'', JStr (e_Issuer e)), (''kid'', JStr (e_KeyID e)),
     (''revoked_at'', JNum (format_int (e_RevokedAt e))), (''retain_until'', JNum (format_int (e_RetainUntil e)))]"

definition snapshot_json :: "snapshot \<Rightarrow> json" where
  "snapshot_json s = JObj [(''version'', JNum (format_int (s_Version s))),
     (''generation'', JNum (format_nat (unat (s_Generation s)))), (''updated_at'', JNum (format_int (s_UpdatedAt s))),
     (''entries'', JArr (map entry_json (s_Entries s)))]"

definition encode_snapshot :: "snapshot \<Rightarrow> bytes" where
  "encode_snapshot s = json_indent 0 (snapshot_json s) @ newline 0"

definition writeSnapshotAtomic :: "rev_io \<Rightarrow> snapshot \<Rightarrow> rev_fs \<Rightarrow> rev_error option \<times> rev_fs" where
  "writeSnapshotAtomic io s fs =
     (case ensureSecureParent io fs of
        (Some err, fs') \<Rightarrow> (Some err, fs')
      | (None, fs') \<Rightarrow>
          if \<not> validateSnapshot s then (Some ErrSnapshot, fs')
          else if maxSnapshotBytes < length (encode_snapshot s) then (Some ErrTooLarge, fs')
          else if \<not> io_temp io then (Some ErrIO, fs')
          else if (case fs_file fs' of None \<Rightarrow> False | Some f \<Rightarrow> f_kind f = SymbolicLink) then (Some ErrSymlink, fs')
          else if \<not> io_lstat io then (Some ErrIO, fs')
          else if \<not> io_rename io then (Some ErrIO, fs')
          else
            let fs'' = fs'\<lparr>fs_file := Some \<lparr>f_kind = RegularFile, f_perm = 384, f_content = encode_snapshot s\<rparr>\<rparr>
            in if io_dirsync io then (None, fs'') else (Some ErrIO, fs''))"

text \<open>
  \<open>withFileLock\<close>: the tries before the deadline, in order. A busy lock is tried again, an error or a
  cancelled context ends the wait, and so does the deadline, which is the end of the list.
\<close>

datatype flock = FlockOK | FlockBusy | FlockCancelled | FlockError

fun lock_loop :: "flock list \<Rightarrow> bool" where
  "lock_loop [] = False"
| "lock_loop (FlockOK # tries) = True"
| "lock_loop (FlockBusy # tries) = lock_loop tries"
| "lock_loop (FlockCancelled # tries) = False"
| "lock_loop (FlockError # tries) = False"

definition validateWriterConfig :: "string \<Rightarrow> go_duration \<Rightarrow> bool" where
  "validateWriterConfig path timeout \<longleftrightarrow> trim_space path \<noteq> [] \<and> 0 < timeout"

definition rev_Init ::
  "(bytes \<Rightarrow> bytes) \<Rightarrow> rev_io \<Rightarrow> flock list \<Rightarrow> string \<Rightarrow> go_duration \<Rightarrow> go_time \<Rightarrow> rev_fs
   \<Rightarrow> (rev_error + CommitResult) \<times> rev_fs" where
  "rev_Init sha256 io tries path timeout now fs =
     (if \<not> validateWriterConfig path timeout then (Inl ErrConfig, fs)
      else case ensureSecureParent io fs of
        (Some err, fs1) \<Rightarrow> (Inl err, fs1)
      | (None, fs1) \<Rightarrow>
          if \<not> lock_loop tries then (Inl ErrLock, fs1)
          else case readSnapshot sha256 io fs1 of
            Inr (current, _) \<Rightarrow> (Inr (commitResult current False), fs1)
          | Inl err \<Rightarrow>
              if err \<noteq> ErrNotExist then (Inl err, fs1)
              else
                let initial = \<lparr>s_Version = snapshotVersion, s_Generation = 1, s_UpdatedAt = unix now, s_Entries = []\<rparr>
                in case writeSnapshotAtomic io initial fs1 of
                     (Some e, fs2) \<Rightarrow> (Inl e, fs2)
                   | (None, fs2) \<Rightarrow> (Inr (commitResult initial True), fs2))"

text \<open>The loop of \<open>Revoke\<close> over the current entries: what is kept, whether the key was found, whether
  anything changed.\<close>

fun revoke_loop :: "int \<Rightarrow> string \<Rightarrow> string \<Rightarrow> int \<Rightarrow> rev_entry list \<Rightarrow> rev_entry list \<times> bool \<times> bool" where
  "revoke_loop nowUnix issuer keyID desired [] = ([], False, False)"
| "revoke_loop nowUnix issuer keyID desired (item # items) =
     (let (kept, found, changed) = revoke_loop nowUnix issuer keyID desired items
      in if e_RetainUntil item \<le> nowUnix then (kept, found, True)
         else if e_Issuer item = issuer \<and> e_KeyID item = keyID then
           (if e_RetainUntil item < desired then (item\<lparr>e_RetainUntil := desired\<rparr> # kept, True, True)
            else (item # kept, True, changed))
         else (item # kept, found, changed))"

definition entry_key :: "rev_entry \<Rightarrow> nat list \<times> nat list" where
  "entry_key e = (map byte_val (e_Issuer e), map byte_val (e_KeyID e))"

definition desiredRetention :: "go_time \<Rightarrow> go_duration \<Rightarrow> int" where
  "desiredRetention now maxTokenTTL = unix (now + (maxTokenTTL + revocationClockSkew))"

text \<open>The snapshot that follows the current one, or nothing when the current one already says it all.\<close>

definition next_snapshot :: "go_time \<Rightarrow> string \<Rightarrow> string \<Rightarrow> go_duration \<Rightarrow> snapshot \<Rightarrow> snapshot option" where
  "next_snapshot now issuer keyID maxTokenTTL current =
     (let desired = desiredRetention now maxTokenTTL;
          (kept, found, changed) = revoke_loop (unix now) issuer keyID desired (s_Entries current);
          kept' = (if found then kept
                   else kept @ [\<lparr>e_Issuer = issuer, e_KeyID = keyID, e_RevokedAt = unix now, e_RetainUntil = desired\<rparr>])
      in if found \<and> \<not> changed then None
         else Some \<lparr>s_Version = snapshotVersion, s_Generation = s_Generation current + 1, s_UpdatedAt = unix now,
                    s_Entries = sort_key entry_key kept'\<rparr>)"

definition rev_Revoke ::
  "(bytes \<Rightarrow> bytes) \<Rightarrow> rev_io \<Rightarrow> flock list \<Rightarrow> string \<Rightarrow> go_duration \<Rightarrow> string \<Rightarrow> string \<Rightarrow> go_time \<Rightarrow> go_duration
   \<Rightarrow> rev_fs \<Rightarrow> (rev_error + CommitResult) \<times> rev_fs" where
  "rev_Revoke sha256 io tries path timeout issuer keyID now maxTokenTTL fs =
     (if \<not> validateWriterConfig path timeout then (Inl ErrConfig, fs)
      else if trim_space issuer = [] \<or> trim_space keyID = [] then (Inl ErrIdentifier, fs)
      else if MaxRevocableIdentifierBytes < length issuer \<or> MaxRevocableIdentifierBytes < length keyID
      then (Inl ErrIdentifier, fs)
      else if maxTokenTTL \<le> 0 then (Inl ErrLifetime, fs)
      else if maxTokenTTL > MaxTokenTTL then (Inl ErrLifetime, fs)
      else case ensureSecureParent io fs of
        (Some err, fs1) \<Rightarrow> (Inl err, fs1)
      | (None, fs1) \<Rightarrow>
          if \<not> lock_loop tries then (Inl ErrLock, fs1)
          else case readSnapshot sha256 io fs1 of
            Inl err \<Rightarrow> (Inl err, fs1)
          | Inr (current, _) \<Rightarrow>
              (case next_snapshot now issuer keyID maxTokenTTL current of
                 None \<Rightarrow> (Inr (commitResult current False), fs1)
               | Some nxt \<Rightarrow>
                   (case writeSnapshotAtomic io nxt fs1 of
                      (Some e, fs2) \<Rightarrow> (Inl e, fs2)
                    | (None, fs2) \<Rightarrow> (Inr (commitResult nxt True), fs2))))"

section \<open>The reader\<close>

record readerState =
  rs_generation :: "64 word"
  rs_digest :: bytes
  rs_revoked :: "string \<rightharpoonup> int"
  rs_err :: "rev_error option"

fun publish_entries :: "int \<Rightarrow> rev_entry list \<Rightarrow> (string \<rightharpoonup> int) \<Rightarrow> (string \<rightharpoonup> int)" where
  "publish_entries now [] m = m"
| "publish_entries now (item # items) m =
     publish_entries now items
       (if now < e_RetainUntil item
        then m(revocationKey (e_Issuer item) (e_KeyID item) \<mapsto> e_RetainUntil item) else m)"

text \<open>Some tombstone of the published table is still live and missing or shorter in the new one.\<close>

definition forgets :: "int \<Rightarrow> (string \<rightharpoonup> int) \<Rightarrow> (string \<rightharpoonup> int) \<Rightarrow> bool" where
  "forgets now old new \<longleftrightarrow>
     (\<exists>k \<in> dom old. now < the (old k) \<and> (case new k of None \<Rightarrow> True | Some r \<Rightarrow> r < the (old k)))"

definition refresh_failed :: "rev_error \<Rightarrow> readerState option \<Rightarrow> readerState" where
  "refresh_failed err current =
     (case current of
        None \<Rightarrow> \<lparr>rs_generation = 0, rs_digest = [], rs_revoked = Map.empty, rs_err = Some err\<rparr>
      | Some c \<Rightarrow> c\<lparr>rs_err := Some err\<rparr>)"

definition Refresh ::
  "(bytes \<Rightarrow> bytes) \<Rightarrow> rev_io \<Rightarrow> go_time \<Rightarrow> rev_fs \<Rightarrow> readerState option \<Rightarrow> readerState option \<times> rev_error option" where
  "Refresh sha256 io now fs current =
     (case readSnapshot sha256 io fs of
        Inl err \<Rightarrow> (Some (refresh_failed err current), Some err)
      | Inr (s, digest) \<Rightarrow>
          let rollback = (case current of
                None \<Rightarrow> False
              | Some c \<Rightarrow> s_Generation s < rs_generation c
                  \<or> (s_Generation s = rs_generation c \<and> digest \<noteq> rs_digest c));
              revoked = publish_entries (unix now) (s_Entries s) Map.empty;
              shortened = (case current of None \<Rightarrow> False | Some c \<Rightarrow> forgets (unix now) (rs_revoked c) revoked)
          in if rollback \<or> shortened then (Some (refresh_failed ErrRollback current), Some ErrRollback)
             else (Some \<lparr>rs_generation = s_Generation s, rs_digest = digest, rs_revoked = revoked, rs_err = None\<rparr>, None))"

datatype check_result = NotRevoked | Revoked | CheckCancelled | CheckUnavailable

definition rev_Check :: "bool \<Rightarrow> string \<Rightarrow> string \<Rightarrow> readerState option \<Rightarrow> check_result" where
  "rev_Check cancelled issuer keyID state =
     (if cancelled then CheckCancelled
      else case state of
        None \<Rightarrow> CheckUnavailable
      | Some st \<Rightarrow>
          if rs_err st \<noteq> None then CheckUnavailable
          else if rs_revoked st (revocationKey issuer keyID) \<noteq> None then Revoked
          else NotRevoked)"

definition NewReader ::
  "(bytes \<Rightarrow> bytes) \<Rightarrow> rev_io \<Rightarrow> go_time \<Rightarrow> string \<Rightarrow> go_duration \<Rightarrow> rev_fs \<Rightarrow> rev_error + readerState option" where
  "NewReader sha256 io now path interval fs =
     (if trim_space path = [] \<or> interval \<le> 0 then Inl ErrConfig
      else case Refresh sha256 io now fs None of
        (_, Some err) \<Rightarrow> Inl err
      | (st, None) \<Rightarrow> Inr st)"

text \<open>The refresh loop of \<open>poll\<close>: one refresh per tick until the reader is closed.\<close>

fun poll :: "(bytes \<Rightarrow> bytes) \<Rightarrow> (rev_io \<times> go_time \<times> rev_fs) list \<Rightarrow> readerState option \<Rightarrow> readerState option" where
  "poll sha256 [] st = st"
| "poll sha256 ((io, now, fs) # ticks) st = poll sha256 ticks (fst (Refresh sha256 io now fs st))"

section \<open>Reading back a written snapshot\<close>

text \<open>The bytes of a written string literal: valid UTF-8, and the scan over them leaves the string.\<close>

abbreviation ascii :: "char \<Rightarrow> bool" where "ascii c \<equiv> byte_val c < 0x80"

lemma valid_utf8_ascii_append: "list_all ascii s \<Longrightarrow> valid_utf8 (s @ t) = valid_utf8 t"
  by (induction s) (auto simp: valid_utf8_ascii)

lemma ascii_hex_digit: "n < 16 \<Longrightarrow> ascii (hex_digit n)"
  by (auto simp: hex_digit_def byte_val_def)

lemma ascii_escape: "ascii c \<Longrightarrow> list_all ascii (escape c)"
proof -
  assume a: "ascii c"
  have "ascii e" if "short_escape c = Some e" for e
    using that by (auto simp: short_escape_def byte_val_def split: if_splits)
  moreover have "ascii (CHR ''u'')" "ascii (CHR ''0'')" by (simp_all add: byte_val_def)
  moreover have "ascii (hex_digit (byte_val d div 16))" "ascii (hex_digit (byte_val d mod 16))" for d
    by (intro ascii_hex_digit; simp)+
  ultimately show ?thesis using a by (cases "short_escape c") (auto simp: escape_def)
qed

lemma scan_escape: "ascii c \<Longrightarrow> scan_strings True (escape c @ t) = scan_strings True t"
proof -
  assume a: "ascii c"
  show ?thesis
  proof (cases "short_escape c")
    case (Some e)
    then have "e \<in> set string_escapes" by (auto simp: short_escape_def string_escapes_def split: if_splits)
    with Some show ?thesis by (simp add: escape_def)
  next
    case None
    then have ne: "c \<noteq> dquote" "c \<noteq> backslash" using short_escape_None by auto
    have u: "CHR ''u'' \<notin> set string_escapes" by (simp add: string_escapes_def)
    show ?thesis
      using None ne u a by (auto simp: escape_def hex4_byte)
  qed
qed

text \<open>Bytes of a multi-byte sequence are neither quotes nor backslashes nor control characters.\<close>

lemma rune_bytes:
  assumes "0 < rune_len s" and "\<not> ascii (hd s)"
  shows "list_all (\<lambda>c. \<not> ascii c) (take (rune_len s) s)"
proof -
  have "cont b \<Longrightarrow> \<not> ascii b" "second_ok a b \<Longrightarrow> \<not> ascii b" for a b
    by (auto simp: in_range_def split: if_splits)
  with assms show ?thesis
    by (auto simp: rune_len_def simp del: second_ok.simps split: list.splits if_splits)
qed

lemma scan_high: "list_all (\<lambda>c. \<not> ascii c) r \<Longrightarrow> scan_strings True (r @ t) = scan_strings True t"
proof (induction r)
  case (Cons c r)
  then have "c \<noteq> dquote" "c \<noteq> backslash" "\<not> byte_val c < 0x20" by auto
  with Cons show ?case by simp
qed simp

lemma scan_code_unit:
  "scan_strings True (backslash # ''u2028'' @ t) = scan_strings True t"
  "scan_strings True (backslash # ''u2029'' @ t) = scan_strings True t"
proof -
  have "CHR ''u'' \<notin> set string_escapes" by (simp add: string_escapes_def)
  moreover have "hex_val (CHR ''0'') = Some 0" "hex_val (CHR ''2'') = Some 2" "hex_val (CHR ''8'') = Some 8" "hex_val (CHR ''9'') = Some 9"
    by (simp_all add: hex_val_def in_range_def byte_val_def)
  ultimately show "scan_strings True (backslash # ''u2028'' @ t) = scan_strings True t"
    "scan_strings True (backslash # ''u2029'' @ t) = scan_strings True t"
    by (simp_all add: hex4_def)
qed

lemma quote_body_high:
  assumes "0 < rune_len s" and "\<not> ascii (hd s)"
  shows "quote_body s = take (rune_len s) s @ quote_body (drop (rune_len s) s) \<or>
    (\<exists>w \<in> {''u2028'', ''u2029''}. quote_body s = backslash # w @ quote_body (drop (rune_len s) s))"
proof -
  let ?r = "take (rune_len s) s" and ?q = "quote_body (drop (rune_len s) s)"
  have "s \<noteq> []" using assms(1) by (auto simp: rune_len_def)
  with assms have "quote_body s =
      (if ?r = [CHR 0xE2, CHR 0x80, CHR 0xA8] then backslash # ''u2028'' @ ?q
       else if ?r = [CHR 0xE2, CHR 0x80, CHR 0xA9] then backslash # ''u2029'' @ ?q else ?r @ ?q)"
    by (simp add: quote_body.simps [of s] Let_def)
  then show ?thesis by (metis insertI1 insertI2)
qed

lemma quote_body_scan_ascii:
  assumes "s \<noteq> []" and "ascii (hd s)"
  shows "valid_utf8 (quote_body s @ t) = valid_utf8 (quote_body (drop (rune_len s) s) @ t)"
    and "scan_strings True (quote_body s @ t) = scan_strings True (quote_body (drop (rune_len s) s) @ t)"
proof -
  have "quote_body s = escape (hd s) @ quote_body (drop (rune_len s) s)"
    using assms by (cases s) (simp_all add: quote_body_ascii rune_len_def)
  with scan_escape [OF assms(2)] valid_utf8_ascii_append [OF ascii_escape [OF assms(2)]]
  show "valid_utf8 (quote_body s @ t) = valid_utf8 (quote_body (drop (rune_len s) s) @ t)"
    "scan_strings True (quote_body s @ t) = scan_strings True (quote_body (drop (rune_len s) s) @ t)"
    by (simp_all only: append_assoc)
qed

lemma ascii_code_units: "list_all ascii (backslash # ''u2028'')" "list_all ascii (backslash # ''u2029'')"
  by (simp_all add: byte_val_def backslash_def)

lemma quote_body_scan_high:
  assumes "0 < rune_len s" and "\<not> ascii (hd s)"
  shows "valid_utf8 (quote_body s @ t) = valid_utf8 (quote_body (drop (rune_len s) s) @ t)"
    and "scan_strings True (quote_body s @ t) = scan_strings True (quote_body (drop (rune_len s) s) @ t)"
proof -
  let ?r = "take (rune_len s) s" and ?q = "quote_body (drop (rune_len s) s) @ t"
  consider "quote_body s @ t = ?r @ ?q" | "quote_body s @ t = (backslash # ''u2028'') @ ?q"
    | "quote_body s @ t = (backslash # ''u2029'') @ ?q"
    using quote_body_high [OF assms] by fastforce
  then have "valid_utf8 (quote_body s @ t) = valid_utf8 ?q \<and> scan_strings True (quote_body s @ t) = scan_strings True ?q"
  proof cases
    case 1
    show ?thesis
      unfolding 1 by (simp only: scan_high [OF rune_bytes [OF assms]] valid_utf8_append [OF valid_utf8_rune [OF assms(1)]])
  next
    case 2
    show ?thesis
      unfolding 2 using valid_utf8_ascii_append [OF ascii_code_units(1), of ?q] scan_code_unit(1) [of ?q] by (simp only: append_Cons)
  next
    case 3
    show ?thesis
      unfolding 3 using valid_utf8_ascii_append [OF ascii_code_units(2), of ?q] scan_code_unit(2) [of ?q] by (simp only: append_Cons)
  qed
  then show "valid_utf8 (quote_body s @ t) = valid_utf8 ?q" "scan_strings True (quote_body s @ t) = scan_strings True ?q"
    by auto
qed

lemma quote_body_scan:
  "valid_utf8 s \<Longrightarrow> valid_utf8 (quote_body s @ t) = valid_utf8 t \<and> scan_strings True (quote_body s @ t) = scan_strings True t"
proof (induction s rule: valid_utf8.induct)
  case (1 s)
  show ?case
  proof (cases "s = []")
    case ne: False
    with "1.prems" have n: "rune_len s \<noteq> 0" "valid_utf8 (drop (rune_len s) s)"
      by (simp_all add: valid_utf8.simps [of s] split: if_splits)
    from n(1) have "0 < rune_len s" by simp
    with "1.IH" [OF ne n] quote_body_scan_ascii [OF ne, of t] quote_body_scan_high [of s t] show ?thesis
      by (cases "ascii (hd s)") (simp_all only: simp_thms)
  qed simp
qed

lemma quote_scan:
  assumes "valid_utf8 s"
  shows "valid_utf8 (quote s @ t) = valid_utf8 t" and "scan_strings False (quote s @ t) = scan_strings False t"
  using quote_body_scan [OF assms, of "dquote # t"] by (simp_all add: quote_def valid_utf8_ascii)

text \<open>The same for a whole value: number literals are ASCII and hold no quote.\<close>

fun text_safe :: "json \<Rightarrow> bool" where
  "text_safe (JNum n) \<longleftrightarrow> list_all (\<lambda>c. ascii c \<and> c \<noteq> dquote) n"
| "text_safe (JStr s) \<longleftrightarrow> valid_utf8 s"
| "text_safe (JArr vs) \<longleftrightarrow> (\<forall>v \<in> set vs. text_safe v)"
| "text_safe (JObj ps) \<longleftrightarrow> (\<forall>(k, v) \<in> set ps. valid_utf8 k \<and> text_safe v)"
| "text_safe _ \<longleftrightarrow> True"

lemma plain_scan:
  assumes "list_all (\<lambda>c. ascii c \<and> c \<noteq> dquote) n"
  shows "valid_utf8 (n @ t) = valid_utf8 t" and "scan_strings False (n @ t) = scan_strings False t"
  using assms by (induction n) (auto simp: valid_utf8_ascii)

lemma newline_plain: "list_all (\<lambda>c. ascii c \<and> c \<noteq> dquote) (newline n)"
  by (auto simp: newline_def list_all_iff byte_val_def dquote_def)

lemma ascii_lits:
  "ascii (CHR ''['')" "ascii (CHR '']'')" "ascii (CHR 0x7B)" "ascii (CHR 0x7D)" "ascii (CHR '','')" "ascii (CHR '':'')" "ascii (CHR 0x20)"
  "CHR ''['' \<noteq> dquote" "CHR '']'' \<noteq> dquote" "CHR 0x7B \<noteq> dquote" "CHR 0x7D \<noteq> dquote" "CHR '','' \<noteq> dquote"
  "CHR '':'' \<noteq> dquote" "CHR 0x20 \<noteq> dquote"
  by (simp_all add: byte_val_def dquote_def)

lemma words_plain:
  "list_all (\<lambda>c. ascii c \<and> c \<noteq> dquote) ''null''" "list_all (\<lambda>c. ascii c \<and> c \<noteq> dquote) ''true''"
  "list_all (\<lambda>c. ascii c \<and> c \<noteq> dquote) ''false''"
  by (simp_all add: byte_val_def dquote_def)

lemmas scan_simps = plain_scan [OF newline_plain] quote_scan valid_utf8_ascii ascii_lits

lemma indent_scan:
  shows "text_safe v \<Longrightarrow> valid_utf8 (json_indent n v @ t) = valid_utf8 t \<and>
      scan_strings False (json_indent n v @ t) = scan_strings False t"
    and "\<forall>v \<in> set vs. text_safe v \<Longrightarrow> vs \<noteq> [] \<Longrightarrow> valid_utf8 (indent_elems n vs @ t) = valid_utf8 t \<and>
      scan_strings False (indent_elems n vs @ t) = scan_strings False t"
    and "\<forall>(k, v) \<in> set ps. valid_utf8 k \<and> text_safe v \<Longrightarrow> ps \<noteq> [] \<Longrightarrow>
      valid_utf8 (indent_members n ps @ t) = valid_utf8 t \<and>
      scan_strings False (indent_members n ps @ t) = scan_strings False t"
proof (induction n v and n vs and n ps arbitrary: t and t and t
    rule: json_indent_indent_elems_indent_members.induct, goal_cases)
  case 3
  then show ?case using plain_scan [OF words_plain(1)] by simp
next
  case 4
  then show ?case using plain_scan [OF words_plain(2)] plain_scan [OF words_plain(3)] by simp
qed (auto simp: scan_simps plain_scan)

lemma digits_plain: "list_all is_digit n \<Longrightarrow> list_all (\<lambda>c. ascii c \<and> c \<noteq> dquote) n"
  by (auto simp: list_all_iff is_digit_def in_range_def)

lemma format_int_plain: "list_all (\<lambda>c. ascii c \<and> c \<noteq> dquote) (format_int n)"
  using digits_plain [OF format_nat_digits(1)] by (auto simp: format_int_def byte_val_def dquote_def)

text \<open>A snapshot that the writer may commit.\<close>

definition entry_encodable :: "rev_entry \<Rightarrow> bool" where
  "entry_encodable e \<longleftrightarrow> valid_utf8 (e_Issuer e) \<and> valid_utf8 (e_KeyID e) \<and> in_int64 (e_RevokedAt e) \<and> in_int64 (e_RetainUntil e)"

definition snapshot_encodable :: "snapshot \<Rightarrow> bool" where
  "snapshot_encodable s \<longleftrightarrow> in_int64 (s_Version s) \<and> in_int64 (s_UpdatedAt s) \<and> (\<forall>e \<in> set (s_Entries s). entry_encodable e)"

definition member_names :: "string list" where
  "member_names = [''version'', ''generation'', ''updated_at'', ''entries'', ''issuer'', ''kid'', ''revoked_at'', ''retain_until'']"

lemma member_names_utf8: "k \<in> set member_names \<Longrightarrow> valid_utf8 k"
  by (auto simp: member_names_def valid_utf8_ascii byte_val_def)

lemma member_names_fold: "k \<in> set member_names \<Longrightarrow> asciiFoldSnapshotJSONMember k = k"
  by (auto simp: member_names_def asciiFoldSnapshotJSONMember_def ascii_lower_def byte_val_def)

lemma entry_text: "entry_encodable e \<Longrightarrow> text_safe (entry_json e) \<and> printable (entry_json e) \<and> depth (entry_json e) = 1"
  using member_names_utf8
  by (auto simp: entry_encodable_def entry_json_def format_int_plain lex_num_format_int member_names_def)

lemma lex_num_format_nat: "lex_num (format_nat n) = Some (format_nat n, [])"
  using lex_num_format_int [of "int n"] by (simp add: format_int_def)

lemma snapshot_text:
  assumes "snapshot_encodable s"
  shows "text_safe (snapshot_json s) \<and> printable (snapshot_json s) \<and> depth (snapshot_json s) \<le> maxNestingDepth"
proof -
  have e: "text_safe (entry_json e)" "printable (entry_json e)" "depth (entry_json e) = 1" if "e \<in> set (s_Entries s)" for e
    using assms that entry_text by (auto simp: snapshot_encodable_def)
  have "foldr max (map depth (map entry_json es)) 0 \<le> 1" if "set es \<subseteq> set (s_Entries s)" for es
    using that e(3) by (induction es) auto
  then have "foldr max (map depth (map entry_json (s_Entries s))) 0 \<le> 1" by blast
  with e assms member_names_utf8 show ?thesis
    by (auto simp: snapshot_json_def snapshot_encodable_def member_names_def format_int_plain lex_num_format_int
        lex_num_format_nat digits_plain format_nat_digits(1) maxNestingDepth_def)
qed

lemma scan_entry: "scanSnapshotJSONValue snapshotJSONEntry (entry_json e)"
  by (simp add: entry_json_def member_names_fold member_names_def snapshotJSONMemberScope_def)

lemma scan_snapshot: "scanSnapshotJSONValue snapshotJSONRoot (snapshot_json s)"
proof -
  have "scan_elems snapshotJSONEntry (map entry_json es)" for es by (induction es) (simp_all add: scan_entry)
  then show ?thesis
    by (simp add: snapshot_json_def member_names_fold member_names_def snapshotJSONMemberScope_def child_scope_def)
qed

lemma dec_entry_json: "entry_encodable e \<Longrightarrow> dec_entry (entry_json e) = Some e"
  by (simp add: entry_json_def dec_entry_def dec_entry_member_def dec_string_def dec_int_def parse_format_int
      entry_encodable_def zero_entry_def)

lemma dec_entries_json: "\<forall>e \<in> set es. entry_encodable e \<Longrightarrow> dec_entries (map entry_json es) = Some es"
  by (induction es) (auto simp: dec_entry_json)

lemma parse_format_uint: "parse_uint (format_nat (unat (g :: 64 word))) = Some g"
  using format_nat_digits [of "unat g"] digits_val_format [of "unat g"] unsigned_less [of g] by (simp add: parse_uint_def)

lemma dec_snapshot_json: "snapshot_encodable s \<Longrightarrow> dec_snapshot (snapshot_json s) = Some s"
  by (simp add: snapshot_json_def dec_snapshot_def dec_snapshot_member_def dec_int_def dec_uint_def parse_format_int
      parse_format_uint dec_entries_json snapshot_encodable_def zero_snapshot_def)

lemma decode_encode_snapshot:
  assumes "snapshot_encodable s" and "validateSnapshot s"
  shows "decode_snapshot (encode_snapshot s) = Inr s"
proof -
  note t = snapshot_text [OF assms(1)]
  have "valid_utf8 (encode_snapshot s)" "validateSnapshotJSONStrings (encode_snapshot s)"
    using indent_scan(1) [of "snapshot_json s" 0 "newline 0"] t plain_scan [OF newline_plain, of 0 "[]"]
    by (auto simp: encode_snapshot_def validateSnapshotJSONStrings_def)
  moreover have "json_parse (encode_snapshot s) = Some (snapshot_json s)"
    unfolding encode_snapshot_def using t by (intro json_indent_roundtrip) auto
  ultimately show ?thesis
    using assms scan_snapshot dec_snapshot_json by (simp add: decode_snapshot_def)
qed

section \<open>The writer\<close>

text \<open>The file holds a snapshot: secure directory, private regular file, the bytes of the snapshot.\<close>

definition holds :: "rev_fs \<Rightarrow> snapshot \<Rightarrow> bool" where
  "holds fs s \<longleftrightarrow>
     validateSecureParent fs = None \<and>
     fs_file fs = Some \<lparr>f_kind = RegularFile, f_perm = 384, f_content = encode_snapshot s\<rparr> \<and>
     snapshot_encodable s \<and> validateSnapshot s \<and> length (encode_snapshot s) \<le> maxSnapshotBytes"

lemma readSnapshot_holds:
  assumes "holds fs s"
  shows "readSnapshot sha256 io fs = (if io_read io then Inr (s, sha256 (encode_snapshot s)) else Inl ErrIO)"
proof -
  have "and (384 :: 9 word) 63 = 0" by simp
  with assms decode_encode_snapshot [of s] show ?thesis by (auto simp: holds_def readSnapshot_def)
qed

lemma ensureSecureParent_holds:
  assumes "holds fs s"
  shows "ensureSecureParent io fs = (if io_mkdir io then None else Some ErrIO, fs)"
  using assms by (auto simp: holds_def ensureSecureParent_def validateSecureParent_def Let_def split: option.splits)

text \<open>The atomic write either leaves the file or replaces it completely, also when it reports an error.\<close>

lemma writeSnapshotAtomic_cases:
  assumes "holds fs s" and "snapshot_encodable s'" and "writeSnapshotAtomic io s' fs = (err, fs')"
  shows "(fs' = fs \<and> err \<noteq> None) \<or> holds fs' s'"
  using assms(3) ensureSecureParent_holds [OF assms(1), of io] assms(1,2)
  by (auto simp: writeSnapshotAtomic_def Let_def holds_def validateSecureParent_def split: if_splits)

lemma writeSnapshotAtomic_fresh:
  assumes "snapshot_encodable s'" and "writeSnapshotAtomic io s' fs = (None, fs')"
  shows "holds fs' s'"
proof -
  obtain fs1 where e: "ensureSecureParent io fs = (None, fs1)"
    using assms(2) by (cases "ensureSecureParent io fs") (auto simp: writeSnapshotAtomic_def split: option.splits)
  then have "validateSecureParent fs1 = None" by (auto simp: ensureSecureParent_def Let_def split: if_splits)
  with e assms show ?thesis
    by (auto simp: writeSnapshotAtomic_def Let_def holds_def validateSecureParent_def split: if_splits)
qed

definition same_key :: "rev_entry \<Rightarrow> rev_entry \<Rightarrow> bool" where
  "same_key e e' \<longleftrightarrow> e_Issuer e = e_Issuer e' \<and> e_KeyID e = e_KeyID e'"

text \<open>No tombstone that is live at \<open>now\<close> is lost or shortened.\<close>

definition keeps_live :: "int \<Rightarrow> rev_entry list \<Rightarrow> rev_entry list \<Rightarrow> bool" where
  "keeps_live now es es' \<longleftrightarrow>
     (\<forall>e \<in> set es. now < e_RetainUntil e \<longrightarrow> (\<exists>e' \<in> set es'. same_key e e' \<and> e_RetainUntil e \<le> e_RetainUntil e'))"

definition tombstone :: "string \<Rightarrow> string \<Rightarrow> int \<Rightarrow> rev_entry list \<Rightarrow> bool" where
  "tombstone issuer keyID until es \<longleftrightarrow>
     (\<exists>e \<in> set es. e_Issuer e = issuer \<and> e_KeyID e = keyID \<and> until \<le> e_RetainUntil e)"

lemma revoke_loop_spec:
  assumes "revoke_loop now issuer keyID desired es = (kept, found, changed)"
  shows "keeps_live now es kept \<and> (found \<longrightarrow> tombstone issuer keyID desired kept) \<and>
    (\<not> changed \<longrightarrow> kept = es) \<and>
    (\<forall>e' \<in> set kept. \<exists>e \<in> set es. same_key e e' \<and> e_RevokedAt e' = e_RevokedAt e \<and>
       e_RetainUntil e' \<in> {e_RetainUntil e, desired})"
  using assms
proof (induction es arbitrary: kept found changed)
  case Nil
  then show ?case by (simp add: keeps_live_def)
next
  case (Cons item items)
  obtain kept0 found0 changed0 where r: "revoke_loop now issuer keyID desired items = (kept0, found0, changed0)"
    by (cases "revoke_loop now issuer keyID desired items") auto
  note IH = Cons.IH [OF r]
  have k: "keeps_live now items kept0 \<Longrightarrow> same_key item e' \<Longrightarrow> e_RetainUntil item \<le> e_RetainUntil e' \<Longrightarrow>
      keeps_live now (item # items) (e' # kept0)" for e'
    by (auto simp: keeps_live_def)
  have t: "tombstone issuer keyID desired kept0 \<Longrightarrow> tombstone issuer keyID desired (e' # kept0)" for e'
    by (auto simp: tombstone_def)
  consider "e_RetainUntil item \<le> now" "kept = kept0" "found = found0" "changed"
    | "e_Issuer item = issuer" "e_KeyID item = keyID" "e_RetainUntil item < desired"
      "kept = item\<lparr>e_RetainUntil := desired\<rparr> # kept0" "found" "changed"
    | "e_Issuer item = issuer" "e_KeyID item = keyID" "desired \<le> e_RetainUntil item" "kept = item # kept0" "changed = changed0"
    | "kept = item # kept0" "found = found0" "changed = changed0"
    using Cons.prems r by (auto simp: Let_def split: if_splits)
  then show ?case
  proof cases
    case 1
    with IH show ?thesis by (auto simp: keeps_live_def)
  next
    case 2
    with IH k [of "item\<lparr>e_RetainUntil := desired\<rparr>"] show ?thesis by (auto simp: same_key_def tombstone_def)
  next
    case 3
    with IH k [of item] show ?thesis by (auto simp: same_key_def tombstone_def)
  next
    case 4
    with IH k [of item] t show ?thesis by (auto simp: same_key_def)
  qed
qed

lemma next_snapshot_spec:
  assumes "next_snapshot now issuer keyID ttl s = r"
  defines "desired \<equiv> desiredRetention now ttl"
  shows "case r of
      None \<Rightarrow> tombstone issuer keyID desired (s_Entries s)
    | Some s' \<Rightarrow> tombstone issuer keyID desired (s_Entries s') \<and> keeps_live (unix now) (s_Entries s) (s_Entries s') \<and>
        s_Generation s' = s_Generation s + 1 \<and> s_UpdatedAt s' = unix now \<and> s_Version s' = snapshotVersion \<and>
        (\<forall>e' \<in> set (s_Entries s'). (e_Issuer e' = issuer \<and> e_KeyID e' = keyID \<and> e_RevokedAt e' = unix now \<and> e_RetainUntil e' = desired) \<or>
           (\<exists>e \<in> set (s_Entries s). same_key e e' \<and> e_RevokedAt e' = e_RevokedAt e \<and> e_RetainUntil e' \<in> {e_RetainUntil e, desired}))"
proof -
  obtain kept found changed where l: "revoke_loop (unix now) issuer keyID desired (s_Entries s) = (kept, found, changed)"
    by (cases "revoke_loop (unix now) issuer keyID desired (s_Entries s)") auto
  note sp = revoke_loop_spec [OF l]
  show ?thesis
  proof (cases found)
    case True
    with sp l assms show ?thesis by (cases changed) (auto simp: next_snapshot_def Let_def keeps_live_def tombstone_def)
  next
    case False
    then have "r = Some \<lparr>s_Version = snapshotVersion, s_Generation = s_Generation s + 1, s_UpdatedAt = unix now,
        s_Entries = sort_key entry_key (kept @ [\<lparr>e_Issuer = issuer, e_KeyID = keyID, e_RevokedAt = unix now, e_RetainUntil = desired\<rparr>])\<rparr>"
      using assms l by (simp add: next_snapshot_def Let_def)
    with sp show ?thesis by (auto simp: keeps_live_def tombstone_def)
  qed
qed

lemma next_snapshot_encodable:
  assumes "next_snapshot now issuer keyID ttl s = Some s'" and "snapshot_encodable s"
    and "valid_utf8 issuer" and "valid_utf8 keyID" and "in_int64 (unix now)" and "in_int64 (desiredRetention now ttl)"
  shows "snapshot_encodable s'"
proof -
  note sp = next_snapshot_spec [OF assms(1)]
  have "entry_encodable e'" if "e' \<in> set (s_Entries s')" for e'
    using sp that assms(2-6) by (fastforce simp: entry_encodable_def snapshot_encodable_def same_key_def)
  with sp assms(5) show ?thesis by (simp add: snapshot_encodable_def snapshotVersion_def int64_defs)
qed

lemma rev_Revoke_cases:
  assumes "holds fs s" and "rev_Revoke sha256 io tries path timeout issuer keyID now ttl fs = (res, fs')"
  shows "(fs' = fs \<and> (\<exists>err. res = Inl err)) \<or>
    (fs' = fs \<and> res = Inr (commitResult s False) \<and> next_snapshot now issuer keyID ttl s = None) \<or>
    (\<exists>s' err. next_snapshot now issuer keyID ttl s = Some s' \<and> writeSnapshotAtomic io s' fs = (err, fs') \<and>
       res = (case err of None \<Rightarrow> Inr (commitResult s' True) | Some e \<Rightarrow> Inl e))"
  using assms(2) ensureSecureParent_holds [OF assms(1), of io] readSnapshot_holds [OF assms(1), of sha256 io]
  by (auto simp: rev_Revoke_def split: if_splits option.splits prod.splits)

lemma revoke_outcome:
  assumes "holds fs s" and "rev_Revoke sha256 io tries path timeout issuer keyID now ttl fs = (res, fs')"
    and "valid_utf8 issuer" and "valid_utf8 keyID" and "in_int64 (unix now)" and "in_int64 (desiredRetention now ttl)"
  obtains (unchanged) "fs' = fs"
      and "\<And>r. res = Inr r \<Longrightarrow> r = commitResult s False \<and> next_snapshot now issuer keyID ttl s = None"
    | (replaced) s' where "holds fs' s'" and "next_snapshot now issuer keyID ttl s = Some s'"
      and "\<And>r. res = Inr r \<Longrightarrow> r = commitResult s' True"
proof -
  consider (same) "fs' = fs" "\<And>r. res = Inr r \<Longrightarrow> r = commitResult s False \<and> next_snapshot now issuer keyID ttl s = None"
    | (wrote) s' err where "next_snapshot now issuer keyID ttl s = Some s'" "writeSnapshotAtomic io s' fs = (err, fs')"
        "res = (case err of None \<Rightarrow> Inr (commitResult s' True) | Some e \<Rightarrow> Inl e)"
    using rev_Revoke_cases [OF assms(1,2)] by auto
  then show thesis
  proof cases
    case wrote
    have enc: "snapshot_encodable s'"
      using next_snapshot_encodable [OF wrote(1)] assms by (simp add: holds_def)
    show thesis
    proof (cases "holds fs' s'")
      case True
      with wrote replaced show thesis by (auto split: option.splits)
    next
      case False
      with writeSnapshotAtomic_cases [OF assms(1) enc wrote(2)] have "fs' = fs" "err \<noteq> None" by auto
      with wrote(3) unchanged show thesis by auto
    qed
  qed (use unchanged in blast)
qed

lemma keeps_live_refl: "keeps_live now es es"
  by (auto simp: keeps_live_def same_key_def)

lemma revoke_success:
  assumes "holds fs s" and "rev_Revoke sha256 io tries path timeout issuer keyID now ttl fs = (Inr r, fs')"
    and "valid_utf8 issuer" and "valid_utf8 keyID" and "in_int64 (unix now)" and "in_int64 (desiredRetention now ttl)"
  obtains s' where "holds fs' s'" and "keeps_live (unix now) (s_Entries s) (s_Entries s')"
    and "s' = s \<or> s_Generation s' = s_Generation s + 1"
    and "tombstone issuer keyID (desiredRetention now ttl) (s_Entries s')"
proof (rule revoke_outcome [OF assms])
  assume "fs' = fs" "\<And>r'. Inr r = (Inr r' :: rev_error + CommitResult) \<Longrightarrow> r' = commitResult s False \<and> next_snapshot now issuer keyID ttl s = None"
  then show thesis
    using next_snapshot_spec [of now issuer keyID ttl s None] assms(1) keeps_live_refl that [of s] by auto
next
  fix s' assume "holds fs' s'" "next_snapshot now issuer keyID ttl s = Some s'"
  then show thesis using next_snapshot_spec [of now issuer keyID ttl s "Some s'"] that [of s'] by auto
qed

text \<open>
  C30. Revoking is durable and forgets nothing: when the file holds a snapshot, then after \<open>Revoke\<close>,
  whether it reports success or any error, the file holds a complete snapshot in which every
  tombstone that was live is still there with at least its retention; the generation is the old
  one or the next. On success the key has a tombstone that lasts at least the maximum token
  lifetime plus the clock skew, and reading the file gives exactly that snapshot.
\<close>

theorem revoke_is_durable:
  assumes "holds fs s" and "rev_Revoke sha256 io tries path timeout issuer keyID now ttl fs = (res, fs')"
    and "valid_utf8 issuer" and "valid_utf8 keyID" and "in_int64 (unix now)" and "in_int64 (desiredRetention now ttl)"
  shows "\<exists>s'. holds fs' s' \<and> keeps_live (unix now) (s_Entries s) (s_Entries s') \<and>
    (s' = s \<or> s_Generation s' = s_Generation s + 1) \<and>
    (\<forall>io'. io_read io' \<longrightarrow> readSnapshot sha256 io' fs' = Inr (s', sha256 (encode_snapshot s'))) \<and>
    (\<forall>r. res = Inr r \<longrightarrow> tombstone issuer keyID (desiredRetention now ttl) (s_Entries s') \<and>
       cr_Generation r = s_Generation s' \<and> (cr_Changed r \<longleftrightarrow> s_Generation s' = s_Generation s + 1))"
proof (rule revoke_outcome [OF assms])
  assume same: "fs' = fs" "\<And>r. res = Inr r \<Longrightarrow> r = commitResult s False \<and> next_snapshot now issuer keyID ttl s = None"
  have "keeps_live (unix now) (s_Entries s) (s_Entries s)" by (rule keeps_live_refl)
  moreover have "tombstone issuer keyID (desiredRetention now ttl) (s_Entries s)" if "next_snapshot now issuer keyID ttl s = None"
    using next_snapshot_spec [OF that] by simp
  ultimately show ?thesis
    using same assms(1) readSnapshot_holds [OF assms(1)] by (intro exI [of _ s]) (auto simp: commitResult_def)
next
  fix s'
  assume new: "holds fs' s'" "next_snapshot now issuer keyID ttl s = Some s'" "\<And>r. res = Inr r \<Longrightarrow> r = commitResult s' True"
  with next_snapshot_spec [OF new(2)] readSnapshot_holds [OF new(1)] show ?thesis
    by (intro exI [of _ s']) (auto simp: commitResult_def)
qed

lemma rev_Init_holds:
  assumes "fs_file fs = None" and "rev_Init sha256 io tries path timeout now fs = (Inr r, fs')" and "in_int64 (unix now)"
  shows "holds fs' \<lparr>s_Version = snapshotVersion, s_Generation = 1, s_UpdatedAt = unix now, s_Entries = []\<rparr>"
proof -
  let ?s = "\<lparr>s_Version = snapshotVersion, s_Generation = 1, s_UpdatedAt = unix now, s_Entries = []\<rparr>"
  obtain fs1 where e: "ensureSecureParent io fs = (None, fs1)"
    using assms(2) by (cases "ensureSecureParent io fs") (auto simp: rev_Init_def split: if_splits option.splits)
  then have "fs_file fs1 = None" using assms(1) by (auto simp: ensureSecureParent_def Let_def split: if_splits option.splits)
  with e have "readSnapshot sha256 io fs1 = Inl ErrNotExist"
    by (auto simp: readSnapshot_def ensureSecureParent_def Let_def split: if_splits option.splits)
  with e assms(2) have "writeSnapshotAtomic io ?s fs1 = (None, fs')"
    by (auto simp: rev_Init_def Let_def split: if_splits option.splits prod.splits)
  then show ?thesis
    by (rule writeSnapshotAtomic_fresh [rotated]) (use assms(3) in \<open>auto simp: snapshot_encodable_def snapshotVersion_def int64_defs\<close>)
qed

section \<open>The reader\<close>

lemma Refresh_keeps:
  assumes "rs_revoked c k = Some r" and "unix now < r" and "fst (Refresh sha256 io now fs (Some c)) = Some c'"
  shows "\<exists>r'. rs_revoked c' k = Some r' \<and> r \<le> r'"
proof (cases "readSnapshot sha256 io fs")
  case (Inl err)
  with assms show ?thesis by (auto simp: Refresh_def refresh_failed_def)
next
  case (Inr p)
  obtain sn d where p: "p = (sn, d)" by fastforce
  let ?new = "publish_entries (unix now) (s_Entries sn) Map.empty"
  show ?thesis
  proof (cases "rs_err c' = None \<and> rs_revoked c' = ?new \<and> \<not> forgets (unix now) (rs_revoked c) ?new")
    case True
    then have "\<not> forgets (unix now) (rs_revoked c) ?new" by blast
    with assms(1,2) have "case ?new k of None \<Rightarrow> False | Some r' \<Rightarrow> r \<le> r'"
      by (force simp: forgets_def dom_def split: option.splits)
    with True show ?thesis by (auto split: option.splits)
  next
    case False
    with Inr p assms(3) have "c' = c\<lparr>rs_err := Some ErrRollback\<rparr>"
      by (auto simp: Refresh_def refresh_failed_def Let_def split: if_splits)
    with assms(1) show ?thesis by simp
  qed
qed

lemma Refresh_Some: "\<exists>c'. fst (Refresh sha256 io now fs st) = Some c'"
  by (auto simp: Refresh_def Let_def split: sum.split)

lemma poll_keeps:
  assumes "rs_revoked c k = Some r" and "\<forall>(io, now, fs) \<in> set ticks. unix now < r"
  shows "\<exists>c' r'. poll sha256 ticks (Some c) = Some c' \<and> rs_revoked c' k = Some r' \<and> r \<le> r'"
  using assms
proof (induction ticks arbitrary: c r)
  case Nil
  then show ?case by auto
next
  case (Cons a ticks)
  obtain io now fs where a: "a = (io, now, fs)" by (cases a)
  obtain c1 where c1: "fst (Refresh sha256 io now fs (Some c)) = Some c1" using Refresh_Some by blast
  from Cons.prems a have "unix now < r" by simp
  from Refresh_keeps [OF Cons.prems(1) this c1] obtain r1 where r1: "rs_revoked c1 k = Some r1" "r \<le> r1" by blast
  with Cons.prems(2) have "\<forall>(io, now, fs) \<in> set ticks. unix now < r1" by fastforce
  from Cons.IH [OF r1(1) this] r1(2) c1 a show ?case by fastforce
qed

text \<open>
  C20. A published tombstone outlives every change of the file: once the reader has published that a
  key is revoked until \<open>r\<close>, then whatever files it finds at its refreshes before \<open>r\<close>, missing,
  corrupted, rolled back or replaced, no check of that key says that it is not revoked.
\<close>

theorem tombstone_survives:
  assumes "rs_revoked st (revocationKey issuer keyID) = Some r"
    and "\<forall>(io, now, fs) \<in> set ticks. unix now < r"
  shows "rev_Check cancelled issuer keyID (poll sha256 ticks (Some st)) \<noteq> NotRevoked"
  using poll_keeps [OF assms, of sha256] by (auto simp: rev_Check_def split: if_splits)

abbreviation ekey :: "rev_entry \<Rightarrow> string" where
  "ekey e \<equiv> revocationKey (e_Issuer e) (e_KeyID e)"

lemma publish_other: "k \<notin> ekey ` set es \<Longrightarrow> publish_entries now es m k = m k"
  by (induction es arbitrary: m) auto

lemma publish_live:
  "distinct (map ekey es) \<Longrightarrow> e \<in> set es \<Longrightarrow> now < e_RetainUntil e \<Longrightarrow>
     publish_entries now es m (ekey e) = Some (e_RetainUntil e)"
proof (induction es arbitrary: m)
  case (Cons a es)
  then show ?case
  proof (cases "e = a")
    case True
    with Cons.prems have "ekey e \<notin> ekey ` set es" by simp
    with True Cons.prems(3) publish_other [of "ekey e" es] show ?thesis by simp
  next
    case False
    with Cons show ?thesis by simp
  qed
qed simp

lemma publish_Some:
  "publish_entries now es m k = Some r \<Longrightarrow>
     m k = Some r \<or> (\<exists>e \<in> set es. ekey e = k \<and> e_RetainUntil e = r \<and> now < r)"
proof (induction es arbitrary: m)
  case (Cons a es)
  from Cons.IH [of "if now < e_RetainUntil a then m(ekey a \<mapsto> e_RetainUntil a) else m"] Cons.prems
  show ?case by (auto split: if_splits)
qed simp

lemma validate_entries_distinct:
  "validate_entries es seen \<Longrightarrow> distinct (map ekey es) \<and> ekey ` set es \<inter> seen = {}"
  by (induction es arbitrary: seen) auto

lemma holds_distinct: "holds fs s \<Longrightarrow> distinct (map ekey (s_Entries s))"
  using validate_entries_distinct by (auto simp: holds_def validateSnapshot_def)

lemma decode_snapshot_valid: "decode_snapshot raw = Inr s \<Longrightarrow> validateSnapshot s"
  by (auto simp: decode_snapshot_def split: if_splits option.splits)

lemma readSnapshot_valid: "readSnapshot sha256 io fs = Inr (s, d) \<Longrightarrow> validateSnapshot s"
  by (auto simp: readSnapshot_def dest: decode_snapshot_valid split: if_splits option.splits sum.splits)

text \<open>
  The reader fails closed: a check says that a key is not revoked only when the refresh before it
  read a complete valid snapshot, of a generation not below the one published before and not
  dropping a live tombstone, in which the key has no live tombstone. After any error the answer
  is that no decision can be made, until a refresh succeeds.
\<close>

theorem not_revoked_only_from_valid_snapshot:
  assumes "rev_Check cancelled issuer keyID (fst (Refresh sha256 io now fs current)) = NotRevoked"
  shows "\<exists>s d. readSnapshot sha256 io fs = Inr (s, d) \<and> validateSnapshot s \<and>
    \<not> tombstone issuer keyID (unix now + 1) (s_Entries s) \<and>
    (\<forall>c. current = Some c \<longrightarrow> rs_generation c \<le> s_Generation s \<and>
       (\<forall>k r. rs_revoked c k = Some r \<and> unix now < r \<longrightarrow>
          (\<exists>e \<in> set (s_Entries s). ekey e = k \<and> r \<le> e_RetainUntil e)))"
proof (cases "readSnapshot sha256 io fs")
  case (Inl err)
  with assms show ?thesis by (auto simp: Refresh_def rev_Check_def refresh_failed_def split: if_splits option.splits)
next
  case (Inr p)
  obtain s d where p: "p = (s, d)" by fastforce
  let ?new = "publish_entries (unix now) (s_Entries s) Map.empty"
  have r: "rs_generation c \<le> s_Generation s" "\<not> forgets (unix now) (rs_revoked c) ?new" if "current = Some c" for c
    using that assms Inr p
    by (auto simp: Refresh_def rev_Check_def refresh_failed_def Let_def not_less split: if_splits)
  have none: "?new (revocationKey issuer keyID) = None"
    using assms Inr p by (auto simp: Refresh_def rev_Check_def refresh_failed_def Let_def split: if_splits option.splits)
  have v: "validateSnapshot s" using readSnapshot_valid Inr p by blast
  then have dist: "distinct (map ekey (s_Entries s))"
    using validate_entries_distinct by (auto simp: validateSnapshot_def)
  have "\<not> tombstone issuer keyID (unix now + 1) (s_Entries s)"
    using none publish_live [OF dist, where m = Map.empty and now = "unix now"] by (fastforce simp: tombstone_def)
  moreover have "\<exists>e \<in> set (s_Entries s). ekey e = k \<and> t \<le> e_RetainUntil e"
    if "current = Some c" "rs_revoked c k = Some t" "unix now < t" for c k t
  proof -
    from r(2) [OF that(1)] that(2,3) obtain t' where "?new k = Some t'" "t \<le> t'"
      by (force simp: forgets_def dom_def split: option.splits)
    with publish_Some [of "unix now" "s_Entries s" Map.empty k t'] show ?thesis by auto
  qed
  ultimately show ?thesis using Inr p v r(1) by blast
qed

lemma generation_grows: "(g :: 64 word) + 1 \<noteq> 0 \<Longrightarrow> g < g + 1"
  using unatSuc [of g] by (simp add: word_less_nat_alt add.commute)

text \<open>
  C37. A revocation reaches the request path: when the reader has published the snapshot the file
  holds, and a key is then revoked successfully, the next refresh that can read the file and runs no
  earlier than the revocation succeeds, and until the retention ends every check of that key
  answers that it is revoked.
\<close>

theorem revocation_reaches_reader:
  assumes "holds fs s" and "rev_Revoke sha256 io tries path timeout issuer keyID now ttl fs = (Inr r, fs')"
    and "valid_utf8 issuer" and "valid_utf8 keyID" and "in_int64 (unix now)" and "in_int64 (desiredRetention now ttl)"
    and "fst (Refresh sha256 io0 now0 fs None) = Some c" and "rs_err c = None"
    and "io_read io'" and "now \<le> t" and "unix t < desiredRetention now ttl"
  shows "snd (Refresh sha256 io' t fs' (Some c)) = None \<and>
    rev_Check False issuer keyID (fst (Refresh sha256 io' t fs' (Some c))) = Revoked"
proof -
  obtain s' where s': "holds fs' s'" "keeps_live (unix now) (s_Entries s) (s_Entries s')"
      "s' = s \<or> s_Generation s' = s_Generation s + 1" "tombstone issuer keyID (desiredRetention now ttl) (s_Entries s')"
    using revoke_success [OF assms(1-6)] .
  have c: "c = \<lparr>rs_generation = s_Generation s, rs_digest = sha256 (encode_snapshot s),
      rs_revoked = publish_entries (unix now0) (s_Entries s) Map.empty, rs_err = None\<rparr>"
    using assms(7,8) readSnapshot_holds [OF assms(1), of sha256 io0]
    by (auto simp: Refresh_def refresh_failed_def Let_def split: if_splits)
  let ?new = "publish_entries (unix t) (s_Entries s') Map.empty"
  have live: "?new (ekey e) = Some (e_RetainUntil e)" if "e \<in> set (s_Entries s')" "unix t < e_RetainUntil e" for e
    using that by (rule publish_live [OF holds_distinct [OF s'(1)]])
  have "\<not> (s_Generation s' < s_Generation s \<or> (s_Generation s' = s_Generation s \<and> encode_snapshot s' \<noteq> encode_snapshot s))"
    using s'(1,3) generation_grows [of "s_Generation s"] by (auto simp: holds_def validateSnapshot_def)
  moreover have "\<not> forgets (unix t) (rs_revoked c) ?new"
  proof -
    have "\<exists>x. ?new k = Some x \<and> v \<le> x" if old: "rs_revoked c k = Some v" "unix t < v" for k v
    proof -
      from old(1) obtain e where e: "e \<in> set (s_Entries s)" "ekey e = k" "e_RetainUntil e = v"
        using publish_Some [of "unix now0" "s_Entries s" Map.empty k v] c by auto
      have "unix now \<le> unix t" using assms(10) by (rule unix_mono)
      with e old(2) s'(2) obtain e' where "e' \<in> set (s_Entries s')" "same_key e e'" "v \<le> e_RetainUntil e'"
        by (fastforce simp: keeps_live_def)
      with live [of e'] e(2) old(2) show ?thesis by (auto simp: same_key_def)
    qed
    then show ?thesis by (fastforce simp: forgets_def split: option.splits)
  qed
  moreover have "?new (revocationKey issuer keyID) \<noteq> None"
    using s'(4) live assms(11) by (fastforce simp: tombstone_def)
  ultimately show ?thesis
    using readSnapshot_holds [OF s'(1), of sha256 io'] assms(9) c by (auto simp: Refresh_def Let_def rev_Check_def)
qed

section \<open>Witnesses\<close>

definition all_io :: rev_io where
  "all_io = \<lparr>io_mkdir = True, io_read = True, io_temp = True, io_lstat = True, io_rename = True, io_dirsync = True\<rparr>"

definition example_snapshot :: snapshot where
  "example_snapshot = \<lparr>s_Version = 1, s_Generation = 1, s_UpdatedAt = 5, s_Entries = []\<rparr>"

definition example_next :: snapshot where
  "example_next = \<lparr>s_Version = 1, s_Generation = 2, s_UpdatedAt = 5,
     s_Entries = [\<lparr>e_Issuer = ''i'', e_KeyID = ''vk'', e_RevokedAt = 5, e_RetainUntil = 69\<rparr>]\<rparr>"

definition example_fs :: "snapshot \<Rightarrow> rev_fs" where
  "example_fs s = \<lparr>fs_dir = Some \<lparr>d_symlink = False, d_isdir = True, d_perm = 448\<rparr>,
     fs_file = Some \<lparr>f_kind = RegularFile, f_perm = 384, f_content = encode_snapshot s\<rparr>\<rparr>"

lemmas example_text = encode_snapshot_def snapshot_json_def entry_json_def newline_def length_quote_word word_char_def
  in_range_def byte_val_def format_int_def format_nat.simps maxSnapshotBytes_def

lemma example_holds: "holds (example_fs example_snapshot) example_snapshot"
proof -
  have "and (448 :: 9 word) 18 = 0" by simp
  moreover have "length (encode_snapshot example_snapshot) \<le> maxSnapshotBytes"
    by (simp add: example_snapshot_def example_text)
  ultimately show ?thesis
    by (simp add: holds_def example_fs_def validateSecureParent_def snapshot_encodable_def example_snapshot_def
        validateSnapshot_def snapshotVersion_def int64_defs)
qed

lemma example_next_snapshot:
  "next_snapshot (5 * second) ''i'' ''vk'' (4 * second) example_snapshot = Some example_next"
  by (simp add: next_snapshot_def example_snapshot_def example_next_def desiredRetention_def revocationClockSkew_def
      unix_def second_def snapshotVersion_def)

lemma example_revoke:
  "rev_Revoke sha256 all_io [FlockBusy, FlockOK] ''p'' second ''i'' ''vk'' (5 * second) (4 * second) (example_fs example_snapshot)
     = (Inr (commitResult example_next True), example_fs example_next)"
proof -
  have "trim_space ''p'' = ''p''" by (simp add: trim_space_plain graphic_def)
  moreover have "length (encode_snapshot example_next) \<le> maxSnapshotBytes"
    by (simp add: example_next_def example_text)
  moreover have "validateSnapshot example_next"
    by (simp add: validateSnapshot_def example_next_def snapshotVersion_def maxSnapshotEntries_def example_trim
        MaxRevocableIdentifierBytes_def)
  ultimately show ?thesis
    using ensureSecureParent_holds [OF example_holds, of all_io] readSnapshot_holds [OF example_holds, of sha256 all_io]
      example_next_snapshot example_trim
    by (simp add: rev_Revoke_def writeSnapshotAtomic_def validateWriterConfig_def all_io_def second_def vk_limits
        max_int64_def Let_def example_fs_def)
qed

lemma example_bounds:
  "valid_utf8 ''i''" "valid_utf8 ''vk''" "in_int64 (unix (5 * second))" "in_int64 (desiredRetention (5 * second) (4 * second))"
  by (simp_all add: valid_utf8_ascii byte_val_def unix_def second_def int64_defs desiredRetention_def revocationClockSkew_def)

theorem revoke_is_durable_witness:
  "\<exists>s'. holds (example_fs example_next) s' \<and> tombstone ''i'' ''vk'' 69 (s_Entries s')"
proof -
  from revoke_is_durable [OF example_holds example_revoke example_bounds, of "\<lambda>x. x"]
  obtain s' where "holds (example_fs example_next) s'"
      "tombstone ''i'' ''vk'' (desiredRetention (5 * second) (4 * second)) (s_Entries s')" by auto
  then show ?thesis
    by (intro exI [of _ s']) (simp add: desiredRetention_def revocationClockSkew_def unix_def second_def)
qed

theorem tombstone_survives_witness:
  "rev_Check False ''i'' ''vk'' (poll (\<lambda>x. x) [(all_io, 6 * second, example_fs example_snapshot),
       (all_io, 7 * second, \<lparr>fs_dir = None, fs_file = None\<rparr>)]
     (Some \<lparr>rs_generation = 2, rs_digest = [], rs_revoked = [revocationKey ''i'' ''vk'' \<mapsto> 69], rs_err = None\<rparr>)) \<noteq> NotRevoked"
  by (rule tombstone_survives [where r = 69]) (simp_all add: unix_def second_def)

lemma example_published:
  "Refresh (\<lambda>x. x) all_io (5 * second) (example_fs example_snapshot) None =
     (Some \<lparr>rs_generation = 1, rs_digest = encode_snapshot example_snapshot, rs_revoked = Map.empty, rs_err = None\<rparr>, None)"
  using readSnapshot_holds [OF example_holds, of "\<lambda>x. x" all_io]
  by (simp add: Refresh_def all_io_def example_snapshot_def)

theorem not_revoked_only_from_valid_snapshot_witness:
  "\<exists>s d. readSnapshot (\<lambda>x. x) all_io (example_fs example_snapshot) = Inr (s, d) \<and>
     \<not> tombstone ''i'' ''vk'' (unix (5 * second) + 1) (s_Entries s)"
proof -
  have "rev_Check False ''i'' ''vk'' (fst (Refresh (\<lambda>x. x) all_io (5 * second) (example_fs example_snapshot) None)) = NotRevoked"
    unfolding example_published by (simp add: rev_Check_def)
  from not_revoked_only_from_valid_snapshot [OF this] show ?thesis by blast
qed

theorem revocation_reaches_reader_witness:
  "rev_Check False ''i'' ''vk'' (fst (Refresh (\<lambda>x. x) all_io (6 * second) (example_fs example_next)
     (Some \<lparr>rs_generation = 1, rs_digest = encode_snapshot example_snapshot, rs_revoked = Map.empty, rs_err = None\<rparr>))) = Revoked"
proof -
  from example_published have p: "fst (Refresh (\<lambda>x. x) all_io (5 * second) (example_fs example_snapshot) None) =
      Some \<lparr>rs_generation = 1, rs_digest = encode_snapshot example_snapshot, rs_revoked = Map.empty, rs_err = None\<rparr>" by simp
  have "5 * second \<le> 6 * second" "unix (6 * second) < desiredRetention (5 * second) (4 * second)" "io_read all_io"
    by (simp_all add: unix_def second_def desiredRetention_def revocationClockSkew_def all_io_def)
  then show ?thesis
    using revocation_reaches_reader [OF example_holds example_revoke example_bounds p _ \<open>io_read all_io\<close>] by simp
qed

end
