(* ===== verification/Gateway_Middleware.thy ===== *)
theory Gateway_Middleware
  imports Upstream_Engine Circuit_Router Rate_Limit Quota_Budget Revocation_Log Redaction_Scanner
    "HOL-Library.Char_ord" "HOL-Library.List_Lexorder"
begin

text \<open>
  The policy middleware of \<open>internal/middleware\<close>: body handling, authentication, rate limiting,
  quota, redaction, routing, key injection, adaptation, proxying and the model list, each as a
  middleware over the pipeline's state extended with the components they share (limiter, quota
  manager, circuit breakers) and with a log of the two effects that matter for safety: a provider
  key was fetched, a request was sent.

  What lies outside is in the environment record: clock readings, random draws, the network,
  \<open>url.Parse\<close> with reference resolution and the keyed hash.
\<close>

section \<open>State and environment\<close>

datatype gw_event = KeyFetched string | Sent upstream_request

record gateway = gw +
  gs_limiter :: memoryLimiter
  gs_quota :: Manager
  gs_breakers :: "string \<rightharpoonup> circuitBreaker"
  gs_ticks :: nat
  gs_events :: "gw_event list"

datatype kms_answer = KeyBytes bytes | KeyError | KeyPanic

record gw_env =
  ge_clock :: "nat \<Rightarrow> go_time"
  ge_draw :: "nat \<Rightarrow> int \<Rightarrow> int option"
  ge_seen :: "nat \<Rightarrow> string \<Rightarrow> circuitState"
  ge_net :: "nat \<Rightarrow> net_env"
  ge_url_Parse :: "string \<Rightarrow> parsed_url option"
  ge_resolve :: "string \<Rightarrow> string \<Rightarrow> string"
  ge_hmac :: "bytes \<Rightarrow> bytes \<Rightarrow> bytes"

text \<open>Every reading of the clock, draw or call outside is a new one.\<close>

definition tick :: "gateway \<Rightarrow> gateway" where
  "tick g = g\<lparr>gs_ticks := Suc (gs_ticks g)\<rparr>"

definition error_body :: "string \<Rightarrow> string \<Rightarrow> bytes" where
  "error_body msg typ = json_print (JObj [(''error'', JObj [(''message'', JStr msg), (''type'', JStr typ)])])"

section \<open>Request bodies\<close>

definition defaultMaxRequestBodySize :: int where "defaultMaxRequestBodySize = 4194304"
definition MaxRequestBodySizeLimit :: int where "MaxRequestBodySizeLimit = 4194304"

datatype body_error = errRequestBodyTooLarge | BodyReadError

definition alloc :: "bytes \<Rightarrow> 'a gw_scheme \<Rightarrow> nat \<times> 'a gw_scheme" where
  "alloc b g = (length (gw_bufs g), g\<lparr>gw_bufs := gw_bufs g @ [b]\<rparr>)"

fun buffer_at :: "nat option \<Rightarrow> 'a gw_scheme \<Rightarrow> bytes" where
  "buffer_at None g = []"
| "buffer_at (Some i) g = gw_bufs g ! i"

text \<open>What reading the body gives: the bytes, and whether the read fails behind them.\<close>

fun body_content :: "body_reader \<Rightarrow> 'a gw_scheme \<Rightarrow> bytes \<times> bool" where
  "body_content NilBody g = ([], False)"
| "body_content (ClientStream b bad) g = (b, bad)"
| "body_content (BufferReader i) g = (gw_bufs g ! i, False)"
| "body_content EmptyReader g = ([], False)"

definition set_body :: "body_reader \<Rightarrow> int \<Rightarrow> 'a gw_scheme \<Rightarrow> 'a gw_scheme" where
  "set_body r n g =
     on_ctx (\<lambda>rc. rc\<lparr>rc_Request := (rc_Request rc)\<lparr>rq_Body := r, rq_ContentLength := n\<rparr>\<rparr>) g"

definition readAndReplaceBody ::
  "int \<Rightarrow> 'a gw_scheme \<Rightarrow> (body_error + nat option) \<times> 'a gw_scheme" where
  "readAndReplaceBody limit g =
     (let r = rc_Request (gw_ctx g)
      in if rq_Body r = NilBody then (Inr None, g)
         else let limit = (if limit \<le> 0 then defaultMaxRequestBodySize else limit)
              in if limit > MaxRequestBodySizeLimit then (Inl errRequestBodyTooLarge, g)
                 else let (content, bad) = body_content (rq_Body r) g
                      in if int (length content) > limit
                         then (Inl errRequestBodyTooLarge, set_body EmptyReader 0 g)
                         else if bad
                         then (Inl BodyReadError, set_body (ClientStream [] True) (rq_ContentLength r) g)
                         else let (i, g1) = alloc content g
                              in (Inr (Some i), set_body (BufferReader i) (int (length content)) g1))"

definition readRequestBody ::
  "int \<Rightarrow> 'a gw_scheme \<Rightarrow> (body_error + bytes) \<times> 'a gw_scheme" where
  "readRequestBody limit g =
     (if rc_RequestBodyLoaded (gw_ctx g) then (Inr (buffer_at (rc_RequestBody (gw_ctx g)) g), g)
      else case readAndReplaceBody limit g of
             (Inl e, g1) \<Rightarrow> (Inl e, g1)
           | (Inr a, g1) \<Rightarrow>
               (Inr (buffer_at a g1),
                on_ctx (\<lambda>rc. rc\<lparr>rc_RequestBody := a, rc_RequestBodyLoaded := True\<rparr>) g1))"

definition sameBuffer :: "nat option \<Rightarrow> nat option \<Rightarrow> 'a gw_scheme \<Rightarrow> bool" where
  "sameBuffer a b g =
     (if buffer_at a g = [] \<or> buffer_at b g = [] then buffer_at a g = [] \<and> buffer_at b g = [] else a = b)"

definition replaceRequestBody :: "nat option \<Rightarrow> 'a gw_scheme \<Rightarrow> 'a gw_scheme" where
  "replaceRequestBody new g =
     (let old = rc_RequestBody (gw_ctx g);
          g1 = (if sameBuffer old new g then g else zero_buffer old g);
          g2 = on_ctx (\<lambda>rc. rc\<lparr>rc_RequestBody := new, rc_RequestBodyLoaded := True\<rparr>) g1
      in set_body (case new of None \<Rightarrow> EmptyReader | Some i \<Rightarrow> BufferReader i)
           (int (length (buffer_at new g2))) g2)"

definition body_failure :: "body_error \<Rightarrow> 'a gw_scheme \<Rightarrow> 'a gw_scheme" where
  "body_failure e g =
     (case e of
        errRequestBodyTooLarge \<Rightarrow> Abort 413 (error_body ''request body too large'' ''invalid_request_error'') g
      | BodyReadError \<Rightarrow> Abort 400 (error_body ''invalid request body'' ''invalid_request_error'') g)"

section \<open>Authentication\<close>

record AuthConfig =
  ac_SigningKey :: bytes
  ac_Issuer :: string
  ac_Expiry :: go_duration
  ac_Revocation :: "(bool \<Rightarrow> string \<Rightarrow> string \<Rightarrow> check_result) option"

definition authFailureJSON :: bytes where
  "authFailureJSON = error_body ''invalid or expired virtual key'' ''authentication_error''"

definition authUnavailableJSON :: bytes where
  "authUnavailableJSON = error_body ''authentication temporarily unavailable'' ''authentication_error''"

text \<open>\<open>strings.SplitN(h, " ", 2)\<close>, and the case-insensitive comparison with the scheme.\<close>

definition split_space :: "string \<Rightarrow> string \<times> string option" where
  "split_space h =
     (let a = takeWhile (\<lambda>c. c \<noteq> CHR '' '') h; r = dropWhile (\<lambda>c. c \<noteq> CHR '' '') h
      in (a, if r = [] then None else Some (tl r)))"

definition is_bearer :: "string \<Rightarrow> bool" where
  "is_bearer s \<longleftrightarrow> map ascii_lower s = ''bearer''"

definition bearer_token :: "string \<Rightarrow> string option" where
  "bearer_token h =
     (if h = [] \<or> length ''Bearer '' + MaxEncodedTokenBytes < length h then None
      else case split_space h of
             (scheme, Some token) \<Rightarrow> if is_bearer scheme then Some token else None
           | (scheme, None) \<Rightarrow> None)"

definition populate :: "Claims \<Rightarrow> RequestContext \<Rightarrow> RequestContext" where
  "populate claims rc =
     rc\<lparr>rc_VirtualKeyID := c_KeyID claims, rc_Permissions := c_Models claims, rc_Budget := c_BudgetUSD claims,
        rc_KeySource := c_KeySource claims, rc_BYOKKeyID := c_BYOKKeyID claims, rc_MaxRPM := c_MaxRPM claims,
        rc_MaxTPM := c_MaxTPM claims, rc_MaxConcurrency := c_MaxConcurrency claims\<rparr>"

definition Auth :: "gw_env \<Rightarrow> AuthConfig \<Rightarrow> gateway middleware" where
  "Auth env cfg next g =
     (let r = rc_Request (gw_ctx g)
      in case bearer_token (hdr_Get (rq_Header r) ''Authorization'') of
           None \<Rightarrow> Returned (Abort 401 authFailureJSON g)
         | Some token \<Rightarrow>
             (case ValidateAt (ge_hmac env) token (ac_SigningKey cfg) (ac_Issuer cfg) (ac_Expiry cfg)
                     (ge_clock env (gs_ticks g)) of
                Inl e \<Rightarrow> Returned (Abort 401 authFailureJSON (tick g))
              | Inr claims \<Rightarrow>
                  (case ac_Revocation cfg of
                     None \<Rightarrow> Returned (Abort 503 authUnavailableJSON (tick g))
                   | Some check \<Rightarrow>
                       (case check (rq_cancelled r) (c_Issuer claims) (c_KeyID claims) of
                          CheckCancelled \<Rightarrow> Returned (Abort 503 authUnavailableJSON (tick g))
                        | CheckUnavailable \<Rightarrow> Returned (Abort 503 authUnavailableJSON (tick g))
                        | Revoked \<Rightarrow> Returned (Abort 401 authFailureJSON (tick g))
                        | NotRevoked \<Rightarrow> next (on_ctx (populate claims) (tick g))))))"

text \<open>The test-only store: a set of issuer and key pairs joined by a zero byte.\<close>

type_synonym MemoryRevocationStore = "string set"

definition mem_key :: "string \<Rightarrow> string \<Rightarrow> string" where
  "mem_key issuer keyID = issuer @ [CHR 0x00] @ keyID"

definition mem_Revoke :: "string \<Rightarrow> string \<Rightarrow> MemoryRevocationStore \<Rightarrow> MemoryRevocationStore" where
  "mem_Revoke issuer keyID s = insert (mem_key issuer keyID) s"

definition mem_Check :: "MemoryRevocationStore \<Rightarrow> bool \<Rightarrow> string \<Rightarrow> string \<Rightarrow> check_result" where
  "mem_Check s cancelled issuer keyID =
     (if cancelled then CheckCancelled else if mem_key issuer keyID \<in> s then Revoked else NotRevoked)"

section \<open>Rate limiting\<close>

record RateLimitConfig =
  rl_Backend :: string
  rl_DefaultRPM :: int
  rl_DefaultTPM :: int
  rl_DefaultMaxConc :: int
  rl_MaxRequestBodySize :: int

definition rl_initErr :: "RateLimitConfig \<Rightarrow> bool" where
  "rl_initErr cfg \<longleftrightarrow> rl_Backend cfg \<noteq> ''memory'' \<and> rl_Backend cfg \<noteq> []"

definition rateLimitErrorJSON :: "string \<Rightarrow> bytes" where
  "rateLimitErrorJSON msg = error_body msg ''rate_limit_error''"

definition effective :: "int \<Rightarrow> int \<Rightarrow> int" where
  "effective default_limit key_limit =
     (if key_limit > 0 then effectivePolicyLimit default_limit key_limit else default_limit)"

definition release_lease :: "acquired \<Rightarrow> gateway \<Rightarrow> gateway" where
  "release_lease a g =
     (case a of Leased i \<Rightarrow> g\<lparr>gs_limiter := release i (gs_limiter g)\<rparr> | _ \<Rightarrow> g)"

text \<open>The call under the lease: the lease is released when it returns and when it panics.\<close>

definition under_lease ::
  "gw_env \<Rightarrow> string \<Rightarrow> int \<Rightarrow> int \<Rightarrow> acquired \<Rightarrow> (gateway \<Rightarrow> gateway run) \<Rightarrow> gateway \<Rightarrow> gateway run" where
  "under_lease env key tpmLimit estimated lease next g =
     (case next g of
        Panicked g1 \<Rightarrow> Panicked (release_lease lease g1)
      | Returned g1 \<Rightarrow>
          let actual = wrap64 (rc_InputTokens (gw_ctx g1) + rc_OutputTokens (gw_ctx g1));
              g2 = (if tpmLimit > 0 \<and> actual > estimated
                    then tick (g1\<lparr>gs_limiter := Record (ge_clock env (gs_ticks g1)) key ''tpm''
                                    (wrap64 (actual - estimated)) minute (gs_limiter g1)\<rparr>)
                    else g1)
          in Returned (release_lease lease g2))"

definition acquire_and_run ::
  "gw_env \<Rightarrow> string \<Rightarrow> int \<Rightarrow> int \<Rightarrow> int \<Rightarrow> (gateway \<Rightarrow> gateway run) \<Rightarrow> gateway \<Rightarrow> gateway run" where
  "acquire_and_run env key maxConcurrency tpmLimit estimated next g =
     (let (a, l) = AcquireConcurrency key maxConcurrency (gs_limiter g); g1 = g\<lparr>gs_limiter := l\<rparr>
      in if a = NotAcquired then Returned (Abort 429 (rateLimitErrorJSON ''concurrency limit exceeded'') g1)
         else under_lease env key tpmLimit estimated a next g1)"

definition rateLimiter :: "gw_env \<Rightarrow> RateLimitConfig \<Rightarrow> gateway middleware" where
  "rateLimiter env cfg next g =
     (if rl_initErr cfg then Returned (Abort 503 (error_body ''rate limit service unavailable'' ''server_error'') g)
      else
        let rc = gw_ctx g;
            key = (if rc_VirtualKeyID rc = [] then rq_RemoteAddr (rc_Request rc) else rc_VirtualKeyID rc);
            tpmLimit = effective (rl_DefaultTPM cfg) (rc_MaxTPM rc);
            rpmLimit = effective (rl_DefaultRPM cfg) (rc_MaxRPM rc);
            maxConcurrency = effective (rl_DefaultMaxConc cfg) (rc_MaxConcurrency rc);
            (allowed, l1) = Allow (ge_clock env (gs_ticks g)) key ''rpm'' rpmLimit minute (gs_limiter g);
            g1 = tick (g\<lparr>gs_limiter := l1\<rparr>)
        in if \<not> allowed then Returned (Abort 429 (rateLimitErrorJSON ''rate limit exceeded (RPM)'') g1)
           else if tpmLimit \<le> 0 then acquire_and_run env key maxConcurrency tpmLimit 0 next g1
           else case readRequestBody (rl_MaxRequestBodySize cfg) g1 of
                  (Inl e, g2) \<Rightarrow> Returned (body_failure e g2)
                | (Inr body, g2) \<Rightarrow>
                    let estimated = int (estimateTokensFromBody body);
                        (ok, l2) = AllowN (ge_clock env (gs_ticks g2)) key ''tpm'' estimated tpmLimit minute (gs_limiter g2);
                        g3 = tick (g2\<lparr>gs_limiter := l2\<rparr>)
                    in if \<not> ok then Returned (Abort 429 (rateLimitErrorJSON ''rate limit exceeded (TPM)'') g3)
                       else acquire_and_run env key maxConcurrency tpmLimit estimated next g3)"

section \<open>Quota\<close>

definition Quota :: "gw_env \<Rightarrow> bool \<Rightarrow> gateway middleware" where
  "Quota env manager_present next g =
     (if \<not> manager_present
      then Returned (Abort 503 (error_body ''quota service unavailable'' ''server_error'') g)
      else case CheckBudget (ge_clock env (gs_ticks g)) (rc_VirtualKeyID (gw_ctx g)) (rc_Budget (gw_ctx g)) (gs_quota g) of
             Some ErrBudgetExhausted \<Rightarrow> Returned (Abort 429 (error_body ''budget exhausted'' ''insufficient_quota'') (tick g))
           | Some _ \<Rightarrow> Returned (Abort 503 (error_body ''quota service unavailable'' ''server_error'') (tick g))
           | None \<Rightarrow>
               and_then (next (tick g)) (\<lambda>g1.
                 if IsAborted g1 \<or> rc_StatusCode (gw_ctx g1) \<ge> 400 then g1
                 else tick (g1\<lparr>gs_quota := snd (RecordRequest (ge_clock env (gs_ticks g1)) (rc_VirtualKeyID (gw_ctx g1))
                        (rc_Model (gw_ctx g1)) (rc_ProviderID (gw_ctx g1)) (rc_InputTokens (gw_ctx g1))
                        (rc_OutputTokens (gw_ctx g1)) (gs_quota g1))\<rparr>)))"

section \<open>Redaction\<close>

definition blockErrorJSON :: bytes where
  "blockErrorJSON = error_body ''request blocked: contains personally identifiable information'' ''content_policy_error''"

definition PIIRedaction :: "RedactionConfig \<Rightarrow> gateway middleware" where
  "PIIRedaction cfg next g =
     (let scanner = newPIIScanner cfg;
          bodyLimit = (if red_MaxRequestBodySize cfg \<le> 0 then defaultMaxRequestBodySize else red_MaxRequestBodySize cfg);
          limit = min bodyLimit maxSemanticRequestBodyBytes
      in case readRequestBody limit g of
           (Inl e, g1) \<Rightarrow> Returned (body_failure e g1)
         | (Inr body, g1) \<Rightarrow>
             if int (length body) > limit then Returned (body_failure errRequestBodyTooLarge g1)
             else case ProcessJSON scanner body limit of
                    (Inl e, foundPII) \<Rightarrow>
                      Returned (if e = SemanticJSONLimit then body_failure errRequestBodyTooLarge g1
                                else if e = SemanticPIIBlocked then Abort 400 blockErrorJSON g1
                                else body_failure BodyReadError g1)
                  | (Inr processed, foundPII) \<Rightarrow>
                      (case ps_mode scanner of
                         ModeDetect \<Rightarrow> next g1
                       | ModeBlock \<Rightarrow> if foundPII then Returned (Abort 400 blockErrorJSON g1) else next g1
                       | ModeRedact \<Rightarrow> (let (i, g2) = alloc processed g1 in next (replaceRequestBody (Some i) g2))))"

section \<open>Routing\<close>

definition dec_bool :: "json \<Rightarrow> bool \<Rightarrow> bool option" where
  "dec_bool v old = (case v of JBool b \<Rightarrow> Some b | JNull \<Rightarrow> Some old | _ \<Rightarrow> None)"

definition dec_model_member :: "string \<times> json \<Rightarrow> string \<times> bool \<Rightarrow> (string \<times> bool) option" where
  "dec_model_member m acc =
     (let (k, v) = m; (model, stream) = acc
      in if json_key_is ''model'' k then map_option (\<lambda>x. (x, stream)) (dec_string v model)
         else if json_key_is ''stream'' k then map_option (\<lambda>x. (model, x)) (dec_bool v stream)
         else Some (model, stream))"

definition unmarshal_model :: "bytes \<Rightarrow> (string \<times> bool) option" where
  "unmarshal_model b =
     (case json_parse b of
        Some (JObj ms) \<Rightarrow> dec_members dec_model_member ms ([], False)
      | Some JNull \<Rightarrow> Some ([], False)
      | _ \<Rightarrow> None)"

definition extractModelFromRequest ::
  "int \<Rightarrow> gateway \<Rightarrow> (body_error + string \<times> bool) \<times> gateway" where
  "extractModelFromRequest limit g =
     (case readRequestBody limit g of
        (Inl e, g1) \<Rightarrow> (Inl e, g1)
      | (Inr body, g1) \<Rightarrow>
          if body = [] then (Inr ([], False), g1)
          else case unmarshal_model body of
                 None \<Rightarrow> (Inl BodyReadError, g1)
               | Some ms \<Rightarrow> (Inr ms, g1))"

text \<open>What one round of the loop puts into the context before it calls the rest of the chain.\<close>

definition start_attempt ::
  "gw_env \<Rightarrow> providerChannel list \<Rightarrow> string \<Rightarrow> bool \<Rightarrow> string set \<Rightarrow> nat \<Rightarrow> providerChannel \<Rightarrow> gateway \<Rightarrow> gateway" where
  "start_attempt env channels model streaming tried canonical ch g =
     (let (i, g1) = alloc (gw_bufs g ! canonical) g;
          g2 = ResetAttempt (replaceRequestBody (Some i) g1);
          fallback = \<not> streaming \<and> hasUnusedCandidate (ge_clock env (gs_ticks g2)) model tried
                       \<lparr>rt_channels = channels, rt_breakers = gs_breakers g2\<rparr>
      in on_ctx (\<lambda>rc. rc\<lparr>rc_ProviderID := pc_ID ch, rc_ProviderType := pc_Type ch, rc_ProviderAPIKeyID := pc_KeyID ch,
              rc_ProviderAPIVersion := pc_APIVersion ch, rc_Model := model, rc_BaseURL := pc_BaseURL ch,
              rc_IsStreaming := streaming, rc_CanFallback := fallback\<rparr>) (tick g2))"

definition settle :: "gw_env \<Rightarrow> providerChannel list \<Rightarrow> string \<Rightarrow> circuitLease \<Rightarrow> gateway \<Rightarrow> gateway" where
  "settle env channels channelID lease g =
     tick (g\<lparr>gs_breakers := rt_breakers (settleProviderLease (ge_clock env (gs_ticks g))
              (rc_ProviderFailure (gw_ctx g)) (rc_ProviderResponded (gw_ctx g)) channelID lease
              \<lparr>rt_channels = channels, rt_breakers = gs_breakers g\<rparr>)\<rparr>)"

definition select_channel ::
  "gw_env \<Rightarrow> providerChannel list \<Rightarrow> string \<Rightarrow> string set \<Rightarrow> gateway
   \<Rightarrow> (providerChannel \<times> circuitLease) option \<times> gateway" where
  "select_channel env channels model tried g =
     (let (r, rt) = Route (ge_clock env (gs_ticks g)) (ge_draw env (gs_ticks g)) (ge_seen env (gs_ticks g)) model tried
                      \<lparr>rt_channels = channels, rt_breakers = gs_breakers g\<rparr>
      in (r, tick (g\<lparr>gs_breakers := rt_breakers rt\<rparr>)))"

lemma Route_candidate:
  assumes "Route now draw seen model tried rt = (Some (ch, lease), rt')"
  shows "ch \<in> set (rt_channels rt)" and "pc_ID ch \<notin> tried"
proof -
  let ?cs = "sort_key pc_Priority (filter (candidate model tried) (rt_channels rt))"
  have "ch \<in> set ?cs"
  proof (cases "route_groups draw seen (rt_breakers rt) ?cs")
    case None
    then obtain bs where "route_probe now (rt_breakers rt) ?cs = (Some (ch, lease), bs)"
      using assms by (auto simp: Route_def Let_def split: prod.splits)
    then show ?thesis using route_probe_sound by blast
  next
    case (Some r)
    then have "route_groups draw seen (rt_breakers rt) ?cs = Some (ch, lease)"
      using assms by (simp add: Route_def Let_def)
    then show ?thesis using route_groups_sound by blast
  qed
  then show "ch \<in> set (rt_channels rt)" "pc_ID ch \<notin> tried" by (auto simp: candidate_def)
qed

text \<open>
  The retry loop. It ends because every round adds a channel to the set of tried ones.
\<close>

function router_loop ::
  "gw_env \<Rightarrow> providerChannel list \<Rightarrow> string \<Rightarrow> bool \<Rightarrow> nat \<Rightarrow> (gateway \<Rightarrow> gateway run) \<Rightarrow> string set \<Rightarrow> gateway
   \<Rightarrow> gateway run" where
  "router_loop env channels model streaming canonical next tried g =
     (case select_channel env channels model tried g of
        (None, g1) \<Rightarrow>
          Returned (if is_committed g1 then g1
                    else if tried = {}
                    then Abort 503 (error_body ''no available provider for requested model'' ''service_error'') g1
                    else Abort 502 (error_body ''upstream request failed'' ''server_error'') g1)
      | (Some (ch, lease), g1) \<Rightarrow>
          let tried' = insert (pc_ID ch) tried
          in case next (start_attempt env channels model streaming tried' canonical ch g1) of
               Panicked g2 \<Rightarrow> Panicked (settle env channels (pc_ID ch) lease g2)
             | Returned g2 \<Rightarrow>
                 let g3 = settle env channels (pc_ID ch) lease g2
                 in if IsAborted g3 \<or> is_committed g3 \<and> \<not> rc_RetryableAttempt (gw_ctx g3) then Returned g3
                    else if \<not> rc_RetryableAttempt (gw_ctx g3) then Returned g3
                    else router_loop env channels model streaming canonical next tried' g3)"
  by pat_completeness auto
termination
proof (relation "measure (\<lambda>(env, channels, model, streaming, canonical, next, tried, g).
    card (pc_ID ` set channels - tried))", goal_cases)
  case 1
  show ?case by simp
next
  case (2 env channels model streaming canonical nxt tried g ans g1 cl ch lease tried' g2 g3)
  then obtain rt where "Route (ge_clock env (gs_ticks g)) (ge_draw env (gs_ticks g)) (ge_seen env (gs_ticks g)) model tried
      \<lparr>rt_channels = channels, rt_breakers = gs_breakers g\<rparr> = (Some (ch, lease), rt)"
    by (auto simp: select_channel_def split: prod.splits)
  from Route_candidate [OF this] have c: "pc_ID ch \<in> pc_ID ` set channels - tried" by simp
  have "pc_ID ` set channels - tried' = (pc_ID ` set channels - tried) - {pc_ID ch}" using 2 by auto
  moreover have "card ((pc_ID ` set channels - tried) - {pc_ID ch}) < card (pc_ID ` set channels - tried)"
    using c by (intro card_Diff1_less) auto
  ultimately show ?case by simp
qed

declare router_loop.simps [simp del]

definition Router :: "gw_env \<Rightarrow> providerChannel list \<Rightarrow> int \<Rightarrow> gateway middleware" where
  "Router env channels maxBody next g =
     (case extractModelFromRequest maxBody g of
        (Inl e, g1) \<Rightarrow> Returned (body_failure e g1)
      | (Inr (model, streaming), g1) \<Rightarrow>
          if model = [] then Returned (Abort 400 (error_body ''model field is required'' ''invalid_request_error'') g1)
          else if \<not> isModelAllowed model (rc_Permissions (gw_ctx g1))
          then Returned (Abort 403 (error_body ''model not permitted for this virtual key'' ''permission_error'') g1)
          else let (canonical, g2) = alloc (buffer_at (rc_RequestBody (gw_ctx g1)) g1) g1
               in case router_loop env channels model streaming canonical next {} g2 of
                    Returned g3 \<Rightarrow> Returned (zero_buffer (Some canonical) g3)
                  | Panicked g3 \<Rightarrow> Panicked (zero_buffer (Some canonical) g3))"

section \<open>Key injection\<close>

record KMSMiddlewareConfig =
  kc_Provider :: "(nat \<Rightarrow> string \<Rightarrow> kms_answer) option"
  kc_PoolKeyMapping :: "string \<rightharpoonup> string"

definition resolveKeyID :: "RequestContext \<Rightarrow> (string \<rightharpoonup> string) \<Rightarrow> string" where
  "resolveKeyID rc poolMapping =
     (if rc_KeySource rc \<noteq> KeySourcePool then []
      else case poolMapping (rc_ProviderID rc) of None \<Rightarrow> [] | Some keyID \<Rightarrow> keyID)"

definition store_secure :: "bytes \<Rightarrow> gateway \<Rightarrow> nat \<times> gateway" where
  "store_secure b g = (length (gw_secures g), g\<lparr>gw_secures := gw_secures g @ [NewSecureBytes b]\<rparr>)"

definition KMSInjector :: "KMSMiddlewareConfig \<Rightarrow> gateway middleware" where
  "KMSInjector cfg next g =
     (if rc_ProviderID (gw_ctx g) = []
      then Returned (Abort 500 (error_body ''internal routing error'' ''server_error'') g)
      else case kc_Provider cfg of
        None \<Rightarrow> Returned (Abort 503 (error_body ''key service unavailable'' ''server_error'') g)
      | Some GetKey \<Rightarrow>
          let keyID = resolveKeyID (gw_ctx g) (kc_PoolKeyMapping cfg);
              g1 = tick (g\<lparr>gs_events := gs_events g @ [KeyFetched keyID]\<rparr>)
          in if keyID = [] then Returned (Abort 500 (error_body ''unable to resolve provider key'' ''server_error'') g)
             else case GetKey (gs_ticks g) keyID of
                    KeyError \<Rightarrow> Returned (Abort 503 (error_body ''key service unavailable'' ''server_error'') g1)
                  | KeyPanic \<Rightarrow> Panicked g1
                  | KeyBytes b \<Rightarrow>
                      (let (p, g2) = store_secure b g1
                       in and_then (next (on_ctx (\<lambda>rc. rc\<lparr>rc_ProviderAPIKey := Some p\<rparr>) g2))
                            (\<lambda>g3. on_ctx (\<lambda>rc. rc\<lparr>rc_ProviderAPIKey := None\<rparr>) (close_secure p g3))))"

section \<open>Protocol adapters\<close>

text \<open>
  The adapter interface. A request transformation fails, or gives a body and a path; \<open>None\<close> as body
  is the slice that was passed in.
\<close>

record ProtocolAdapter =
  pa_Name :: string
  pa_TransformRequest :: "bytes \<Rightarrow> string \<Rightarrow> string \<Rightarrow> (bytes option \<times> string) option"
  pa_TransformResponse :: "bytes \<Rightarrow> bytes option"
  pa_TransformStreamLine :: "string \<Rightarrow> (string \<times> bool) option"
  pa_SupportsStreaming :: bool
  pa_AuthHeader :: "string \<times> string"
  pa_ExtraHeaders :: "(string \<times> string) list"

definition bearerAuth :: "string \<times> string" where "bearerAuth = (''Authorization'', ''Bearer '')"

definition passthroughStreamLine :: "string \<Rightarrow> (string \<times> bool) option" where
  "passthroughStreamLine line = Some (line, False)"

definition openai_like :: "string \<Rightarrow> ProtocolAdapter" where
  "openai_like name =
     \<lparr>pa_Name = name, pa_TransformRequest = (\<lambda>body model apiVersion. Some (None, ''/v1/chat/completions'')),
      pa_TransformResponse = Some, pa_TransformStreamLine = passthroughStreamLine, pa_SupportsStreaming = True,
      pa_AuthHeader = bearerAuth, pa_ExtraHeaders = []\<rparr>"

definition OpenAIAdapter :: ProtocolAdapter where "OpenAIAdapter = openai_like ''openai''"
definition DeepSeekAdapter :: ProtocolAdapter where "DeepSeekAdapter = openai_like ''deepseek''"
definition OpenRouterAdapter :: ProtocolAdapter where "OpenRouterAdapter = openai_like ''openrouter''"

text \<open>\<open>url.PathEscape\<close> and \<open>url.QueryEscape\<close>.\<close>

definition unreserved :: "char \<Rightarrow> bool" where
  "unreserved c \<longleftrightarrow>
     in_range 0x30 0x39 c \<or> in_range 0x41 0x5A c \<or> in_range 0x61 0x7A c
     \<or> c = CHR ''-'' \<or> c = CHR ''_'' \<or> c = CHR ''.'' \<or> c = CHR ''~''"

definition percent :: "char \<Rightarrow> string" where
  "percent c = [CHR ''%'', byte_upper (hex_digit (byte_val c div 16)), byte_upper (hex_digit (byte_val c mod 16))]"

definition PathEscape :: "string \<Rightarrow> string" where
  "PathEscape s =
     concat (map (\<lambda>c. if unreserved c \<or> c \<in> set [CHR ''$'', CHR ''&'', CHR ''+'', CHR ''='', CHR '':'', CHR ''@'']
                      then [c] else percent c) s)"

definition QueryEscape :: "string \<Rightarrow> string" where
  "QueryEscape s =
     concat (map (\<lambda>c. if unreserved c then [c] else if c = CHR '' '' then ''+'' else percent c) s)"

definition azure_request :: "bytes \<Rightarrow> string \<Rightarrow> string \<Rightarrow> (bytes option \<times> string) option" where
  "azure_request body model apiVersion =
     (let v = (if blank apiVersion then ''2024-10-21'' else apiVersion)
      in Some (None, ''/openai/deployments/'' @ PathEscape model @ ''/chat/completions?''
                     @ QueryEscape ''api-version'' @ ''='' @ QueryEscape v))"

definition AzureAdapter :: ProtocolAdapter where
  "AzureAdapter =
     \<lparr>pa_Name = ''azure'', pa_TransformRequest = azure_request, pa_TransformResponse = Some,
      pa_TransformStreamLine = passthroughStreamLine, pa_SupportsStreaming = True,
      pa_AuthHeader = (''api-key'', []), pa_ExtraHeaders = []\<rparr>"

type_synonym AdapterRegistry = "string \<rightharpoonup> ProtocolAdapter"

definition Register :: "ProtocolAdapter \<Rightarrow> AdapterRegistry \<Rightarrow> AdapterRegistry" where
  "Register a reg = reg(pa_Name a \<mapsto> a)"

text \<open>
  The built-in registry; the adapters for the Anthropic and Gemini protocols are arguments.
\<close>

definition NewAdapterRegistry :: "ProtocolAdapter \<Rightarrow> ProtocolAdapter \<Rightarrow> AdapterRegistry" where
  "NewAdapterRegistry anthropic gemini =
     fold Register [OpenAIAdapter, DeepSeekAdapter, OpenRouterAdapter, AzureAdapter, anthropic, gemini] Map.empty"

definition apply_adapter :: "ProtocolAdapter \<Rightarrow> string \<Rightarrow> string \<Rightarrow> gateway \<Rightarrow> gateway" where
  "apply_adapter adapter providerType targetPath g =
     on_ctx (\<lambda>rc. rc\<lparr>rc_ProviderType := providerType, rc_TargetPath := targetPath,
        rc_UpstreamAuthHeader := fst (pa_AuthHeader adapter), rc_UpstreamAuthPrefix := snd (pa_AuthHeader adapter),
        rc_UpstreamExtraHeaders := pa_ExtraHeaders adapter,
        rc_TransformResponse := Some (pa_TransformResponse adapter),
        rc_TransformStreamLine := Some (pa_TransformStreamLine adapter)\<rparr>) g"

definition Adapter :: "AdapterRegistry \<Rightarrow> (string \<rightharpoonup> string) \<Rightarrow> int \<Rightarrow> gateway middleware" where
  "Adapter registry providerTypes maxBody next g =
     (let unsupported = Returned (Abort 500 (error_body ''unsupported provider type'' ''server_error'') g)
      in case providerTypes (rc_ProviderID (gw_ctx g)) of
           None \<Rightarrow> unsupported
         | Some providerType \<Rightarrow>
             (case registry providerType of
                None \<Rightarrow> unsupported
              | Some adapter \<Rightarrow>
                  (case readRequestBody maxBody g of
                     (Inl e, g1) \<Rightarrow> Returned (body_failure e g1)
                   | (Inr body, g1) \<Rightarrow>
                       (case pa_TransformRequest adapter body (rc_Model (gw_ctx g1)) (rc_ProviderAPIVersion (gw_ctx g1)) of
                          None \<Rightarrow> Returned (Abort 400 (error_body ''invalid provider request'' ''invalid_request_error'') g1)
                        | Some (new, targetPath) \<Rightarrow>
                            let (a, g2) = (case new of
                                             None \<Rightarrow> (rc_RequestBody (gw_ctx g1), g1)
                                           | Some b \<Rightarrow> (let (i, g') = alloc b g1 in (Some i, g')))
                            in next (apply_adapter adapter providerType targetPath (replaceRequestBody a g2))))))"

section \<open>The proxy\<close>

definition isRetryableStatus :: "int \<Rightarrow> bool" where
  "isRetryableStatus status \<longleftrightarrow> status = 429 \<or> status \<ge> 500"

definition isRetryableProxy :: "ProxyResult option \<Rightarrow> dispatch_error option \<Rightarrow> bool" where
  "isRetryableProxy result err \<longleftrightarrow>
     is_transport err \<or> (case result of None \<Rightarrow> False | Some r \<Rightarrow> isRetryableStatus (pr_StatusCode r))"

definition buildTargetURL ::
  "(string \<Rightarrow> parsed_url option) \<Rightarrow> (string \<Rightarrow> string \<Rightarrow> string) \<Rightarrow> string \<Rightarrow> string \<Rightarrow> string option" where
  "buildTargetURL url_Parse resolve baseURL targetPath =
     (case url_Parse baseURL of
        None \<Rightarrow> None
      | Some base \<Rightarrow>
          if url_Scheme base = [] \<or> url_Host base = [] then None
          else let path = (if targetPath = [] then ''/'' else targetPath)
               in case url_Parse path of
                    None \<Rightarrow> None
                  | Some rel \<Rightarrow>
                      if url_Scheme rel \<noteq> [] \<or> url_Host rel \<noteq> [] \<or> url_has_User rel then None
                      else if \<not> has_prefix path ''/'' then None
                      else Some (resolve baseURL path))"

definition dispatch_config :: "RequestContext \<Rightarrow> string \<Rightarrow> DispatchConfig" where
  "dispatch_config rc targetURL =
     \<lparr>dc_TargetURL = targetURL, dc_IsStreaming = rc_IsStreaming rc, dc_AuthHeader = rc_UpstreamAuthHeader rc,
      dc_AuthPrefix = rc_UpstreamAuthPrefix rc, dc_ExtraHeaders = rc_UpstreamExtraHeaders rc,
      dc_TransformResponse = rc_TransformResponse rc, dc_TransformStreamLine = rc_TransformStreamLine rc,
      dc_MaxTransformBytes = int MaxCapturedResponseBytes\<rparr>"

text \<open>
  One call of the engine, into the capture buffer when another provider can still be tried. The
  key object is closed in place, and the request that left is logged.
\<close>

definition log_attempt :: "nat \<Rightarrow> dispatch_outcome \<Rightarrow> gateway \<Rightarrow> gateway" where
  "log_attempt key out g1 =
     (let g2 = (case do_key out of None \<Rightarrow> g1 | Some k \<Rightarrow> g1\<lparr>gw_secures := (gw_secures g1)[key := k]\<rparr>)
      in tick (case do_sent out of None \<Rightarrow> g2 | Some s \<Rightarrow> g2\<lparr>gs_events := gs_events g2 @ [Sent s]\<rparr>))"

definition attempt ::
  "gw_env \<Rightarrow> string list \<Rightarrow> string \<Rightarrow> nat \<Rightarrow> gateway \<Rightarrow> dispatch_outcome \<times> captureWriter option \<times> gateway" where
  "attempt env domains targetURL key g =
     (let rc = gw_ctx g; r = rc_Request rc; cfg = dispatch_config rc targetURL; net = ge_net env (gs_ticks g);
          body = fst (body_content (rq_Body r) g); secret = Some (gw_secures g ! key);
          (out, cap, g1) =
            (if rc_CanFallback rc \<and> \<not> rc_IsStreaming rc
             then (let (out, cw) = Dispatch capture_writer net domains (rq_Method r) (rq_Header r) body cfg secret newCaptureWriter
                   in (out, Some cw, g))
             else (let (out, g') = Dispatch client_writer net domains (rq_Method r) (rq_Header r) body cfg secret g
                   in (out, None, g')))
      in (out, cap, log_attempt key out g1))"

definition note_result :: "ProxyResult option \<Rightarrow> gateway \<Rightarrow> gateway" where
  "note_result result g =
     (case result of
        None \<Rightarrow> g
      | Some r \<Rightarrow>
          on_ctx (\<lambda>rc. rc\<lparr>rc_ProviderResponded := True, rc_ProviderFailure := isRetryableStatus (pr_StatusCode r),
            rc_StatusCode := pr_StatusCode r, rc_InputTokens := pr_InputTokens r,
            rc_OutputTokens := pr_OutputTokens r\<rparr>) g)"

definition conclude_attempt :: "dispatch_outcome \<Rightarrow> captureWriter option \<Rightarrow> gateway \<Rightarrow> gateway run" where
  "conclude_attempt out cap g =
     (let result = do_result out; err = do_error out; g1 = note_result result g
      in if panicking out then Panicked g
         else if err \<noteq> None then
           (let g2 = (if is_transport err \<or> is_upstream_read err
                      then on_ctx (\<lambda>rc. rc\<lparr>rc_ProviderFailure := True\<rparr>) g1 else g1)
            in if cap \<noteq> None \<and> rc_CanFallback (gw_ctx g2) \<and> \<not> is_committed g2 \<and> isRetryableProxy result err
               then Returned (on_ctx (\<lambda>rc. rc\<lparr>rc_RetryableAttempt := True\<rparr>) g2)
               else if result \<noteq> None
               then (case cap of
                       Some cw \<Rightarrow> if is_committed g2 then Returned g2 else FlushTo cw g2
                     | None \<Rightarrow> Returned g2)
               else Returned (Abort 502 (error_body ''upstream request failed'' ''server_error'') g2))
         else case cap of
                None \<Rightarrow> Returned g1
              | Some cw \<Rightarrow>
                  if rc_CanFallback (gw_ctx g1) \<and> isRetryableStatus (cw_status cw) \<and> \<not> cw_overflowed cw
                  then Returned (on_ctx (\<lambda>rc. rc\<lparr>rc_RetryableAttempt := True, rc_ProviderFailure := True\<rparr>) g1)
                  else FlushTo cw g1)"

definition Proxy :: "gw_env \<Rightarrow> (string list) option \<Rightarrow> gateway middleware" where
  "Proxy env engine next g =
     (case engine of
        None \<Rightarrow> Returned (Abort 500 (error_body ''proxy engine unavailable'' ''server_error'') g)
      | Some domains \<Rightarrow>
          if rc_BaseURL (gw_ctx g) = [] \<or> rc_ProviderAPIKey (gw_ctx g) = None
          then Returned (Abort 500 (error_body ''incomplete proxy context'' ''server_error'') g)
          else case buildTargetURL (ge_url_Parse env) (ge_resolve env) (rc_BaseURL (gw_ctx g)) (rc_TargetPath (gw_ctx g)) of
                 None \<Rightarrow> Returned (Abort 500 (error_body ''invalid provider target'' ''server_error'') g)
               | Some targetURL \<Rightarrow>
                   let (out, cap, g1) = attempt env domains targetURL (the (rc_ProviderAPIKey (gw_ctx g))) g
                   in conclude_attempt out cap g1)"

section \<open>The model list\<close>

fun catalog_of :: "providerChannel list \<Rightarrow> (string \<times> string) list" where
  "catalog_of [] = []"
| "catalog_of (ch # chs) =
     (if \<not> pc_Enabled ch then catalog_of chs
      else map (\<lambda>m. (m, pc_ID ch)) (pc_Models ch) @ catalog_of chs)"

definition ModelsList :: "providerChannel list \<Rightarrow> gateway middleware" where
  "ModelsList channels next g =
     (let catalog = catalog_of channels;
          ids = sort (filter (\<lambda>m. isModelAllowed m (rc_Permissions (gw_ctx g))) (remdups (map fst catalog)));
          item = (\<lambda>m. JObj [(''id'', JStr m), (''object'', JStr ''model''),
                            (''owned_by'', JStr (case map_of catalog m of Some o' \<Rightarrow> o' | None \<Rightarrow> []))]);
          body = json_print (JObj [(''object'', JStr ''list''), (''data'', JArr (map item ids))])
      in Returned (snd (trw_Write body (trw_WriteHeader 200 (trw_SetHeader ''Content-Type'' ''application/json'' g)))))"

end
