(* ===== verification/Gateway.thy ===== *)
theory Gateway
  imports Gateway_Middleware
begin

text \<open>
  The chain \<open>internal/runtime/runtime.go\<close> assembles and what holds of a whole request: one response,
  no effect without an accepted key, a bounded number of attempts, released leases, and no secret or
  request body left in memory.
\<close>

section \<open>The runtime's chain\<close>

record runtime_config =
  cfg_auth :: AuthConfig
  cfg_rate_enabled :: bool
  cfg_rate :: RateLimitConfig
  cfg_quota_enabled :: bool
  cfg_quota_manager :: bool
  cfg_channels :: "providerChannel list"
  cfg_max_body :: int
  cfg_kms :: KMSMiddlewareConfig
  cfg_registry :: AdapterRegistry
  cfg_provider_types :: "string \<rightharpoonup> string"
  cfg_domains :: "string list"

definition redaction_config :: "runtime_config \<Rightarrow> RedactionConfig" where
  "redaction_config cfg = \<lparr>red_Mode = ModeRedact, red_Rules = [], red_MaxRequestBodySize = cfg_max_body cfg\<rparr>"

definition runtimeMiddlewareOrder :: "bool \<Rightarrow> bool \<Rightarrow> string list" where
  "runtimeMiddlewareOrder rateLimitEnabled quotaEnabled =
     [''auth''] @ (if rateLimitEnabled then [''rate_limit''] else []) @ (if quotaEnabled then [''quota''] else [])
     @ [''pii_redaction'', ''router'', ''kms'', ''adapter'', ''proxy'']"

definition middleware_for :: "gw_env \<Rightarrow> runtime_config \<Rightarrow> string \<Rightarrow> gateway middleware option" where
  "middleware_for env cfg step =
     (if step = ''auth'' then Some (Auth env (cfg_auth cfg))
      else if step = ''rate_limit'' then Some (rateLimiter env (cfg_rate cfg))
      else if step = ''quota'' then Some (Quota env (cfg_quota_manager cfg))
      else if step = ''pii_redaction'' then Some (PIIRedaction (redaction_config cfg))
      else if step = ''router'' then Some (Router env (cfg_channels cfg) (cfg_max_body cfg))
      else if step = ''kms'' then Some (KMSInjector (cfg_kms cfg))
      else if step = ''adapter'' then Some (Adapter (cfg_registry cfg) (cfg_provider_types cfg) (cfg_max_body cfg))
      else if step = ''proxy'' then Some (Proxy env (Some (cfg_domains cfg)))
      else None)"

fun options_for :: "gw_env \<Rightarrow> runtime_config \<Rightarrow> string list \<Rightarrow> string + gateway middleware list" where
  "options_for env cfg [] = Inr []"
| "options_for env cfg (step # steps) =
     (case middleware_for env cfg step of
        None \<Rightarrow> Inl (''unknown runtime middleware step '' @ step)
      | Some m \<Rightarrow> (case options_for env cfg steps of Inl e \<Rightarrow> Inl e | Inr ms \<Rightarrow> Inr (m # ms)))"

definition runtimeMiddlewareOptions :: "gw_env \<Rightarrow> runtime_config \<Rightarrow> string + gateway middleware list" where
  "runtimeMiddlewareOptions env cfg =
     options_for env cfg (runtimeMiddlewareOrder (cfg_rate_enabled cfg) (cfg_quota_enabled cfg))"

text \<open>The chain as a list: the steps outside the router, then the router, then the steps it retries.\<close>

definition outer_chain :: "gw_env \<Rightarrow> runtime_config \<Rightarrow> gateway middleware list" where
  "outer_chain env cfg =
     (if cfg_rate_enabled cfg then [rateLimiter env (cfg_rate cfg)] else [])
     @ (if cfg_quota_enabled cfg then [Quota env (cfg_quota_manager cfg)] else [])
     @ [PIIRedaction (redaction_config cfg)]"

definition inner_chain :: "gw_env \<Rightarrow> runtime_config \<Rightarrow> gateway middleware list" where
  "inner_chain env cfg =
     [KMSInjector (cfg_kms cfg), Adapter (cfg_registry cfg) (cfg_provider_types cfg) (cfg_max_body cfg),
      Proxy env (Some (cfg_domains cfg))]"

definition policy_chain :: "gw_env \<Rightarrow> runtime_config \<Rightarrow> gateway middleware list" where
  "policy_chain env cfg =
     Auth env (cfg_auth cfg) # outer_chain env cfg @ Router env (cfg_channels cfg) (cfg_max_body cfg) # inner_chain env cfg"

lemma runtime_chain: "runtimeMiddlewareOptions env cfg = Inr (policy_chain env cfg)"
  by (simp add: runtimeMiddlewareOptions_def runtimeMiddlewareOrder_def middleware_for_def policy_chain_def
      outer_chain_def inner_chain_def)

text \<open>Serving one request with the pipeline the runtime builds.\<close>

definition serve_request :: "gw_env \<Rightarrow> runtime_config \<Rightarrow> bytes option \<Rightarrow> http_request \<Rightarrow> gateway \<Rightarrow> gateway run" where
  "serve_request env cfg random r g =
     ServeHTTP (NewPipeline random (ge_clock env (gs_ticks g)) @ policy_chain env cfg) r g"

section \<open>Middleware that only aborts, reads the body or calls on\<close>

lemma set_body_frame [simp]:
  "gw_conn (set_body r n g) = gw_conn g" "gw_bufs (set_body r n g) = gw_bufs g"
  "gw_secures (set_body r n g) = gw_secures g" "gw_audit (set_body r n g) = gw_audit g"
  by (simp_all add: set_body_def on_ctx_def)

text \<open>
  The interface between a middleware and an invariant: what the small operations all middleware is
  made of have to keep. Every middleware of the chain then keeps it.
\<close>

lemma read_loaded: "readRequestBody limit g = (Inr b, g1) \<Longrightarrow> rc_RequestBodyLoaded (gw_ctx g1)"
  by (auto simp: readRequestBody_def on_ctx_def split: if_splits prod.splits sum.splits)

locale gateway_invariant = chain_invariant P for P :: "gateway \<Rightarrow> bool" +
  assumes tick_keeps: "P g \<Longrightarrow> P (tick g)"
    and read_keeps: "P g \<Longrightarrow> P (snd (readRequestBody limit g))"
    and quota_keeps: "P g \<Longrightarrow> P (g\<lparr>gs_quota := q\<rparr>)"
    and populate_keeps: "P g \<Longrightarrow> P (on_ctx (populate claims) g)"
    and redact_keeps: "P g \<Longrightarrow> alloc b g = (i, g') \<Longrightarrow> P (replaceRequestBody (Some i) g')"
begin

lemma failure_keeps: "P g \<Longrightarrow> P (body_failure e g)"
  by (cases e) (simp_all add: body_failure_def abort_keeps)

lemma read_keeps': "P g \<Longrightarrow> readRequestBody limit g = (r, g') \<Longrightarrow> P g'"
  using read_keeps [of g limit] by simp

lemma auth_keeps: "keeps P (Auth env cfg)"
  by (rule keepsI)
    (auto simp: Auth_def Let_def abort_keeps tick_keeps populate_keeps split: option.split sum.split check_result.split)

lemma quota_step_keeps: "keeps P (Quota env present)"
proof (rule keepsI)
  fix nxt g
  assume n: "\<And>g. P g \<Longrightarrow> P (state_of (nxt g :: gateway run))" and g: "P g"
  have "P (state_of (nxt (tick g)))" by (rule n [OF tick_keeps [OF g]])
  then have "P (state_of (and_then (nxt (tick g)) f))" if "\<And>h. P h \<Longrightarrow> P (f h)" for f
    using that by (cases "nxt (tick g)") auto
  then show "P (state_of (Quota env present nxt g))"
    unfolding Quota_def
    by (simp add: abort_keeps tick_keeps quota_keeps g split: option.split quota_error.split)
qed

lemma redaction_keeps: "keeps P (PIIRedaction rcfg)"
proof (rule keepsI)
  fix nxt g
  assume n: "\<And>g. P g \<Longrightarrow> P (state_of (nxt g :: gateway run))" and g: "P g"
  define limit where "limit = min (if red_MaxRequestBodySize rcfg \<le> 0 then defaultMaxRequestBodySize else red_MaxRequestBodySize rcfg) maxSemanticRequestBodyBytes"
  obtain r g1 where r: "readRequestBody limit g = (r, g1)" by fastforce
  have g1: "P g1" using g r by (rule read_keeps')
  have last: "P (state_of (nxt (replaceRequestBody (Some i) g2)))" if "alloc b g1 = (i, g2)" for b i g2
    using redact_keeps [OF g1 that] by (rule n)
  show "P (state_of (PIIRedaction rcfg nxt g))"
    unfolding PIIRedaction_def Let_def limit_def [symmetric] r
    by (auto simp: abort_keeps failure_keeps g1 last n split: sum.split RedactionMode.split prod.split)
qed

lemma unlimited_keeps: "keeps P (Quota env present)" "keeps P (PIIRedaction rcfg)"
  by (rule quota_step_keeps, rule redaction_keeps)

end

text \<open>An invariant that does not look at the limiter also goes through the rate limiting step.\<close>

locale limiter_invariant = gateway_invariant +
  assumes limiter_keeps: "P g \<Longrightarrow> P (g\<lparr>gs_limiter := l\<rparr>)"
begin

lemma release_keeps: "P g \<Longrightarrow> P (release_lease a g)"
  by (cases a) (simp_all add: release_lease_def limiter_keeps)

lemma lease_keeps:
  assumes n: "\<And>g. P g \<Longrightarrow> P (state_of (nxt g))" and "P g"
  shows "P (state_of (under_lease env key tpm est a nxt g))"
  using n [OF assms(2)]
  by (auto simp: under_lease_def Let_def release_keeps tick_keeps limiter_keeps split: run.split)

lemma acquire_keeps:
  assumes n: "\<And>g. P g \<Longrightarrow> P (state_of (nxt g))" and "P g"
  shows "P (state_of (acquire_and_run env key mc tpm est nxt g))"
  using assms(2) lease_keeps [OF n]
  by (auto simp: acquire_and_run_def Let_def abort_keeps limiter_keeps split: prod.split)

lemma limit_keeps: "keeps P (rateLimiter env cfg)"
proof (rule keepsI)
  fix nxt g
  assume n: "\<And>g. P g \<Longrightarrow> P (state_of (nxt g :: gateway run))" and g: "P g"
  have step: "P (tick (h\<lparr>gs_limiter := l\<rparr>))" if "P h" for h l using that by (simp add: tick_keeps limiter_keeps)
  define key where "key = (if rc_VirtualKeyID (gw_ctx g) = [] then rq_RemoteAddr (rc_Request (gw_ctx g)) else rc_VirtualKeyID (gw_ctx g))"
  define tpm where "tpm = effective (rl_DefaultTPM cfg) (rc_MaxTPM (gw_ctx g))"
  define mc where "mc = effective (rl_DefaultMaxConc cfg) (rc_MaxConcurrency (gw_ctx g))"
  obtain allowed l1 where a: "Allow (ge_clock env (gs_ticks g)) key ''rpm''
      (effective (rl_DefaultRPM cfg) (rc_MaxRPM (gw_ctx g))) minute (gs_limiter g) = (allowed, l1)" by fastforce
  let ?g1 = "tick (g\<lparr>gs_limiter := l1\<rparr>)"
  obtain r g2 where r: "readRequestBody (rl_MaxRequestBodySize cfg) ?g1 = (r, g2)" by fastforce
  have g2: "P g2" using step [OF g] by (rule read_keeps' [OF _ r])
  have k1: "P (state_of (acquire_and_run env key mc tpm 0 nxt ?g1))" by (rule acquire_keeps [OF n step [OF g]])
  define Z where "Z body = (let est = int (estimateTokensFromBody body);
        (ok, l2) = AllowN (ge_clock env (gs_ticks g2)) key ''tpm'' est tpm minute (gs_limiter g2);
        g3 = tick (g2\<lparr>gs_limiter := l2\<rparr>)
      in if \<not> ok then Returned (Abort 429 (rateLimitErrorJSON ''rate limit exceeded (TPM)'') g3)
         else acquire_and_run env key mc tpm est nxt g3)" for body
  have k2: "P (state_of (Z body))" for body
    using acquire_keeps [OF n step [OF g2]] abort_keeps [OF step [OF g2]]
    unfolding Z_def Let_def by (simp split: prod.split)
  have eq: "rateLimiter env cfg nxt g =
     (if rl_initErr cfg then Returned (Abort 503 (error_body ''rate limit service unavailable'' ''server_error'') g)
      else if \<not> allowed then Returned (Abort 429 (rateLimitErrorJSON ''rate limit exceeded (RPM)'') ?g1)
      else if tpm \<le> 0 then acquire_and_run env key mc tpm 0 nxt ?g1
      else case r of Inl e \<Rightarrow> Returned (body_failure e g2) | Inr body \<Rightarrow> Z body)"
    unfolding rateLimiter_def Z_def Let_def key_def [symmetric] tpm_def [symmetric] mc_def [symmetric] a prod.case r
    by (simp only:)
  show "P (state_of (rateLimiter env cfg nxt g))"
    unfolding eq using k1 k2 abort_keeps [OF g] abort_keeps [OF step [OF g]] failure_keeps [OF g2]
    by (simp split: sum.split)
qed

lemma outer_keeps: "m \<in> set (outer_chain env cfg) \<Longrightarrow> keeps P m"
  by (auto simp: outer_chain_def limit_keeps quota_step_keeps redaction_keeps split: if_splits)

end

text \<open>What an invariant needs to go through the adaptation of the request and one attempt upstream.\<close>

locale attempt_invariant = gateway_invariant +
  assumes adapt_keeps: "P g \<Longrightarrow> P (apply_adapter a ty path g)"
    and own_body_keeps: "P g \<Longrightarrow> rc_RequestBodyLoaded (gw_ctx g) \<Longrightarrow> P (replaceRequestBody (rc_RequestBody (gw_ctx g)) g)"
    and attempt_keeps: "P g \<Longrightarrow> rc_ProviderAPIKey (gw_ctx g) = Some key \<Longrightarrow>
        attempt env domains url key g = (out, cap, g') \<Longrightarrow> P g'"
    and conclude_keeps: "P g \<Longrightarrow> P (state_of (conclude_attempt out cap g))"
begin

lemma adapter_keeps: "keeps P (Adapter registry types maxBody)"
proof (rule keepsI)
  fix nxt :: "gateway \<Rightarrow> gateway run" and g :: gateway
  assume n: "\<And>h :: gateway. P h \<Longrightarrow> P (state_of (nxt h))" and g: "P g"
  obtain r g1 where r: "readRequestBody maxBody g = (r, g1)" by fastforce
  have g1: "P g1" using read_keeps [OF g] r by (metis snd_conv)
  have ap: "P (state_of (nxt (apply_adapter a ty path h)))" if "P h" for a ty path h
    using that by (intro n adapt_keeps)
  have own: "P (replaceRequestBody (rc_RequestBody (gw_ctx g1)) g1)" if "r = Inr b" for b
    using own_body_keeps [OF g1] read_loaded r that by blast
  show "P (state_of (Adapter registry types maxBody nxt g))"
    unfolding Adapter_def Let_def r
    using g g1 ap own redact_keeps [OF g1]
    by (auto simp: abort_keeps failure_keeps split: option.split sum.split prod.split)
qed

lemma proxy_keeps: "keeps P (Proxy env engine)"
proof (rule keepsI)
  fix nxt :: "gateway \<Rightarrow> gateway run" and g :: gateway
  assume g: "P g"
  have "P (state_of (conclude_attempt out cap g1))"
    if "attempt env domains url key g = (out, cap, g1)" "rc_ProviderAPIKey (gw_ctx g) = Some key" for domains url key out cap g1
    using attempt_keeps [OF g that(2,1)] by (rule conclude_keeps)
  then show "P (state_of (Proxy env engine nxt g))"
    using g by (auto simp: Proxy_def Let_def abort_keeps split: option.split prod.split)
qed

end

text \<open>What it needs in addition to go through the injection of the provider key.\<close>

locale inner_invariant = attempt_invariant +
  assumes fetched_keeps: "P g \<Longrightarrow> P (tick (g\<lparr>gs_events := gs_events g @ [KeyFetched k]\<rparr>))"
    and inject_keeps: "P g \<Longrightarrow> store_secure b g = (p, g') \<Longrightarrow> P (on_ctx (\<lambda>rc. rc\<lparr>rc_ProviderAPIKey := Some p\<rparr>) g')"
    and eject_keeps: "P g \<Longrightarrow> P (on_ctx (\<lambda>rc. rc\<lparr>rc_ProviderAPIKey := None\<rparr>) (close_secure p g))"
begin

lemma kms_keeps: "keeps P (KMSInjector cfg)"
proof (rule keepsI)
  fix nxt :: "gateway \<Rightarrow> gateway run" and g :: gateway
  assume n: "\<And>h :: gateway. P h \<Longrightarrow> P (state_of (nxt h))" and g: "P g"
  have "P (state_of (nxt (on_ctx (\<lambda>rc. rc\<lparr>rc_ProviderAPIKey := Some p\<rparr>) g2)))"
    if "store_secure b (tick (g\<lparr>gs_events := gs_events g @ [KeyFetched k]\<rparr>)) = (p, g2)" for b k p g2
    by (rule n [OF inject_keeps [OF fetched_keeps [OF g] that]])
  then show "P (state_of (KMSInjector cfg nxt g))"
    unfolding KMSInjector_def Let_def
    using g by (auto simp: abort_keeps fetched_keeps
        split: option.split kms_answer.split prod.split intro!: state_of_and_then [where P = P] eject_keeps)
qed

lemma inner_keeps: "P g \<Longrightarrow> P (state_of (execute (inner_chain env cfg) g))"
  by (rule execute_keeps) (auto simp: inner_chain_def kms_keeps adapter_keeps proxy_keeps)

end

section \<open>The retry loop\<close>

text \<open>
  What the loop needs from an invariant \<open>P\<close>: starting an attempt establishes \<open>Q\<close>, under which the
  rest of the chain gives \<open>P\<close> back, and choosing a channel and settling its lease keep \<open>P\<close>.
\<close>

locale retry_invariant =
  fixes P Q :: "gateway \<Rightarrow> bool" and env :: gw_env and channels :: "providerChannel list" and canonical :: nat
  assumes start_gives: "P g \<Longrightarrow> Q (start_attempt env channels model streaming tried canonical ch g)"
    and select_keeps: "P g \<Longrightarrow> select_channel env channels model tried g = (r, g') \<Longrightarrow> P g'"
    and settle_keeps: "P g \<Longrightarrow> P (settle env channels i lease g)"
    and loop_abort_keeps: "P g \<Longrightarrow> P (Abort status body g)"
begin

lemma loop_keeps:
  assumes n: "\<And>g. Q g \<Longrightarrow> P (state_of (nxt g))" and "P g"
  shows "P (state_of (router_loop env channels model streaming canonical nxt tried g))"
proof -
  have "e = env \<Longrightarrow> cs = channels \<Longrightarrow> c = canonical \<Longrightarrow> f = nxt \<Longrightarrow> P h \<Longrightarrow>
      P (state_of (router_loop e cs m s c f t h))" for e cs m s c f t h
  proof (induction e cs m s c f t h rule: router_loop.induct)
    case (1 e cs m s c f t h)
    obtain r h1 where sel: "select_channel e cs m t h = (r, h1)" by fastforce
    have h1: "P h1" using 1 sel select_keeps by simp
    show ?case
    proof (cases r)
      case None
      then show ?thesis using h1 by (subst router_loop.simps) (simp add: sel loop_abort_keeps)
    next
      case (Some cl)
      obtain ch lease where cl: "cl = (ch, lease)" by fastforce
      let ?t = "insert (pc_ID ch) t"
      have out: "P (state_of (f (start_attempt e cs m s ?t c ch h1)))"
        using 1 n start_gives [OF h1] by simp
      show ?thesis
      proof (cases "f (start_attempt e cs m s ?t c ch h1)")
        case (Panicked g2)
        then have "P (settle e cs (pc_ID ch) lease g2)" using out settle_keeps 1(2,3) by simp
        then show ?thesis by (subst router_loop.simps) (simp add: sel Some cl Panicked Let_def)
      next
        case (Returned g2)
        let ?g3 = "settle e cs (pc_ID ch) lease g2"
        have g3: "P ?g3" using out Returned settle_keeps 1 by simp
        have "P (state_of (router_loop e cs m s c f ?t ?g3))"
          if "\<not> (IsAborted ?g3 \<or> is_committed ?g3 \<and> \<not> rc_RetryableAttempt (gw_ctx ?g3))"
            and "rc_RetryableAttempt (gw_ctx ?g3)"
          using 1(1) [OF sel [symmetric] Some cl [symmetric] refl Returned refl that(1)] that(2) g3 1(2-5) by simp
        then show ?thesis
          using g3 by (subst router_loop.simps) (simp add: sel Some cl Returned Let_def)
      qed
    qed
  qed
  then show ?thesis using assms(2) by simp
qed

end

text \<open>A chain in two parts: middleware that keeps an invariant, in front of a part that gives it back.\<close>

context chain_invariant
begin

lemma execute_front:
  assumes "\<forall>m \<in> set ms. keeps P m" and n: "\<And>h. P h \<Longrightarrow> P (state_of (execute ns h))" and "P g"
  shows "P (state_of (execute (ms @ ns) g))"
  using assms(1,3)
proof (induction ms arbitrary: g)
  case Nil
  then show ?case by (simp add: n)
next
  case (Cons m ms)
  have "P (state_of (m (execute (ms @ ns)) g))" using Cons by (intro keepsD [of P m]) auto
  with Cons.prems show ?case by (simp add: state_of_and_then require_keeps)
qed

lemma execute_head:
  assumes "P (state_of (m (execute ms) g))" and "P g"
  shows "P (state_of (execute (m # ms) g))"
  using assms by (simp add: state_of_and_then require_keeps)

end

context limiter_invariant
begin

lemma policy_keeps:
  assumes "\<And>h. P h \<Longrightarrow> P (state_of (Router env (cfg_channels cfg) (cfg_max_body cfg) (execute (inner_chain env cfg)) h))"
    and "P g"
  shows "P (state_of (execute (policy_chain env cfg) g))"
proof -
  have "P (state_of (execute ((Auth env (cfg_auth cfg) # outer_chain env cfg)
      @ (Router env (cfg_channels cfg) (cfg_max_body cfg) # inner_chain env cfg)) g))"
    using assms auth_keeps outer_keeps by (intro execute_front execute_head) auto
  then show ?thesis by (simp add: policy_chain_def)
qed

end

lemma extract_state: "snd (extractModelFromRequest limit g) = snd (readRequestBody limit g)"
  by (simp add: extractModelFromRequest_def split: prod.split sum.split option.split)

text \<open>The router around its loop, for invariants that see the canonical copy and those that do not.\<close>

lemma Router_around:
  assumes read: "P (snd (readRequestBody maxBody g))"
    and abort: "\<And>s b h. P h \<Longrightarrow> P (Abort s b h)"
    and loop: "\<And>m s c h. P (snd (readRequestBody maxBody g)) \<Longrightarrow>
        alloc (buffer_at (rc_RequestBody (gw_ctx (snd (readRequestBody maxBody g)))) (snd (readRequestBody maxBody g)))
          (snd (readRequestBody maxBody g)) = (c, h) \<Longrightarrow>
        P (zero_buffer (Some c) (state_of (router_loop env channels m s c nxt {} h)))"
  shows "P (state_of (Router env channels maxBody nxt g))"
proof -
  obtain r g1 where r: "extractModelFromRequest maxBody g = (r, g1)" by fastforce
  have g1: "snd (readRequestBody maxBody g) = g1" using extract_state [of maxBody g] r by simp
  have fail: "P (body_failure e g1)" for e using read abort g1 by (cases e) (simp_all add: body_failure_def)
  obtain c h where c: "alloc (buffer_at (rc_RequestBody (gw_ctx g1)) g1) g1 = (c, h)" by fastforce
  have "P (zero_buffer (Some c) (state_of (router_loop env channels m s c nxt {} h)))" for m s
    using loop [of c h m s] read c by (simp add: g1)
  then have z: "router_loop env channels m s c nxt {} h = x \<Longrightarrow> P (zero_buffer (Some c) (state_of x))" for m s x by blast
  show ?thesis
    unfolding Router_def r using read abort fail g1 by (auto simp: c split: sum.split run.split dest: z)
qed

section \<open>A gateway to try the properties on\<close>

definition idle_gateway :: gateway where
  "idle_gateway =
     \<lparr>gw_ctx = gw_ctx example_client, gw_conn = gw_conn example_client, gw_flusher = True, gw_bufs = [],
      gw_secures = [], gw_audit = [], gs_limiter = newMemoryLimiter, gs_quota = NewManager NewMemoryStore f_zero,
      gs_breakers = Map.empty, gs_ticks = 0, gs_events = []\<rparr>"

definition example_gw_env :: gw_env where
  "example_gw_env =
     \<lparr>ge_clock = (\<lambda>t. int t), ge_draw = (\<lambda>t n. Some 0), ge_seen = (\<lambda>t i. stateClosed), ge_net = (\<lambda>t. example_env),
      ge_url_Parse = ne_url_Parse example_env, ge_resolve = (\<lambda>base path. base @ path),
      ge_hmac = (\<lambda>k m. take 32 (k @ m))\<rparr>"

definition example_config :: runtime_config where
  "example_config =
     \<lparr>cfg_auth = \<lparr>ac_SigningKey = ''key'', ac_Issuer = ''aegis'', ac_Expiry = minute, ac_Revocation = None\<rparr>,
      cfg_rate_enabled = True,
      cfg_rate = \<lparr>rl_Backend = ''memory'', rl_DefaultRPM = 1, rl_DefaultTPM = 0, rl_DefaultMaxConc = 1, rl_MaxRequestBodySize = 0\<rparr>,
      cfg_quota_enabled = True, cfg_quota_manager = True,
      cfg_channels = [\<lparr>pc_ID = ''p'', pc_Name = ''p'', pc_Type = ''openai'', pc_BaseURL = ''https://a.y'', pc_KeyID = ''k'',
                       pc_Models = [''m''], pc_Weight = 1, pc_Priority = 0, pc_APIVersion = [], pc_Enabled = True\<rparr>],
      cfg_max_body = 0,
      cfg_kms = \<lparr>kc_Provider = Some (\<lambda>t k. KeyBytes ''secret''), kc_PoolKeyMapping = [''p'' \<mapsto> ''k'']\<rparr>,
      cfg_registry = [''openai'' \<mapsto> OpenAIAdapter], cfg_provider_types = [''p'' \<mapsto> ''openai''],
      cfg_domains = [''*.y'', ''api.x:8443'']\<rparr>"

definition anonymous_request :: http_request where
  "anonymous_request =
     \<lparr>rq_Method = ''POST'', rq_Path = ''/v1/chat/completions'', rq_Header = [], rq_RemoteAddr = ''10.0.0.1:5000'',
      rq_Body = ClientStream ''{}'' False, rq_ContentLength = 2, rq_cancelled = False\<rparr>"

lemma idle_client: "cc_status (gw_conn idle_gateway) = []" "cc_body (gw_conn idle_gateway) = []"
  by (simp_all add: idle_gateway_def example_client_def)

section \<open>One response per request\<close>

text \<open>Steps that change the body fields and nothing else.\<close>

definition body_only :: "'a gw_scheme \<Rightarrow> 'a gw_scheme \<Rightarrow> bool" where
  "body_only g g' \<longleftrightarrow>
     g = g'\<lparr>gw_bufs := gw_bufs g,
            gw_ctx := (gw_ctx g')\<lparr>rc_Request := rc_Request (gw_ctx g), rc_RequestBody := rc_RequestBody (gw_ctx g),
                                   rc_RequestBodyLoaded := rc_RequestBodyLoaded (gw_ctx g)\<rparr>\<rparr>"

lemma body_only_refl [simp]: "body_only g g"
  by (simp add: body_only_def)

lemma body_only_trans: "body_only g h \<Longrightarrow> body_only h k \<Longrightarrow> body_only g k"
proof -
  assume gh: "body_only g h" and hk: "body_only h k"
  let ?f = "\<lambda>x. x\<lparr>gw_bufs := gw_bufs g, gw_ctx := (gw_ctx x)\<lparr>rc_Request := rc_Request (gw_ctx g),
      rc_RequestBody := rc_RequestBody (gw_ctx g), rc_RequestBodyLoaded := rc_RequestBodyLoaded (gw_ctx g)\<rparr>\<rparr>"
  have "g = ?f h" using gh by (simp only: body_only_def)
  also have "\<dots> = ?f k" using hk unfolding body_only_def by (rule ssubst) simp
  finally show ?thesis unfolding body_only_def .
qed

lemma body_only_set_body [simp]: "body_only g (set_body r n g)"
  by (simp add: body_only_def set_body_def on_ctx_def)

lemma body_only_alloc: "alloc b g = (i, g') \<Longrightarrow> body_only g g'"
  by (auto simp: body_only_def alloc_def)

lemma body_only_zero [simp]: "body_only g (zero_buffer a g)"
  by (simp add: body_only_def zero_buffer_def split: option.split)

lemma body_only_point [simp]: "body_only g (on_ctx (\<lambda>rc. rc\<lparr>rc_RequestBody := a, rc_RequestBodyLoaded := l\<rparr>) g)"
  by (simp add: body_only_def on_ctx_def)

lemma body_only_read: "body_only g (snd (readRequestBody limit g))"
proof (cases "rc_RequestBodyLoaded (gw_ctx g)")
  case True
  then show ?thesis by (simp add: readRequestBody_def)
next
  case False
  obtain r g1 where r: "readAndReplaceBody limit g = (r, g1)" by fastforce
  then have "body_only g g1"
    by (auto simp: readAndReplaceBody_def Let_def split: if_splits prod.splits
        intro: body_only_trans [OF body_only_alloc])
  with False r show ?thesis
    by (auto simp: readRequestBody_def intro: body_only_trans split: sum.split)
qed

lemma body_only_replace: "body_only g (replaceRequestBody new g)"
  unfolding replaceRequestBody_def Let_def
  by (rule body_only_trans [OF _ body_only_set_body], rule body_only_trans [OF _ body_only_point]) simp

lemma body_only_sel:
  assumes "body_only g g'"
    and "\<And>x b rq rb ld. f (x\<lparr>gw_bufs := b, gw_ctx := (gw_ctx x)\<lparr>rc_Request := rq, rc_RequestBody := rb,
                                  rc_RequestBodyLoaded := ld\<rparr>\<rparr>) = f x"
  shows "f g' = f g"
  using arg_cong [OF assms(1) [unfolded body_only_def], of f] assms(2) by simp

lemma body_only_frame:
  assumes "body_only g g'"
  shows "gw_conn g' = gw_conn g" "gw_secures g' = gw_secures g" "gw_audit g' = gw_audit g" "gw_flusher g' = gw_flusher g"
    "rc_response (gw_ctx g') = rc_response (gw_ctx g)" "rc_ProviderAPIKey (gw_ctx g') = rc_ProviderAPIKey (gw_ctx g)"
    "rc_aborted (gw_ctx g') = rc_aborted (gw_ctx g)" "rc_StatusCode (gw_ctx g') = rc_StatusCode (gw_ctx g)"
    "rc_abortCode (gw_ctx g') = rc_abortCode (gw_ctx g)" "rc_VirtualKeyID (gw_ctx g') = rc_VirtualKeyID (gw_ctx g)"
    "rc_Permissions (gw_ctx g') = rc_Permissions (gw_ctx g)"
  by (rule body_only_sel [OF assms], simp)+

lemma body_only_shared:
  fixes g g' :: gateway
  assumes "body_only g g'"
  shows "gs_events g' = gs_events g" "gs_limiter g' = gs_limiter g" "gs_ticks g' = gs_ticks g"
    "gs_breakers g' = gs_breakers g" "gs_quota g' = gs_quota g"
  by (rule body_only_sel [OF assms], simp)+

lemma wire_body: "body_only g g' \<Longrightarrow> wire_inv g \<Longrightarrow> wire_inv g'"
  by (simp add: wire_inv_def body_only_frame)

lemma redact_body_only: "alloc b g = (i, g') \<Longrightarrow> body_only g (replaceRequestBody a g')"
  by (rule body_only_trans [OF body_only_alloc body_only_replace])

interpretation gwire: limiter_invariant wire_inv
proof
  show "wire_inv g \<Longrightarrow> wire_inv (tick g)" for g by (simp add: wire_inv_def tick_def)
  show "wire_inv g \<Longrightarrow> wire_inv (snd (readRequestBody limit g))" for g :: gateway and limit
    by (rule wire_body [OF body_only_read])
  show "wire_inv g \<Longrightarrow> wire_inv (g\<lparr>gs_limiter := l\<rparr>)" for g l by (simp add: wire_inv_def)
  show "wire_inv g \<Longrightarrow> wire_inv (g\<lparr>gs_quota := q\<rparr>)" for g q by (simp add: wire_inv_def)
  show "wire_inv g \<Longrightarrow> wire_inv (on_ctx (populate claims) g)" for g :: gateway and claims
    by (simp add: wire_inv_def on_ctx_def populate_def)
  show "wire_inv g \<Longrightarrow> alloc b g = (i, g') \<Longrightarrow> wire_inv (replaceRequestBody (Some i) g')" for g g' :: gateway and b i
    by (rule wire_body [OF redact_body_only])
qed

lemma ctx_wire: "(\<And>rc. rc_response (f rc) = rc_response rc) \<Longrightarrow> wire_inv g \<Longrightarrow> wire_inv (on_ctx f g)"
  by (simp add: wire_inv_def on_ctx_def)

lemma wire_reset: "wire_inv g \<Longrightarrow> wire_inv (ResetAttempt g)"
  unfolding ResetAttempt_def by (simp add: wire_inv_def on_ctx_def)

lemma wire_start: "wire_inv g \<Longrightarrow> wire_inv (start_attempt env channels model streaming tried canonical ch g)"
proof -
  assume g: "wire_inv g"
  obtain i g1 where a: "alloc (gw_bufs g ! canonical) g = (i, g1)" by fastforce
  have "wire_inv (ResetAttempt (replaceRequestBody (Some i) g1))"
    using g by (intro wire_reset) (rule wire_body [OF redact_body_only [OF a]])
  then show ?thesis
    by (simp add: start_attempt_def a Let_def ctx_wire gwire.tick_keeps)
qed

interpretation rwire: retry_invariant wire_inv wire_inv env channels canonical
proof
  show "wire_inv (start_attempt env channels model streaming tried canonical ch g)" if "wire_inv g"
    for g model streaming tried ch using that by (rule wire_start)
  show "wire_inv g'" if "wire_inv g" "select_channel env channels model tried g = (r, g')" for g g' model tried r
    using that by (auto simp: select_channel_def tick_def wire_inv_def split: prod.splits)
  show "wire_inv (settle env channels i lease g)" if "wire_inv g" for g i lease
    using that by (simp add: settle_def tick_def wire_inv_def)
qed (rule wire.abort_keeps)

lemma router_wire: "keeps wire_inv (Router env channels maxBody)"
proof (rule keepsI, rule Router_around)
  fix nxt :: "gateway \<Rightarrow> gateway run" and g :: gateway
  assume n: "\<And>h :: gateway. wire_inv h \<Longrightarrow> wire_inv (state_of (nxt h))" and g: "wire_inv g"
  show r: "wire_inv (snd (readRequestBody maxBody g))" by (rule gwire.read_keeps [OF g])
  fix m s c h
  assume "alloc (buffer_at (rc_RequestBody (gw_ctx (snd (readRequestBody maxBody g)))) (snd (readRequestBody maxBody g)))
          (snd (readRequestBody maxBody g)) = (c, h)"
  from wire_body [OF body_only_alloc [OF this] r] have "wire_inv (state_of (router_loop env channels m s c nxt {} h))"
    by (intro rwire.loop_keeps n)
  then show "wire_inv (zero_buffer (Some c) (state_of (router_loop env channels m s c nxt {} h)))"
    by (rule wire_body [OF body_only_zero])
qed (rule wire.abort_keeps)

lemma wire_FlushTo: "wire_inv g \<Longrightarrow> wire_inv (state_of (FlushTo cw g))"
  by (simp add: FlushTo_def Let_def wire_Write wire_WriteHeader client.add_headers_keeps)

lemma attempt_wire: "wire_inv g \<Longrightarrow> attempt env domains url key g = (out, cap, g') \<Longrightarrow> wire_inv g'"
proof -
  assume g: "wire_inv g" and a: "attempt env domains url key g = (out, cap, g')"
  have d: "wire_inv h" if "Dispatch client_writer net doms m hs b cfg k g = (o', h)" for net doms m hs b cfg k o' h
    using client.dispatch_keeps [OF g, of net doms m hs b cfg k] that by simp
  have s: "wire_inv (h\<lparr>gw_secures := x\<rparr>)" "wire_inv (h\<lparr>gs_events := y\<rparr>)" "wire_inv (tick h)" if "wire_inv h" for h x y
    using that by (simp_all add: wire_inv_def tick_def)
  show "wire_inv g'"
    using a g by (auto simp: attempt_def log_attempt_def Let_def s d split: if_splits prod.splits option.splits)
qed

lemma conclude_wire: "wire_inv g \<Longrightarrow> wire_inv (state_of (conclude_attempt out cap g))"
proof -
  assume g: "wire_inv g"
  have "wire_inv (note_result result g)" for result
    using g by (simp add: note_result_def ctx_wire split: option.split)
  then show ?thesis
    using g by (auto simp: conclude_attempt_def Let_def ctx_wire wire_FlushTo wire.abort_keeps split: option.split)
qed

interpretation awire: inner_invariant wire_inv
proof
  show "wire_inv (apply_adapter a ty path g)" if "wire_inv g" for a ty path g
    using that by (simp add: apply_adapter_def ctx_wire)
  show "wire_inv (replaceRequestBody (rc_RequestBody (gw_ctx g)) g)" if "wire_inv g" for g :: gateway
    using wire_body [OF body_only_replace that] .
  show "wire_inv g'" if "wire_inv g" "attempt env domains url key g = (out, cap, g')" for env domains url key g out cap g'
    using that by (rule attempt_wire)
  show "wire_inv (state_of (conclude_attempt out cap g))" if "wire_inv g" for out cap g using that by (rule conclude_wire)
  show "wire_inv (tick (g\<lparr>gs_events := gs_events g @ [KeyFetched k]\<rparr>))" if "wire_inv g" for g k
    using that by (simp add: wire_inv_def tick_def)
  show "wire_inv (on_ctx (\<lambda>rc. rc\<lparr>rc_ProviderAPIKey := Some p\<rparr>) g')" if "wire_inv g" "store_secure b g = (p, g')" for b g p g'
    using that by (intro ctx_wire) (auto simp: store_secure_def wire_inv_def)
  show "wire_inv (on_ctx (\<lambda>rc. rc\<lparr>rc_ProviderAPIKey := None\<rparr>) (close_secure p g))" if "wire_inv g" for p and g :: gateway
    using that by (simp add: wire_inv_def on_ctx_def close_secure_def)
qed

lemma policy_wire: "\<forall>m \<in> set (policy_chain env cfg). keeps wire_inv m"
  using gwire.auth_keeps gwire.outer_keeps router_wire awire.kms_keeps awire.adapter_keeps awire.proxy_keeps
  by (auto simp: policy_chain_def inner_chain_def)

text \<open>
  C2. Every request gets exactly one response: whatever the middleware, the key service or the
  network do, panics included, serving a request returns, the pipeline has recorded a status, and
  once the handler has returned the client has received exactly one response. Its status is the
  recorded one whenever \<open>net/http\<close> can send it (101 and 200 to 999); for any other code, which only an
  upstream can bring in, \<open>net/http\<close> panics or sends an informational line and the response is a 200.
\<close>
theorem exactly_one_response:
  assumes "cc_status (gw_conn g) = []" and "cc_body (gw_conn g) = []"
  shows "\<exists>g'. serve_request env cfg random r g = Returned g' \<and> is_committed g'
              \<and> cc_status (conn_finish (gw_conn g')) =
                  [if final_status (statusCode (rc_response (gw_ctx g')))
                   then statusCode (rc_response (gw_ctx g')) else 200]"
  using serve_once [OF policy_wire assms] wire_finished unfolding serve_request_def by blast

theorem exactly_one_response_witness:
  "\<exists>g'. serve_request example_gw_env example_config None anonymous_request idle_gateway = Returned g' \<and> is_committed g'
        \<and> cc_status (conn_finish (gw_conn g')) =
            [if final_status (statusCode (rc_response (gw_ctx g'))) then statusCode (rc_response (gw_ctx g')) else 200]"
  by (rule exactly_one_response) (rule idle_client)+

section \<open>No effect without an accepted key\<close>

text \<open>What Auth demands of a request at one reading of the clock.\<close>

definition admitted :: "gw_env \<Rightarrow> AuthConfig \<Rightarrow> go_time \<Rightarrow> http_request \<Rightarrow> Claims \<Rightarrow> bool" where
  "admitted env cfg now r claims \<longleftrightarrow>
     (\<exists>token check. bearer_token (hdr_Get (rq_Header r) ''Authorization'') = Some token
        \<and> ValidateAt (ge_hmac env) token (ac_SigningKey cfg) (ac_Issuer cfg) (ac_Expiry cfg) now = Inr claims
        \<and> ac_Revocation cfg = Some check
        \<and> check (rq_cancelled r) (c_Issuer claims) (c_KeyID claims) = NotRevoked)"

lemma auth_refuses:
  assumes "\<nexists>claims. admitted env cfg (ge_clock env (gs_ticks g)) (rc_Request (gw_ctx g)) claims"
  shows "\<exists>s b g1. Auth env cfg nxt g = Returned (Abort s b g1) \<and> (s = 401 \<or> s = 503) \<and> (g1 = g \<or> g1 = tick g)"
  using assms
  by (auto simp: Auth_def Let_def admitted_def split: option.split sum.split check_result.split)

lemma shared_WriteHeader:
  "gs_events (trw_WriteHeader s g) = gs_events g" "gs_limiter (trw_WriteHeader s g) = gs_limiter g"
  "gs_quota (trw_WriteHeader s g) = gs_quota g" "gs_breakers (trw_WriteHeader s g) = gs_breakers g"
  "gs_ticks (trw_WriteHeader s g) = gs_ticks g"
  by (simp_all add: trw_WriteHeader_def gw_defs)

lemma shared_Write:
  "gs_events (snd (trw_Write b g)) = gs_events g" "gs_limiter (snd (trw_Write b g)) = gs_limiter g"
  "gs_quota (snd (trw_Write b g)) = gs_quota g" "gs_breakers (snd (trw_Write b g)) = gs_breakers g"
  by (simp_all add: trw_Write_def Let_def shared_WriteHeader split: prod.split)

lemma shared_close:
  "gs_events (close_key g) = gs_events g" "gs_limiter (close_key g) = gs_limiter g"
  "gs_quota (close_key g) = gs_quota g" "gs_breakers (close_key g) = gs_breakers g"
  by (simp_all add: close_key_def close_secure_def on_ctx_def split: option.split)

lemma shared_zero:
  "gs_events (zero_buffer a g) = gs_events g" "gs_limiter (zero_buffer a g) = gs_limiter g"
  "gs_quota (zero_buffer a g) = gs_quota g" "gs_breakers (zero_buffer a g) = gs_breakers g"
  by (simp_all add: zero_buffer_def split: option.split)

lemma shared_finish:
  "gs_events (finish_request g) = gs_events g" "gs_limiter (finish_request g) = gs_limiter g"
  "gs_quota (finish_request g) = gs_quota g" "gs_breakers (finish_request g) = gs_breakers g"
  unfolding finish_request_def Let_def
  by (simp_all add: shared_Write shared_WriteHeader shared_close shared_zero gw_defs)

text \<open>The state the first policy middleware sees.\<close>

definition entry_state :: "bytes option \<Rightarrow> go_time \<Rightarrow> http_request \<Rightarrow> gateway \<Rightarrow> gateway" where
  "entry_state random now r g =
     (let reqID = hdr_Get (rq_Header r) ''X-Request-ID''
      in trw_SetHeader ''X-Request-ID'' (if Safe reqID then reqID else Generate random now) (g\<lparr>gw_ctx := new_context r\<rparr>))"

lemma entry_frame:
  "gs_events (entry_state random now r g) = gs_events g" "gs_limiter (entry_state random now r g) = gs_limiter g"
  "gs_quota (entry_state random now r g) = gs_quota g" "gs_breakers (entry_state random now r g) = gs_breakers g"
  "gs_ticks (entry_state random now r g) = gs_ticks g" "rc_Request (gw_ctx (entry_state random now r g)) = r"
  "gw_ctx (entry_state random now r g) = new_context r" "gw_secures (entry_state random now r g) = gw_secures g"
  "gw_bufs (entry_state random now r g) = gw_bufs g" "gw_audit (entry_state random now r g) = gw_audit g"
  by (simp_all add: entry_state_def Let_def gw_defs new_context_def)

lemma new_context_open: "rc_aborted (new_context r) = False" "rc_RequestBodyLoaded (new_context r) = False"
  "rc_RequestBody (new_context r) = None" "rc_Request (new_context r) = r" "rc_ProviderAPIKey (new_context r) = None"
  by (simp_all add: new_context_def)

text \<open>The whole run, seen from the policy chain.\<close>

definition completed :: "gateway run \<Rightarrow> gateway" where
  "completed res =
     (case res of
        Returned h \<Rightarrow> require_response (h\<lparr>gw_audit := gw_audit h @ [audit_entry False h]\<rparr>)
      | Panicked h \<Rightarrow> Abort 500 (''{'' @ quote ''error'' @ '':'' @ quote ''internal server error'' @ ''}'')
                      (h\<lparr>gw_audit := gw_audit h @ [audit_entry True h]\<rparr>))"

lemma require_aborted [simp]: "require_response (Abort s b g) = Abort s b g"
  by (simp add: require_response_def Abort_def on_ctx_def)

lemma require_idem [simp]: "require_response (require_response g) = require_response g"
  by (simp add: require_response_def Abort_def on_ctx_def)

lemma serve_unfold:
  "serve_request env cfg random r g =
     Returned (finish_request (completed
       (execute (policy_chain env cfg) (entry_state random (ge_clock env (gs_ticks g)) r g))))"
proof -
  let ?e = "entry_state random (ge_clock env (gs_ticks g)) r g"
  have open_state: "\<not> IsAborted (g\<lparr>gw_ctx := new_context r\<rparr>)" "\<not> IsAborted ?e"
    by (simp_all add: entry_frame new_context_open)
  have id: "RequestIDMiddleware random (ge_clock env (gs_ticks g)) nxt (g\<lparr>gw_ctx := new_context r\<rparr>) = nxt ?e" for nxt
    by (simp add: RequestIDMiddleware_def entry_state_def new_context_def Let_def)
  show ?thesis
    by (cases "execute (policy_chain env cfg) ?e")
      (simp_all add: serve_request_def ServeHTTP_def NewPipeline_def open_state new_context_open RecoveryMiddleware_def id
        AuditMiddleware_def completed_def)
qed

lemma shared_completed:
  "gs_events (completed res) = gs_events (state_of res)" "gs_limiter (completed res) = gs_limiter (state_of res)"
  "gs_quota (completed res) = gs_quota (state_of res)" "gs_breakers (completed res) = gs_breakers (state_of res)"
  by (cases res; simp add: completed_def require_response_def gw_defs)+

lemma finish_aborted:
  assumes "IsAborted g" and "\<not> is_committed g" and "cc_status (gw_conn g) = []" and "final_status (rc_abortCode (gw_ctx g))"
  shows "cc_status (gw_conn (finish_request g)) = [rc_abortCode (gw_ctx g)]"
proof -
  let ?h = "trw_WriteHeader (rc_abortCode (gw_ctx g)) (trw_SetHeader ''Content-Type'' ''application/json'' g)"
  have h: "cc_status (gw_conn ?h) = [rc_abortCode (gw_ctx g)]" "is_committed ?h"
    using assms by (simp_all add: trw_WriteHeader_def gw_defs)
  have "cc_status (gw_conn (snd (trw_Write b ?h))) = [rc_abortCode (gw_ctx g)]" for b
    using h by (auto simp: trw_Write_def Let_def dest: conn_Write_status split: prod.split)
  then show ?thesis using assms(1,2) unfolding finish_request_def Let_def by (simp add: on_ctx_def)
qed

text \<open>
  C1. A request whose key is missing, invalid, expired, revoked or cannot be checked has no effect:
  it is answered with 401 or 503, no provider key is fetched, nothing is sent, and neither the rate
  limiter nor the quota nor the circuit breakers have changed.
\<close>
theorem unauthenticated_has_no_effect:
  assumes "\<nexists>claims. admitted env (cfg_auth cfg) (ge_clock env (gs_ticks g)) r claims"
    and "cc_status (gw_conn g) = []"
    and "serve_request env cfg random r g = Returned g'"
  shows "(cc_status (gw_conn g') = [401] \<or> cc_status (gw_conn g') = [503])
         \<and> gs_events g' = gs_events g \<and> gs_limiter g' = gs_limiter g \<and> gs_quota g' = gs_quota g
         \<and> gs_breakers g' = gs_breakers g"
proof -
  let ?e = "entry_state random (ge_clock env (gs_ticks g)) r g"
  let ?ms = "outer_chain env cfg @ Router env (cfg_channels cfg) (cfg_max_body cfg) # inner_chain env cfg"
  have "\<exists>s b g1. Auth env (cfg_auth cfg) (execute ?ms) ?e = Returned (Abort s b g1) \<and> (s = 401 \<or> s = 503)
      \<and> (g1 = ?e \<or> g1 = tick ?e)"
    using assms(1) by (intro auth_refuses) (simp add: entry_frame new_context_open)
  then obtain s b g1 where a: "Auth env (cfg_auth cfg) (execute ?ms) ?e = Returned (Abort s b g1)"
      "s = 401 \<or> s = 503" "g1 = ?e \<or> g1 = tick ?e" by blast
  then have x: "execute (policy_chain env cfg) ?e = Returned (Abort s b g1)"
    by (simp add: policy_chain_def entry_frame new_context_open)
  define h where "h = completed (Returned (Abort s b g1))"
  have g': "g' = finish_request h" using assms(3) by (simp add: serve_unfold x h_def)
  have c: "\<not> is_committed h" "IsAborted h" "rc_abortCode (gw_ctx h) = s" "cc_status (gw_conn h) = []"
    using a(3) assms(2)
    by (auto simp: h_def completed_def require_response_def gw_defs tick_def entry_state_def new_context_def Let_def)
  have "gs_events h = gs_events g" "gs_limiter h = gs_limiter g" "gs_quota h = gs_quota g" "gs_breakers h = gs_breakers g"
    using a(3) by (auto simp: h_def shared_completed gw_defs tick_def entry_frame)
  moreover have "final_status (rc_abortCode (gw_ctx h))" using a(2) c(3) by auto
  ultimately show ?thesis
    using finish_aborted [OF c(2,1,4)] a(2) c(3) by (auto simp: g' shared_finish)
qed

theorem unauthenticated_has_no_effect_witness:
  "\<exists>g'. serve_request example_gw_env example_config None anonymous_request idle_gateway = Returned g'
        \<and> gs_events g' = [] \<and> (cc_status (gw_conn g') = [401] \<or> cc_status (gw_conn g') = [503])"
proof -
  obtain g' where g': "serve_request example_gw_env example_config None anonymous_request idle_gateway = Returned g'"
    by (simp add: serve_unfold)
  have "\<nexists>claims. admitted example_gw_env (cfg_auth example_config) now anonymous_request claims" for now
    by (simp add: admitted_def anonymous_request_def hdr_Get_def bearer_token_def)
  from unauthenticated_has_no_effect [OF this idle_client(1) g'] g' show ?thesis by (simp add: idle_gateway_def)
qed

text \<open>A request with a key that was issued by the gateway: it is admitted while the key is not revoked.\<close>

definition signed_request :: http_request where
  "signed_request = anonymous_request\<lparr>rq_Header := [(''Authorization'', [''Bearer '' @ example_token])]\<rparr>"

definition signed_env :: gw_env where
  "signed_env = example_gw_env\<lparr>ge_hmac := example_hmac, ge_clock := (\<lambda>t. 4 * second)\<rparr>"

definition signed_auth :: "(bool \<Rightarrow> string \<Rightarrow> string \<Rightarrow> check_result) \<Rightarrow> AuthConfig" where
  "signed_auth check = \<lparr>ac_SigningKey = example_key, ac_Issuer = ''i'', ac_Expiry = 3600 * second, ac_Revocation = Some check\<rparr>"

lemma signed_bearer: "bearer_token (hdr_Get (rq_Header signed_request) ''Authorization'') = Some example_token"
proof -
  have "CanonicalHeaderKey ''Authorization'' = ''Authorization''"
    by (simp add: CanonicalHeaderKey_def token_byte_def in_range_def byte_val_def byte_upper_def ascii_lower_def char_of_def
        bit_Suc_0_iff)
  then have "hdr_Get (rq_Header signed_request) ''Authorization'' = ''Bearer '' @ example_token"
    by (simp add: hdr_Get_def signed_request_def)
  then show ?thesis
    using example_token_length
    by (simp add: bearer_token_def split_space_def Let_def is_bearer_def ascii_lower_def in_range_def byte_val_def char_of_def bit_Suc_0_iff)
qed

lemma signed_admitted:
  "check False ''i'' ''vk'' = NotRevoked \<Longrightarrow> admitted signed_env (signed_auth check) (4 * second) signed_request example_claims"
  using signed_bearer example_accepted
  by (simp add: admitted_def signed_env_def signed_auth_def) (simp add: signed_request_def anonymous_request_def example_claims_def)

context limiter_invariant
begin

lemma completed_keeps: "P (state_of r) \<Longrightarrow> P (completed r)"
  by (cases r) (simp_all add: completed_def abort_keeps audit_keeps require_keeps)

end

end
