(* ===== verification/Gateway_Memory.thy ===== *)
theory Gateway_Memory
  imports Gateway
begin

text \<open>
  What a request leaves behind: every provider key it fetched and every buffer that held its body
  has been overwritten with zeros, every concurrency lease is released, and the number of upstream
  requests is bounded by the number of configured providers.
\<close>

section \<open>What writing to the client leaves alone\<close>

definition client_frame :: "'a gw_scheme \<Rightarrow> SecureBytes list \<times> bytes list \<times> audit_line list \<times> RequestContext \<times> 'a" where
  "client_frame g =
     (gw_secures g, gw_bufs g, gw_audit g,
      (gw_ctx g)\<lparr>rc_StatusCode := 0, rc_response := \<lparr>committed = False, statusCode = 0\<rparr>\<rparr>, gw.more g)"

lemma frame_conn [simp]: "client_frame (g\<lparr>gw_conn := c\<rparr>) = client_frame g"
  by (simp add: client_frame_def)

lemma frame_WriteHeader [simp]: "client_frame (trw_WriteHeader s g) = client_frame g"
  by (simp add: client_frame_def trw_WriteHeader_def gw_defs)

lemma frame_Write [simp]: "client_frame (snd (trw_Write b g)) = client_frame g"
  by (simp add: trw_Write_def Let_def split: prod.split)

interpretation cframe: writer_invariant client_writer "\<lambda>g. client_frame g = F"
  by unfold_locales
    (auto simp: client_writer_def trw_SetHeader_def trw_AddHeader_def on_conn_def trw_Flush_def Let_def split: if_splits)

lemma frame_dispatch: "client_frame (snd (Dispatch client_writer net doms m hs b cfg k g)) = client_frame g"
  by (rule cframe.dispatch_keeps) (rule refl)

lemma frame_FlushTo: "client_frame (state_of (FlushTo cw g)) = client_frame g"
  using cframe.add_headers_keeps [of g "client_frame g" "cw_header cw"] by (simp add: FlushTo_def Let_def)

lemma frame_ctx:
  assumes "client_frame g' = client_frame g"
    and "\<And>rc. f (rc\<lparr>rc_StatusCode := 0, rc_response := \<lparr>committed = False, statusCode = 0\<rparr>\<rparr>) = f rc"
  shows "f (gw_ctx g') = f (gw_ctx g)"
proof -
  have "(gw_ctx g')\<lparr>rc_StatusCode := 0, rc_response := \<lparr>committed = False, statusCode = 0\<rparr>\<rparr>
      = (gw_ctx g)\<lparr>rc_StatusCode := 0, rc_response := \<lparr>committed = False, statusCode = 0\<rparr>\<rparr>"
    using assms(1) by (simp add: client_frame_def)
  from arg_cong [OF this, of f] show ?thesis by (simp add: assms(2))
qed

lemma frame_fields:
  assumes "client_frame g' = client_frame g"
  shows "gw_secures g' = gw_secures g" "gw_bufs g' = gw_bufs g" "gw.more g' = gw.more g"
    "rc_ProviderAPIKey (gw_ctx g') = rc_ProviderAPIKey (gw_ctx g)" "rc_RequestBody (gw_ctx g') = rc_RequestBody (gw_ctx g)"
    "rc_RequestBodyLoaded (gw_ctx g') = rc_RequestBodyLoaded (gw_ctx g)"
proof -
  show "gw_secures g' = gw_secures g" "gw_bufs g' = gw_bufs g" "gw.more g' = gw.more g"
    using assms by (simp_all add: client_frame_def)
qed (rule frame_ctx [OF assms], simp)+

lemma frame_shared:
  assumes "client_frame g' = client_frame (g :: gateway)"
  shows "gs_events g' = gs_events g" "gs_limiter g' = gs_limiter g" "gs_quota g' = gs_quota g"
    "gs_breakers g' = gs_breakers g" "gs_ticks g' = gs_ticks g"
  using frame_fields(3) [OF assms] by (cases g; cases g'; simp)+

text \<open>An attempt touches the client, the key object, the log and the clock.\<close>

lemma Dispatch_key: "do_key (fst (Dispatch ops net doms m hs b cfg (Some k) w)) = Some (sb_Close k)"
  by (auto simp: Dispatch_def Let_def split: option.split prod.split)

lemma attempt_shape:
  assumes "attempt env domains url key g = (out, cap, g')"
  shows "\<exists>h. client_frame h = client_frame g \<and> g' = log_attempt key out h
             \<and> do_key out = Some (sb_Close (gw_secures g ! key))"
proof -
  define rc where "rc = gw_ctx g"
  define net where "net = ge_net env (gs_ticks g)"
  define D where "D = (\<lambda>(ops :: captureWriter response_writer) w. Dispatch ops net domains (rq_Method (rc_Request rc))
      (rq_Header (rc_Request rc)) (fst (body_content (rq_Body (rc_Request rc)) g)) (dispatch_config rc url)
      (Some (gw_secures g ! key)) w)"
  define E where "E = (\<lambda>(ops :: gateway response_writer) w. Dispatch ops net domains (rq_Method (rc_Request rc))
      (rq_Header (rc_Request rc)) (fst (body_content (rq_Body (rc_Request rc)) g)) (dispatch_config rc url)
      (Some (gw_secures g ! key)) w)"
  have eq: "attempt env domains url key g =
      (let (out, cap, g1) =
         (if rc_CanFallback rc \<and> \<not> rc_IsStreaming rc
          then (let (out, cw) = D capture_writer newCaptureWriter in (out, Some cw, g))
          else (let (out, g') = E client_writer g in (out, None, g')))
       in (out, cap, log_attempt key out g1))"
    unfolding attempt_def Let_def rc_def net_def D_def E_def by (rule refl)
  obtain o1 cw where d: "D capture_writer newCaptureWriter = (o1, cw)" by fastforce
  obtain o2 h where e: "E client_writer g = (o2, h)" by fastforce
  have "do_key o1 = Some (sb_Close (gw_secures g ! key))" "do_key o2 = Some (sb_Close (gw_secures g ! key))"
    using arg_cong [OF d, of fst] arg_cong [OF e, of fst] by (auto simp: D_def E_def Dispatch_key)
  moreover have "client_frame h = client_frame g" using e frame_dispatch unfolding E_def by (metis snd_conv)
  ultimately show ?thesis using assms by (auto simp: eq d e split: if_splits)
qed

lemma attempt_effect:
  assumes "attempt env domains url key g = (out, cap, g')"
  shows "gw_secures g' = (case do_key out of None \<Rightarrow> gw_secures g | Some k \<Rightarrow> (gw_secures g)[key := k])"
    and "gw_bufs g' = gw_bufs g" and "gs_limiter g' = gs_limiter g"
    and "gs_events g' = gs_events g @ (case do_sent out of None \<Rightarrow> [] | Some s \<Rightarrow> [Sent s])"
    and "rc_ProviderAPIKey (gw_ctx g') = rc_ProviderAPIKey (gw_ctx g)"
    and "rc_RequestBody (gw_ctx g') = rc_RequestBody (gw_ctx g)"
    and "rc_RequestBodyLoaded (gw_ctx g') = rc_RequestBodyLoaded (gw_ctx g)"
    and "do_key out = Some (sb_Close (gw_secures g ! key))"
proof -
  obtain h where h: "client_frame h = client_frame g" and g': "g' = log_attempt key out h"
    and k: "do_key out = Some (sb_Close (gw_secures g ! key))"
    using attempt_shape [OF assms] by blast
  note f = frame_fields [OF h] frame_shared [OF h]
  show "gw_secures g' = (case do_key out of None \<Rightarrow> gw_secures g | Some k \<Rightarrow> (gw_secures g)[key := k])"
    "gw_bufs g' = gw_bufs g" "gs_limiter g' = gs_limiter g"
    "gs_events g' = gs_events g @ (case do_sent out of None \<Rightarrow> [] | Some s \<Rightarrow> [Sent s])"
    "rc_ProviderAPIKey (gw_ctx g') = rc_ProviderAPIKey (gw_ctx g)"
    "rc_RequestBody (gw_ctx g') = rc_RequestBody (gw_ctx g)"
    "rc_RequestBodyLoaded (gw_ctx g') = rc_RequestBodyLoaded (gw_ctx g)"
    using f by (auto simp: g' log_attempt_def Let_def tick_def split: option.split)
  show "do_key out = Some (sb_Close (gw_secures g ! key))" by (rule k)
qed

section \<open>Provider keys\<close>

definition sb_closed :: "SecureBytes \<Rightarrow> bool" where
  "sb_closed sb \<longleftrightarrow> \<not> sb_held sb \<and> zeroed (sb_mem sb)"

text \<open>Every key object is closed, except the one the context still points to.\<close>

definition secrets_inv :: "'a gw_scheme \<Rightarrow> bool" where
  "secrets_inv g \<longleftrightarrow>
     (\<forall>p < length (gw_secures g). (sb_held (gw_secures g ! p) \<or> zeroed (sb_mem (gw_secures g ! p)))
        \<and> (sb_closed (gw_secures g ! p) \<or> rc_ProviderAPIKey (gw_ctx g) = Some p))
     \<and> (\<forall>p. rc_ProviderAPIKey (gw_ctx g) = Some p \<longrightarrow> p < length (gw_secures g))"

lemma secrets_cong:
  "gw_secures g' = gw_secures g \<Longrightarrow> rc_ProviderAPIKey (gw_ctx g') = rc_ProviderAPIKey (gw_ctx g)
   \<Longrightarrow> secrets_inv g' = secrets_inv g"
  by (simp add: secrets_inv_def)

lemma sb_Close_closed: "sb_held sb \<or> zeroed (sb_mem sb) \<Longrightarrow> sb_closed (sb_Close sb)"
  by (auto simp: sb_closed_def sb_Close_def)

lemma secrets_close:
  assumes "secrets_inv g"
  shows "secrets_inv (g\<lparr>gw_secures := (gw_secures g)[p := sb_Close (gw_secures g ! p)]\<rparr>)"
  using assms sb_Close_closed
  by (cases "p < length (gw_secures g)")
    (auto simp: secrets_inv_def nth_list_update sb_closed_def sb_Close_def)

text \<open>After the key has been closed and forgotten, all are closed.\<close>

lemma secrets_forget:
  assumes "secrets_inv g" and "rc_ProviderAPIKey (gw_ctx g) = Some p \<or> rc_ProviderAPIKey (gw_ctx g) = None"
  shows "secrets_inv (on_ctx (\<lambda>rc. rc\<lparr>rc_ProviderAPIKey := None\<rparr>) (close_secure p g))"
  using assms sb_Close_closed [of "gw_secures g ! p"]
  by (cases "p < length (gw_secures g)")
    (auto simp: secrets_inv_def on_ctx_def close_secure_def nth_list_update sb_closed_def)

lemma secrets_close_key: "secrets_inv g \<Longrightarrow> secrets_inv (close_key g)"
  by (cases "rc_ProviderAPIKey (gw_ctx g)") (simp_all add: close_key_def secrets_forget)

definition keyless :: "'a gw_scheme \<Rightarrow> bool" where
  "keyless g \<longleftrightarrow> secrets_inv g \<and> rc_ProviderAPIKey (gw_ctx g) = None"

lemma keyless_closed: "keyless g \<longleftrightarrow> (\<forall>sb \<in> set (gw_secures g). sb_closed sb) \<and> rc_ProviderAPIKey (gw_ctx g) = None"
  by (auto simp: keyless_def secrets_inv_def sb_closed_def all_set_conv_all_nth)

text \<open>Steps that touch neither the key objects nor the pointer.\<close>

definition same_keys :: "gateway \<Rightarrow> gateway \<Rightarrow> bool" where
  "same_keys g g' \<longleftrightarrow> gw_secures g' = gw_secures g \<and> rc_ProviderAPIKey (gw_ctx g') = rc_ProviderAPIKey (gw_ctx g)"

lemma same_keys_body: "body_only g g' \<Longrightarrow> same_keys g g'"
  by (simp add: same_keys_def body_only_frame)

lemma same_keys_steps:
  "same_keys g (Abort s b g)" "same_keys g (trw_SetHeader k v g)" "same_keys g (g\<lparr>gw_audit := l\<rparr>)" "same_keys g (tick g)"
  "same_keys g (g\<lparr>gs_limiter := lm\<rparr>)" "same_keys g (g\<lparr>gs_quota := q\<rparr>)" "same_keys g (on_ctx (populate claims) g)"
  "same_keys g (settle env channels i lease g)" "same_keys g (apply_adapter a ty path g)" "same_keys g (note_result r g)"
  by (simp_all add: same_keys_def gw_defs tick_def populate_def settle_def apply_adapter_def note_result_def split: option.split)

lemma same_keys_select: "select_channel env channels model tried g = (r, g') \<Longrightarrow> same_keys g g'"
  by (auto simp: select_channel_def same_keys_def tick_def split: prod.splits)

lemma same_keys_trans: "same_keys g h \<Longrightarrow> same_keys h k \<Longrightarrow> same_keys g k"
  by (simp add: same_keys_def)

lemma same_keys_FlushTo: "same_keys g (state_of (FlushTo cw g))"
  by (simp add: same_keys_def frame_fields [OF frame_FlushTo])

lemma same_keys_conclude: "same_keys g (state_of (conclude_attempt out cap g))"
proof -
  have f: "gw_secures (state_of (FlushTo cw h)) = gw_secures h" "rc_ProviderAPIKey (gw_ctx (state_of (FlushTo cw h))) = rc_ProviderAPIKey (gw_ctx h)"
    for cw and h :: gateway using same_keys_FlushTo [of h cw] by (simp_all add: same_keys_def)
  have n: "gw_secures (note_result r h) = gw_secures h"
    "rc_ProviderAPIKey (gw_ctx (note_result r h)) = rc_ProviderAPIKey (gw_ctx h)" for r h
    using same_keys_steps(10) [of h r] by (simp_all add: same_keys_def)
  show ?thesis
    by (auto simp: conclude_attempt_def Let_def same_keys_def f n gw_defs split: option.split)
qed

text \<open>Every invariant of the key objects goes through the steps outside the router.\<close>

locale key_invariant =
  fixes P :: "gateway \<Rightarrow> bool"
  assumes same_keeps: "P g \<Longrightarrow> same_keys g g' \<Longrightarrow> P g'"

sublocale key_invariant \<subseteq> limiter_invariant P
  by unfold_locales
    ((erule same_keeps, rule same_keys_steps) | (erule same_keeps, rule same_keys_body [OF body_only_read])
     | (erule same_keeps, rule same_keys_body, erule redact_body_only))+

interpretation skeys: key_invariant secrets_inv
  by unfold_locales (simp add: same_keys_def secrets_inv_def)

definition keyed :: "nat \<Rightarrow> gateway \<Rightarrow> bool" where
  "keyed p g \<longleftrightarrow> secrets_inv g \<and> rc_ProviderAPIKey (gw_ctx g) = Some p"

interpretation kkeys: key_invariant "keyed p"
  by unfold_locales (auto simp: same_keys_def secrets_inv_def keyed_def)

interpretation akeys: attempt_invariant "keyed p"
proof
  show "keyed p (apply_adapter a ty path g)" if "keyed p g" for a ty path g
    using kkeys.same_keeps [OF that same_keys_steps(9)] .
  show "keyed p (replaceRequestBody (rc_RequestBody (gw_ctx g)) g)" if "keyed p g" for g
    using kkeys.same_keeps [OF that same_keys_body [OF body_only_replace]] .
  show "keyed p (state_of (conclude_attempt out cap g))" if "keyed p g" for out cap g
    using kkeys.same_keeps [OF that same_keys_conclude] .
  show "keyed p g'" if g: "keyed p g" "rc_ProviderAPIKey (gw_ctx g) = Some key" and a: "attempt env domains url key g = (out, cap, g')"
    for env domains url key g out cap g'
  proof -
    have "secrets_inv (g\<lparr>gw_secures := (gw_secures g)[key := sb_Close (gw_secures g ! key)]\<rparr>)"
      using g by (intro secrets_close) (simp add: keyed_def)
    then have "secrets_inv g'"
      by (rule secrets_cong [THEN iffD2, rotated 2]) (use attempt_effect(1,5,8) [OF a] in simp_all)
    then show ?thesis using g attempt_effect(5) [OF a] by (simp add: keyed_def)
  qed
qed

lemma store_keyed:
  assumes "keyless g" and "store_secure b g = (p, g2)"
  shows "keyed p (on_ctx (\<lambda>rc. rc\<lparr>rc_ProviderAPIKey := Some p\<rparr>) g2)"
proof -
  have g2: "g2 = g\<lparr>gw_secures := gw_secures g @ [NewSecureBytes b]\<rparr>" "p = length (gw_secures g)"
    using assms(2) by (auto simp: store_secure_def)
  have "sb_closed sb" if "sb \<in> set (gw_secures g)" for sb using assms(1) that by (simp add: keyless_closed)
  then have "sb_closed (gw_secures g ! q)" if "q < length (gw_secures g)" for q using that by simp
  then show ?thesis
    by (auto simp: g2 keyed_def secrets_inv_def on_ctx_def nth_append NewSecureBytes_def sb_closed_def less_Suc_eq)
qed

text \<open>The key step, whatever the rest of the chain does with the key it was given.\<close>

lemma kms_secrets:
  assumes n: "\<And>p h. keyed p h \<Longrightarrow> keyed p (state_of (nxt h))" and g: "keyless g"
  shows "secrets_inv (state_of (KMSInjector cfg nxt g))"
proof -
  let ?g1 = "\<lambda>k. tick (g\<lparr>gs_events := gs_events g @ [KeyFetched k]\<rparr>)"
  have g1: "keyless (?g1 k)" for k using g by (simp add: keyless_closed tick_def)
  have st: "secrets_inv g" "secrets_inv (?g1 k)" for k using g g1 by (simp_all add: keyless_def)
  have key: "keyed p (on_ctx (\<lambda>rc. rc\<lparr>rc_ProviderAPIKey := Some p\<rparr>) g2)" if "store_secure b (?g1 k) = (p, g2)" for b k p g2
    by (rule store_keyed [OF g1 that])
  have run: "secrets_inv (state_of (and_then (nxt (on_ctx (\<lambda>rc. rc\<lparr>rc_ProviderAPIKey := Some p\<rparr>) g2))
        (\<lambda>g3. on_ctx (\<lambda>rc. rc\<lparr>rc_ProviderAPIKey := None\<rparr>) (close_secure p g3))))"
    if "store_secure b (?g1 k) = (p, g2)" for b k p g2
  proof -
    have "keyed p (state_of (nxt (on_ctx (\<lambda>rc. rc\<lparr>rc_ProviderAPIKey := Some p\<rparr>) g2)))" by (rule n [OF key [OF that]])
    then show ?thesis
      by (cases "nxt (on_ctx (\<lambda>rc. rc\<lparr>rc_ProviderAPIKey := Some p\<rparr>) g2)") (simp_all add: keyed_def secrets_forget)
  qed
  show ?thesis
    unfolding KMSInjector_def Let_def
    using st run by (auto simp: skeys.abort_keeps split: option.split kms_answer.split prod.split)
qed

lemma inner_secrets: "keyless g \<Longrightarrow> secrets_inv (state_of (execute (inner_chain env cfg) g))"
  unfolding inner_chain_def
  by (rule skeys.execute_head)
    (auto simp: keyless_def intro!: kms_secrets kkeys.execute_keeps akeys.adapter_keeps akeys.proxy_keeps)

lemma secrets_reset: "secrets_inv g \<Longrightarrow> keyless (ResetAttempt g)"
proof -
  assume g: "secrets_inv g"
  have "secrets_inv (ResetAttempt g)" unfolding ResetAttempt_def
    by (intro secrets_close_key) (use g in \<open>simp add: secrets_inv_def on_ctx_def\<close>)
  moreover have "rc_ProviderAPIKey (gw_ctx (ResetAttempt g)) = None" by (simp add: ResetAttempt_def)
  ultimately show ?thesis by (simp add: keyless_def)
qed

interpretation rkeys: retry_invariant secrets_inv keyless env channels canonical
proof
  fix g :: gateway and model streaming tried ch
  assume "secrets_inv g"
  obtain i g1 where a: "alloc (gw_bufs g ! canonical) g = (i, g1)" by fastforce
  have "secrets_inv (replaceRequestBody (Some i) g1)"
    using skeys.same_keeps [OF \<open>secrets_inv g\<close> same_keys_body [OF redact_body_only [OF a]]] .
  then have "keyless (ResetAttempt (replaceRequestBody (Some i) g1))" by (rule secrets_reset)
  then show "keyless (start_attempt env channels model streaming tried canonical ch g)"
    by (simp add: start_attempt_def a Let_def keyless_closed on_ctx_def tick_def)
next
  show "secrets_inv g'" if "secrets_inv g" "select_channel env channels model tried g = (r, g')" for g g' model tried r
    using skeys.same_keeps [OF that(1) same_keys_select [OF that(2)]] .
  show "secrets_inv (settle env channels i lease g)" if "secrets_inv g" for g i lease
    using skeys.same_keeps [OF that same_keys_steps(8)] .
qed (rule skeys.abort_keeps)

lemma router_secrets:
  assumes n: "\<And>h. keyless h \<Longrightarrow> secrets_inv (state_of (nxt h))" and g: "secrets_inv g"
  shows "secrets_inv (state_of (Router env channels maxBody nxt g))"
proof (rule Router_around)
  show r: "secrets_inv (snd (readRequestBody maxBody g))" by (rule skeys.read_keeps [OF g])
  fix m s c h
  assume "alloc (buffer_at (rc_RequestBody (gw_ctx (snd (readRequestBody maxBody g)))) (snd (readRequestBody maxBody g)))
          (snd (readRequestBody maxBody g)) = (c, h)"
  then have "secrets_inv h" using skeys.same_keeps [OF r same_keys_body [OF body_only_alloc]] by blast
  then have "secrets_inv (state_of (router_loop env channels m s c nxt {} h))" by (intro rkeys.loop_keeps n)
  then show "secrets_inv (zero_buffer (Some c) (state_of (router_loop env channels m s c nxt {} h)))"
    by (rule skeys.same_keeps) (rule same_keys_body [OF body_only_zero])
qed (rule skeys.abort_keeps)

lemma policy_secrets: "secrets_inv g \<Longrightarrow> secrets_inv (state_of (execute (policy_chain env cfg) g))"
  by (rule skeys.policy_keeps [OF router_secrets [OF inner_secrets]])

section \<open>Request bodies\<close>

text \<open>
  Every buffer that held a request body is zeroed, except the one the context still owns and the
  copies in \<open>S\<close> that somebody else has promised to zero.
\<close>

definition bufs_inv :: "nat set \<Rightarrow> gateway \<Rightarrow> bool" where
  "bufs_inv S g \<longleftrightarrow>
     (\<forall>i < length (gw_bufs g). i \<in> S \<or> rc_RequestBody (gw_ctx g) = Some i \<or> zeroed (gw_bufs g ! i))
     \<and> (\<forall>i. rc_RequestBody (gw_ctx g) = Some i \<longrightarrow> i < length (gw_bufs g) \<and> i \<notin> S)
     \<and> (\<not> rc_RequestBodyLoaded (gw_ctx g) \<longrightarrow> rc_RequestBody (gw_ctx g) = None)
     \<and> S \<subseteq> {..<length (gw_bufs g)}"

definition same_bufs :: "gateway \<Rightarrow> gateway \<Rightarrow> bool" where
  "same_bufs g g' \<longleftrightarrow> gw_bufs g' = gw_bufs g \<and> rc_RequestBody (gw_ctx g') = rc_RequestBody (gw_ctx g)
     \<and> rc_RequestBodyLoaded (gw_ctx g') = rc_RequestBodyLoaded (gw_ctx g)"

lemma bufs_same: "bufs_inv S g \<Longrightarrow> same_bufs g g' \<Longrightarrow> bufs_inv S g'"
  by (simp add: bufs_inv_def same_bufs_def)

lemma same_bufs_steps:
  "same_bufs g (Abort s b g)" "same_bufs g (trw_SetHeader k v g)" "same_bufs g (g\<lparr>gw_audit := l\<rparr>)" "same_bufs g (tick g)"
  "same_bufs g (g\<lparr>gs_limiter := lm\<rparr>)" "same_bufs g (g\<lparr>gs_quota := q\<rparr>)" "same_bufs g (on_ctx (populate claims) g)"
  "same_bufs g (settle env channels i lease g)" "same_bufs g (apply_adapter a ty path g)" "same_bufs g (note_result r g)"
  "same_bufs g (state_of (FlushTo cw g))" "same_bufs g (close_secure p g)" "same_bufs g (set_body rd n g)" "same_bufs g (close_key g)"
  by (simp_all add: same_bufs_def gw_defs tick_def populate_def settle_def apply_adapter_def note_result_def close_secure_def
      frame_fields [OF frame_FlushTo] set_body_def close_key_def split: option.split)

lemma same_bufs_select: "select_channel env channels model tried g = (r, g') \<Longrightarrow> same_bufs g g'"
  by (auto simp: select_channel_def same_bufs_def tick_def split: prod.splits)

lemma same_bufs_conclude: "same_bufs g (state_of (conclude_attempt out cap g))"
proof -
  have f: "gw_bufs (state_of (FlushTo cw h)) = gw_bufs h" "rc_RequestBody (gw_ctx (state_of (FlushTo cw h))) = rc_RequestBody (gw_ctx h)"
    "rc_RequestBodyLoaded (gw_ctx (state_of (FlushTo cw h))) = rc_RequestBodyLoaded (gw_ctx h)" for cw and h :: gateway
    using same_bufs_steps(11) [of h cw] by (simp_all add: same_bufs_def)
  have n: "gw_bufs (note_result r h) = gw_bufs h" "rc_RequestBody (gw_ctx (note_result r h)) = rc_RequestBody (gw_ctx h)"
    "rc_RequestBodyLoaded (gw_ctx (note_result r h)) = rc_RequestBodyLoaded (gw_ctx h)" for r h
    using same_bufs_steps(10) [of h r] by (simp_all add: same_bufs_def)
  show ?thesis by (auto simp: conclude_attempt_def Let_def same_bufs_def f n gw_defs split: option.split)
qed

text \<open>Loading the body, and replacing it by a fresh buffer.\<close>

lemma bufs_adopt:
  assumes "bufs_inv S g" and "rc_RequestBody (gw_ctx g) = None"
  shows "bufs_inv S (on_ctx (\<lambda>rc. rc\<lparr>rc_RequestBody := Some (length (gw_bufs g)), rc_RequestBodyLoaded := True\<rparr>)
           (g\<lparr>gw_bufs := gw_bufs g @ [b]\<rparr>))"
  using assms by (fastforce simp: bufs_inv_def on_ctx_def nth_append less_Suc_eq)

lemma bufs_read: "bufs_inv S g \<Longrightarrow> bufs_inv S (snd (readRequestBody limit g))"
proof (cases "rc_RequestBodyLoaded (gw_ctx g)")
  case True
  then show "bufs_inv S g \<Longrightarrow> ?thesis" by (simp add: readRequestBody_def)
next
  case False
  assume g: "bufs_inv S g"
  then have none: "rc_RequestBody (gw_ctx g) = None" using False by (simp add: bufs_inv_def)
  let ?point = "\<lambda>a. on_ctx (\<lambda>rc. rc\<lparr>rc_RequestBody := a, rc_RequestBodyLoaded := True\<rparr>)"
  have nil: "bufs_inv S (?point None g)" using g none by (simp add: bufs_inv_def on_ctx_def)
  have set_keep: "bufs_inv S (set_body rd n g)" for rd n using g by (rule bufs_same) (rule same_bufs_steps)
  have swap: "?point a (set_body rd n h) = set_body rd n (?point a h)" for a rd n and h :: gateway
    by (simp add: set_body_def on_ctx_def)
  have new: "bufs_inv S (?point (Some i) (set_body rd n h))" if "alloc b g = (i, h)" for b i h rd n
    using bufs_adopt [OF g none, of b] that unfolding swap
    by (intro bufs_same [OF _ same_bufs_steps(13)]) (auto simp: alloc_def)
  show ?thesis
    using False g nil set_keep new
    by (auto simp: readRequestBody_def readAndReplaceBody_def Let_def split: sum.split prod.split)
qed

lemma bufs_replace:
  assumes g: "bufs_inv S g" and a: "alloc b g = (i, h)"
  shows "bufs_inv S (replaceRequestBody (Some i) h)"
proof -
  define old where "old = rc_RequestBody (gw_ctx g)"
  have h: "h = g\<lparr>gw_bufs := gw_bufs g @ [b]\<rparr>" "i = length (gw_bufs g)" using a by (auto simp: alloc_def)
  define k where "k = (if sameBuffer old (Some i) h then h else zero_buffer old h)"
  have bnd: "old = Some j \<Longrightarrow> j < length (gw_bufs g) \<and> j \<notin> S" for j using g by (simp add: bufs_inv_def old_def)
  have z: "j < length (gw_bufs g) \<Longrightarrow> j \<in> S \<or> old = Some j \<or> zeroed (gw_bufs g ! j)" for j
    using g by (simp add: bufs_inv_def old_def)
  have kb: "length (gw_bufs k) = Suc (length (gw_bufs g))" "gw_ctx k = gw_ctx g"
    by (auto simp: k_def h zero_buffer_def split: option.split)
  have S: "S \<subseteq> {..<length (gw_bufs g)}" using g by (simp add: bufs_inv_def)
  have kz: "j \<in> S \<or> zeroed (gw_bufs k ! j)" if j: "j < length (gw_bufs g)" for j
  proof (cases "old = Some j")
    case True
    have "zeroed (gw_bufs k ! j)"
    proof (cases "sameBuffer old (Some i) h")
      case True
      with \<open>old = Some j\<close> j show ?thesis
        by (auto simp: k_def sameBuffer_def h nth_append zeroed_def split: if_splits)
    next
      case False
      with \<open>old = Some j\<close> j show ?thesis by (simp add: k_def zero_buffer_def h nth_append)
    qed
    then show ?thesis ..
  next
    case False
    have "gw_bufs k ! j = gw_bufs g ! j"
      using False j by (auto simp: k_def zero_buffer_def h nth_append nth_list_update split: option.split)
    then show ?thesis using z [OF j] False by simp
  qed
  have "bufs_inv S (on_ctx (\<lambda>rc. rc\<lparr>rc_RequestBody := Some i, rc_RequestBodyLoaded := True\<rparr>) k)"
    using kz kb S h by (auto simp: bufs_inv_def on_ctx_def less_Suc_eq)
  moreover have "rc_RequestBody (gw_ctx h) = old" by (simp add: h old_def)
  ultimately show ?thesis
    unfolding replaceRequestBody_def Let_def
    by (intro bufs_same [OF _ same_bufs_steps(13)]) (simp add: k_def split: if_splits)
qed

text \<open>Replacing the body by itself, as the adapters that pass it on do.\<close>

lemma bufs_keep_body:
  assumes "bufs_inv S g" and "rc_RequestBodyLoaded (gw_ctx g)"
  shows "bufs_inv S (replaceRequestBody (rc_RequestBody (gw_ctx g)) g)"
proof -
  have "sameBuffer (rc_RequestBody (gw_ctx g)) (rc_RequestBody (gw_ctx g)) g" by (simp add: sameBuffer_def)
  then show ?thesis
    using assms unfolding replaceRequestBody_def Let_def
    by (intro bufs_same [OF _ same_bufs_steps(13)]) (simp add: bufs_inv_def on_ctx_def)
qed

interpretation bufs: limiter_invariant "bufs_inv S"
  by unfold_locales (erule bufs_same, rule same_bufs_steps | erule bufs_read | erule (1) bufs_replace)+

interpretation abufs: inner_invariant "bufs_inv S"
proof
  show "bufs_inv S (apply_adapter a ty path g)" if "bufs_inv S g" for a ty path g
    using bufs_same [OF that same_bufs_steps(9)] .
  show "bufs_inv S (replaceRequestBody (rc_RequestBody (gw_ctx g)) g)" if "bufs_inv S g" "rc_RequestBodyLoaded (gw_ctx g)" for g
    using that by (rule bufs_keep_body)
  show "bufs_inv S g'" if g: "bufs_inv S g" and a: "attempt env domains url key g = (out, cap, g')"
    for env domains url key g out cap g'
    using bufs_same [OF g] attempt_effect(2,6,7) [OF a] by (simp add: same_bufs_def)
  show "bufs_inv S (state_of (conclude_attempt out cap g))" if "bufs_inv S g" for out cap g
    using bufs_same [OF that same_bufs_conclude] .
  show "bufs_inv S (tick (g\<lparr>gs_events := gs_events g @ [KeyFetched k]\<rparr>))" if "bufs_inv S g" for g k
    using that by (rule bufs_same) (simp add: same_bufs_def tick_def)
  show "bufs_inv S (on_ctx (\<lambda>rc. rc\<lparr>rc_ProviderAPIKey := Some p\<rparr>) g')" if "bufs_inv S g" "store_secure b g = (p, g')" for b g p g'
    using that(2) by (intro bufs_same [OF that(1)]) (auto simp: store_secure_def same_bufs_def on_ctx_def)
  show "bufs_inv S (on_ctx (\<lambda>rc. rc\<lparr>rc_ProviderAPIKey := None\<rparr>) (close_secure p g))" if "bufs_inv S g" for p g
    using that by (rule bufs_same) (simp add: same_bufs_def on_ctx_def close_secure_def)
qed

interpretation rbufs: retry_invariant "bufs_inv S" "bufs_inv S" env channels canonical
proof
  fix g :: gateway and model streaming tried ch
  assume g: "bufs_inv S g"
  obtain i g1 where a: "alloc (gw_bufs g ! canonical) g = (i, g1)" by fastforce
  have "bufs_inv S (replaceRequestBody (Some i) g1)" by (rule bufs_replace [OF g a])
  moreover have "same_bufs (replaceRequestBody (Some i) g1) (start_attempt env channels model streaming tried canonical ch g)"
    by (simp add: start_attempt_def a Let_def same_bufs_def ResetAttempt_def close_key_def close_secure_def on_ctx_def tick_def
        split: option.split)
  ultimately show "bufs_inv S (start_attempt env channels model streaming tried canonical ch g)" by (rule bufs_same)
next
  show "bufs_inv S g'" if "bufs_inv S g" "select_channel env channels model tried g = (r, g')" for g g' model tried r
    using bufs_same [OF that(1) same_bufs_select [OF that(2)]] .
  show "bufs_inv S (settle env channels i lease g)" if "bufs_inv S g" for g i lease
    using bufs_same [OF that same_bufs_steps(8)] .
qed (rule bufs.abort_keeps)

text \<open>The canonical copy belongs to the router: it is outside the invariant during the loop and zeroed behind it.\<close>

lemma bufs_lend: "bufs_inv S g \<Longrightarrow> alloc b g = (c, h) \<Longrightarrow> bufs_inv (insert c S) h \<and> c \<notin> S"
  by (fastforce simp: bufs_inv_def alloc_def nth_append less_Suc_eq)

lemma bufs_return: "bufs_inv (insert c S) g \<Longrightarrow> c \<notin> S \<Longrightarrow> bufs_inv S (zero_buffer (Some c) g)"
  by (auto simp: bufs_inv_def zero_buffer_def nth_list_update)

lemma router_bufs:
  assumes n: "\<And>T h. bufs_inv T h \<Longrightarrow> bufs_inv T (state_of (nxt h))" and g: "bufs_inv S g"
  shows "bufs_inv S (state_of (Router env channels maxBody nxt g))"
proof (rule Router_around)
  show r: "bufs_inv S (snd (readRequestBody maxBody g))" by (rule bufs.read_keeps [OF g])
  fix m s c h
  assume "alloc (buffer_at (rc_RequestBody (gw_ctx (snd (readRequestBody maxBody g)))) (snd (readRequestBody maxBody g)))
          (snd (readRequestBody maxBody g)) = (c, h)"
  from bufs_lend [OF r this] have "bufs_inv (insert c S) h" and c: "c \<notin> S" by auto
  from this(1) have "bufs_inv (insert c S) (state_of (router_loop env channels m s c nxt {} h))" by (intro rbufs.loop_keeps n)
  then show "bufs_inv S (zero_buffer (Some c) (state_of (router_loop env channels m s c nxt {} h)))" by (rule bufs_return) (rule c)
qed (rule bufs.abort_keeps)

lemma policy_bufs: "bufs_inv S g \<Longrightarrow> bufs_inv S (state_of (execute (policy_chain env cfg) g))"
  by (rule bufs.policy_keeps [OF router_bufs [OF abufs.inner_keeps]])

section \<open>What is left after a request\<close>

text \<open>No key object is open and no buffer holds bytes of a body.\<close>

definition memory_wiped :: "gateway \<Rightarrow> bool" where
  "memory_wiped g \<longleftrightarrow> (\<forall>sb \<in> set (gw_secures g). sb_closed sb) \<and> (\<forall>b \<in> set (gw_bufs g). zeroed b)"

lemma finish_wipes:
  assumes "secrets_inv g" and "bufs_inv {} g"
  shows "memory_wiped (finish_request g)"
proof -
  define g1 where "g1 = (if \<not> IsAborted g \<and> \<not> is_committed g then Abort 500 no_response_body g else g)"
  define g2 where "g2 = (if IsAborted g1 \<and> \<not> is_committed g1
                then snd (trw_Write (rc_abortBody (gw_ctx g1))
                       (trw_WriteHeader (rc_abortCode (gw_ctx g1))
                         (trw_SetHeader ''Content-Type'' ''application/json'' g1)))
                else g1)"
  have fin: "finish_request g = (let g3 = close_key g2;
          g4 = zero_buffer (rc_RequestBody (gw_ctx g3)) g3
      in on_ctx (\<lambda>rc. rc\<lparr>rc_RequestBody := None, rc_RequestBodyLoaded := False\<rparr>) g4)"
    by (simp only: finish_request_def Let_def g1_def g2_def)
  have g1: "secrets_inv g1" "bufs_inv {} g1" using assms by (simp_all add: g1_def skeys.abort_keeps bufs.abort_keeps)
  have "client_frame (trw_SetHeader k v h) = client_frame h" for k v and h :: gateway
    by (simp add: trw_SetHeader_def on_conn_def)
  then have f: "client_frame g2 = client_frame g1" by (simp add: g2_def)
  then have same: "same_keys g1 g2" "same_bufs g1 g2"
    using frame_fields [OF f] by (simp_all add: same_keys_def same_bufs_def)
  have s2: "secrets_inv (close_key g2)" by (rule secrets_close_key [OF skeys.same_keeps [OF g1(1) same(1)]])
  have b2: "bufs_inv {} (close_key g2)" by (rule bufs_same [OF bufs_same [OF g1(2) same(2)] same_bufs_steps(14)])
  have "keyless (close_key g2)" using s2 by (simp add: keyless_def)
  moreover have "\<forall>b \<in> set (gw_bufs (zero_buffer (rc_RequestBody (gw_ctx (close_key g2))) (close_key g2))). zeroed b"
    using b2 by (cases "rc_RequestBody (gw_ctx (close_key g2))")
      (auto simp: bufs_inv_def zero_buffer_def all_set_conv_all_nth nth_list_update)
  ultimately show ?thesis
    by (simp add: memory_wiped_def fin Let_def on_ctx_def keyless_closed)
qed

text \<open>
  C3. Nothing secret outlives a request: if every key object is closed and every body buffer
  zeroed before a request, then the same holds when it has been answered, on every path through the
  chain (redaction, retries with several providers, refusals, client disconnects and panics), so it
  holds for ever once it holds at start-up.
\<close>
theorem memory_wiped_invariant:
  assumes "memory_wiped g" and "serve_request env cfg random r g = Returned g'"
  shows "memory_wiped g'"
proof -
  let ?e = "entry_state random (ge_clock env (gs_ticks g)) r g"
  have e: "secrets_inv ?e" "bufs_inv {} ?e"
    using assms(1) by (auto simp: memory_wiped_def secrets_inv_def bufs_inv_def sb_closed_def entry_frame new_context_open)
  have "memory_wiped (finish_request (completed (execute (policy_chain env cfg) ?e)))"
    by (intro finish_wipes skeys.completed_keeps bufs.completed_keeps policy_secrets policy_bufs e)
  then show ?thesis using assms(2) by (simp add: serve_unfold)
qed

theorem memory_wiped_invariant_witness:
  "\<exists>g'. serve_request example_gw_env example_config None anonymous_request idle_gateway = Returned g' \<and> memory_wiped g'"
proof -
  have "memory_wiped idle_gateway" by (simp add: memory_wiped_def idle_gateway_def)
  from memory_wiped_invariant [OF this] show ?thesis by (simp add: serve_unfold)
qed

end
