(* ===== verification/Gateway_Effects.thy ===== *)
theory Gateway_Effects
  imports Gateway_Memory
begin

text \<open>
  The effects of a request on what requests share: the concurrency leases it takes are given back
  on every path, and the number of provider keys it fetches and of requests it sends is bounded by
  the number of configured providers.
\<close>

section \<open>Steps that leave the limiter alone\<close>

lemma limiter_steps:
  fixes g :: gateway
  shows "gs_limiter (Abort s b g) = gs_limiter g" "gs_limiter (trw_SetHeader k v g) = gs_limiter g"
    "gs_limiter (g\<lparr>gw_audit := l\<rparr>) = gs_limiter g" "gs_limiter (tick g) = gs_limiter g"
    "gs_limiter (g\<lparr>gs_quota := q\<rparr>) = gs_limiter g" "gs_limiter (on_ctx f g) = gs_limiter g"
    "gs_limiter (settle env channels i lease g) = gs_limiter g" "gs_limiter (apply_adapter a ty path g) = gs_limiter g"
    "gs_limiter (note_result r g) = gs_limiter g" "gs_limiter (state_of (FlushTo cw g)) = gs_limiter g"
    "gs_limiter (close_secure p g) = gs_limiter g" "gs_limiter (close_key g) = gs_limiter g"
  by (simp_all add: gw_defs tick_def settle_def apply_adapter_def note_result_def close_secure_def close_key_def
      frame_shared [OF frame_FlushTo] split: option.split)

lemma limiter_select: "select_channel env channels model tried g = (r, g') \<Longrightarrow> gs_limiter g' = gs_limiter g"
  by (auto simp: select_channel_def tick_def split: prod.splits)

lemma limiter_conclude: "gs_limiter (state_of (conclude_attempt out cap g)) = gs_limiter g"
  by (simp add: conclude_attempt_def Let_def limiter_steps split: option.split)

interpretation lstep: inner_invariant "\<lambda>g. gs_limiter g = L"
proof
  show "gs_limiter (snd (readRequestBody limit g)) = L" if "gs_limiter g = L" for g :: gateway and limit
    using that by (simp add: body_only_shared [OF body_only_read])
  show "gs_limiter (replaceRequestBody (Some i) g') = L" if "gs_limiter g = L" "alloc b g = (i, g')" for g g' :: gateway and b i
    using that by (simp add: body_only_shared [OF redact_body_only])
  show "gs_limiter (replaceRequestBody (rc_RequestBody (gw_ctx g)) g) = L" if "gs_limiter g = L" for g :: gateway
    using that by (simp add: body_only_shared [OF body_only_replace])
  show "gs_limiter g' = L" if "gs_limiter g = L" "attempt env domains url key g = (out, cap, g')"
    for env domains url key g out cap g' using that attempt_effect(3) by simp
  show "gs_limiter (on_ctx (\<lambda>rc. rc\<lparr>rc_ProviderAPIKey := Some p\<rparr>) g') = L" if "gs_limiter g = L" "store_secure b g = (p, g')"
    for g b p g' using that by (auto simp: store_secure_def on_ctx_def)
qed (simp_all add: limiter_steps limiter_conclude tick_def)

interpretation lretry: retry_invariant "\<lambda>g. gs_limiter g = L" "\<lambda>g. gs_limiter g = L" env channels canonical
proof
  fix g :: gateway and model streaming tried ch
  assume g: "gs_limiter g = L"
  obtain i g1 where a: "alloc (gw_bufs g ! canonical) g = (i, g1)" by fastforce
  have "gs_limiter (replaceRequestBody (Some i) g1) = L" using g by (simp add: body_only_shared [OF redact_body_only [OF a]])
  then show "gs_limiter (start_attempt env channels model streaming tried canonical ch g) = L"
    by (simp add: start_attempt_def a Let_def ResetAttempt_def limiter_steps)
qed (simp_all add: limiter_steps limiter_select)

lemma router_limiter:
  assumes n: "\<And>h. gs_limiter h = L \<Longrightarrow> gs_limiter (state_of (nxt h)) = L" and g: "gs_limiter g = L"
  shows "gs_limiter (state_of (Router env channels maxBody nxt g)) = L"
proof (rule Router_around)
  show r: "gs_limiter (snd (readRequestBody maxBody g)) = L" by (rule lstep.read_keeps [OF g])
  fix m s c h
  assume "alloc (buffer_at (rc_RequestBody (gw_ctx (snd (readRequestBody maxBody g)))) (snd (readRequestBody maxBody g)))
          (snd (readRequestBody maxBody g)) = (c, h)"
  then have "gs_limiter h = L" using r by (simp add: body_only_shared [OF body_only_alloc])
  then have "gs_limiter (state_of (router_loop env channels m s c nxt {} h)) = L" by (intro lretry.loop_keeps n)
  then show "gs_limiter (zero_buffer (Some c) (state_of (router_loop env channels m s c nxt {} h))) = L"
    by (simp add: shared_zero)
qed (simp add: limiter_steps)

text \<open>What stands behind the rate limiter in the chain.\<close>

definition limited_chain :: "gw_env \<Rightarrow> runtime_config \<Rightarrow> gateway middleware list" where
  "limited_chain env cfg =
     (if cfg_quota_enabled cfg then [Quota env (cfg_quota_manager cfg)] else [])
     @ [PIIRedaction (redaction_config cfg)]
     @ Router env (cfg_channels cfg) (cfg_max_body cfg) # inner_chain env cfg"

lemma policy_limited:
  "policy_chain env cfg = Auth env (cfg_auth cfg)
     # (if cfg_rate_enabled cfg then [rateLimiter env (cfg_rate cfg)] else []) @ limited_chain env cfg"
  by (simp add: policy_chain_def outer_chain_def limited_chain_def)

lemma limited_limiter: "gs_limiter (state_of (execute (limited_chain env cfg) g)) = gs_limiter g"
proof -
  have "gs_limiter (state_of (execute (((if cfg_quota_enabled cfg then [Quota env (cfg_quota_manager cfg)] else [])
     @ [PIIRedaction (redaction_config cfg)])
     @ (Router env (cfg_channels cfg) (cfg_max_body cfg) # inner_chain env cfg)) g)) = gs_limiter g"
  proof (rule lstep.execute_front)
    show "gs_limiter (state_of (execute (Router env (cfg_channels cfg) (cfg_max_body cfg) # inner_chain env cfg) h)) = gs_limiter g"
      if "gs_limiter h = gs_limiter g" for h
      using that by (intro lstep.execute_head router_limiter lstep.inner_keeps)
  qed (auto simp: lstep.unlimited_keeps)
  then show ?thesis by (simp add: limited_chain_def)
qed

section \<open>Leases\<close>

text \<open>
  Two states of the limiter with the same slots in use: from a consistent state the counters that
  decide admissions are consistent again and count the same number of slots for every key.
\<close>

definition same_slots :: "memoryLimiter \<Rightarrow> memoryLimiter \<Rightarrow> bool" where
  "same_slots m m' \<longleftrightarrow> (conc_inv m \<longrightarrow> conc_inv m' \<and> (\<forall>key. slots_in_use key m' = slots_in_use key m))"

lemma same_slots_refl [simp]: "same_slots m m"
  by (simp add: same_slots_def)

lemma same_slots_trans: "same_slots m m' \<Longrightarrow> same_slots m' m'' \<Longrightarrow> same_slots m m''"
  by (simp add: same_slots_def)

lemma same_slots_frame:
  "conc m' = conc m \<Longrightarrow> trackers m' = trackers m \<Longrightarrow> leases m' = leases m \<Longrightarrow> same_slots m m'"
  using conc_inv_frame [of m' m] by (simp add: same_slots_def slots_in_use_def split: option.split)

lemma same_slots_AllowN: "AllowN now key d n limit w m = (ok, m') \<Longrightarrow> same_slots m m'"
  using window_ops_frame(1) by (intro same_slots_frame) blast+

lemma same_slots_Record: "same_slots m (Record now key d n w m)"
  by (intro same_slots_frame window_ops_frame)

text \<open>A slot that is refused, or that is not limited, changes no counter; a slot that was taken and is given back neither.\<close>

lemma AcquireConcurrency_inv:
  assumes "conc_inv m" and "AcquireConcurrency key mc m = (a, m')"
  shows "conc_inv m' \<and> (\<forall>k. in_flight k m' = in_flight k m + (if k = key \<and> (\<exists>i. a = Leased i) then 1 else 0))"
proof (cases "0 < mc")
  case True
  then have "a \<noteq> Unlimited" using assms(2) by (auto simp: AcquireConcurrency_def Let_def split: if_splits option.splits)
  then show ?thesis using AcquireConcurrency_spec(1,3) [OF assms(1) True assms(2)] by (cases a) auto
next
  case False
  then have "m' = m" "a = Unlimited" using assms(2) by (simp_all add: AcquireConcurrency_def)
  then show ?thesis using assms(1) by simp
qed

lemma acquired_lease:
  "AcquireConcurrency key mc m = (Leased i, m') \<Longrightarrow>
   i < length (leases m') \<and> \<not> ls_released (leases m' ! i) \<and> ls_key (leases m' ! i) = key"
  by (auto simp: AcquireConcurrency_def Let_def split: if_splits option.splits)

lemma same_slots_acquire:
  assumes "AcquireConcurrency key mc m = (a, m')" and "\<nexists>i. a = Leased i"
  shows "same_slots m m'"
  using AcquireConcurrency_inv [OF _ assms(1)] assms(2) by (simp add: same_slots_def slots_in_use_eq)

lemma same_slots_taken:
  assumes a: "AcquireConcurrency key mc m = (Leased i, m')"
    and n: "conc n = conc m'" "trackers n = trackers m'" "leases n = leases m'"
  shows "same_slots m (release i n)"
proof -
  have "conc_inv (release i n) \<and> in_flight k (release i n) = in_flight k m" if inv: "conc_inv m" for k
  proof -
    have n_inv: "conc_inv n" "in_flight k n = in_flight k m'"
      using AcquireConcurrency_inv [OF inv a] conc_inv_frame [OF n] by blast+
    moreover have "in_flight k m' = in_flight k m + (if k = key then 1 else 0)"
      using AcquireConcurrency_inv [OF inv a] by simp
    moreover have "in_flight k (release i n) = in_flight k n - (if k = key then 1 else 0)"
      using acquired_lease [OF a] unfolding in_flight_release n(3) by auto
    ultimately show ?thesis by (simp add: conc_inv_release)
  qed
  then show ?thesis by (simp add: same_slots_def slots_in_use_eq)
qed

lemma under_lease_slots:
  assumes n: "gs_limiter (state_of (nxt g)) = gs_limiter g"
    and a: "AcquireConcurrency key mc m = (a, gs_limiter g)" and "a \<noteq> NotAcquired"
  shows "same_slots m (gs_limiter (state_of (under_lease env key' tpm est a nxt g)))"
proof (cases a)
  case (Leased i)
  note given_back = same_slots_taken [OF a [unfolded Leased]]
  show ?thesis
    using n by (cases "nxt g")
      (auto simp: under_lease_def Let_def Leased release_lease_def tick_def window_ops_frame(2-4) intro!: given_back)
next
  case Unlimited
  have m: "same_slots m (gs_limiter g)" using same_slots_acquire [OF a] Unlimited by simp
  have "same_slots m (Record now key' d c w (gs_limiter g))" for now d c w
    by (rule same_slots_trans [OF m same_slots_Record])
  then show ?thesis
    using n m by (cases "nxt g") (auto simp: under_lease_def Let_def Unlimited release_lease_def tick_def)
qed (use assms(3) in simp)

lemma acquire_and_run_slots:
  assumes n: "\<And>h. gs_limiter (state_of (nxt h)) = gs_limiter h"
  shows "same_slots (gs_limiter g) (gs_limiter (state_of (acquire_and_run env key mc tpm est nxt g)))"
proof -
  obtain a l where a: "AcquireConcurrency key mc (gs_limiter g) = (a, l)" by fastforce
  have "same_slots (gs_limiter g) l" if "a = NotAcquired" using same_slots_acquire [OF a] that by simp
  then show ?thesis
    using under_lease_slots [where nxt = nxt and g = "g\<lparr>gs_limiter := l\<rparr>" and m = "gs_limiter g" and a = a, OF n] a
    by (simp add: acquire_and_run_def Let_def limiter_steps)
qed

lemma rateLimiter_slots:
  assumes n: "\<And>h. gs_limiter (state_of (nxt h)) = gs_limiter h"
  shows "same_slots (gs_limiter g) (gs_limiter (state_of (rateLimiter env cfg nxt g)))"
proof -
  have bf: "gs_limiter (body_failure e h) = gs_limiter h" for e and h :: gateway
    by (cases e) (simp_all add: body_failure_def limiter_steps)
  define key where "key = (if rc_VirtualKeyID (gw_ctx g) = [] then rq_RemoteAddr (rc_Request (gw_ctx g)) else rc_VirtualKeyID (gw_ctx g))"
  define tpm where "tpm = effective (rl_DefaultTPM cfg) (rc_MaxTPM (gw_ctx g))"
  define mc where "mc = effective (rl_DefaultMaxConc cfg) (rc_MaxConcurrency (gw_ctx g))"
  obtain allowed l1 where a: "AllowN (ge_clock env (gs_ticks g)) key ''rpm'' 1
      (effective (rl_DefaultRPM cfg) (rc_MaxRPM (gw_ctx g))) minute (gs_limiter g) = (allowed, l1)" by fastforce
  define g1 where "g1 = tick (g\<lparr>gs_limiter := l1\<rparr>)"
  obtain r g2 where r: "readRequestBody (rl_MaxRequestBodySize cfg) g1 = (r, g2)" by fastforce
  have g2: "gs_limiter g2 = l1" and g1: "gs_limiter g1 = l1"
    using body_only_shared(2) [OF body_only_read [of g1 "rl_MaxRequestBodySize cfg"]] r by (simp_all add: g1_def limiter_steps)
  have l1: "same_slots (gs_limiter g) l1" by (rule same_slots_AllowN [OF a])
  have run: "same_slots (gs_limiter g) (gs_limiter (state_of (acquire_and_run env key mc tpm est nxt h)))"
    if "same_slots (gs_limiter g) (gs_limiter h)" for est h
    by (rule same_slots_trans [OF that acquire_and_run_slots [OF n]])
  have Z: "same_slots (gs_limiter g) (gs_limiter (state_of (case AllowN now key d c limit w (gs_limiter g2) of (ok, l2) \<Rightarrow>
      if \<not> ok then Returned (Abort 429 b (tick (g2\<lparr>gs_limiter := l2\<rparr>)))
      else acquire_and_run env key mc tpm est nxt (tick (g2\<lparr>gs_limiter := l2\<rparr>)))))"
    for now d c limit w b est
    using same_slots_trans [OF l1 same_slots_AllowN [of now key d c limit w l1]]
    by (simp add: run limiter_steps g2 split: prod.split)
  show ?thesis
    unfolding rateLimiter_def Let_def Allow_def key_def [symmetric] tpm_def [symmetric] mc_def [symmetric] a prod.case
      g1_def [symmetric] r
    using Z l1 by (simp add: run bf limiter_steps g1 g2 split: sum.split)
qed

lemma auth_slots:
  assumes "\<And>h. same_slots (gs_limiter h) (gs_limiter (state_of (nxt h)))"
  shows "same_slots (gs_limiter g) (gs_limiter (state_of (Auth env cfg nxt g)))"
proof -
  have "same_slots (gs_limiter g) (gs_limiter (state_of (nxt h)))" if "gs_limiter h = gs_limiter g" for h
    using assms [of h] that by simp
  then show ?thesis
    by (simp add: Auth_def Let_def limiter_steps split: option.split sum.split check_result.split)
qed

lemma execute_slots:
  assumes "same_slots (gs_limiter g) (gs_limiter (state_of (m (execute ms) g)))"
  shows "same_slots (gs_limiter g) (gs_limiter (state_of (execute (m # ms) (g :: gateway))))"
  using assms by (cases "m (execute ms) g") (simp_all add: require_response_def limiter_steps)

text \<open>
  C11. Every concurrency slot a request takes is given back: whatever the request and the rest of
  the chain do, a refusal, a client that disappears or a panic included, the counter that decides
  admissions stands for each key where it stood before the request. The limiter has to be in a
  consistent state (each counter counts the open leases on it), which holds at start-up, in every
  state the limiter can reach, and again after the request.
\<close>
theorem leases_returned:
  assumes "conc_inv (gs_limiter g)"
  shows "slots_in_use key (gs_limiter (state_of (serve_request env cfg random r g))) = slots_in_use key (gs_limiter g)
         \<and> conc_inv (gs_limiter (state_of (serve_request env cfg random r g)))"
proof -
  let ?rest = "(if cfg_rate_enabled cfg then [rateLimiter env (cfg_rate cfg)] else []) @ limited_chain env cfg"
  have "same_slots (gs_limiter h) (gs_limiter (state_of (execute (rateLimiter env (cfg_rate cfg) # limited_chain env cfg) h)))" for h
    by (rule execute_slots, rule rateLimiter_slots, rule limited_limiter)
  then have "same_slots (gs_limiter h) (gs_limiter (state_of (execute ?rest h)))" for h
    by (cases "cfg_rate_enabled cfg") (simp_all add: limited_limiter del: execute.simps)
  then have "same_slots (gs_limiter h) (gs_limiter (state_of (execute (policy_chain env cfg) h)))" for h
    unfolding policy_limited by (rule execute_slots [OF auth_slots])
  from this [of "entry_state random (ge_clock env (gs_ticks g)) r g"] show ?thesis
    using assms by (simp add: serve_unfold shared_finish shared_completed entry_frame same_slots_def)
qed

text \<open>A key with one slot in use, and a request of that key that is admitted.\<close>

definition busy_gateway :: gateway where
  "busy_gateway = idle_gateway\<lparr>gs_limiter := snd (AcquireConcurrency ''vk'' 2 newMemoryLimiter)\<rparr>"

definition signed_config :: runtime_config where
  "signed_config = example_config\<lparr>cfg_auth := signed_auth (\<lambda>cancelled issuer keyID. NotRevoked)\<rparr>"

theorem leases_returned_witness:
  "admitted signed_env (cfg_auth signed_config) (4 * second) signed_request example_claims
   \<and> slots_in_use ''vk'' (gs_limiter busy_gateway) = 1
   \<and> slots_in_use ''vk'' (gs_limiter (state_of (serve_request signed_env signed_config None signed_request busy_gateway))) = 1"
proof (intro conjI)
  show one: "slots_in_use ''vk'' (gs_limiter busy_gateway) = 1"
    by (simp add: busy_gateway_def AcquireConcurrency_def newMemoryLimiter_def slots_in_use_def Let_def)
  have "conc_inv (gs_limiter busy_gateway)"
    using AcquireConcurrency_inv [OF conc_inv_new, of "''vk''" 2] by (simp add: busy_gateway_def split_beta prod_eq_iff)
  from leases_returned [OF this, of "''vk''"] one
  show "slots_in_use ''vk'' (gs_limiter (state_of (serve_request signed_env signed_config None signed_request busy_gateway))) = 1"
    by simp
qed (simp add: signed_config_def signed_admitted)

section \<open>What only the rest of the chain can change\<close>

text \<open>
  A part of the state that the outer middleware never touches itself: behind such a middleware it is
  what it was, or what one call of the rest of the chain made of it.
\<close>

definition relays :: "(gateway \<Rightarrow> 'b) \<Rightarrow> gateway middleware \<Rightarrow> bool" where
  "relays f m \<longleftrightarrow>
     (\<forall>nxt g. f (state_of (m nxt g)) = f g \<or> (\<exists>h. f h = f g \<and> f (state_of (m nxt g)) = f (state_of (nxt h))))"

lemma relaysI:
  assumes "\<And>nxt g R. R (f g) \<Longrightarrow> (\<And>h. f h = f g \<Longrightarrow> R (f (state_of (nxt h)))) \<Longrightarrow> R (f (state_of (m nxt g)))"
  shows "relays f m"
  unfolding relays_def
proof (intro allI)
  fix nxt g
  show "f (state_of (m nxt g)) = f g \<or> (\<exists>h. f h = f g \<and> f (state_of (m nxt g)) = f (state_of (nxt h)))"
    by (rule assms [where R = "\<lambda>v. v = f g \<or> (\<exists>h. f h = f g \<and> v = f (state_of (nxt h)))"]) auto
qed

lemma relaysD:
  "relays f m \<Longrightarrow> R (f g) \<Longrightarrow> (\<And>h. f h = f g \<Longrightarrow> R (f (state_of (nxt h)))) \<Longrightarrow> R (f (state_of (m nxt g)))"
  unfolding relays_def by metis

locale observer =
  fixes f :: "gateway \<Rightarrow> 'b"
  assumes f_abort: "f (Abort s b g) = f g" and f_tick: "f (tick g) = f g" and f_quota: "f (g\<lparr>gs_quota := q\<rparr>) = f g"
    and f_limiter: "f (g\<lparr>gs_limiter := l\<rparr>) = f g" and f_ctx: "f (on_ctx c g) = f g"
    and f_body: "body_only g g' \<Longrightarrow> f g' = f g"
begin

lemma f_failure: "f (body_failure e g) = f g"
  by (cases e) (simp_all add: body_failure_def f_abort)

lemma f_read: "readRequestBody limit g = (r, g') \<Longrightarrow> f g' = f g"
  using f_body [OF body_only_read [of g limit]] by simp

lemma f_require: "f (require_response g) = f g"
  by (simp add: require_response_def f_abort)

lemma f_and_then: "(\<And>h. f (k h) = f h) \<Longrightarrow> f (state_of (and_then r k)) = f (state_of r)"
  by (cases r) simp_all

lemma auth_relays: "relays f (Auth env cfg)"
  by (rule relaysI) (auto simp: Auth_def Let_def f_abort f_tick f_ctx split: option.split sum.split check_result.split)

lemma quota_relays: "relays f (Quota env present)"
  by (rule relaysI) (auto simp: Quota_def f_abort f_tick f_quota f_and_then split: option.split quota_error.split)

lemma redaction_relays: "relays f (PIIRedaction rcfg)"
proof (rule relaysI)
  fix nxt :: "gateway \<Rightarrow> gateway run" and g R
  assume R: "R (f g)" and n: "\<And>h. f h = f g \<Longrightarrow> R (f (state_of (nxt h)))"
  define limit where "limit = min (if red_MaxRequestBodySize rcfg \<le> 0 then defaultMaxRequestBodySize else red_MaxRequestBodySize rcfg) maxSemanticRequestBodyBytes"
  obtain r g1 where r: "readRequestBody limit g = (r, g1)" by fastforce
  have g1: "f g1 = f g" using r by (rule f_read)
  have "R (f (state_of (nxt (replaceRequestBody (Some i) g2))))" if "alloc b g1 = (i, g2)" for b i g2
    using f_body [OF redact_body_only [OF that]] g1 by (intro n) simp
  then show "R (f (state_of (PIIRedaction rcfg nxt g)))"
    unfolding PIIRedaction_def Let_def limit_def [symmetric] r
    using R n [OF g1] by (auto simp: f_abort f_failure g1 split: sum.split RedactionMode.split prod.split)
qed

lemma lease_relays:
  assumes n: "\<And>h. f h = f g \<Longrightarrow> R (f (state_of (nxt h)))" and R: "R (f g)"
  shows "R (f (state_of (acquire_and_run env key mc tpm est nxt g)))"
proof -
  have rel: "f (release_lease a h) = f h" for a h by (cases a) (simp_all add: release_lease_def f_limiter)
  have "R (f (state_of (under_lease env key tpm est a nxt (g\<lparr>gs_limiter := l\<rparr>))))" for a l
    using n [of "g\<lparr>gs_limiter := l\<rparr>"]
    by (auto simp: under_lease_def Let_def rel f_tick f_limiter split: run.split)
  then show ?thesis using R by (auto simp: acquire_and_run_def Let_def f_abort f_limiter split: prod.split)
qed

lemma rate_relays: "relays f (rateLimiter env cfg)"
proof (rule relaysI)
  fix nxt :: "gateway \<Rightarrow> gateway run" and g R
  assume R: "R (f g)" and n: "\<And>h. f h = f g \<Longrightarrow> R (f (state_of (nxt h)))"
  define key where "key = (if rc_VirtualKeyID (gw_ctx g) = [] then rq_RemoteAddr (rc_Request (gw_ctx g)) else rc_VirtualKeyID (gw_ctx g))"
  define tpm where "tpm = effective (rl_DefaultTPM cfg) (rc_MaxTPM (gw_ctx g))"
  define mc where "mc = effective (rl_DefaultMaxConc cfg) (rc_MaxConcurrency (gw_ctx g))"
  obtain allowed l1 where a: "Allow (ge_clock env (gs_ticks g)) key ''rpm''
      (effective (rl_DefaultRPM cfg) (rc_MaxRPM (gw_ctx g))) minute (gs_limiter g) = (allowed, l1)" by fastforce
  define g1 where "g1 = tick (g\<lparr>gs_limiter := l1\<rparr>)"
  obtain r g2 where r: "readRequestBody (rl_MaxRequestBodySize cfg) g1 = (r, g2)" by fastforce
  have g12: "f g1 = f g" "f g2 = f g" using f_read [OF r] by (simp_all add: g1_def f_tick f_limiter)
  have run: "R (f (state_of (acquire_and_run env key mc tpm est nxt h)))" if "f h = f g" for est h
    by (rule lease_relays [where R = R]) (simp_all add: n R that)
  have "R (f (state_of (case x of (ok, l2) \<Rightarrow>
      if \<not> ok then Returned (Abort 429 b (tick (g2\<lparr>gs_limiter := l2\<rparr>)))
      else acquire_and_run env key mc tpm est nxt (tick (g2\<lparr>gs_limiter := l2\<rparr>)))))" for x b est
    using R run g12 by (auto simp: f_abort f_tick f_limiter split: prod.split)
  then show "R (f (state_of (rateLimiter env cfg nxt g)))"
    unfolding rateLimiter_def Let_def key_def [symmetric] tpm_def [symmetric] mc_def [symmetric] a prod.case
      g1_def [symmetric] r
    using R run g12 by (simp add: f_abort f_failure split: sum.split)
qed

lemma adapter_relays: "relays f (Adapter registry types maxBody)"
proof (rule relaysI)
  fix nxt :: "gateway \<Rightarrow> gateway run" and g R
  assume R: "R (f g)" and n: "\<And>h. f h = f g \<Longrightarrow> R (f (state_of (nxt h)))"
  obtain r g1 where r: "readRequestBody maxBody g = (r, g1)" by fastforce
  have g1: "f g1 = f g" using r by (rule f_read)
  have "R (f (state_of (nxt (apply_adapter a ty path (replaceRequestBody x g2)))))" if "f g2 = f g" for a ty path x g2
    using f_body [OF body_only_replace] that by (intro n) (simp add: apply_adapter_def f_ctx)
  moreover have "f g2 = f g" if "alloc b g1 = (i, g2)" for b i g2 using f_body [OF body_only_alloc [OF that]] g1 by simp
  ultimately show "R (f (state_of (Adapter registry types maxBody nxt g)))"
    unfolding Adapter_def Let_def r
    using R by (auto simp: f_abort f_failure g1 split: option.split sum.split prod.split)
qed

lemma execute_relays:
  assumes "\<forall>m \<in> set ms. relays f m" and "R (f g)" and "\<And>h. f h = f g \<Longrightarrow> R (f (state_of (execute ns h)))"
  shows "R (f (state_of (execute (ms @ ns) g)))"
  using assms
proof (induction ms arbitrary: g)
  case Nil
  then show ?case by simp
next
  case (Cons m ms)
  have "R (f (state_of (m (execute (ms @ ns)) g)))"
  proof (rule relaysD [where R = R and f = f and m = m and nxt = "execute (ms @ ns)" and g = g])
    show "R (f (state_of (execute (ms @ ns) h)))" if "f h = f g" for h
      by (rule Cons.IH) (use Cons.prems that in simp_all)
  qed (use Cons.prems in simp_all)
  with Cons.prems show ?case by (simp add: f_and_then f_require)
qed

lemma policy_relays:
  assumes "R (f g)"
    and "\<And>h. f h = f g \<Longrightarrow> R (f (state_of (execute (Router env (cfg_channels cfg) (cfg_max_body cfg) # inner_chain env cfg) h)))"
  shows "R (f (state_of (execute (policy_chain env cfg) g)))"
proof -
  have "R (f (state_of (execute ((Auth env (cfg_auth cfg) # outer_chain env cfg)
      @ (Router env (cfg_channels cfg) (cfg_max_body cfg) # inner_chain env cfg)) g)))"
    by (rule execute_relays [where R = R])
      (auto simp: outer_chain_def auth_relays rate_relays quota_relays redaction_relays assms(1) split: if_splits
        intro: assms(2) simp del: execute.simps)
  then show ?thesis by (simp add: policy_chain_def)
qed

end

interpretation events: observer gs_events
  by unfold_locales (simp_all add: gw_defs tick_def body_only_shared)

section \<open>A bound on the attempts\<close>

text \<open>What one attempt can add to the log: nothing, a key, or a key and then one permitted request.\<close>

definition permitted_send :: "gw_env \<Rightarrow> string list \<Rightarrow> upstream_request \<Rightarrow> bool" where
  "permitted_send env domains s \<longleftrightarrow> (\<exists>t. validateEgress (ne_url_Parse (ge_net env t)) domains (up_URL s) = None)"

definition attempt_log :: "gw_env \<Rightarrow> string list \<Rightarrow> gw_event list \<Rightarrow> bool" where
  "attempt_log env domains es \<longleftrightarrow>
     es = [] \<or> (\<exists>k. es = [KeyFetched k]) \<or> (\<exists>k s. es = [KeyFetched k, Sent s] \<and> permitted_send env domains s)"

lemma Dispatch_permitted:
  "Dispatch ops net doms m hs b cfg k w = (out, w') \<Longrightarrow> do_sent out = Some s \<Longrightarrow> validateEgress (ne_url_Parse net) doms (up_URL s) = None"
  by (auto simp: Dispatch_def Let_def split: if_splits option.splits prod.splits)

lemma attempt_permitted:
  assumes "attempt env domains url key g = (out, cap, g')" and "do_sent out = Some s"
  shows "permitted_send env domains s"
  using assms unfolding permitted_send_def attempt_def Let_def
  by (auto dest!: Dispatch_permitted split: if_splits prod.splits)

lemma events_steps:
  fixes g :: gateway
  shows "gs_events (note_result r g) = gs_events g" "gs_events (state_of (FlushTo cw g)) = gs_events g"
    "gs_events (close_secure p g) = gs_events g" "gs_events (settle env channels i lease g) = gs_events g"
  by (simp_all add: note_result_def frame_shared [OF frame_FlushTo] close_secure_def settle_def tick_def on_ctx_def
      split: option.split)

lemma start_events: "gs_events (start_attempt env channels model streaming tried canonical ch g) = gs_events g"
proof -
  obtain i g1 where a: "alloc (gw_bufs g ! canonical) g = (i, g1)" by fastforce
  then have "gs_events (replaceRequestBody (Some i) g1) = gs_events g" by (intro events.f_body redact_body_only)
  then show ?thesis
    by (simp add: start_attempt_def a Let_def ResetAttempt_def shared_close events.f_ctx events.f_tick)
qed

lemma events_conclude: "gs_events (state_of (conclude_attempt out cap g)) = gs_events g"
  by (simp add: conclude_attempt_def Let_def events_steps events.f_abort events.f_ctx split: option.split)

lemma proxy_events:
  "gs_events (state_of (Proxy env (Some domains) nxt g)) = gs_events g
   \<or> (\<exists>s. permitted_send env domains s \<and> gs_events (state_of (Proxy env (Some domains) nxt g)) = gs_events g @ [Sent s])"
proof -
  have "gs_events (state_of (conclude_attempt out cap g1)) = gs_events g \<or>
      (\<exists>s. permitted_send env domains s \<and> gs_events (state_of (conclude_attempt out cap g1)) = gs_events g @ [Sent s])"
    if a: "attempt env domains url key g = (out, cap, g1)" for url key out cap g1
    using attempt_effect(4) [OF a] attempt_permitted [OF a] by (auto simp: events_conclude split: option.splits)
  then show ?thesis
    by (simp add: Proxy_def Let_def events.f_abort split: option.split prod.split)
qed

lemma inner_events:
  "\<exists>es. attempt_log env (cfg_domains cfg) es
        \<and> gs_events (state_of (execute (inner_chain env cfg) g)) = gs_events g @ es"
proof -
  let ?one = "\<lambda>E v. v = E \<or> (\<exists>s. permitted_send env (cfg_domains cfg) s \<and> v = E @ [Sent s])"
  let ?last = "[Proxy env (Some (cfg_domains cfg))]"
  let ?rest = "Adapter (cfg_registry cfg) (cfg_provider_types cfg) (cfg_max_body cfg) # ?last"
  have px: "?one (gs_events h) (gs_events (state_of (execute ?last h)))" for h
    using proxy_events [of env "cfg_domains cfg" "execute []" h] by (simp add: events.f_and_then events.f_require del: execute.simps(1))
  have ad: "?one (gs_events h) (gs_events (state_of (execute ?rest h)))" for h
  proof -
    have "?one (gs_events h) (gs_events (state_of (execute
        ([Adapter (cfg_registry cfg) (cfg_provider_types cfg) (cfg_max_body cfg)] @ ?last) h)))"
    proof (rule events.execute_relays [where R = "?one (gs_events h)"])
      show "?one (gs_events h) (gs_events (state_of (execute ?last h')))" if "gs_events h' = gs_events h" for h'
        using px [of h'] that by (simp only:)
    qed (simp_all add: events.adapter_relays)
    then show ?thesis by (simp only: append.simps)
  qed
  have "\<exists>es. attempt_log env (cfg_domains cfg) es \<and> gs_events (state_of (KMSInjector (cfg_kms cfg) (execute ?rest) g)) = gs_events g @ es"
  proof -
    have run: "\<exists>es. attempt_log env (cfg_domains cfg) es \<and>
        gs_events (state_of (execute ?rest (on_ctx c g2))) = gs_events g @ es"
      if "store_secure b (tick (g\<lparr>gs_events := gs_events g @ [KeyFetched k]\<rparr>)) = (p, g2)" for b k p g2 c
    proof -
      have "gs_events (on_ctx c g2) = gs_events g @ [KeyFetched k]"
        using that by (auto simp: store_secure_def tick_def on_ctx_def)
      then show ?thesis using ad [of "on_ctx c g2"] by (auto simp: attempt_log_def simp del: execute.simps)
    qed
    have same: "gs_events (state_of (and_then x (\<lambda>g3. on_ctx (\<lambda>rc. rc\<lparr>rc_ProviderAPIKey := None\<rparr>) (close_secure p g3))))
        = gs_events (state_of x)" for x :: "gateway run" and p by (rule events.f_and_then) (simp add: events.f_ctx events_steps)
    have none: "attempt_log env (cfg_domains cfg) []" "attempt_log env (cfg_domains cfg) [KeyFetched k]" for k
      by (simp_all add: attempt_log_def)
    show ?thesis
      unfolding KMSInjector_def Let_def
      using none run by (auto simp: events.f_abort same tick_def split: option.split kms_answer.split prod.split simp del: execute.simps)
  qed
  then show ?thesis by (simp add: inner_chain_def events.f_and_then events.f_require) (metis append.right_neutral attempt_log_def)
qed

text \<open>A selected channel was not tried before, so there is one fewer to try.\<close>

lemma select_untried:
  assumes "select_channel env channels model tried g = (Some (ch, lease), g')"
  shows "card (pc_ID ` set channels - tried) = Suc (card (pc_ID ` set channels - insert (pc_ID ch) tried))"
proof -
  obtain rt where "Route (ge_clock env (gs_ticks g)) (ge_draw env (gs_ticks g)) (ge_seen env (gs_ticks g)) model tried
      \<lparr>rt_channels = channels, rt_breakers = gs_breakers g\<rparr> = (Some (ch, lease), rt)"
    using assms by (auto simp: select_channel_def split: prod.splits)
  from Route_candidate [OF this]
  have "pc_ID ` set channels - tried = insert (pc_ID ch) (pc_ID ` set channels - insert (pc_ID ch) tried)" by auto
  then have "card (pc_ID ` set channels - tried) = card (insert (pc_ID ch) (pc_ID ` set channels - insert (pc_ID ch) tried))"
    by (rule arg_cong)
  then show ?thesis by (simp only: card_insert_disjoint finite_imageI finite_Diff finite_set) simp
qed

lemma loop_step:
  assumes "select_channel env channels model tried g = (Some (ch, lease), g1)"
  shows "router_loop env channels model streaming canonical nxt tried g =
    (case nxt (start_attempt env channels model streaming (insert (pc_ID ch) tried) canonical ch g1) of
       Panicked g2 \<Rightarrow> Panicked (settle env channels (pc_ID ch) lease g2)
     | Returned g2 \<Rightarrow>
         (let g3 = settle env channels (pc_ID ch) lease g2
          in if IsAborted g3 \<or> \<not> rc_RetryableAttempt (gw_ctx g3) then Returned g3
             else router_loop env channels model streaming canonical nxt (insert (pc_ID ch) tried) g3))"
  unfolding router_loop.simps [of env channels model streaming canonical nxt tried g] assms prod.case option.case Let_def
  by (cases "nxt (start_attempt env channels model streaming (insert (pc_ID ch) tried) canonical ch g1)") simp_all

lemma loop_events:
  assumes n: "\<And>h. \<exists>es. ok es \<and> gs_events (state_of (nxt h)) = gs_events h @ es"
  shows "\<exists>rounds. gs_events (state_of (router_loop env channels model streaming canonical nxt tried g)) = gs_events g @ concat rounds
     \<and> (\<forall>es \<in> set rounds. ok es) \<and> length rounds \<le> card (pc_ID ` set channels - tried)"
    (is "?bounded tried g")
proof (induction "card (pc_ID ` set channels - tried)" arbitrary: tried g rule: less_induct)
  case less
  let ?loop = "router_loop env channels model streaming canonical nxt"
  obtain r h where sel: "select_channel env channels model tried g = (r, h)" by fastforce
  have h: "gs_events h = gs_events g" using sel by (auto simp: select_channel_def tick_def split: prod.splits)
  have last: "?bounded tried g" if "gs_events (state_of (?loop tried g)) = gs_events g @ concat rounds"
      "\<forall>es \<in> set rounds. ok es" "length rounds \<le> card (pc_ID ` set channels - tried)" for rounds
    using that by blast
  show ?case
  proof (cases r)
    case None
    then show ?thesis using h by (intro last [of "[]"]) (subst router_loop.simps, simp_all add: sel events.f_abort)
  next
    case (Some cl)
    obtain ch lease where cl: "cl = (ch, lease)" by fastforce
    note sel' = sel [unfolded Some cl]
    let ?t = "insert (pc_ID ch) tried"
    define st where "st = start_attempt env channels model streaming ?t canonical ch h"
    obtain es where es: "ok es" "gs_events (state_of (nxt st)) = gs_events g @ es"
      using n [of st] h by (auto simp: st_def start_events)
    note step = loop_step [OF sel', of streaming canonical nxt, folded st_def]
    show ?thesis
    proof (cases "nxt st")
      case (Panicked g2)
      then show ?thesis using es select_untried [OF sel'] by (intro last [of "[es]"]) (simp_all add: step events_steps)
    next
      case (Returned g2)
      define g3 where "g3 = settle env channels (pc_ID ch) lease g2"
      have g3: "gs_events g3 = gs_events g @ es" using es(2) Returned by (simp add: g3_def events_steps)
      obtain rounds where "gs_events (state_of (?loop ?t g3)) = gs_events g3 @ concat rounds"
          "\<forall>es \<in> set rounds. ok es" "length rounds \<le> card (pc_ID ` set channels - ?t)"
        using less [of ?t g3] select_untried [OF sel'] by auto
      moreover have "?loop tried g = (if IsAborted g3 \<or> \<not> rc_RetryableAttempt (gw_ctx g3) then Returned g3 else ?loop ?t g3)"
        by (simp add: step Returned Let_def g3_def)
      ultimately show ?thesis
        using es(1) g3 select_untried [OF sel']
        by (intro last [of "if IsAborted g3 \<or> \<not> rc_RetryableAttempt (gw_ctx g3) then [es] else es # rounds"]) simp_all
    qed
  qed
qed

text \<open>
  C5. Retrying is bounded and never skips the key service or the egress policy: the events a request
  adds to the log are at most one round per configured provider, and each round is nothing, one key
  lookup, or one key lookup followed by one request to a target the egress allowlist permits.
\<close>
theorem attempts_bounded:
  "\<exists>rounds. gs_events (state_of (serve_request env cfg random r g)) = gs_events g @ concat rounds
     \<and> list_all (attempt_log env (cfg_domains cfg)) rounds
     \<and> length rounds \<le> card (pc_ID ` set (cfg_channels cfg))"
proof -
  define e where "e = entry_state random (ge_clock env (gs_ticks g)) r g"
  define in_bound where "in_bound = (\<lambda>v. \<exists>rounds. v = gs_events g @ concat rounds
     \<and> (\<forall>es \<in> set rounds. attempt_log env (cfg_domains cfg) es) \<and> length rounds \<le> card (pc_ID ` set (cfg_channels cfg)))"
  have e: "gs_events e = gs_events g" by (simp add: e_def entry_frame)
  have start: "in_bound (gs_events g)" unfolding in_bound_def by (intro exI [where x = "[]"]) simp
  have router: "in_bound (gs_events (state_of (Router env (cfg_channels cfg) (cfg_max_body cfg) (execute (inner_chain env cfg)) h)))"
    if h: "gs_events h = gs_events g" for h
  proof (rule Router_around [where P = "\<lambda>x. in_bound (gs_events x)"])
    let ?h = "snd (readRequestBody (cfg_max_body cfg) h)"
    have h1: "gs_events ?h = gs_events g" using events.f_body [OF body_only_read] h by simp
    then show "in_bound (gs_events ?h)" by (simp add: start)
    show "in_bound (gs_events (Abort s b k))" if "in_bound (gs_events k)" for s b and k :: gateway
      using that by (simp add: events.f_abort)
    show "in_bound (gs_events (zero_buffer (Some c) (state_of (router_loop env (cfg_channels cfg) m s c
        (execute (inner_chain env cfg)) {} k))))"
      if "alloc (buffer_at (rc_RequestBody (gw_ctx ?h)) ?h) ?h = (c, k)" for m s c k
      using loop_events [where ok = "attempt_log env (cfg_domains cfg)", OF inner_events, of env "cfg_channels cfg" m s c "{}" k]
        events.f_body [OF body_only_alloc [OF that]] h1
      by (simp add: shared_zero in_bound_def)
  qed
  have "in_bound (gs_events (state_of (execute (policy_chain env cfg) e)))"
  proof (rule events.policy_relays [where R = in_bound])
    show "in_bound (gs_events (state_of (execute (Router env (cfg_channels cfg) (cfg_max_body cfg) # inner_chain env cfg) h)))"
      if "gs_events h = gs_events e" for h
      using router [of h] that e start by (simp add: events.f_and_then events.f_require)
  qed (simp add: e start)
  then show ?thesis by (simp add: serve_unfold shared_finish shared_completed e_def in_bound_def list_all_iff)
qed

section \<open>A response that breaks off\<close>

lemma capture_broken:
  assumes "do_sent (fst (Dispatch capture_writer net doms m hs b cfg (Some k) newCaptureWriter)) = Some s"
    and "ne_Do net s = Some resp" and "rs_StatusCode resp = 200" and "rs_broken resp" and "\<not> ne_ended net"
    and "dc_TransformResponse cfg = Some f" and "\<not> dc_IsStreaming cfg"
  shows "snd (Dispatch capture_writer net doms m hs b cfg (Some k) newCaptureWriter) = newCaptureWriter"
    and "do_error (fst (Dispatch capture_writer net doms m hs b cfg (Some k) newCaptureWriter)) = Some (Forwarding UpstreamRead)"
    and "map_option pr_StatusCode (do_result (fst (Dispatch capture_writer net doms m hs b cfg (Some k) newCaptureWriter))) = Some 200"
proof -
  have fwd: "forwardResponse capture_writer resp (Some f) n newCaptureWriter = (Some UpstreamRead, newCaptureWriter)" for n
    using assms(3,4) by (simp add: forwardResponse_def Let_def)
  define D where "D = Dispatch capture_writer net doms m hs b cfg (Some k) newCaptureWriter"
  have "snd D = newCaptureWriter \<and> do_error (fst D) = Some (Forwarding UpstreamRead)
      \<and> map_option pr_StatusCode (do_result (fst D)) = Some 200"
  proof (cases "ValidateProviderCredentialHeaderValue (sb_Bytes k) \<noteq> None \<or> validateEgress (ne_url_Parse net) doms (dc_TargetURL cfg) \<noteq> None
      \<or> \<not> valid_method m \<or> ne_url_Parse net (dc_TargetURL cfg) = None")
    case True
    then show ?thesis using assms(1) by (auto simp: Dispatch_def Let_def split: if_splits option.splits)
  next
    case False
    let ?sent = "\<lparr>up_Method = m, up_URL = dc_TargetURL cfg, up_Header = upstream_headers hs cfg (sb_Bytes k), up_Body = b\<rparr>"
    have "s = ?sent" using False assms(1) by (auto simp: Dispatch_def Let_def split: option.splits prod.splits if_splits)
    then have "ne_Do net ?sent = Some resp" using assms(2) by simp
    then show ?thesis using False assms(3,5,6,7) by (simp add: D_def Dispatch_def relay_def Let_def fwd)
  qed
  then show "snd (Dispatch capture_writer net doms m hs b cfg (Some k) newCaptureWriter) = newCaptureWriter"
    "do_error (fst (Dispatch capture_writer net doms m hs b cfg (Some k) newCaptureWriter)) = Some (Forwarding UpstreamRead)"
    "map_option pr_StatusCode (do_result (fst (Dispatch capture_writer net doms m hs b cfg (Some k) newCaptureWriter))) = Some 200"
    by (simp_all add: D_def)
qed

text \<open>
  C39. A successful answer that breaks off is reported as success: when a request may still fall back
  to another provider, a 200 response whose body cannot be read to its end is not retried and not
  turned into an error, and the client receives status 200 with an empty body.
\<close>
theorem broken_response_reported_as_success:
  assumes a: "attempt env domains url key g = (out, cap, g1)"
    and s: "do_sent out = Some s" "ne_Do (ge_net env (gs_ticks g)) s = Some resp"
    and broken: "rs_StatusCode resp = 200" "rs_broken resp" "\<not> ne_ended (ge_net env (gs_ticks g))"
    and ctx: "rc_CanFallback (gw_ctx g)" "\<not> rc_IsStreaming (gw_ctx g)" "rc_TransformResponse (gw_ctx g) = Some f"
      "\<not> rc_RetryableAttempt (gw_ctx g)"
    and client: "\<not> is_committed g" "cc_status (gw_conn g) = []" "cc_body (gw_conn g) = []"
  shows "\<exists>g'. conclude_attempt out cap g1 = Returned g' \<and> cc_status (gw_conn g') = [200] \<and> cc_body (gw_conn g') = []
              \<and> \<not> rc_RetryableAttempt (gw_ctx g') \<and> IsAborted g' = IsAborted g"
proof -
  define D where "D = Dispatch capture_writer (ge_net env (gs_ticks g)) domains (rq_Method (rc_Request (gw_ctx g)))
      (rq_Header (rc_Request (gw_ctx g))) (fst (body_content (rq_Body (rc_Request (gw_ctx g))) g)) (dispatch_config (gw_ctx g) url)
      (Some (gw_secures g ! key)) newCaptureWriter"
  have out: "out = fst D" "cap = Some (snd D)" "g1 = log_attempt key out g"
    using a ctx(1,2) by (auto simp: attempt_def Let_def D_def [symmetric] split: prod.splits)
  have d: "snd D = newCaptureWriter" "do_error (fst D) = Some (Forwarding UpstreamRead)"
      "map_option pr_StatusCode (do_result (fst D)) = Some 200"
    using s broken ctx(2,3) unfolding out(1) D_def
    by (intro capture_broken [where s = s and resp = resp and f = f]; simp add: dispatch_config_def)+
  then obtain r where r: "do_result out = Some r" "pr_StatusCode r = 200" by (auto simp: out(1))
  have g1: "gw_conn g1 = gw_conn g" "gw_ctx g1 = gw_ctx g"
    by (simp_all add: out(3) log_attempt_def Let_def tick_def split: option.split)
  define g2 where "g2 = on_ctx (\<lambda>rc. rc\<lparr>rc_ProviderFailure := True\<rparr>) (note_result (Some r) g1)"
  have g2: "gw_conn g2 = gw_conn g" "\<not> is_committed g2" "rc_RetryableAttempt (gw_ctx g2) = rc_RetryableAttempt (gw_ctx g)"
      "IsAborted g2 = IsAborted g"
    using client(1) by (simp_all add: g2_def note_result_def on_ctx_def g1)
  have "conclude_attempt out cap g1 = FlushTo newCaptureWriter g2"
    using g2(2) by (simp add: conclude_attempt_def panicking_def Let_def out(2) d r isRetryableProxy_def isRetryableStatus_def is_transport_def
        is_upstream_read_def d [folded out(1)] g2_def [symmetric])
  moreover have "\<exists>g'. FlushTo newCaptureWriter g2 = Returned g' \<and> cc_status (gw_conn g') = [200] \<and> cc_body (gw_conn g') = []
    \<and> rc_RetryableAttempt (gw_ctx g') = rc_RetryableAttempt (gw_ctx g2) \<and> IsAborted g' = IsAborted g2"
    using g2 client
    by (auto simp: FlushTo_def newCaptureWriter_def header_panics_def trw_Write_def Let_def trw_WriteHeader_def on_conn_def
        on_ctx_def conn_Write_def split: list.split)
  ultimately show ?thesis using g2(3,4) ctx(4) by simp
qed

definition broken_env :: gw_env where
  "broken_env = example_gw_env\<lparr>ge_net := (\<lambda>t. example_env\<lparr>ne_Do :=
     (\<lambda>s. Some \<lparr>rs_StatusCode = 200, rs_Header = [], rs_chunks = [''{''], rs_broken = True\<rparr>)\<rparr>)\<rparr>"

definition fallback_gateway :: gateway where
  "fallback_gateway = idle_gateway\<lparr>gw_secures := [NewSecureBytes ''secret''],
     gw_ctx := (new_context anonymous_request)\<lparr>rc_CanFallback := True, rc_TransformResponse := Some Some\<rparr>\<rparr>"

lemma example_attempt_sent:
  assumes "attempt broken_env [''*.y'', ''api.x:8443''] ''https://a.y/v1/messages'' 0 fallback_gateway = (out, cap, g1)"
  shows "do_sent out \<noteq> None"
proof -
  have "ValidateProviderCredentialHeaderValue (sb_Bytes (NewSecureBytes ''secret'')) = None"
    by (simp add: ValidateProviderCredentialHeaderValue_def sb_Bytes_def NewSecureBytes_def
        MaxProviderCredentialBytes_def in_range_def byte_val_def)
  moreover have "valid_method ''POST''" by (simp add: valid_method_def token_byte_def in_range_def byte_val_def)
  ultimately have "do_sent (fst (Dispatch capture_writer (ge_net broken_env t) [''*.y'', ''api.x:8443''] ''POST'' hs b
      (dispatch_config rc ''https://a.y/v1/messages'') (Some (NewSecureBytes ''secret'')) w)) \<noteq> None" for t hs b rc w
    using example_target
    by (auto simp: Dispatch_def Let_def broken_env_def dispatch_config_def example_env_def split: prod.split)
  then show ?thesis
    using assms by (auto simp: attempt_def Let_def fallback_gateway_def new_context_def anonymous_request_def split: prod.splits)
      (metis fst_conv option.distinct(1))
qed

theorem broken_response_reported_as_success_witness:
  "\<exists>out cap g1 g'. attempt broken_env [''*.y'', ''api.x:8443''] ''https://a.y/v1/messages'' 0 fallback_gateway = (out, cap, g1)
     \<and> conclude_attempt out cap g1 = Returned g' \<and> cc_status (gw_conn g') = [200] \<and> cc_body (gw_conn g') = []"
proof -
  obtain out cap g1 where a: "attempt broken_env [''*.y'', ''api.x:8443''] ''https://a.y/v1/messages'' 0 fallback_gateway = (out, cap, g1)"
    by (metis prod_cases3)
  obtain s where s: "do_sent out = Some s" using example_attempt_sent [OF a] by blast
  have "\<exists>g'. conclude_attempt out cap g1 = Returned g' \<and> cc_status (gw_conn g') = [200] \<and> cc_body (gw_conn g') = []
     \<and> \<not> rc_RetryableAttempt (gw_ctx g') \<and> IsAborted g' = IsAborted fallback_gateway"
    by (rule broken_response_reported_as_success [OF a s, where f = Some and
        resp = "\<lparr>rs_StatusCode = 200, rs_Header = [], rs_chunks = [''{''], rs_broken = True\<rparr>"])
      (simp_all add: broken_env_def fallback_gateway_def new_context_def idle_gateway_def example_client_def example_env_def)
  with a show ?thesis by blast
qed

end
