(* ===== verification/Key_Lifecycle.thy ===== *)
theory Key_Lifecycle
  imports Gateway
begin

text \<open>
  A virtual key from its revocation on: what authentication relies on from a revocation store, that
  both stores of the code provide it, and that the retention of tombstones covers the whole
  lifetime of the tokens a revocation is about.
\<close>

section \<open>The contract of a revocation store\<close>

locale revocation_store =
  fixes check :: "'s \<Rightarrow> bool \<Rightarrow> string \<Rightarrow> string \<Rightarrow> check_result"
    and listed :: "'s \<Rightarrow> string \<Rightarrow> string \<Rightarrow> bool"
  assumes listed_refused: "listed s issuer keyID \<Longrightarrow> check s cancelled issuer keyID \<noteq> NotRevoked"
begin

lemma listed_not_admitted:
  assumes "ac_Revocation cfg = Some (check s)" and "listed s (c_Issuer claims) (c_KeyID claims)"
  shows "\<not> admitted env cfg now r claims"
  using assms(1) listed_refused [OF assms(2)] by (auto simp: admitted_def)

end

definition reader_lists :: "readerState option \<Rightarrow> string \<Rightarrow> string \<Rightarrow> bool" where
  "reader_lists st issuer keyID \<longleftrightarrow> (\<exists>c. st = Some c \<and> rs_revoked c (revocationKey issuer keyID) \<noteq> None)"

abbreviation reader_check :: "readerState option \<Rightarrow> bool \<Rightarrow> string \<Rightarrow> string \<Rightarrow> check_result" where
  "reader_check st cancelled issuer keyID \<equiv> rev_Check cancelled issuer keyID st"

interpretation durable: revocation_store "reader_check" reader_lists
  by unfold_locales (auto simp: reader_lists_def rev_Check_def split: if_splits)

interpretation in_memory: revocation_store mem_Check "\<lambda>s issuer keyID. mem_key issuer keyID \<in> s"
  by unfold_locales (simp add: mem_Check_def)

section \<open>Retention covers the lifetime\<close>

lemma accepted_before:
  assumes "ValidateAt hmac token key issuer maxTTL now = Inr c" and "0 < maxTTL"
    and "c_ExpiresAt c \<le> max_int64 - unixToInternal" and "c_IssuedAt c \<le> unix t + 60"
  shows "unix now < desiredRetention t maxTTL"
proof (rule ValidateAt_parts [OF assms(1)])
  assume v: "validateClaims c issuer maxTTL now = None" and "maxTTL \<le> MaxTokenTTL"
  then have b: "0 < c_IssuedAt c" "c_IssuedAt c < c_ExpiresAt c" "(c_ExpiresAt c - c_IssuedAt c) * second \<le> maxTTL"
    and e: "unix now < c_ExpiresAt c"
    using assms(2,3) unix_sub_exact [of "c_IssuedAt c" "c_ExpiresAt c"]
    by (auto simp: validateClaims_def Let_def vk_limits second_def max_int64_def split: if_splits)
  have "c_IssuedAt c * second \<le> (unix t + 60) * second" using assms(4) by (simp add: second_def)
  also have "\<dots> \<le> t + revocationClockSkew" using unix_le_iff [of "unix t" t] by (simp add: revocationClockSkew_def algebra_simps)
  finally have "c_ExpiresAt c * second \<le> t + (maxTTL + revocationClockSkew)" using b(3) by (simp add: algebra_simps)
  then show ?thesis using e by (simp add: desiredRetention_def unix_le_iff [symmetric])
qed

text \<open>
  C4. A revoked key stays out for good: after a tombstone with the retention the revocation chose has
  been published, then whatever files the reader finds at its later refreshes, no request is admitted
  with a token of that key that was issued, up to the tolerated clock skew, before the revocation:
  while the tombstone is retained the check refuses it, and when the tombstone may be dropped the
  token has expired. The expiry in the token has to be an instant that Go's time represents without
  wrapping around, as it is in every token the gateway issues; a hand-made token of the signing key
  with an expiry beyond that is outside this property, because the lifetime check lets it pass and no
  retention covers it.
\<close>
theorem revoked_key_stays_out:
  assumes published: "rs_revoked st (revocationKey issuer keyID) = Some until" "desiredRetention t maxTTL \<le> until"
    and refreshes: "\<forall>(io, tick, fs) \<in> set ticks. tick \<le> now"
    and auth: "ac_Revocation cfg = Some (reader_check (poll sha256 ticks (Some st)))" "ac_Expiry cfg = maxTTL" "0 < maxTTL"
    and token: "c_Issuer claims = issuer" "c_KeyID claims = keyID" "c_IssuedAt claims \<le> unix t + 60"
      "c_ExpiresAt claims \<le> max_int64 - unixToInternal"
  shows "\<not> admitted env cfg now r claims"
proof
  assume a: "admitted env cfg now r claims"
  then obtain tok where "ValidateAt (ge_hmac env) tok (ac_SigningKey cfg) (ac_Issuer cfg) maxTTL now = Inr claims"
    using auth(2) by (auto simp: admitted_def)
  from accepted_before [OF this auth(3) token(4,3)] have "unix now < until" using published(2) by simp
  then have "\<forall>(io, tick, fs) \<in> set ticks. unix tick < until"
    using refreshes by (fastforce simp: unix_def second_def dest: zdiv_mono1 [where b = 1000000000])
  from poll_keeps [OF published(1) this, of sha256]
  have "reader_lists (poll sha256 ticks (Some st)) (c_Issuer claims) (c_KeyID claims)"
    by (auto simp: reader_lists_def token(1,2))
  from durable.listed_not_admitted [OF auth(1) this] a show False by blast
qed

definition revoked_state :: readerState where
  "revoked_state = \<lparr>rs_generation = 2, rs_digest = [], rs_revoked = [revocationKey ''i'' ''vk'' \<mapsto> 3700], rs_err = None\<rparr>"

theorem revoked_key_stays_out_witness:
  "admitted signed_env (signed_auth (reader_check (Some (revoked_state\<lparr>rs_revoked := Map.empty\<rparr>)))) (4 * second) signed_request example_claims
   \<and> \<not> admitted signed_env (signed_auth (reader_check (poll (\<lambda>x. x) [(all_io, 4 * second, \<lparr>fs_dir = None, fs_file = None\<rparr>)] (Some revoked_state))))
        (4 * second) signed_request example_claims"
proof (rule conjI)
  show "\<not> admitted signed_env (signed_auth (reader_check (poll (\<lambda>x. x) [(all_io, 4 * second, \<lparr>fs_dir = None, fs_file = None\<rparr>)] (Some revoked_state))))
        (4 * second) signed_request example_claims"
    by (rule revoked_key_stays_out [where t = "4 * second" and until = 3700 and maxTTL = "3600 * second" and issuer = "''i''"
        and keyID = "''vk''" and ?sha256.0 = "\<lambda>x. x" and ticks = "[(all_io, 4 * second, \<lparr>fs_dir = None, fs_file = None\<rparr>)]"
        and st = revoked_state])
      (simp_all add: revoked_state_def signed_auth_def example_claims_def desiredRetention_def revocationClockSkew_def unix_def
        second_def minute_def max_int64_def unixToInternal_def)
qed (rule signed_admitted, simp add: rev_Check_def revoked_state_def)

end
