(* ===== verification/Key_Store.thy ===== *)
theory Key_Store
  imports Gateway_Middleware "HOL-Library.AList"
begin

text \<open>
  The local key store of \<open>internal/kms/local\<close>: provider keys sealed with AES-256-GCM in versioned
  envelopes, over a backend of named blobs.

  AES-GCM is a parameter: \<open>gcm_Seal\<close> and \<open>gcm_Open\<close> with what the standard documents of them. A
  backend is a record of operations on its state, as the Go interface is; reading may change the
  state too, because each call to the system may fail. SHA-256, the environment, the random bytes of a
  nonce and the cancellation of a context are arguments.
\<close>

section \<open>Interfaces\<close>

datatype kms_error =
    ErrKeyNotFound | ErrDecryptFailed | ErrInvalidEnvelope | ErrLegacyEnvelopeDisabled | ErrBackendNotFound
  | ErrInvalidMasterKey | ErrStoreClosed | InvalidKeyID | BlobTooLarge | BackendFailure | NonceFailure
  | BackendRequired | BadMinimumVersion | BackupNotEmpty | SourceChanged | BackupMismatch | ContextEnded | NilCipher

record gcm =
  gcm_Seal :: "bytes \<Rightarrow> bytes \<Rightarrow> bytes \<Rightarrow> bytes \<Rightarrow> bytes"
  gcm_Open :: "bytes \<Rightarrow> bytes \<Rightarrow> bytes \<Rightarrow> bytes \<Rightarrow> bytes option"

definition gcm_overhead :: nat where "gcm_overhead = 16"

text \<open>
  What AES-GCM promises for a key and a nonce: opening gives back what was sealed, only a text that
  sealing would produce opens, and sealing adds the tag.
\<close>

definition gcm_ok :: "gcm \<Rightarrow> bool" where
  "gcm_ok G \<longleftrightarrow>
     (\<forall>k n p a. gcm_Open G k n (gcm_Seal G k n p a) a = Some p) \<and>
     (\<forall>k n c a p. gcm_Open G k n c a = Some p \<longrightarrow> c = gcm_Seal G k n p a) \<and>
     (\<forall>k n p a. length (gcm_Seal G k n p a) = length p + gcm_overhead)"

record 'b Backend =
  be_Get :: "string \<Rightarrow> 'b \<Rightarrow> (kms_error + bytes) \<times> 'b"
  be_Put :: "string \<Rightarrow> bytes \<Rightarrow> 'b \<Rightarrow> kms_error option \<times> 'b"
  be_Delete :: "string \<Rightarrow> 'b \<Rightarrow> kms_error option \<times> 'b"
  be_List :: "'b \<Rightarrow> (kms_error + string list) \<times> 'b"

section \<open>Envelopes\<close>

definition MaxKeyIDBytes :: nat where "MaxKeyIDBytes = 128"
definition envelopeMagic :: bytes where "envelopeMagic = ''AEGISKEY''"
definition envelopeVersion :: char where "envelopeVersion = CHR 0x02"
definition envelopeHeaderSize :: nat where "envelopeHeaderSize = 10"
definition gcmNonceSize :: nat where "gcmNonceSize = 12"
definition maxEncryptedKeyBlobBytes :: nat where "maxEncryptedKeyBlobBytes = 1048576"
definition envelopeAADDomain :: bytes where "envelopeAADDomain = ''aegis/kms/local/envelope''"

definition validateKeyID :: "string \<Rightarrow> kms_error option" where
  "validateKeyID keyID =
     (if keyID = [] then Some InvalidKeyID else if MaxKeyIDBytes < length keyID then Some InvalidKeyID else None)"

definition validateEncryptedBlobSize :: "bytes \<Rightarrow> kms_error option" where
  "validateEncryptedBlobSize blob = (if maxEncryptedKeyBlobBytes < length blob then Some BlobTooLarge else None)"

definition envelopeAAD :: "bytes \<Rightarrow> string \<Rightarrow> bytes" where
  "envelopeAAD header keyID = envelopeAADDomain @ header @ keyID"

definition envelope_header :: bytes where
  "envelope_header = envelopeMagic @ [envelopeVersion, char_of gcmNonceSize]"

text \<open>The random source either fills the nonce or fails.\<close>

definition sealV2Blob :: "gcm \<Rightarrow> bytes \<Rightarrow> (nat \<Rightarrow> char) option \<Rightarrow> string \<Rightarrow> bytes \<Rightarrow> kms_error + bytes" where
  "sealV2Blob G key rand keyID plaintext =
     (case validateKeyID keyID of
        Some e \<Rightarrow> Inl e
      | None \<Rightarrow>
          (case rand of
             None \<Rightarrow> Inl NonceFailure
           | Some r \<Rightarrow>
               let nonce = map r [0..<gcmNonceSize]
               in Inr (envelope_header @ nonce @ gcm_Seal G key nonce plaintext (envelopeAAD envelope_header keyID))))"

definition openV2Envelope :: "gcm \<Rightarrow> bytes \<Rightarrow> string \<Rightarrow> bytes \<Rightarrow> kms_error + bytes" where
  "openV2Envelope G key keyID blob =
     (if length blob < envelopeHeaderSize then Inl ErrInvalidEnvelope
      else let header = take envelopeHeaderSize blob; nonceSize = byte_val (header ! 9)
           in if header ! 8 \<noteq> envelopeVersion then Inl ErrInvalidEnvelope
              else if nonceSize \<noteq> gcmNonceSize then Inl ErrInvalidEnvelope
              else if length blob < envelopeHeaderSize + nonceSize + gcm_overhead then Inl ErrInvalidEnvelope
              else case gcm_Open G key (take nonceSize (drop envelopeHeaderSize blob))
                          (drop (envelopeHeaderSize + nonceSize) blob) (envelopeAAD header keyID) of
                     None \<Rightarrow> Inl ErrDecryptFailed
                   | Some plaintext \<Rightarrow> Inr plaintext)"

definition openLegacyBlob :: "gcm \<Rightarrow> bytes \<Rightarrow> bytes \<Rightarrow> kms_error + bytes" where
  "openLegacyBlob G key blob =
     (if length blob < gcmNonceSize + gcm_overhead then Inl ErrDecryptFailed
      else case gcm_Open G key (take gcmNonceSize blob) (drop gcmNonceSize blob) [] of
             None \<Rightarrow> Inl ErrDecryptFailed
           | Some plaintext \<Rightarrow> Inr plaintext)"

definition openBlob :: "gcm \<Rightarrow> bytes \<Rightarrow> int \<Rightarrow> string \<Rightarrow> bytes \<Rightarrow> kms_error + bytes" where
  "openBlob G key minimum keyID blob =
     (if has_prefix blob envelopeMagic then openV2Envelope G key keyID blob
      else if minimum \<ge> 2 then Inl ErrLegacyEnvelopeDisabled
      else openLegacyBlob G key blob)"

section \<open>The store\<close>

record 'b Store =
  ks_masterKey :: bytes
  ks_gcm :: "bytes option"
  ks_backend :: 'b
  ks_minimum :: int
  ks_closed :: bool

text \<open>\<open>hex.DecodeString\<close>; on an error it returns the bytes decoded so far.\<close>

fun hex_DecodeString :: "string \<Rightarrow> bytes \<times> bool" where
  "hex_DecodeString [] = ([], True)"
| "hex_DecodeString [c] = ([], False)"
| "hex_DecodeString (c # d # s) =
     (case (hex_val c, hex_val d) of
        (Some a, Some b) \<Rightarrow> apfst ((#) (char_of (a * 16 + b))) (hex_DecodeString s)
      | _ \<Rightarrow> ([], False))"

text \<open>The result and the bytes of the master key the caller handed over.\<close>

definition newStoreFromMasterKey :: "bytes \<times> bool \<Rightarrow> 'b \<Rightarrow> int \<Rightarrow> (kms_error + 'b Store) \<times> bytes" where
  "newStoreFromMasterKey decoded backend minimum =
     (let (masterKey, ok) = decoded
      in if \<not> ok then (Inl ErrInvalidMasterKey, MemZero masterKey)
         else if length masterKey \<noteq> 32 then (Inl ErrInvalidMasterKey, MemZero masterKey)
         else (Inr \<lparr>ks_masterKey = masterKey, ks_gcm = Some masterKey, ks_backend = backend,
                    ks_minimum = minimum, ks_closed = False\<rparr>, masterKey))"

text \<open>The result and the buffers of secrets that were allocated on the way, as they are left.\<close>

definition NewWithMinimumEnvelopeVersion ::
  "(string \<Rightarrow> string) \<Rightarrow> string \<Rightarrow> 'b option \<Rightarrow> int \<Rightarrow> (kms_error + 'b Store) \<times> bytes list" where
  "NewWithMinimumEnvelopeVersion getenv masterKeyEnv backend minimum =
     (case backend of
        None \<Rightarrow> (Inl BackendRequired, [])
      | Some b \<Rightarrow>
          if minimum \<noteq> 1 \<and> minimum \<noteq> 2 then (Inl BadMinimumVersion, [])
          else if getenv masterKeyEnv = [] then (Inl ErrInvalidMasterKey, [])
          else case newStoreFromMasterKey (hex_DecodeString (getenv masterKeyEnv)) b minimum of
                 (r, masterKey) \<Rightarrow> (r, [masterKey]))"

definition GetKey :: "gcm \<Rightarrow> 'b Backend \<Rightarrow> string \<Rightarrow> 'b Store \<Rightarrow> (kms_error + SecureBytes) \<times> 'b Store" where
  "GetKey G ops keyID s =
     (if ks_closed s then (Inl ErrStoreClosed, s)
      else if validateKeyID keyID \<noteq> None then (Inl ErrKeyNotFound, s)
      else case be_Get ops keyID (ks_backend s) of
             (r, b) \<Rightarrow>
               (case r of
                  Inl e \<Rightarrow> Inl (if e = ErrBackendNotFound then ErrKeyNotFound else e)
                | Inr blob \<Rightarrow>
                    (case validateEncryptedBlobSize blob of
                       Some e \<Rightarrow> Inl e
                     | None \<Rightarrow>
                         (case ks_gcm s of
                            None \<Rightarrow> Inl NilCipher
                          | Some key \<Rightarrow>
                              (case openBlob G key (ks_minimum s) keyID blob of
                                 Inl e \<Rightarrow> Inl e
                               | Inr plaintext \<Rightarrow> Inr (NewSecureBytes plaintext)))), s\<lparr>ks_backend := b\<rparr>))"

text \<open>The error, what is left of the caller's plaintext, and the store.\<close>

definition StoreKey ::
  "gcm \<Rightarrow> 'b Backend \<Rightarrow> (nat \<Rightarrow> char) option \<Rightarrow> string \<Rightarrow> bytes \<Rightarrow> 'b Store \<Rightarrow> kms_error option \<times> bytes \<times> 'b Store" where
  "StoreKey G ops rand keyID plaintext s =
     (let z = MemZero plaintext
      in if ks_closed s then (Some ErrStoreClosed, z, s)
         else case validateKeyID keyID of
                Some e \<Rightarrow> (Some e, z, s)
              | None \<Rightarrow>
                  (case ks_gcm s of
                     None \<Rightarrow> (Some NilCipher, z, s)
                   | Some key \<Rightarrow>
                       (case sealV2Blob G key rand keyID plaintext of
                          Inl e \<Rightarrow> (Some e, z, s)
                        | Inr ciphertext \<Rightarrow>
                            (case validateEncryptedBlobSize ciphertext of
                               Some e \<Rightarrow> (Some e, z, s)
                             | None \<Rightarrow>
                                 (case be_Put ops keyID ciphertext (ks_backend s) of
                                    (e, b) \<Rightarrow> (e, z, s\<lparr>ks_backend := b\<rparr>))))))"

definition DeleteKey :: "'b Backend \<Rightarrow> string \<Rightarrow> 'b Store \<Rightarrow> kms_error option \<times> 'b Store" where
  "DeleteKey ops keyID s =
     (if ks_closed s then (Some ErrStoreClosed, s)
      else case validateKeyID keyID of
             Some e \<Rightarrow> (Some e, s)
           | None \<Rightarrow> (case be_Delete ops keyID (ks_backend s) of (e, b) \<Rightarrow> (e, s\<lparr>ks_backend := b\<rparr>)))"

text \<open>
  \<open>RotateKey\<close> takes the lock twice, once to read and once to write, so what other callers do in
  between is the argument \<open>between\<close>.
\<close>

definition RotateKey ::
  "gcm \<Rightarrow> 'b Backend \<Rightarrow> (nat \<Rightarrow> char) option \<Rightarrow> ('b Store \<Rightarrow> 'b Store) \<Rightarrow> string \<Rightarrow> 'b Store \<Rightarrow> kms_error option \<times> 'b Store" where
  "RotateKey G ops rand between keyID s =
     (case GetKey G ops keyID s of
        (Inl e, s1) \<Rightarrow> (Some e, s1)
      | (Inr key, s1) \<Rightarrow>
          (case StoreKey G ops rand keyID (sb_Bytes key) (between s1) of (e, z, s2) \<Rightarrow> (e, s2)))"

definition ListKeyIDs :: "'b Backend \<Rightarrow> 'b Store \<Rightarrow> (kms_error + string list) \<times> 'b Store" where
  "ListKeyIDs ops s =
     (if ks_closed s then (Inl ErrStoreClosed, s)
      else case be_List ops (ks_backend s) of (r, b) \<Rightarrow> (r, s\<lparr>ks_backend := b\<rparr>))"

text \<open>The buffer of the master key after \<open>Close\<close>, and the store.\<close>

definition kms_Close :: "'b Store \<Rightarrow> bytes \<times> 'b Store" where
  "kms_Close s =
     (if ks_closed s then (ks_masterKey s, s)
      else (MemZero (ks_masterKey s), s\<lparr>ks_masterKey := [], ks_gcm := None, ks_closed := True\<rparr>))"

section \<open>Formats and migration\<close>

record MigrationReport =
  mr_Total :: nat
  mr_Legacy :: nat
  mr_V2 :: nat
  mr_Migrated :: nat

definition empty_report :: MigrationReport where
  "empty_report = \<lparr>mr_Total = 0, mr_Legacy = 0, mr_V2 = 0, mr_Migrated = 0\<rparr>"

definition count_format :: "bytes \<Rightarrow> MigrationReport \<Rightarrow> MigrationReport" where
  "count_format blob rep =
     (if has_prefix blob envelopeMagic then rep\<lparr>mr_V2 := Suc (mr_V2 rep)\<rparr> else rep\<lparr>mr_Legacy := Suc (mr_Legacy rep)\<rparr>)"

text \<open>One blob read, measured and opened; \<open>ended keyID\<close> says that the context has ended when its turn comes.\<close>

definition check_blob ::
  "gcm \<Rightarrow> 'b Backend \<Rightarrow> bytes \<Rightarrow> int \<Rightarrow> (string \<Rightarrow> bool) \<Rightarrow> string \<Rightarrow> 'b \<Rightarrow> (kms_error + bytes) \<times> 'b" where
  "check_blob G ops key minimum ended keyID b =
     (if ended keyID then (Inl ContextEnded, b)
      else case be_Get ops keyID b of
             (r, b1) \<Rightarrow>
               (case r of
                  Inl e \<Rightarrow> Inl e
                | Inr blob \<Rightarrow>
                    (case validateEncryptedBlobSize blob of
                       Some e \<Rightarrow> Inl e
                     | None \<Rightarrow> (case openBlob G key minimum keyID blob of Inl e \<Rightarrow> Inl e | Inr p \<Rightarrow> Inr blob)), b1))"

fun inspect_loop ::
  "gcm \<Rightarrow> 'b Backend \<Rightarrow> bytes \<Rightarrow> int \<Rightarrow> (string \<Rightarrow> bool) \<Rightarrow> string list \<Rightarrow> MigrationReport \<Rightarrow> 'b
     \<Rightarrow> (MigrationReport \<times> kms_error option) \<times> 'b" where
  "inspect_loop G ops key minimum ended [] rep b = ((rep, None), b)"
| "inspect_loop G ops key minimum ended (keyID # ids) rep b =
     (case check_blob G ops key minimum ended keyID b of
        (Inl e, b1) \<Rightarrow> ((rep, Some e), b1)
      | (Inr blob, b1) \<Rightarrow> inspect_loop G ops key minimum ended ids (count_format blob rep) b1)"

definition InspectFormats ::
  "gcm \<Rightarrow> 'b Backend \<Rightarrow> (string \<Rightarrow> bool) \<Rightarrow> 'b Store \<Rightarrow> (MigrationReport \<times> kms_error option) \<times> 'b Store" where
  "InspectFormats G ops ended s =
     (if ks_closed s then ((empty_report, Some ErrStoreClosed), s)
      else case be_List ops (ks_backend s) of
             (Inl e, b) \<Rightarrow> ((empty_report, Some e), s\<lparr>ks_backend := b\<rparr>)
           | (Inr ids, b) \<Rightarrow>
               (case ks_gcm s of
                  None \<Rightarrow> ((empty_report, Some NilCipher), s\<lparr>ks_backend := b\<rparr>)
                | Some key \<Rightarrow>
                    (case inspect_loop G ops key (ks_minimum s) ended ids (empty_report\<lparr>mr_Total := length ids\<rparr>) b of
                       (r, b1) \<Rightarrow> (r, s\<lparr>ks_backend := b1\<rparr>))))"

record sourceMetadata =
  sm_keyID :: string
  sm_digest :: bytes
  sm_legacy :: bool

text \<open>The three passes of \<open>MigrateLegacy\<close>: validate the source, copy it to the backup, rewrite the legacy blobs.\<close>

fun validate_pass ::
  "gcm \<Rightarrow> (bytes \<Rightarrow> bytes) \<Rightarrow> 'b Backend \<Rightarrow> bytes \<Rightarrow> int \<Rightarrow> (string \<Rightarrow> bool) \<Rightarrow> string list \<Rightarrow> MigrationReport \<Rightarrow> 'b
     \<Rightarrow> (kms_error + sourceMetadata list) \<times> MigrationReport \<times> 'b" where
  "validate_pass G sha ops key minimum ended [] rep b = (Inr [], rep, b)"
| "validate_pass G sha ops key minimum ended (keyID # ids) rep b =
     (case check_blob G ops key minimum ended keyID b of
        (Inl e, b1) \<Rightarrow> (Inl e, rep, b1)
      | (Inr blob, b1) \<Rightarrow>
          (case validate_pass G sha ops key minimum ended ids (count_format blob rep) b1 of
             (Inl e, rep2, b2) \<Rightarrow> (Inl e, rep2, b2)
           | (Inr items, rep2, b2) \<Rightarrow>
               (Inr (\<lparr>sm_keyID = keyID, sm_digest = sha blob, sm_legacy = \<not> has_prefix blob envelopeMagic\<rparr> # items), rep2, b2)))"

definition read_checked :: "(bytes \<Rightarrow> bytes) \<Rightarrow> kms_error \<Rightarrow> 'b Backend \<Rightarrow> sourceMetadata \<Rightarrow> 'b \<Rightarrow> (kms_error + bytes) \<times> 'b" where
  "read_checked sha mismatch ops item b =
     (case be_Get ops (sm_keyID item) b of
        (r, b1) \<Rightarrow>
          (case r of
             Inl e \<Rightarrow> Inl e
           | Inr blob \<Rightarrow>
               (case validateEncryptedBlobSize blob of
                  Some e \<Rightarrow> Inl e
                | None \<Rightarrow> if sha blob \<noteq> sm_digest item then Inl mismatch else Inr blob), b1))"

fun backup_pass ::
  "(bytes \<Rightarrow> bytes) \<Rightarrow> 'b Backend \<Rightarrow> 'c Backend \<Rightarrow> sourceMetadata list \<Rightarrow> 'b \<Rightarrow> 'c \<Rightarrow> kms_error option \<times> 'b \<times> 'c" where
  "backup_pass sha ops bops [] b c = (None, b, c)"
| "backup_pass sha ops bops (item # items) b c =
     (case read_checked sha SourceChanged ops item b of
        (Inl e, b1) \<Rightarrow> (Some e, b1, c)
      | (Inr blob, b1) \<Rightarrow>
          (case be_Put bops (sm_keyID item) blob c of
             (Some e, c1) \<Rightarrow> (Some e, b1, c1)
           | (None, c1) \<Rightarrow> backup_pass sha ops bops items b1 c1))"

fun rewrite_pass ::
  "gcm \<Rightarrow> (bytes \<Rightarrow> bytes) \<Rightarrow> 'b Backend \<Rightarrow> 'c Backend \<Rightarrow> bytes \<Rightarrow> (string \<Rightarrow> (nat \<Rightarrow> char) option) \<Rightarrow> sourceMetadata list
     \<Rightarrow> MigrationReport \<Rightarrow> 'b \<Rightarrow> 'c \<Rightarrow> kms_error option \<times> MigrationReport \<times> 'b \<times> 'c" where
  "rewrite_pass G sha ops bops key rand [] rep b c = (None, rep, b, c)"
| "rewrite_pass G sha ops bops key rand (item # items) rep b c =
     (if \<not> sm_legacy item then rewrite_pass G sha ops bops key rand items rep b c
      else case read_checked sha BackupMismatch bops item c of
             (Inl e, c1) \<Rightarrow> (Some e, rep, b, c1)
           | (Inr blob, c1) \<Rightarrow>
               (case openLegacyBlob G key blob of
                  Inl e \<Rightarrow> (Some e, rep, b, c1)
                | Inr plaintext \<Rightarrow>
                    (case sealV2Blob G key (rand (sm_keyID item)) (sm_keyID item) plaintext of
                       Inl e \<Rightarrow> (Some e, rep, b, c1)
                     | Inr ciphertext \<Rightarrow>
                         (case be_Put ops (sm_keyID item) ciphertext b of
                            (Some e, b1) \<Rightarrow> (Some e, rep, b1, c1)
                          | (None, b1) \<Rightarrow>
                              rewrite_pass G sha ops bops key rand items (rep\<lparr>mr_Migrated := Suc (mr_Migrated rep)\<rparr>) b1 c1))))"

definition MigrateLegacy ::
  "gcm \<Rightarrow> (bytes \<Rightarrow> bytes) \<Rightarrow> 'b Backend \<Rightarrow> 'c Backend \<Rightarrow> (string \<Rightarrow> (nat \<Rightarrow> char) option) \<Rightarrow> (string \<Rightarrow> bool)
     \<Rightarrow> 'b Store \<Rightarrow> 'c option \<Rightarrow> MigrationReport \<times> kms_error option \<times> 'b Store \<times> 'c option" where
  "MigrateLegacy G sha ops bops rand ended s backup =
     (if ks_closed s then (empty_report, Some ErrStoreClosed, s, backup)
      else case backup of
             None \<Rightarrow> (empty_report, Some BackendRequired, s, None)
           | Some c0 \<Rightarrow>
               (case be_List bops c0 of
                  (Inl e, c) \<Rightarrow> (empty_report, Some e, s, Some c)
                | (Inr existing, c) \<Rightarrow>
                    if existing \<noteq> [] then (empty_report, Some BackupNotEmpty, s, Some c)
                    else (case be_List ops (ks_backend s) of
                            (Inl e, b) \<Rightarrow> (empty_report, Some e, s\<lparr>ks_backend := b\<rparr>, Some c)
                          | (Inr ids, b) \<Rightarrow>
                              (case ks_gcm s of
                                 None \<Rightarrow> (empty_report, Some NilCipher, s\<lparr>ks_backend := b\<rparr>, Some c)
                               | Some key \<Rightarrow>
                                   (case validate_pass G sha ops key (ks_minimum s) ended (sort ids)
                                           (empty_report\<lparr>mr_Total := length ids\<rparr>) b of
                                      (Inl e, rep, b1) \<Rightarrow> (rep, Some e, s\<lparr>ks_backend := b1\<rparr>, Some c)
                                    | (Inr items, rep, b1) \<Rightarrow>
                                        (case backup_pass sha ops bops items b1 c of
                                           (Some e, b2, c2) \<Rightarrow> (rep, Some e, s\<lparr>ks_backend := b2\<rparr>, Some c2)
                                         | (None, b2, c2) \<Rightarrow>
                                             (case rewrite_pass G sha ops bops key rand items rep b2 c2 of
                                                (e, rep3, b3, c3) \<Rightarrow> (rep3, e, s\<lparr>ks_backend := b3\<rparr>, Some c3))))))))"

section \<open>Backends\<close>

text \<open>
  The backend in memory: the Go map as an association list without repeated keys, one of the orders
  in which the map may be iterated.
\<close>

type_synonym MemoryBackend = "(string \<times> bytes) list"

definition NewMemoryBackend :: MemoryBackend where "NewMemoryBackend = []"

definition mem_Get :: "string \<Rightarrow> MemoryBackend \<Rightarrow> (kms_error + bytes) \<times> MemoryBackend" where
  "mem_Get keyID m = (case map_of m keyID of None \<Rightarrow> Inl ErrBackendNotFound | Some d \<Rightarrow> Inr d, m)"

definition mem_Put :: "string \<Rightarrow> bytes \<Rightarrow> MemoryBackend \<Rightarrow> kms_error option \<times> MemoryBackend" where
  "mem_Put keyID ciphertext m = (None, AList.update keyID ciphertext m)"

definition mem_Delete :: "string \<Rightarrow> MemoryBackend \<Rightarrow> kms_error option \<times> MemoryBackend" where
  "mem_Delete keyID m = (None, AList.delete keyID m)"

definition mem_List :: "MemoryBackend \<Rightarrow> (kms_error + string list) \<times> MemoryBackend" where
  "mem_List m = (Inr (map fst m), m)"

definition memory_backend :: "MemoryBackend Backend" where
  "memory_backend = \<lparr>be_Get = mem_Get, be_Put = mem_Put, be_Delete = mem_Delete, be_List = mem_List\<rparr>"

text \<open>
  The backend on disk: the entries of one directory. \<open>kd_fails n\<close> says whether the \<open>n\<close>-th call to
  the system fails for a reason outside (permissions, a full disk, an input error); \<open>kd_temp n\<close> is
  the random part of a temporary name.
\<close>

record key_file =
  kf_kind :: file_kind
  kf_directory :: bool
  kf_perm :: "9 word"
  kf_data :: bytes

record FileBackend =
  kd_entries :: "(string \<times> key_file) list"
  kd_calls :: nat
  kd_fails :: "nat \<Rightarrow> bool"
  kd_temp :: "nat \<Rightarrow> string"

definition keyFileSuffix :: string where "keyFileSuffix = ''.key''"

definition keyPath :: "string \<Rightarrow> kms_error + string" where
  "keyPath keyID =
     (case validateKeyID keyID of
        Some e \<Rightarrow> Inl e
      | None \<Rightarrow> let name = b64_encode keyID @ keyFileSuffix in if CHR ''/'' \<in> set name then Inl BackendFailure else Inr name)"

definition sys_call :: "FileBackend \<Rightarrow> bool \<times> FileBackend" where
  "sys_call d = (kd_fails d (kd_calls d), d\<lparr>kd_calls := Suc (kd_calls d)\<rparr>)"

text \<open>A sequence of calls to the system that stops at the first failure.\<close>

primrec sys_calls :: "nat \<Rightarrow> FileBackend \<Rightarrow> bool \<times> FileBackend" where
  "sys_calls 0 d = (False, d)"
| "sys_calls (Suc n) d = (case sys_call d of (failed, d1) \<Rightarrow> if failed then (True, d1) else sys_calls n d1)"

definition file_Get :: "string \<Rightarrow> FileBackend \<Rightarrow> (kms_error + bytes) \<times> FileBackend" where
  "file_Get keyID d =
     (case keyPath keyID of
        Inl e \<Rightarrow> (Inl e, d)
      | Inr name \<Rightarrow>
          (case sys_call d of
             (failed, d1) \<Rightarrow>
               if failed then (Inl BackendFailure, d1)
               else (case map_of (kd_entries d1) name of
                       None \<Rightarrow> (Inl ErrBackendNotFound, d1)
                     | Some f \<Rightarrow>
                         if kf_kind f = SymbolicLink then (Inl BackendFailure, d1)
                         else (case sys_call d1 of
                                 (stat_failed, d2) \<Rightarrow>
                                   if stat_failed \<or> kf_kind f \<noteq> RegularFile \<or> and (kf_perm f) 63 \<noteq> 0 then (Inl BackendFailure, d2)
                                   else if maxEncryptedKeyBlobBytes < length (kf_data f) then (Inl BlobTooLarge, d2)
                                   else (case sys_call d2 of
                                           (read_failed, d3) \<Rightarrow>
                                             (if read_failed then Inl BackendFailure else Inr (kf_data f), d3))))))"

definition set_entry :: "string \<Rightarrow> bytes \<Rightarrow> FileBackend \<Rightarrow> FileBackend" where
  "set_entry name data d =
     d\<lparr>kd_entries := AList.update name \<lparr>kf_kind = RegularFile, kf_directory = False, kf_perm = 384, kf_data = data\<rparr> (kd_entries d)\<rparr>"

definition drop_entry :: "string \<Rightarrow> FileBackend \<Rightarrow> FileBackend" where
  "drop_entry name d = d\<lparr>kd_entries := AList.delete name (kd_entries d)\<rparr>"

text \<open>The deferred \<open>os.Remove\<close> of the temporary file, whose error nobody looks at.\<close>

definition remove_temp :: "string \<Rightarrow> FileBackend \<Rightarrow> FileBackend" where
  "remove_temp tmp d = (case sys_call d of (failed, d1) \<Rightarrow> if failed then d1 else drop_entry tmp d1)"

definition temp_name :: "string \<Rightarrow> string" where
  "temp_name r = ''.write-'' @ r @ ''.tmp''"

text \<open>
  Writing: create the temporary file, write, change its mode, synchronise and close it, rename it over
  the entry, then open and synchronise the directory.
\<close>

definition file_Put :: "string \<Rightarrow> bytes \<Rightarrow> FileBackend \<Rightarrow> kms_error option \<times> FileBackend" where
  "file_Put keyID ciphertext d =
     (if validateEncryptedBlobSize ciphertext \<noteq> None then (Some BlobTooLarge, d)
      else case keyPath keyID of
             Inl e \<Rightarrow> (Some e, d)
           | Inr name \<Rightarrow>
               let tmp = temp_name (kd_temp d (kd_calls d))
               in (case sys_call d of
                     (failed, d1) \<Rightarrow>
                       if failed \<or> tmp \<in> fst ` set (kd_entries d1) then (Some BackendFailure, d1)
                       else (case sys_calls 4 (set_entry tmp ciphertext d1) of
                               (write_failed, d2) \<Rightarrow>
                                 if write_failed then (Some BackendFailure, remove_temp tmp d2)
                                 else (case sys_call d2 of
                                         (rename_failed, d3) \<Rightarrow>
                                           if rename_failed
                                              \<or> (case map_of (kd_entries d3) name of None \<Rightarrow> False | Some f \<Rightarrow> kf_directory f)
                                           then (Some BackendFailure, remove_temp tmp d3)
                                           else (case sys_calls 2 (set_entry name ciphertext (drop_entry tmp d3)) of
                                                   (sync_failed, d4) \<Rightarrow>
                                                     (if sync_failed then Some BackendFailure else None, remove_temp tmp d4))))))"

definition file_Delete :: "string \<Rightarrow> FileBackend \<Rightarrow> kms_error option \<times> FileBackend" where
  "file_Delete keyID d =
     (case keyPath keyID of
        Inl e \<Rightarrow> (Some e, d)
      | Inr name \<Rightarrow>
          (case sys_call d of
             (failed, d1) \<Rightarrow>
               if failed then (Some BackendFailure, d1) else (None, drop_entry name d1)))"

fun list_entries :: "(string \<times> key_file) list \<Rightarrow> kms_error + string list" where
  "list_entries [] = Inr []"
| "list_entries ((name, f) # es) =
     (if \<not> has_suffix name keyFileSuffix then list_entries es
      else if kf_directory f then Inl BackendFailure
      else case b64_decode (take (length name - length keyFileSuffix) name) of
             None \<Rightarrow> Inl BackendFailure
           | Some raw \<Rightarrow>
               if validateKeyID raw \<noteq> None then Inl BackendFailure
               else (case list_entries es of Inl e \<Rightarrow> Inl e | Inr ids \<Rightarrow> Inr (raw # ids)))"

definition file_List :: "FileBackend \<Rightarrow> (kms_error + string list) \<times> FileBackend" where
  "file_List d =
     (case sys_call d of
        (failed, d1) \<Rightarrow> (if failed then Inl BackendFailure else list_entries (sort_key fst (kd_entries d1)), d1))"

definition file_backend :: "FileBackend Backend" where
  "file_backend = \<lparr>be_Get = file_Get, be_Put = file_Put, be_Delete = file_Delete, be_List = file_List\<rparr>"

text \<open>\<open>NewFileBackend\<close>: what \<open>Lstat\<close> finds after the directory was made, or a failure on the way.\<close>

definition NewFileBackend :: "string \<Rightarrow> dir_info option \<Rightarrow> FileBackend \<Rightarrow> kms_error + FileBackend" where
  "NewFileBackend dir found d =
     (if trim_space dir = [] then Inl BackendFailure
      else case found of
             None \<Rightarrow> Inl BackendFailure
           | Some i \<Rightarrow>
               if d_symlink i \<or> \<not> d_isdir i then Inl BackendFailure
               else if and (d_perm i) 18 \<noteq> 0 then Inl BackendFailure
               else Inr d)"

section \<open>What a backend promises\<close>

locale blob_store =
  fixes ops :: "'b Backend" and blobs :: "'b \<Rightarrow> string \<rightharpoonup> bytes" and inv :: "'b \<Rightarrow> bool"
  assumes get_frame: "inv b \<Longrightarrow> be_Get ops keyID b = (r, b') \<Longrightarrow> inv b' \<and> blobs b' = blobs b"
    and get_found: "inv b \<Longrightarrow> be_Get ops keyID b = (Inr x, b') \<Longrightarrow> blobs b keyID = Some x"
    and get_missing: "inv b \<Longrightarrow> validateKeyID keyID = None \<Longrightarrow> be_Get ops keyID b = (Inl ErrBackendNotFound, b') \<Longrightarrow> blobs b keyID = None"
    and put_done: "inv b \<Longrightarrow> validateKeyID keyID = None \<Longrightarrow> be_Put ops keyID x b = (None, b') \<Longrightarrow>
      inv b' \<and> blobs b' = (blobs b)(keyID \<mapsto> x)"
    and put_failed: "inv b \<Longrightarrow> validateKeyID keyID = None \<Longrightarrow> be_Put ops keyID x b = (Some e, b') \<Longrightarrow>
      inv b' \<and> (blobs b' = blobs b \<or> blobs b' = (blobs b)(keyID \<mapsto> x))"
    and delete_done: "inv b \<Longrightarrow> validateKeyID keyID = None \<Longrightarrow> be_Delete ops keyID b = (None, b') \<Longrightarrow>
      inv b' \<and> blobs b' = (blobs b)(keyID := None)"
    and delete_failed: "inv b \<Longrightarrow> validateKeyID keyID = None \<Longrightarrow> be_Delete ops keyID b = (Some e, b') \<Longrightarrow>
      inv b' \<and> blobs b' = blobs b"
    and list_frame: "inv b \<Longrightarrow> be_List ops b = (rs, b') \<Longrightarrow> inv b' \<and> blobs b' = blobs b"
    and list_found: "inv b \<Longrightarrow> be_List ops b = (Inr ids, b') \<Longrightarrow> distinct ids \<and> set ids = dom (blobs b)"
    and names_valid: "inv b \<Longrightarrow> blobs b keyID = Some x \<Longrightarrow> validateKeyID keyID = None"

text \<open>The backend in memory.\<close>

definition mem_inv :: "MemoryBackend \<Rightarrow> bool" where
  "mem_inv m \<longleftrightarrow> distinct (map fst m) \<and> (\<forall>keyID \<in> fst ` set m. validateKeyID keyID = None)"

lemma mem_inv_update: "mem_inv m \<Longrightarrow> validateKeyID keyID = None \<Longrightarrow> mem_inv (AList.update keyID x m)"
  by (auto simp: mem_inv_def distinct_update dom_update)

lemma mem_inv_delete: "mem_inv m \<Longrightarrow> mem_inv (AList.delete keyID m)"
  unfolding mem_inv_def by (meson distinct_delete dom_delete_subset subsetD)

lemma mem_names: "fst ` set m = dom (map_of m)"
  by (simp add: dom_map_of_conv_image_fst)

interpretation mem: blob_store memory_backend map_of mem_inv
proof unfold_locales
  show "be_List memory_backend m = (Inr ids, m') \<Longrightarrow> distinct ids \<and> set ids = dom (map_of m)" if "mem_inv m" for m ids m'
    using that by (auto simp: memory_backend_def mem_List_def mem_inv_def mem_names) blast
  show "validateKeyID keyID = None" if "mem_inv m" "map_of m keyID = Some x" for m keyID x
    using that by (auto simp: mem_inv_def mem_names)
qed (auto simp: memory_backend_def mem_Get_def mem_Put_def mem_Delete_def mem_List_def mem_inv_update mem_inv_delete
      update_conv' delete_conv' split: option.splits)

text \<open>The backend on disk: every file of the store carries the encoded name of a valid key identifier.\<close>

definition key_name :: "string \<Rightarrow> string" where
  "key_name keyID = b64_encode keyID @ keyFileSuffix"

definition good_name :: "string \<Rightarrow> bool" where
  "good_name name \<longleftrightarrow> (has_suffix name keyFileSuffix \<longrightarrow> (\<exists>keyID. validateKeyID keyID = None \<and> name = key_name keyID))"

definition dir_inv :: "FileBackend \<Rightarrow> bool" where
  "dir_inv d \<longleftrightarrow> distinct (map fst (kd_entries d)) \<and> fst ` set (kd_entries d) \<subseteq> Collect good_name"

definition dir_blobs :: "FileBackend \<Rightarrow> string \<rightharpoonup> bytes" where
  "dir_blobs d keyID =
     (if validateKeyID keyID = None then map_option kf_data (map_of (kd_entries d) (key_name keyID)) else None)"

lemma key_name_inj: "key_name a = key_name b \<longleftrightarrow> a = b"
proof
  assume "key_name a = key_name b"
  then have "b64_encode a = b64_encode b" by (simp add: key_name_def)
  then show "a = b" by (metis b64_roundtrip option.inject)
qed simp

lemma key_name_suffix: "has_suffix (key_name keyID) keyFileSuffix"
  by (simp add: key_name_def has_suffix_iff)

lemma keyPath_cases: "keyPath keyID = (case validateKeyID keyID of Some e \<Rightarrow> Inl e | None \<Rightarrow> Inr (key_name keyID))"
proof -
  have "CHR ''/'' \<notin> set b64_alphabet" by (simp add: b64_alphabet_def)
  then have "CHR ''/'' \<notin> set (b64_encode keyID)" using b64_encode_alphabet [of keyID] by (rule contra_subsetD [rotated])
  then have "CHR ''/'' \<notin> set (key_name keyID)" by (simp add: key_name_def keyFileSuffix_def)
  then show ?thesis by (simp add: keyPath_def key_name_def Let_def split: option.split)
qed

lemma temp_no_key: "\<not> has_suffix (temp_name r) keyFileSuffix"
  by (simp add: temp_name_def has_suffix_def has_prefix_def keyFileSuffix_def)

lemma temp_not_name: "temp_name r \<noteq> key_name keyID" "key_name keyID \<noteq> temp_name r"
  using temp_no_key [of r] key_name_suffix [of keyID] by metis+

lemma good_names: "good_name (temp_name r)" "validateKeyID keyID = None \<Longrightarrow> good_name (key_name keyID)"
  by (auto simp: good_name_def temp_no_key)

text \<open>Calls to the system leave the entries alone; the other steps change one entry.\<close>

definition same_dir :: "FileBackend \<Rightarrow> FileBackend \<Rightarrow> bool" where
  "same_dir d d' \<longleftrightarrow> kd_entries d' = kd_entries d"

lemma same_dir_facts: "same_dir d d' \<Longrightarrow> dir_inv d' = dir_inv d \<and> dir_blobs d' = dir_blobs d"
  by (simp add: same_dir_def dir_inv_def dir_blobs_def fun_eq_iff)

lemma sys_call_entries: "sys_call d = (failed, d') \<Longrightarrow> kd_entries d' = kd_entries d"
  by (auto simp: sys_call_def)

lemma sys_calls_entries: "sys_calls n d = (failed, d') \<Longrightarrow> kd_entries d' = kd_entries d"
  by (induction n arbitrary: d) (auto simp: sys_call_entries split: prod.splits if_splits)

lemma delete_names: "S \<supseteq> fst ` set al \<Longrightarrow> fst ` set (AList.delete k al) \<subseteq> S"
  using dom_delete_subset [of k al] by (rule subset_trans)

lemmas entry_simps = dir_inv_def dir_blobs_def set_entry_def drop_entry_def distinct_update distinct_delete dom_update
  update_conv' delete_conv' key_name_inj temp_not_name good_names delete_names fun_eq_iff

lemma set_name_entries:
  "dir_inv d \<Longrightarrow> validateKeyID keyID = None \<Longrightarrow>
     dir_inv (set_entry (key_name keyID) x d) \<and> dir_blobs (set_entry (key_name keyID) x d) = (dir_blobs d)(keyID \<mapsto> x)"
  by (simp add: entry_simps)

lemma set_temp_entries:
  "dir_inv d \<Longrightarrow> dir_inv (set_entry (temp_name r) x d) \<and> dir_blobs (set_entry (temp_name r) x d) = dir_blobs d"
  by (simp add: entry_simps)

lemma drop_name_entries:
  "dir_inv d \<Longrightarrow> dir_inv (drop_entry (key_name keyID) d) \<and> dir_blobs (drop_entry (key_name keyID) d) = (dir_blobs d)(keyID := None)"
  by (simp add: entry_simps)

lemma drop_temp_entries:
  "dir_inv d \<Longrightarrow> dir_inv (drop_entry (temp_name r) d) \<and> dir_blobs (drop_entry (temp_name r) d) = dir_blobs d"
  by (simp add: entry_simps)

lemma remove_temp_entries:
  assumes "dir_inv d"
  shows "dir_inv (remove_temp (temp_name r) d) \<and> dir_blobs (remove_temp (temp_name r) d) = dir_blobs d"
proof -
  obtain failed d1 where c: "sys_call d = (failed, d1)" by fastforce
  have s: "dir_inv d1" "dir_blobs d1 = dir_blobs d" using same_dir_facts [of d d1] sys_call_entries [OF c] assms by (simp_all add: same_dir_def)
  show ?thesis using drop_temp_entries [OF s(1), of r] s by (simp add: remove_temp_def c)
qed

lemma sys_call_keeps: "sys_call d = (failed, d') \<Longrightarrow> dir_inv d' = dir_inv d \<and> dir_blobs d' = dir_blobs d"
  by (drule sys_call_entries) (rule same_dir_facts, simp add: same_dir_def)

lemma sys_calls_keeps: "sys_calls n d = (failed, d') \<Longrightarrow> dir_inv d' = dir_inv d \<and> dir_blobs d' = dir_blobs d"
  by (drule sys_calls_entries) (rule same_dir_facts, simp add: same_dir_def)

lemma file_Get_spec:
  assumes "file_Get keyID d = (r, d')"
  shows "dir_inv d' = dir_inv d \<and> dir_blobs d' = dir_blobs d" "r = Inr x \<Longrightarrow> dir_blobs d keyID = Some x"
    "r = Inl ErrBackendNotFound \<Longrightarrow> validateKeyID keyID = None \<Longrightarrow> dir_blobs d keyID = None"
proof -
  obtain f1 d1 f2 d2 f3 d3 where c: "sys_call d = (f1, d1)" "sys_call d1 = (f2, d2)" "sys_call d2 = (f3, d3)"
    by (meson surj_pair)
  note k = sys_call_keeps [OF c(1)] sys_call_keeps [OF c(2)] sys_call_keeps [OF c(3)] sys_call_entries [OF c(1)]
  show "dir_inv d' = dir_inv d \<and> dir_blobs d' = dir_blobs d"
    using assms k by (auto simp: file_Get_def c split: sum.splits if_splits option.splits)
  show "r = Inr x \<Longrightarrow> dir_blobs d keyID = Some x"
    using assms k by (auto simp: file_Get_def c keyPath_cases dir_blobs_def split: sum.splits if_splits option.splits)
  show "r = Inl ErrBackendNotFound \<Longrightarrow> validateKeyID keyID = None \<Longrightarrow> dir_blobs d keyID = None"
    using assms k by (auto simp: file_Get_def c keyPath_cases dir_blobs_def split: sum.splits if_splits option.splits)
qed

lemma file_Put_spec:
  assumes put: "file_Put keyID x d = (e, d')" and d: "dir_inv d" and v: "validateKeyID keyID = None"
  shows "dir_inv d' \<and> (dir_blobs d' = dir_blobs d \<and> e \<noteq> None \<or> dir_blobs d' = (dir_blobs d)(keyID \<mapsto> x))"
proof (cases "validateEncryptedBlobSize x")
  case None
  define r where "r = kd_temp d (kd_calls d)"
  obtain f1 d1 where c1: "sys_call d = (f1, d1)" by fastforce
  have d1: "dir_inv d1" "dir_blobs d1 = dir_blobs d" using sys_call_keeps [OF c1] d by auto
  obtain f2 d2 where c2: "sys_calls 4 (set_entry (temp_name r) x d1) = (f2, d2)" by fastforce
  have d2: "dir_inv d2" "dir_blobs d2 = dir_blobs d" using sys_calls_keeps [OF c2] set_temp_entries [OF d1(1), of r x] d1(2) by auto
  obtain f3 d3 where c3: "sys_call d2 = (f3, d3)" by fastforce
  have d3: "dir_inv d3" "dir_blobs d3 = dir_blobs d" using sys_call_keeps [OF c3] d2 by auto
  obtain f4 d4 where c4: "sys_calls 2 (set_entry (key_name keyID) x (drop_entry (temp_name r) d3)) = (f4, d4)" by fastforce
  have d4: "dir_inv d4" "dir_blobs d4 = (dir_blobs d)(keyID \<mapsto> x)"
    using sys_calls_keeps [OF c4] set_name_entries [OF _ v, of "drop_entry (temp_name r) d3" x] drop_temp_entries [OF d3(1), of r] d3(2)
    by auto
  from put show ?thesis
    unfolding file_Put_def r_def [symmetric] Let_def keyPath_cases v None c1 c2 c3 c4
    using d1 d2 d3 d4 remove_temp_entries [OF d2(1), of r] remove_temp_entries [OF d3(1), of r] remove_temp_entries [OF d4(1), of r]
    by (auto simp: c2 c3 c4 split: if_splits)
qed (use put d in \<open>auto simp: file_Put_def\<close>)

lemma list_entries_spec:
  assumes "list_entries es = Inr ids" and "fst ` set es \<subseteq> Collect good_name" and "distinct (map fst es)"
  shows "set ids = {keyID. validateKeyID keyID = None \<and> key_name keyID \<in> fst ` set es} \<and> distinct ids"
  using assms
proof (induction es arbitrary: ids)
  case (Cons e es)
  obtain name f where e: "e = (name, f)" by fastforce
  show ?case
  proof (cases "has_suffix name keyFileSuffix")
    case False
    then have "name \<noteq> key_name keyID" for keyID using key_name_suffix [of keyID] by auto
    with Cons False e show ?thesis by auto
  next
    case True
    then obtain keyID where k: "validateKeyID keyID = None" "name = key_name keyID" using Cons.prems(2) e by (auto simp: good_name_def)
    then have raw: "b64_decode (take (length name - length keyFileSuffix) name) = Some keyID"
      by (simp add: key_name_def b64_roundtrip)
    with Cons.prems(1) e True k obtain ids' where ids': "list_entries es = Inr ids'" "ids = keyID # ids'"
      by (auto split: if_splits sum.splits)
    have IH: "set ids' = {keyID. validateKeyID keyID = None \<and> key_name keyID \<in> fst ` set es} \<and> distinct ids'"
      using Cons.IH [OF ids'(1)] Cons.prems e by auto
    moreover have "key_name keyID \<notin> fst ` set es" using Cons.prems(3) e k by auto
    ultimately show ?thesis using ids'(2) e k by (auto simp: key_name_inj)
  qed
qed simp

lemma dir_dom: "dom (dir_blobs d) = {keyID. validateKeyID keyID = None \<and> key_name keyID \<in> fst ` set (kd_entries d)}"
proof (rule set_eqI)
  fix keyID
  have "map_of (kd_entries d) (key_name keyID) = None \<longleftrightarrow> key_name keyID \<notin> fst ` set (kd_entries d)" by (rule map_of_eq_None_iff)
  then show "keyID \<in> dom (dir_blobs d) \<longleftrightarrow> keyID \<in> {keyID. validateKeyID keyID = None \<and> key_name keyID \<in> fst ` set (kd_entries d)}"
    by (cases "map_of (kd_entries d) (key_name keyID)") (simp_all add: dir_blobs_def dom_def)
qed

interpretation disk: blob_store file_backend dir_blobs dir_inv
proof unfold_locales
  fix d :: FileBackend and ids d'
  assume d: "dir_inv d" and l: "be_List file_backend d = (Inr ids, d')"
  obtain f1 d1 where c: "sys_call d = (f1, d1)" by fastforce
  from l have "list_entries (sort_key fst (kd_entries d)) = Inr ids"
    using sys_call_entries [OF c] by (auto simp: file_backend_def file_List_def c split: if_splits)
  from list_entries_spec [OF this] d
  have "set ids = {keyID. validateKeyID keyID = None \<and> key_name keyID \<in> fst ` set (kd_entries d)} \<and> distinct ids"
    by (simp add: dir_inv_def distinct_map)
  then show "distinct ids \<and> set ids = dom (dir_blobs d)"
    by (simp add: dir_dom)
next
  fix d :: FileBackend and rs d'
  assume "dir_inv d" "be_List file_backend d = (rs, d')"
  then show "dir_inv d' \<and> dir_blobs d' = dir_blobs d"
    using sys_call_keeps [of d] by (auto simp: file_backend_def file_List_def split: prod.splits)
next
  fix d :: FileBackend and keyID e d'
  assume "dir_inv d" "validateKeyID keyID = None" "be_Delete file_backend keyID d = (Some e, d')"
  then show "dir_inv d' \<and> dir_blobs d' = dir_blobs d"
    using sys_call_keeps [of d] by (auto simp: file_backend_def file_Delete_def keyPath_cases split: prod.splits if_splits)
next
  fix d :: FileBackend and keyID d'
  assume "dir_inv d" "validateKeyID keyID = None" "be_Delete file_backend keyID d = (None, d')"
  then show "dir_inv d' \<and> dir_blobs d' = (dir_blobs d)(keyID := None)"
    using sys_call_keeps [of d] drop_name_entries by (auto simp: file_backend_def file_Delete_def keyPath_cases split: prod.splits if_splits)
next
  fix d :: FileBackend and keyID x d'
  assume "dir_inv d" "validateKeyID keyID = None" "be_Put file_backend keyID x d = (None, d')"
  then show "dir_inv d' \<and> dir_blobs d' = (dir_blobs d)(keyID \<mapsto> x)"
    using file_Put_spec [of keyID x d None d'] by (simp add: file_backend_def)
next
  fix d :: FileBackend and keyID x e d'
  assume "dir_inv d" "validateKeyID keyID = None" "be_Put file_backend keyID x d = (Some e, d')"
  then show "dir_inv d' \<and> (dir_blobs d' = dir_blobs d \<or> dir_blobs d' = (dir_blobs d)(keyID \<mapsto> x))"
    using file_Put_spec [of keyID x d "Some e" d'] by (simp add: file_backend_def)
next
  fix d :: FileBackend and keyID r d'
  assume "dir_inv d" "be_Get file_backend keyID d = (r, d')"
  then show "dir_inv d' \<and> dir_blobs d' = dir_blobs d"
    using file_Get_spec(1) [of keyID d r d'] by (simp add: file_backend_def)
next
  fix d :: FileBackend and keyID x d'
  assume "be_Get file_backend keyID d = (Inr x, d')"
  then show "dir_blobs d keyID = Some x" using file_Get_spec(2) [of keyID d] by (simp add: file_backend_def)
next
  fix d :: FileBackend and keyID d'
  assume "validateKeyID keyID = None" "be_Get file_backend keyID d = (Inl ErrBackendNotFound, d')"
  then show "dir_blobs d keyID = None" using file_Get_spec(3) [of keyID d] by (simp add: file_backend_def)
qed (simp add: dir_blobs_def split: if_splits)

section \<open>Envelopes open again\<close>

lemma header_facts:
  "length envelope_header = envelopeHeaderSize" "envelope_header ! 8 = envelopeVersion"
  "byte_val (envelope_header ! 9) = gcmNonceSize" "has_prefix (envelope_header @ x) envelopeMagic"
  by (simp_all add: envelope_header_def envelopeMagic_def envelopeHeaderSize_def envelopeVersion_def gcmNonceSize_def byte_val_def has_prefix_def)

lemma sealed_shape:
  assumes "sealV2Blob G key rand keyID p = Inr blob"
  obtains nonce where "length nonce = gcmNonceSize" and "validateKeyID keyID = None"
    and "blob = envelope_header @ nonce @ gcm_Seal G key nonce p (envelopeAAD envelope_header keyID)"
  using assms by (auto simp: sealV2Blob_def Let_def split: option.splits)

lemma open_sealed:
  assumes "gcm_ok G" and "sealV2Blob G key rand keyID p = Inr blob"
  shows "openBlob G key minimum keyID blob = Inr p" and "has_prefix blob envelopeMagic"
proof -
  obtain nonce where n: "length nonce = gcmNonceSize"
    and blob: "blob = envelope_header @ nonce @ gcm_Seal G key nonce p (envelopeAAD envelope_header keyID)"
    using sealed_shape [OF assms(2)] by blast
  show pre: "has_prefix blob envelopeMagic" by (simp add: blob header_facts)
  have "length (gcm_Seal G key nonce p a) = length p + gcm_overhead" "gcm_Open G key nonce (gcm_Seal G key nonce p a) a = Some p" for a
    using assms(1) by (auto simp: gcm_ok_def)
  then show "openBlob G key minimum keyID blob = Inr p"
    using n header_facts pre by (simp add: openBlob_def openV2Envelope_def Let_def blob nth_append)
qed

text \<open>A blob that opens in the current format was sealed for exactly this identifier.\<close>

lemma opened_was_sealed:
  assumes "gcm_ok G" and "openBlob G key minimum keyID blob = Inr p" and "has_prefix blob envelopeMagic"
  shows "\<exists>nonce. length nonce = gcmNonceSize \<and>
           blob = take envelopeHeaderSize blob @ nonce @ gcm_Seal G key nonce p (envelopeAAD (take envelopeHeaderSize blob) keyID)"
proof -
  let ?h = "take envelopeHeaderSize blob" and ?n = "take gcmNonceSize (drop envelopeHeaderSize blob)"
  have o: "gcm_Open G key ?n (drop (envelopeHeaderSize + gcmNonceSize) blob) (envelopeAAD ?h keyID) = Some p"
    and l: "envelopeHeaderSize + gcmNonceSize \<le> length blob"
    using assms(2,3) by (auto simp: openBlob_def openV2Envelope_def Let_def split: if_splits option.splits)
  have "drop (envelopeHeaderSize + gcmNonceSize) blob = gcm_Seal G key ?n p (envelopeAAD ?h keyID)"
    using assms(1) o by (simp add: gcm_ok_def)
  moreover have "blob = ?h @ ?n @ drop (envelopeHeaderSize + gcmNonceSize) blob"
    by (metis append_take_drop_id drop_drop add.commute)
  ultimately show ?thesis using l by (intro exI [of _ ?n]) auto
qed

section \<open>The store over a backend\<close>

text \<open>A key is readable when its blob is within the size limit and opens.\<close>

definition readable :: "gcm \<Rightarrow> bytes \<Rightarrow> int \<Rightarrow> (string \<rightharpoonup> bytes) \<Rightarrow> string \<Rightarrow> bytes \<Rightarrow> bool" where
  "readable G key minimum B keyID p \<longleftrightarrow>
     (\<exists>blob. B keyID = Some blob \<and> validateEncryptedBlobSize blob = None \<and> openBlob G key minimum keyID blob = Inr p)"

context blob_store
begin

lemma GetKey_found:
  assumes "inv (ks_backend s)" and "GetKey G ops keyID s = (Inr sb, s')"
  obtains key where "ks_gcm s = Some key" and "\<not> ks_closed s" and "sb_held sb"
    and "readable G key (ks_minimum s) (blobs (ks_backend s)) keyID (sb_mem sb)"
  using assms get_found [OF assms(1), of keyID]
  by (auto simp: GetKey_def readable_def NewSecureBytes_def split: if_splits prod.splits sum.splits option.splits)

lemma StoreKey_done:
  assumes "gcm_ok G" and "inv (ks_backend s)" and "StoreKey G ops rand keyID p s = (None, z, s')"
  shows "inv (ks_backend s')" and "\<exists>key. ks_gcm s = Some key \<and> readable G key m (blobs (ks_backend s')) keyID p"
    and "ks_gcm s' = ks_gcm s" and "ks_minimum s' = ks_minimum s" and "ks_closed s' = ks_closed s"
    and "\<forall>other. other \<noteq> keyID \<longrightarrow> blobs (ks_backend s') other = blobs (ks_backend s) other"
proof -
  obtain key blob b where k: "ks_gcm s = Some key" "sealV2Blob G key rand keyID p = Inr blob" "validateEncryptedBlobSize blob = None"
      "be_Put ops keyID blob (ks_backend s) = (None, b)" "s' = s\<lparr>ks_backend := b\<rparr>" "validateKeyID keyID = None"
    using assms(3) by (auto simp: StoreKey_def Let_def split: if_splits prod.splits sum.splits option.splits)
  have b: "inv b" "blobs b = (blobs (ks_backend s))(keyID \<mapsto> blob)" using put_done [OF assms(2) k(6,4)] by auto
  then show "inv (ks_backend s')" "ks_gcm s' = ks_gcm s" "ks_minimum s' = ks_minimum s" "ks_closed s' = ks_closed s"
    "\<forall>other. other \<noteq> keyID \<longrightarrow> blobs (ks_backend s') other = blobs (ks_backend s) other" by (simp_all add: k(5))
  show "\<exists>key. ks_gcm s = Some key \<and> readable G key m (blobs (ks_backend s')) keyID p"
    using open_sealed(1) [OF assms(1) k(2)] b k by (auto simp: readable_def)
qed

lemma store_then_get:
  assumes "gcm_ok G" and "inv (ks_backend s)" and "StoreKey G ops rand keyID p s = (None, z, s1)"
    and "GetKey G ops keyID s1 = (Inr sb, s2)"
  shows "sb_Bytes sb = p"
proof -
  note d = StoreKey_done [OF assms(1-3)]
  obtain key where "ks_gcm s1 = Some key" "sb_held sb" "readable G key (ks_minimum s1) (blobs (ks_backend s1)) keyID (sb_mem sb)"
    using GetKey_found [OF d(1) assms(4)] by blast
  with d(2) [of "ks_minimum s1"] d(3) show ?thesis by (auto simp: readable_def sb_Bytes_def)
qed

lemma GetKey_readable:
  assumes "inv (ks_backend s)" and "\<not> ks_closed s" and "ks_gcm s = Some key" and "validateKeyID keyID = None"
    and "readable G key (ks_minimum s) (blobs (ks_backend s)) keyID p" and "be_Get ops keyID (ks_backend s) = (Inr blob, b)"
  shows "GetKey G ops keyID s = (Inr (NewSecureBytes p), s\<lparr>ks_backend := b\<rparr>)"
  using assms get_found [OF assms(1,6)] by (simp add: GetKey_def readable_def)

end

text \<open>A file just written can be read, if the system lets it.\<close>

lemma sys_calls_fails: "sys_calls n d = (failed, d') \<Longrightarrow> kd_fails d' = kd_fails d"
  by (induction n arbitrary: d) (auto simp: sys_call_def split: if_splits)

lemma remove_temp_facts: "kd_fails (remove_temp tmp d) = kd_fails d"
  "tmp \<noteq> name \<Longrightarrow> map_of (kd_entries (remove_temp tmp d)) name = map_of (kd_entries d) name"
  by (auto simp: remove_temp_def sys_call_def drop_entry_def delete_conv')

lemma file_Put_entry:
  assumes "file_Put keyID x d = (None, d')"
  shows "kd_fails d' = kd_fails d"
    "map_of (kd_entries d') (key_name keyID) = Some \<lparr>kf_kind = RegularFile, kf_directory = False, kf_perm = 384, kf_data = x\<rparr>"
  using assms sys_calls_fails sys_calls_entries
  by (auto simp: file_Put_def keyPath_cases Let_def remove_temp_facts temp_not_name sys_call_def set_entry_def drop_entry_def
      update_conv' delete_conv' split: if_splits prod.splits option.splits)

lemma file_Get_written:
  assumes "map_of (kd_entries d) (key_name keyID) = Some \<lparr>kf_kind = RegularFile, kf_directory = False, kf_perm = 384, kf_data = x\<rparr>"
    and "validateKeyID keyID = None" and "validateEncryptedBlobSize x = None" and "\<forall>n. \<not> kd_fails d n"
  shows "\<exists>d'. file_Get keyID d = (Inr x, d')"
  using assms by (simp add: file_Get_def keyPath_cases sys_call_def validateEncryptedBlobSize_def split: if_splits)

lemma StoreKey_written:
  assumes "gcm_ok G" and "dir_inv (ks_backend s)" and st: "StoreKey G file_backend rand keyID p s = (None, z, s1)"
    and ok: "\<forall>n. \<not> kd_fails (ks_backend s) n"
  shows "fst (GetKey G file_backend keyID s1) = Inr (NewSecureBytes p)"
proof -
  note d = disk.StoreKey_done [OF assms(1-3)]
  obtain key blob b where k: "\<not> ks_closed s" "ks_gcm s = Some key" "validateEncryptedBlobSize blob = None" "validateKeyID keyID = None"
      "file_Put keyID blob (ks_backend s) = (None, b)" "s1 = s\<lparr>ks_backend := b\<rparr>"
    using st by (auto simp: StoreKey_def file_backend_def Let_def split: if_splits prod.splits sum.splits option.splits)
  from d(2) [of "ks_minimum s1"] k(2)
  have r: "readable G key (ks_minimum s1) (dir_blobs (ks_backend s1)) keyID p" by simp
  have "\<exists>b'. file_Get keyID b = (Inr blob, b')"
    using file_Put_entry [OF k(5)] ok by (intro file_Get_written k) simp_all
  then obtain b' where "be_Get file_backend keyID (ks_backend s1) = (Inr blob, b')" by (auto simp: file_backend_def k(6))
  from disk.GetKey_readable [OF d(1) _ _ k(4) r this] show ?thesis using k d(3,5) by simp
qed

section \<open>Migration\<close>

text \<open>A backend that refuses blobs over the limit, as the one on disk does and the one in memory does not.\<close>

locale sized_store = blob_store +
  assumes put_sized: "inv b \<Longrightarrow> validateKeyID keyID = None \<Longrightarrow> be_Put ops keyID x b = (e, b') \<Longrightarrow>
    e = None \<or> blobs b' \<noteq> blobs b \<Longrightarrow> validateEncryptedBlobSize x = None"

interpretation disk: sized_store file_backend dir_blobs dir_inv
  by unfold_locales (auto simp: file_backend_def file_Put_def split: if_splits)

text \<open>What the first pass notes about a blob, and how a source may differ from the one it validated.\<close>

definition noted :: "gcm \<Rightarrow> (bytes \<Rightarrow> bytes) \<Rightarrow> bytes \<Rightarrow> int \<Rightarrow> (string \<rightharpoonup> bytes) \<Rightarrow> sourceMetadata \<Rightarrow> bool" where
  "noted G sha key minimum B item \<longleftrightarrow>
     (\<exists>blob. B (sm_keyID item) = Some blob \<and> sm_digest item = sha blob \<and> sm_legacy item = (\<not> has_prefix blob envelopeMagic) \<and>
             (\<exists>p. openBlob G key minimum (sm_keyID item) blob = Inr p))"

definition same_keys :: "gcm \<Rightarrow> bytes \<Rightarrow> int \<Rightarrow> (string \<rightharpoonup> bytes) \<Rightarrow> (string \<rightharpoonup> bytes) \<Rightarrow> bool" where
  "same_keys G key minimum B B' \<longleftrightarrow>
     (\<forall>keyID. B' keyID = B keyID \<or>
        (\<exists>p. readable G key minimum B' keyID p \<and> (\<exists>blob. B keyID = Some blob \<and> openBlob G key minimum keyID blob = Inr p) \<and>
             (\<exists>blob'. B' keyID = Some blob' \<and> has_prefix blob' envelopeMagic)))"

lemma same_keys_refl: "same_keys G key minimum B B"
  by (simp add: same_keys_def)

lemma same_keys_step:
  assumes "same_keys G key minimum B B'" and "B keyID = Some blob" and "openBlob G key minimum keyID blob = Inr p"
    and "validateEncryptedBlobSize x = None" and "openBlob G key minimum keyID x = Inr p" and "has_prefix x envelopeMagic"
  shows "same_keys G key minimum B (B'(keyID \<mapsto> x))"
  using assms by (auto simp: same_keys_def readable_def)

lemma same_keys_dom: "same_keys G key minimum B B' \<Longrightarrow> dom B' = dom B"
  by (auto simp: same_keys_def readable_def dom_def) (metis option.distinct(1) option.exhaust)+

lemma same_keys_readable:
  "same_keys G key minimum B B' \<Longrightarrow> readable G key minimum B keyID p \<Longrightarrow> readable G key minimum B' keyID p"
  by (auto simp: same_keys_def readable_def) (metis Inr_inject option.inject)

definition in_v2 :: "(string \<rightharpoonup> bytes) \<Rightarrow> string \<Rightarrow> bool" where
  "in_v2 B keyID \<longleftrightarrow> (case B keyID of Some blob \<Rightarrow> has_prefix blob envelopeMagic | None \<Rightarrow> False)"

lemma same_keys_in_v2: "same_keys G key minimum B B' \<Longrightarrow> in_v2 B keyID \<Longrightarrow> in_v2 B' keyID"
  by (auto simp: same_keys_def in_v2_def split: option.splits) (metis option.distinct(1) option.inject)+

text \<open>What a migration leaves: the report, the error, the source afterwards and the backup.\<close>

definition migration_ok ::
  "gcm \<Rightarrow> bytes \<Rightarrow> int \<Rightarrow> (string \<rightharpoonup> bytes) \<Rightarrow> MigrationReport \<Rightarrow> kms_error option \<Rightarrow> (string \<rightharpoonup> bytes) \<Rightarrow> (string \<rightharpoonup> bytes) \<Rightarrow> bool" where
  "migration_ok G key minimum B rep e B' C \<longleftrightarrow>
     same_keys G key minimum B B' \<and> (B' \<noteq> B \<longrightarrow> C = B) \<and>
     (e = None \<longrightarrow> C = B \<and> (\<forall>keyID \<in> dom B. in_v2 B' keyID) \<and> mr_Migrated rep = mr_Legacy rep \<and>
                  mr_Total rep = mr_Legacy rep + mr_V2 rep \<and> mr_Total rep = card (dom B))"

lemma migration_untouched: "e \<noteq> None \<Longrightarrow> migration_ok G key minimum B rep e B C"
  by (auto simp: migration_ok_def same_keys_refl)

lemma noted_legacy:
  assumes "noted G sha key minimum B item"
  obtains blob p where "B (sm_keyID item) = Some blob" and "openBlob G key minimum (sm_keyID item) blob = Inr p"
    and "sm_legacy item \<Longrightarrow> openLegacyBlob G key blob = Inr p" and "\<not> sm_legacy item \<Longrightarrow> in_v2 B (sm_keyID item)"
proof -
  obtain blob p where "B (sm_keyID item) = Some blob" "openBlob G key minimum (sm_keyID item) blob = Inr p"
      "sm_legacy item = (\<not> has_prefix blob envelopeMagic)" using assms by (auto simp: noted_def)
  then show thesis by (intro that [of blob p]) (auto simp: in_v2_def openBlob_def split: if_splits)
qed

locale migration = source: sized_store ops blobs inv + backup: blob_store bops bblobs binv
  for ops :: "'b Backend" and blobs inv and bops :: "'c Backend" and bblobs binv
begin

lemma check_blob_spec:
  assumes "inv b" and "check_blob G ops key minimum ended keyID b = (r, b')"
  shows "inv b' \<and> blobs b' = blobs b" and "r = Inr blob \<Longrightarrow> blobs b keyID = Some blob \<and> (\<exists>p. openBlob G key minimum keyID blob = Inr p)"
  using assms source.get_frame [OF assms(1), of keyID] source.get_found [OF assms(1), of keyID]
  by (auto simp: check_blob_def split: if_splits prod.splits sum.splits option.splits)

lemma validate_pass_spec:
  assumes "inv b" and "validate_pass G sha ops key minimum ended ids rep b = (r, rep', b')"
  shows "inv b' \<and> blobs b' = blobs b"
    and "r = Inr items \<Longrightarrow> map sm_keyID items = ids \<and> list_all (noted G sha key minimum (blobs b)) items \<and>
      mr_Legacy rep' = mr_Legacy rep + length (filter sm_legacy items) \<and>
      mr_Legacy rep' + mr_V2 rep' = mr_Legacy rep + mr_V2 rep + length ids \<and>
      mr_Total rep' = mr_Total rep \<and> mr_Migrated rep' = mr_Migrated rep"
proof (atomize (full), use assms in \<open>induction ids arbitrary: rep b r items rep' b'\<close>)
  case (Cons keyID ids)
  obtain r1 b1 where c: "check_blob G ops key minimum ended keyID b = (r1, b1)" by fastforce
  note s = check_blob_spec [OF Cons.prems(1) c]
  show ?case
  proof (cases r1)
    case (Inl e)
    with Cons.prems s(1) c show ?thesis by auto
  next
    case (Inr blob)
    obtain r2 rep2 b2 where v: "validate_pass G sha ops key minimum ended ids (count_format blob rep) b1 = (r2, rep2, b2)"
      by (metis prod_cases3)
    note IH = Cons.IH [OF _ v]
    show ?thesis
      using IH s(1) s(2) [OF Inr] Cons.prems c v Inr
      by (cases r2) (force simp: count_format_def noted_def)+
  qed
qed auto

lemma read_source_spec:
  assumes "inv b" and "read_checked sha mismatch ops item b = (r, b')"
  shows "inv b' \<and> blobs b' = blobs b" and "r = Inr blob \<Longrightarrow> blobs b (sm_keyID item) = Some blob"
  using assms source.get_frame [OF assms(1), of "sm_keyID item"] source.get_found [OF assms(1), of "sm_keyID item"]
  by (auto simp: read_checked_def split: if_splits prod.splits sum.splits option.splits)

lemma read_backup_spec:
  assumes "binv c" and "read_checked sha mismatch bops item c = (r, c')"
  shows "binv c' \<and> bblobs c' = bblobs c" and "r = Inr blob \<Longrightarrow> bblobs c (sm_keyID item) = Some blob"
  using assms backup.get_frame [OF assms(1), of "sm_keyID item"] backup.get_found [OF assms(1), of "sm_keyID item"]
  by (auto simp: read_checked_def split: if_splits prod.splits sum.splits option.splits)

lemma backup_pass_spec:
  assumes "inv b" and "binv c" and "backup_pass sha ops bops items b c = (e, b', c')"
  shows "inv b' \<and> blobs b' = blobs b \<and> binv c' \<and>
    (e = None \<longrightarrow> bblobs c' = (\<lambda>keyID. if keyID \<in> sm_keyID ` set items then blobs b keyID else bblobs c keyID))"
  using assms
proof (induction items arbitrary: b c)
  case (Cons item items)
  obtain r b1 where c: "read_checked sha SourceChanged ops item b = (r, b1)" by fastforce
  note s = read_source_spec [OF Cons.prems(1) c]
  show ?case
  proof (cases r)
    case (Inl x)
    with Cons.prems s(1) c show ?thesis by auto
  next
    case (Inr blob)
    then have B: "blobs b (sm_keyID item) = Some blob" by (rule s(2))
    have v: "validateKeyID (sm_keyID item) = None" using source.names_valid [OF Cons.prems(1) B] .
    obtain e1 c1 where p: "be_Put bops (sm_keyID item) blob c = (e1, c1)" by fastforce
    show ?thesis
    proof (cases e1)
      case (Some x)
      with backup.put_failed [OF Cons.prems(2) v] p Inr c s(1) Cons.prems(3) show ?thesis by auto
    next
      case None
      with backup.put_done [OF Cons.prems(2) v] p have c1: "binv c1" "bblobs c1 = (bblobs c)(sm_keyID item \<mapsto> blob)" by auto
      have "backup_pass sha ops bops items b1 c1 = (e, b', c')" using Cons.prems(3) c Inr p None by simp
      from Cons.IH [OF _ c1(1) this] s(1) c1(2) B show ?thesis by (auto simp: fun_eq_iff)
    qed
  qed
qed (simp add: fun_eq_iff)

lemma rewrite_put:
  assumes "gcm_ok G" and "inv b" and "same_keys G key minimum B (blobs b)" and "B (sm_keyID item) = Some blob"
    and "openBlob G key minimum (sm_keyID item) blob = Inr p" and seal: "sealV2Blob G key rand (sm_keyID item) p = Inr x"
    and p: "be_Put ops (sm_keyID item) x b = (e, b')"
  shows "inv b' \<and> same_keys G key minimum B (blobs b') \<and>
    (blobs b' = blobs b \<and> e \<noteq> None \<or> blobs b' = (blobs b)(sm_keyID item \<mapsto> x) \<and> has_prefix x envelopeMagic)"
proof -
  have v: "validateKeyID (sm_keyID item) = None" using seal by (auto simp: sealV2Blob_def split: option.splits)
  note o = open_sealed [OF assms(1) seal]
  have b': "inv b'" "blobs b' = blobs b \<and> e \<noteq> None \<or> blobs b' = (blobs b)(sm_keyID item \<mapsto> x) \<and> (e = None \<or> blobs b' \<noteq> blobs b)"
    using source.put_done [OF assms(2) v, of x b'] source.put_failed [OF assms(2) v, of x _ b'] p by (cases e; auto)+
  show ?thesis
    using b' o same_keys_step [OF assms(3,4,5) source.put_sized [OF assms(2) v p] o(1,2)] assms(3) by auto
qed

definition rewritten :: "gcm \<Rightarrow> bytes \<Rightarrow> int \<Rightarrow> (string \<rightharpoonup> bytes) \<Rightarrow> 'b \<Rightarrow> 'b \<Rightarrow> bool" where
  "rewritten G key minimum B b b' \<longleftrightarrow>
     inv b' \<and> same_keys G key minimum B (blobs b') \<and> (\<forall>keyID. in_v2 (blobs b) keyID \<longrightarrow> in_v2 (blobs b') keyID)"

lemma rewritten_trans: "rewritten G key minimum B b b1 \<Longrightarrow> rewritten G key minimum B b1 b2 \<Longrightarrow> rewritten G key minimum B b b2"
  by (simp add: rewritten_def)

lemma rewrite_step:
  assumes "gcm_ok G" and "inv b" and "same_keys G key minimum B (blobs b)" and "B (sm_keyID item) = Some blob"
    and "openBlob G key minimum (sm_keyID item) blob = Inr p" and "sealV2Blob G key rand (sm_keyID item) p = Inr x"
    and "be_Put ops (sm_keyID item) x b = (e, b')"
  shows "rewritten G key minimum B b b'" and "e = None \<Longrightarrow> in_v2 (blobs b') (sm_keyID item)"
  using rewrite_put [OF assms] by (auto simp: rewritten_def in_v2_def)

lemma rewrite_pass_spec:
  assumes "gcm_ok G" and "inv b" and "binv c" and "list_all (noted G sha key minimum B) items"
    and "list_all (\<lambda>item. bblobs c (sm_keyID item) = B (sm_keyID item)) items" and "same_keys G key minimum B (blobs b)"
    and "rewrite_pass G sha ops bops key rand items rep b c = (e, rep', b', c')"
  shows "rewritten G key minimum B b b' \<and> binv c' \<and> bblobs c' = bblobs c \<and>
    mr_Legacy rep' = mr_Legacy rep \<and> mr_V2 rep' = mr_V2 rep \<and> mr_Total rep' = mr_Total rep \<and>
    (e = None \<longrightarrow> mr_Migrated rep' = mr_Migrated rep + length (filter sm_legacy items) \<and>
                 list_all (in_v2 (blobs b')) (map sm_keyID items))"
  using assms(2-)
proof (induction items arbitrary: rep b c)
  case (Cons item items)
  obtain blob p where n: "B (sm_keyID item) = Some blob" "openBlob G key minimum (sm_keyID item) blob = Inr p"
      "sm_legacy item \<Longrightarrow> openLegacyBlob G key blob = Inr p" "\<not> sm_legacy item \<Longrightarrow> in_v2 B (sm_keyID item)"
    using noted_legacy [of G sha key minimum B item] Cons.prems(3) by auto
  note IH = Cons.IH [OF _ _ _ _ _]
  show ?case
  proof (cases "sm_legacy item")
    case False
    have "rewritten G key minimum B b b' \<Longrightarrow> in_v2 (blobs b') (sm_keyID item)"
      using same_keys_in_v2 n(4) [OF False] by (auto simp: rewritten_def)
    with IH [of b c rep] Cons.prems False show ?thesis by auto
  next
    case True
    obtain r c1 where r: "read_checked sha BackupMismatch bops item c = (r, c1)" by fastforce
    note c1 = read_backup_spec [OF Cons.prems(2) r]
    have stay: "rewritten G key minimum B b b" using Cons.prems by (simp add: rewritten_def)
    show ?thesis
    proof (cases "\<exists>x. r = Inr blob \<and> sealV2Blob G key (rand (sm_keyID item)) (sm_keyID item) p = Inr x")
      case False
      with Cons.prems(4,6) True r c1 n(1) n(3) [OF True] stay show ?thesis by (cases r) (auto split: sum.splits)
    next
      case seal: True
      then obtain x where x: "r = Inr blob" "sealV2Blob G key (rand (sm_keyID item)) (sm_keyID item) p = Inr x" by blast
      obtain e1 b1 where put: "be_Put ops (sm_keyID item) x b = (e1, b1)" by fastforce
      note s = rewrite_step [OF assms(1) Cons.prems(1,5) n(1,2) x(2) put]
      show ?thesis
      proof (cases e1)
        case (Some y)
        with Cons.prems(6) True r c1(1) x n(3) [OF True] put s show ?thesis by auto
      next
        case None
        have b1: "inv b1" "same_keys G key minimum B (blobs b1)" using s(1) by (auto simp: rewritten_def)
        have rest: "rewrite_pass G sha ops bops key rand items (rep\<lparr>mr_Migrated := Suc (mr_Migrated rep)\<rparr>) b1 c1 = (e, rep', b', c')"
          using Cons.prems(6) True r x n(3) [OF True] put None by simp
        have "rewritten G key minimum B b1 b' \<Longrightarrow> in_v2 (blobs b') (sm_keyID item)"
          using s(2) [OF None] by (simp add: rewritten_def)
        with Cons.IH [OF b1(1) _ _ _ b1(2) rest] c1(1) Cons.prems(3,4) True rewritten_trans [OF s(1)] show ?thesis by auto
      qed
    qed
  qed
qed (simp add: rewritten_def)

lemma migrate_passes:
  assumes G: "gcm_ok G" and b: "inv b" and c: "binv c" and ids: "distinct ids" "set ids = dom (blobs b)" and none: "bblobs c = Map.empty"
    and v: "validate_pass G sha ops key minimum ended (sort ids) (empty_report\<lparr>mr_Total := length ids\<rparr>) b = (Inr items, rep, b1)"
    and k: "backup_pass sha ops bops items b1 c = (None, b2, c2)"
    and w: "rewrite_pass G sha ops bops key rand items rep b2 c2 = (e, rep', b3, c3)"
  shows "migration_ok G key minimum (blobs b) rep' e (blobs b3) (bblobs c3)"
proof -
  note vs = validate_pass_spec(1) [OF b v] validate_pass_spec(2) [OF b v refl]
  have names: "sm_keyID ` set items = dom (blobs b)" using vs(2) ids by (metis list.set_map set_sort)
  have ks: "inv b2" "blobs b2 = blobs b" "binv c2" "bblobs c2 = blobs b"
    using backup_pass_spec [OF _ c k] vs(1) names none by (auto simp: fun_eq_iff dom_def)
  have ws: "rewritten G key minimum (blobs b) b2 b3 \<and> binv c3 \<and> bblobs c3 = bblobs c2 \<and>
      mr_Legacy rep' = mr_Legacy rep \<and> mr_V2 rep' = mr_V2 rep \<and> mr_Total rep' = mr_Total rep \<and>
      (e = None \<longrightarrow> mr_Migrated rep' = mr_Migrated rep + length (filter sm_legacy items) \<and> list_all (in_v2 (blobs b3)) (map sm_keyID items))"
    by (rule rewrite_pass_spec [OF G ks(1,3) _ _ _ w]) (use vs(2) ks in \<open>auto simp: same_keys_refl list_all_iff\<close>)
  have "list_all (in_v2 (blobs b3)) (map sm_keyID items) \<Longrightarrow> \<forall>keyID \<in> dom (blobs b). in_v2 (blobs b3) keyID"
    using names by (auto simp: list_all_iff)
  moreover have "length ids = card (dom (blobs b))" using ids distinct_card by metis
  ultimately show ?thesis using ws ks vs(2) by (simp add: migration_ok_def rewritten_def empty_report_def)
qed

lemma migrate_spec:
  assumes G: "gcm_ok G" and b: "inv (ks_backend s)" and c: "binv c" and key: "ks_gcm s = Some key"
    and m: "MigrateLegacy G sha ops bops rand ended s (Some c) = (rep, e, s', Some c')"
  shows "migration_ok G key (ks_minimum s) (blobs (ks_backend s)) rep e (blobs (ks_backend s')) (bblobs c')"
proof (cases "\<exists>c0 ids b0. \<not> ks_closed s \<and> be_List bops c = (Inr [], c0) \<and> be_List ops (ks_backend s) = (Inr ids, b0)")
  case False
  have "e \<noteq> None \<and> blobs (ks_backend s') = blobs (ks_backend s)"
    using False m key source.list_frame [OF b] by (auto simp: MigrateLegacy_def split: if_splits prod.splits sum.splits)
  then show ?thesis by (simp add: migration_untouched)
next
  case True
  then obtain c0 ids b0 where l: "\<not> ks_closed s" "be_List bops c = (Inr [], c0)" "be_List ops (ks_backend s) = (Inr ids, b0)" by blast
  have c0: "binv c0" "bblobs c0 = Map.empty" using backup.list_frame [OF c l(2)] backup.list_found [OF c l(2)] by auto
  have b0: "inv b0" "blobs b0 = blobs (ks_backend s)" "distinct ids" "set ids = dom (blobs b0)"
    using source.list_frame [OF b l(3)] source.list_found [OF b l(3)] by auto
  obtain r rep1 b1 where v: "validate_pass G sha ops key (ks_minimum s) ended (sort ids) (empty_report\<lparr>mr_Total := length ids\<rparr>) b0 = (r, rep1, b1)"
    by (metis prod_cases3)
  note vs = validate_pass_spec(1) [OF b0(1) v]
  show ?thesis
  proof (cases r)
    case (Inl x)
    with m l key v vs b0 show ?thesis by (auto simp: MigrateLegacy_def migration_untouched)
  next
    case (Inr items)
    obtain e2 b2 c2 where k: "backup_pass sha ops bops items b1 c0 = (e2, b2, c2)" by (metis prod_cases3)
    have ks: "blobs b2 = blobs (ks_backend s)" using backup_pass_spec [OF _ c0(1) k] vs b0 by auto
    obtain e3 rep3 b3 c3 where w: "rewrite_pass G sha ops bops key rand items rep1 b2 c2 = (e3, rep3, b3, c3)" by (metis prod_cases4)
    show ?thesis
    proof (cases e2)
      case None
      from migrate_passes [OF G b0(1) c0(1) b0(3,4) c0(2) v [unfolded Inr] k [unfolded None] w]
      show ?thesis using m l key v Inr k None w b0(2) by (auto simp: MigrateLegacy_def)
    qed (use m l key v Inr k ks in \<open>auto simp: MigrateLegacy_def migration_untouched\<close>)
  qed
qed

end

interpretation file_migration: migration file_backend dir_blobs dir_inv file_backend dir_blobs dir_inv
  by unfold_locales

section \<open>A sample store\<close>

definition sample_gcm :: gcm where
  "sample_gcm = \<lparr>gcm_Seal = (\<lambda>k n p a. p @ ''sixteen byte tag''),
     gcm_Open = (\<lambda>k n c a. if 16 \<le> length c \<and> drop (length c - 16) c = ''sixteen byte tag'' then Some (take (length c - 16) c) else None)\<rparr>"

lemma sample_gcm_ok: "gcm_ok sample_gcm"
proof -
  have "c = take (length c - 16) c @ ''sixteen byte tag''" if "drop (length c - 16) c = ''sixteen byte tag''" for c :: bytes
    using that by (metis append_take_drop_id)
  then show ?thesis by (auto simp: gcm_ok_def sample_gcm_def gcm_overhead_def split: if_splits)
qed

definition sample_master :: bytes where "sample_master = replicate 32 (CHR 0x07)"

definition sample_file :: "bytes \<Rightarrow> key_file" where
  "sample_file x = \<lparr>kf_kind = RegularFile, kf_directory = False, kf_perm = 384, kf_data = x\<rparr>"

definition sample_dir :: "(string \<times> bytes) list \<Rightarrow> FileBackend" where
  "sample_dir ks = \<lparr>kd_entries = map (\<lambda>(keyID, x). (key_name keyID, sample_file x)) ks, kd_calls = 0, kd_fails = (\<lambda>n. False), kd_temp = (\<lambda>n. ''x'')\<rparr>"

definition sample_store :: "(string \<times> bytes) list \<Rightarrow> FileBackend Store" where
  "sample_store ks = \<lparr>ks_masterKey = sample_master, ks_gcm = Some sample_master, ks_backend = sample_dir ks, ks_minimum = 1, ks_closed = False\<rparr>"

definition sample_legacy :: "bytes \<Rightarrow> bytes" where
  "sample_legacy p = ''twelve bytes'' @ gcm_Seal sample_gcm sample_master ''twelve bytes'' p []"

lemma sample_dir_inv: "list_all (\<lambda>k. validateKeyID k = None) (map fst ks) \<Longrightarrow> distinct (map fst ks) \<Longrightarrow> dir_inv (sample_dir ks)"
  by (induction ks) (auto simp: dir_inv_def sample_dir_def good_names key_name_inj image_iff)

lemmas sample_simps = sample_store_def sample_dir_def sample_file_def sample_gcm_def sample_legacy_def gcm_overhead_def
lemma sys_calls_ok: "(\<And>n. \<not> kd_fails d n) \<Longrightarrow> sys_calls m d = (False, d\<lparr>kd_calls := kd_calls d + m\<rparr>)"
  by (induction m arbitrary: d) (simp_all add: sys_call_def)

lemmas store_simps = file_backend_def file_Put_def file_Get_def file_Delete_def keyPath_cases Let_def sys_call_def sys_calls_ok
   set_entry_def drop_entry_def remove_temp_def key_name_inj temp_not_name

lemma sample_id: "validateKeyID ''k'' = None" by (simp add: validateKeyID_def MaxKeyIDBytes_def)

lemmas envelope_simps = sealV2Blob_def openBlob_def openLegacyBlob_def envelopeAAD_def envelope_header_def validateEncryptedBlobSize_def
  maxEncryptedKeyBlobBytes_def gcmNonceSize_def envelopeMagic_def has_prefix_def

lemma sample_lists:
  "kd_entries d = [] \<Longrightarrow> \<not> kd_fails d (kd_calls d) \<Longrightarrow> file_List d = (Inr [], d\<lparr>kd_calls := Suc (kd_calls d)\<rparr>)"
  "kd_entries d = [(key_name keyID, f)] \<Longrightarrow> \<not> kf_directory f \<Longrightarrow> validateKeyID keyID = None \<Longrightarrow> \<not> kd_fails d (kd_calls d)
     \<Longrightarrow> file_List d = (Inr [keyID], d\<lparr>kd_calls := Suc (kd_calls d)\<rparr>)"
proof -
  show "kd_entries d = [(key_name keyID, f)] \<Longrightarrow> \<not> kf_directory f \<Longrightarrow> validateKeyID keyID = None \<Longrightarrow> \<not> kd_fails d (kd_calls d)
     \<Longrightarrow> file_List d = (Inr [keyID], d\<lparr>kd_calls := Suc (kd_calls d)\<rparr>)"
    using key_name_suffix [of keyID] by (simp add: file_List_def sys_call_def key_name_def b64_roundtrip)
qed (simp add: file_List_def sys_call_def)

lemma sample_migrated:
  "\<exists>rep s c. MigrateLegacy sample_gcm (\<lambda>x. x) file_backend file_backend (\<lambda>k. Some (\<lambda>n. CHR 0x02)) (\<lambda>k. False)
     (sample_store [(''k'', sample_legacy ''secret'')]) (Some (sample_dir [])) = (rep, None, s, Some c)"
  by (simp add: MigrateLegacy_def check_blob_def read_checked_def sample_lists envelope_simps sample_id sample_simps store_simps)

section \<open>Properties\<close>

lemma current_header:
  assumes "openV2Envelope G key keyID blob = Inr p" and "has_prefix blob envelopeMagic"
  shows "take envelopeHeaderSize blob = envelope_header"
proof -
  have l: "10 \<le> length blob" and v: "blob ! 8 = envelopeVersion" and n: "byte_val (blob ! 9) = 12"
    using assms(1) by (auto simp: openV2Envelope_def Let_def envelopeHeaderSize_def gcmNonceSize_def split: if_splits)
  from n have "blob ! 9 = char_of (12 :: nat)" by (metis byte_val_def char_of_char)
  moreover have "take 10 blob = take 8 blob @ [blob ! 8, blob ! 9]"
    using l by (simp add: numeral_eq_Suc take_Suc_conv_app_nth)
  moreover have "take 8 blob = envelopeMagic"
    using assms(2) by (simp add: has_prefix_def envelopeMagic_def numeral_eq_Suc)
  ultimately show ?thesis using v by (simp add: envelope_header_def envelopeHeaderSize_def gcmNonceSize_def)
qed

text \<open>
  C31. A key stored in a directory comes back: the caller's plaintext is zeroed, a later read returns
  exactly the stored bytes or fails, it does return them when no call to the system fails, and no other
  key changed.
\<close>

theorem stored_key_comes_back:
  assumes "gcm_ok G" and "dir_inv (ks_backend s)" and "StoreKey G file_backend rand keyID p s = (None, z, s1)"
  shows "z = replicate (length p) (CHR 0x00) \<and>
    (fst (GetKey G file_backend keyID s1) = Inr sb \<longrightarrow> sb_Bytes sb = p) \<and>
    ((\<forall>n. \<not> kd_fails (ks_backend s) n) \<longrightarrow> fst (GetKey G file_backend keyID s1) = Inr (NewSecureBytes p)) \<and>
    (other \<noteq> keyID \<longrightarrow> dir_blobs (ks_backend s1) other = dir_blobs (ks_backend s) other)"
proof (intro conjI impI)
  show "z = replicate (length p) (CHR 0x00)"
    using assms(3) by (auto simp: StoreKey_def MemZero_def Let_def split: if_splits option.splits sum.splits prod.splits)
  show "sb_Bytes sb = p" if "fst (GetKey G file_backend keyID s1) = Inr sb"
    using disk.store_then_get [OF assms, of sb "snd (GetKey G file_backend keyID s1)"] that by (metis prod.collapse)
  show "fst (GetKey G file_backend keyID s1) = Inr (NewSecureBytes p)" if "\<forall>n. \<not> kd_fails (ks_backend s) n"
    using StoreKey_written [OF assms that] .
  show "dir_blobs (ks_backend s1) other = dir_blobs (ks_backend s) other" if "other \<noteq> keyID"
    using disk.StoreKey_done(6) [OF assms] that by blast
qed

lemma sample_stored: "\<exists>z s1. StoreKey sample_gcm file_backend (Some (\<lambda>n. CHR 0x02)) ''k'' ''secret'' (sample_store []) = (None, z, s1)"
  by (simp add: StoreKey_def envelope_simps sample_id sample_simps store_simps)

theorem stored_key_comes_back_witness:
  "\<exists>z s1. StoreKey sample_gcm file_backend (Some (\<lambda>n. CHR 0x02)) ''k'' ''secret'' (sample_store []) = (None, z, s1) \<and>
     fst (GetKey sample_gcm file_backend ''k'' s1) = Inr (NewSecureBytes ''secret'')"
proof -
  obtain z s1 where s: "StoreKey sample_gcm file_backend (Some (\<lambda>n. CHR 0x02)) ''k'' ''secret'' (sample_store []) = (None, z, s1)"
    using sample_stored by blast
  have "dir_inv (ks_backend (sample_store []))" "\<forall>n. \<not> kd_fails (ks_backend (sample_store [])) n"
    by (simp_all add: sample_store_def sample_dir_inv) (simp add: sample_dir_def)
  with stored_key_comes_back [OF sample_gcm_ok _ s] s show ?thesis by blast
qed

text \<open>
  C15. A key is only ever handed out as what was sealed for it: the blob read is the envelope of exactly
  these bytes under the master key, with the identifier asked for in the authenticated data, or, while
  the store still admits the old format, a blob sealed without authenticated data.
\<close>

theorem opened_key_was_sealed:
  assumes "gcm_ok G" and "dir_inv (ks_backend s)" and "GetKey G file_backend keyID s = (Inr sb, s')"
  shows "\<exists>key blob nonce. ks_gcm s = Some key \<and> dir_blobs (ks_backend s) keyID = Some blob \<and> length nonce = gcmNonceSize \<and>
    (blob = envelope_header @ nonce @ gcm_Seal G key nonce (sb_Bytes sb) (envelopeAAD envelope_header keyID) \<or>
     ks_minimum s < 2 \<and> blob = nonce @ gcm_Seal G key nonce (sb_Bytes sb) [])"
proof -
  obtain key where k: "ks_gcm s = Some key" "sb_held sb" "readable G key (ks_minimum s) (dir_blobs (ks_backend s)) keyID (sb_mem sb)"
    using disk.GetKey_found [OF assms(2,3)] by metis
  then obtain blob where b: "dir_blobs (ks_backend s) keyID = Some blob" "openBlob G key (ks_minimum s) keyID blob = Inr (sb_Bytes sb)"
    by (auto simp: readable_def sb_Bytes_def)
  show ?thesis
  proof (cases "has_prefix blob envelopeMagic")
    case True
    then have "take envelopeHeaderSize blob = envelope_header" using current_header b(2) by (simp add: openBlob_def)
    with opened_was_sealed [OF assms(1) b(2) True] k b show ?thesis by metis
  next
    case False
    then have l: "ks_minimum s < 2" "gcmNonceSize \<le> length blob"
        "gcm_Open G key (take gcmNonceSize blob) (drop gcmNonceSize blob) [] = Some (sb_Bytes sb)"
      using b(2) by (auto simp: openBlob_def openLegacyBlob_def split: if_splits option.splits)
    then have "drop gcmNonceSize blob = gcm_Seal G key (take gcmNonceSize blob) (sb_Bytes sb) []" using assms(1) by (simp add: gcm_ok_def)
    with l have "blob = take gcmNonceSize blob @ gcm_Seal G key (take gcmNonceSize blob) (sb_Bytes sb) []" "length (take gcmNonceSize blob) = gcmNonceSize"
      by (metis append_take_drop_id) (use l in simp)
    with k b l show ?thesis by blast
  qed
qed

theorem opened_key_was_sealed_witness:
  "\<exists>z s1 sb s2. StoreKey sample_gcm file_backend (Some (\<lambda>n. CHR 0x02)) ''k'' ''secret'' (sample_store []) = (None, z, s1) \<and>
     GetKey sample_gcm file_backend ''k'' s1 = (Inr sb, s2) \<and>
     (\<exists>blob nonce. dir_blobs (ks_backend s1) ''k'' = Some blob \<and> length nonce = gcmNonceSize \<and>
        (blob = envelope_header @ nonce @ gcm_Seal sample_gcm sample_master nonce (sb_Bytes sb) (envelopeAAD envelope_header ''k'') \<or>
         ks_minimum s1 < 2 \<and> blob = nonce @ gcm_Seal sample_gcm sample_master nonce (sb_Bytes sb) []))"
proof -
  obtain z s1 where s: "StoreKey sample_gcm file_backend (Some (\<lambda>n. CHR 0x02)) ''k'' ''secret'' (sample_store []) = (None, z, s1)"
    using sample_stored by blast
  have d: "dir_inv (ks_backend (sample_store []))" "\<forall>n. \<not> kd_fails (ks_backend (sample_store [])) n"
    by (simp_all add: sample_store_def sample_dir_inv) (simp add: sample_dir_def)
  obtain s2 where g: "GetKey sample_gcm file_backend ''k'' s1 = (Inr (NewSecureBytes ''secret''), s2)"
    using StoreKey_written [OF sample_gcm_ok d(1) s d(2)] by (metis prod.collapse)
  have "ks_gcm s1 = Some sample_master" using disk.StoreKey_done(3) [OF sample_gcm_ok d(1) s] by (simp add: sample_store_def)
  with opened_key_was_sealed [OF sample_gcm_ok disk.StoreKey_done(1) [OF sample_gcm_ok d(1) s] g] s g show ?thesis by auto
qed

text \<open>
  C7. Migration never loses a key. Whatever happens on the way, an input error, a cancelled context, a
  failing write, every key that could be read can be read afterwards with the same bytes, no key appears
  or disappears, and as soon as one blob of the source differs the backup holds the whole original
  source. When it ends without an error, every blob has the current format, the backup is the original
  source, and the report counts exactly what was done.
\<close>

theorem migration_keeps_keys:
  assumes "gcm_ok G" and "dir_inv (ks_backend s)" and "dir_inv c" and "ks_gcm s = Some key"
    and "MigrateLegacy G sha file_backend file_backend rand ended s (Some c) = (rep, e, s', Some c')"
  shows "(readable G key (ks_minimum s) (dir_blobs (ks_backend s)) keyID p \<longrightarrow> readable G key (ks_minimum s) (dir_blobs (ks_backend s')) keyID p) \<and>
    dom (dir_blobs (ks_backend s')) = dom (dir_blobs (ks_backend s)) \<and>
    (dir_blobs (ks_backend s') \<noteq> dir_blobs (ks_backend s) \<longrightarrow> dir_blobs c' = dir_blobs (ks_backend s)) \<and>
    (e = None \<longrightarrow>
       dir_blobs c' = dir_blobs (ks_backend s) \<and> (\<forall>k \<in> dom (dir_blobs (ks_backend s)). in_v2 (dir_blobs (ks_backend s')) k) \<and>
       mr_Migrated rep = mr_Legacy rep \<and> mr_Total rep = mr_Legacy rep + mr_V2 rep \<and> mr_Total rep = card (dom (dir_blobs (ks_backend s))))"
  using file_migration.migrate_spec [OF assms] same_keys_readable same_keys_dom unfolding migration_ok_def by metis

theorem migration_keeps_keys_witness:
  "\<exists>rep s' c'. MigrateLegacy sample_gcm (\<lambda>x. x) file_backend file_backend (\<lambda>k. Some (\<lambda>n. CHR 0x02)) (\<lambda>k. False)
     (sample_store [(''k'', sample_legacy ''secret'')]) (Some (sample_dir [])) = (rep, None, s', Some c') \<and>
     in_v2 (dir_blobs (ks_backend s')) ''k'' \<and> readable sample_gcm sample_master 1 (dir_blobs (ks_backend s')) ''k'' ''secret''"
proof -
  let ?s = "sample_store [(''k'', sample_legacy ''secret'')]"
  obtain rep s' c' where m: "MigrateLegacy sample_gcm (\<lambda>x. x) file_backend file_backend (\<lambda>k. Some (\<lambda>n. CHR 0x02)) (\<lambda>k. False)
     ?s (Some (sample_dir [])) = (rep, None, s', Some c')" using sample_migrated by blast
  have d: "dir_inv (ks_backend ?s)" "dir_inv (sample_dir [])" "ks_gcm ?s = Some sample_master"
    by (simp_all add: sample_store_def sample_dir_inv sample_id)
  have "readable sample_gcm sample_master (ks_minimum ?s) (dir_blobs (ks_backend ?s)) ''k'' ''secret''"
    by (simp add: readable_def dir_blobs_def sample_id sample_simps envelope_simps)
  moreover from this have "''k'' \<in> dom (dir_blobs (ks_backend ?s))" by (auto simp: readable_def)
  ultimately show ?thesis using migration_keeps_keys [OF sample_gcm_ok d m] m by (simp add: sample_store_def)
qed

text \<open>
  C40. Rotation does not hold the lock between reading and writing: if another caller deletes the key in
  between, successfully, the rotation still succeeds and the deleted key is readable again.
\<close>

theorem rotation_restores_deleted_key:
  assumes "gcm_ok G" and "dir_inv (ks_backend s)" and "GetKey G file_backend keyID s = (Inr sb, s1)"
    and "DeleteKey file_backend keyID s1 = (None, s2)"
    and "RotateKey G file_backend rand (\<lambda>s. snd (DeleteKey file_backend keyID s)) keyID s = (None, s3)"
  shows "dir_blobs (ks_backend s2) keyID = None \<and>
    (\<exists>key. ks_gcm s = Some key \<and> readable G key (ks_minimum s) (dir_blobs (ks_backend s3)) keyID (sb_Bytes sb))"
proof -
  have s1: "dir_inv (ks_backend s1)" "s1 = s\<lparr>ks_backend := ks_backend s1\<rparr>"
    using assms(2,3) disk.get_frame [OF assms(2), of keyID] by (auto simp: GetKey_def split: if_splits prod.splits)
  have s2: "dir_inv (ks_backend s2)" "dir_blobs (ks_backend s2) keyID = None" "s2 = s1\<lparr>ks_backend := ks_backend s2\<rparr>"
    using assms(4) disk.delete_done [OF s1(1), of keyID] by (auto simp: DeleteKey_def split: if_splits option.splits prod.splits)
  obtain z where st: "StoreKey G file_backend rand keyID (sb_Bytes sb) s2 = (None, z, s3)"
    using assms(3-5) by (auto simp: RotateKey_def split: prod.splits)
  have "ks_gcm s2 = ks_gcm s" using s1(2) s2(3) by (metis Store.select_convs(2) Store.surjective Store.update_convs(3))
  with disk.StoreKey_done(2) [OF assms(1) s2(1) st] s2(2) show ?thesis by auto
qed

theorem rotation_restores_deleted_key_witness:
  "\<exists>sb s1 s2 s3. let s = sample_store [(''k'', sample_legacy ''secret'')] in
     GetKey sample_gcm file_backend ''k'' s = (Inr sb, s1) \<and> DeleteKey file_backend ''k'' s1 = (None, s2) \<and>
     RotateKey sample_gcm file_backend (Some (\<lambda>n. CHR 0x02)) (\<lambda>s. snd (DeleteKey file_backend ''k'' s)) ''k'' s = (None, s3) \<and>
     dir_blobs (ks_backend s2) ''k'' = None \<and> readable sample_gcm sample_master 1 (dir_blobs (ks_backend s3)) ''k'' (sb_Bytes sb)"
proof -
  let ?s = "sample_store [(''k'', sample_legacy ''secret'')]"
  have d: "dir_inv (ks_backend ?s)" by (simp add: sample_store_def sample_dir_inv sample_id)
  obtain sb s1 where g: "GetKey sample_gcm file_backend ''k'' ?s = (Inr sb, s1)"
    by (simp add: GetKey_def sample_id sample_simps store_simps envelope_simps)
  have del: "\<exists>s2. DeleteKey file_backend ''k'' s1 = (None, s2)"
    using g by (auto simp: GetKey_def DeleteKey_def sample_id sample_simps store_simps envelope_simps)
  have "\<exists>s3. RotateKey sample_gcm file_backend (Some (\<lambda>n. CHR 0x02)) (\<lambda>s. snd (DeleteKey file_backend ''k'' s)) ''k'' ?s = (None, s3)"
    by (simp add: RotateKey_def GetKey_def DeleteKey_def StoreKey_def NewSecureBytes_def sb_Bytes_def sample_id sample_simps store_simps envelope_simps)
  with del obtain s2 s3 where r: "DeleteKey file_backend ''k'' s1 = (None, s2)"
      "RotateKey sample_gcm file_backend (Some (\<lambda>n. CHR 0x02)) (\<lambda>s. snd (DeleteKey file_backend ''k'' s)) ''k'' ?s = (None, s3)" by blast
  have "ks_gcm ?s = Some sample_master" "ks_minimum ?s = 1" by (simp_all add: sample_store_def)
  with rotation_restores_deleted_key [OF sample_gcm_ok d g r] g r show ?thesis unfolding Let_def by fastforce
qed

end
