(* ===== verification/Gateway_Config.thy ===== *)
theory Gateway_Config
  imports Key_Store Quota_Budget
begin

text \<open>
  Loading and checking the configuration, \<open>internal/config/config.go\<close>: the strict JSON text with its scan
  against the structure of the configuration types, decoding over the defaults, the reserved fields, the
  binding of loopback entries to ports, and the checks. The environment, the file system and \<open>url.Parse\<close>
  are arguments.
\<close>

section \<open>Durations\<close>

text \<open>\<open>time.ParseDuration\<close>. An unsigned 64-bit sum of parts, each an integer, a fraction and a unit.\<close>

fun leadingInt :: "nat \<Rightarrow> string \<Rightarrow> (nat \<times> string) option" where
  "leadingInt x [] = Some (x, [])"
| "leadingInt x (c # s) =
     (if \<not> is_digit c then Some (x, c # s)
      else if 2 ^ 63 div 10 < x then None
      else let y = x * 10 + digit_val c in if 2 ^ 63 < y then None else leadingInt y s)"

fun leadingFraction :: "bool \<Rightarrow> nat \<Rightarrow> nat \<Rightarrow> string \<Rightarrow> nat \<times> nat \<times> string" where
  "leadingFraction overflow x scale [] = (x, scale, [])"
| "leadingFraction overflow x scale (c # s) =
     (if \<not> is_digit c then (x, scale, c # s)
      else if overflow then leadingFraction True x scale s
      else if (2 ^ 63 - 1) div 10 < x then leadingFraction True x scale s
      else let y = x * 10 + digit_val c
           in if 2 ^ 63 < y then leadingFraction True x scale s else leadingFraction False y (scale * 10) s)"

definition duration_units :: "(string \<times> nat) list" where
  "duration_units =
     [(''ns'', 1), (''us'', 1000), ([CHR 0xC2, CHR 0xB5, CHR ''s''], 1000), ([CHR 0xCE, CHR 0xBC, CHR ''s''], 1000),
      (''ms'', 1000000), (''s'', 1000000000), (''m'', 60000000000), (''h'', 3600000000000)]"

definition number_byte :: "char \<Rightarrow> bool" where
  "number_byte c \<longleftrightarrow> c = CHR ''.'' \<or> is_digit c"

definition fraction_ns :: "nat \<Rightarrow> nat \<Rightarrow> nat \<Rightarrow> nat" where
  "fraction_ns f unit_ns scale =
     (if f = 0 then 0
      else case f_mul (float_of_int (int f)) (f_div_const (float_of_int (int unit_ns)) (of_nat scale)) of
             Fin r \<Rightarrow> nat \<lfloor>r\<rfloor>
           | _ \<Rightarrow> 0)"

definition duration_fraction :: "string \<Rightarrow> nat \<times> nat \<times> string" where
  "duration_fraction s = (if take 1 s = ''.'' then leadingFraction False 0 1 (tl s) else (0, 1, s))"

definition duration_value :: "nat \<Rightarrow> nat \<Rightarrow> nat \<Rightarrow> string \<Rightarrow> nat option" where
  "duration_value v f scale u =
     (case map_of duration_units u of
        None \<Rightarrow> None
      | Some unit_ns \<Rightarrow>
          if 2 ^ 63 div unit_ns < v then None
          else let w = v * unit_ns + fraction_ns f unit_ns scale in if 2 ^ 63 < w then None else Some w)"

definition duration_part :: "string \<Rightarrow> (nat \<times> string) option" where
  "duration_part s =
     (if s = [] \<or> \<not> number_byte (hd s) then None
      else case leadingInt 0 s of
             None \<Rightarrow> None
           | Some (v, s1) \<Rightarrow>
               (case duration_fraction s1 of
                  (f, scale, s2) \<Rightarrow>
                    let pre = (length s1 \<noteq> length s); post = (take 1 s1 = ''.'' \<and> length s2 \<noteq> length (tl s1));
                        u = takeWhile (\<lambda>c. \<not> number_byte c) s2
                    in if \<not> pre \<and> \<not> post then None
                       else if u = [] then None
                       else map_option (\<lambda>w. (w, dropWhile (\<lambda>c. \<not> number_byte c) s2)) (duration_value v f scale u)))"

lemma leadingInt_rest: "leadingInt x s = Some (y, r) \<Longrightarrow> length r \<le> length s"
  by (induction x s rule: leadingInt.induct) (auto simp: Let_def split: if_splits)

lemma leadingFraction_rest: "leadingFraction ov x k s = (y, k', r) \<Longrightarrow> length r \<le> length s"
  by (induction ov x k s rule: leadingFraction.induct) (auto simp: Let_def split: if_splits)

lemma duration_part_rest:
  assumes "duration_part s = Some (w, r)"
  shows "length r < length s"
proof -
  obtain v s1 f k s2 where q: "leadingInt 0 s = Some (v, s1)" "duration_fraction s1 = (f, k, s2)"
      "r = dropWhile (\<lambda>c. \<not> number_byte c) s2" "takeWhile (\<lambda>c. \<not> number_byte c) s2 \<noteq> []"
    using assms by (auto simp: duration_part_def Let_def split: if_splits option.splits prod.splits)
  have "length s2 \<le> length s1"
    using leadingFraction_rest [of False 0 1 "tl s1" f k s2] q(2) by (auto simp: duration_fraction_def split: if_splits)
  moreover have "length (takeWhile (\<lambda>c. \<not> number_byte c) s2) + length r = length s2"
    unfolding q(3) by (metis length_append takeWhile_dropWhile_id)
  ultimately show ?thesis using leadingInt_rest [OF q(1)] q(4) by (cases "takeWhile (\<lambda>c. \<not> number_byte c) s2") auto
qed

function duration_sum :: "nat \<Rightarrow> string \<Rightarrow> nat option" where
  "duration_sum d s =
     (if s = [] then Some d
      else case duration_part s of
             None \<Rightarrow> None
           | Some (w, r) \<Rightarrow> let d1 = (d + w) mod 2 ^ 64 in if 2 ^ 63 < d1 then None else duration_sum d1 r)"
  by pat_completeness auto
termination
  by (relation "measure (\<lambda>(d, s). length s)") (use duration_part_rest in auto)

declare duration_sum.simps [simp del]

definition ParseDuration :: "string \<Rightarrow> go_duration option" where
  "ParseDuration s =
     (let neg = (take 1 s = ''-''); t = (if take 1 s = ''-'' \<or> take 1 s = ''+'' then tl s else s)
      in if t = ''0'' then Some 0
         else if t = [] then None
         else case duration_sum 0 t of
                None \<Rightarrow> None
              | Some d \<Rightarrow> if neg then Some (wrap64 (- int d)) else if 2 ^ 63 - 1 < d then None else Some (int d))"

text \<open>A parsed duration is a value of Go's 64-bit type.\<close>

lemma ParseDuration_in_int64: "ParseDuration s = Some d \<Longrightarrow> in_int64 d"
  by (auto simp: ParseDuration_def Let_def wrap64_in in_int64_def int64_defs split: if_splits option.splits)

section \<open>The configuration\<close>

record TLSConfig =
  tls_Enabled :: bool
  tls_CertFile :: string
  tls_KeyFile :: string
  tls_CAFile :: string
  tls_MinVersion :: string

record ServerConfig =
  sv_Address :: string
  sv_ReadTimeout :: go_duration
  sv_WriteTimeout :: go_duration
  sv_ShutdownTimeout :: go_duration
  sv_MaxRequestBodySize :: int
  sv_TLS :: TLSConfig

record LocalKMS =
  lk_MasterKeyEnv :: string
  lk_KeyStorePath :: string
  lk_MinimumEnvelopeVersion :: int

record VaultConfig =
  va_Address :: string
  va_Path :: string
  va_TokenEnv :: string

record KMSConfig =
  km_Mode :: string
  km_Local :: LocalKMS
  km_Vault :: VaultConfig

record Provider =
  pv_ID :: string
  pv_Name :: string
  pv_Type :: string
  pv_BaseURL :: string
  pv_APIKeyID :: string
  pv_Models :: "string list"
  pv_Weight :: int
  pv_MaxRPM :: int
  pv_MaxTPM :: int
  pv_APIVersion :: string
  pv_Enabled :: bool
  pv_Priority :: int

record RevocationConfig =
  rv_Backend :: string
  rv_FilePath :: string
  rv_RefreshInterval :: go_duration

record auth_section =
  au_JWTSigningKeyEnv :: string
  au_TokenExpiry :: go_duration
  au_Issuer :: string
  au_Revocation :: RevocationConfig

record rate_limit_section =
  ra_Enabled :: bool
  ra_Backend :: string
  ra_RedisURL :: string
  ra_DefaultRPM :: int
  ra_DefaultTPM :: int
  ra_DefaultMaxConcurrency :: int

record ModelPriceConfig =
  pr_Model :: string
  pr_InputPerMillion :: float64
  pr_OutputPerMillion :: float64

record QuotaConfig =
  qu_Enabled :: bool
  qu_Backend :: string
  qu_DSN :: string
  qu_DefaultBudget :: float64
  qu_ModelPrices :: "ModelPriceConfig list"

record AdminConfig =
  ad_Enabled :: bool
  ad_Address :: string
  ad_TokenEnv :: string

record StoreConfig =
  so_Type :: string
  so_DSN :: string

record EgressConfig =
  eg_AllowedDomains :: "string list"

record Config =
  cf_Server :: ServerConfig
  cf_KMS :: KMSConfig
  cf_Providers :: "Provider list"
  cf_Auth :: auth_section
  cf_RateLimit :: rate_limit_section
  cf_Quota :: QuotaConfig
  cf_Admin :: AdminConfig
  cf_Store :: StoreConfig
  cf_Egress :: EgressConfig

definition maxConfigFileBytes :: nat where "maxConfigFileBytes = 1048576"
definition DefaultMaxRequestBodySize :: int where "DefaultMaxRequestBodySize = 4194304"
definition MaxRequestBodySizeLimit :: int where "MaxRequestBodySizeLimit = 4194304"
definition maxRevocationRefreshInterval :: go_duration where "maxRevocationRefreshInterval = 5 * second"

definition zero_tls :: TLSConfig where
  "zero_tls = \<lparr>tls_Enabled = False, tls_CertFile = [], tls_KeyFile = [], tls_CAFile = [], tls_MinVersion = []\<rparr>"

definition zero_provider :: Provider where
  "zero_provider =
     \<lparr>pv_ID = [], pv_Name = [], pv_Type = [], pv_BaseURL = [], pv_APIKeyID = [], pv_Models = [], pv_Weight = 0, pv_MaxRPM = 0,
      pv_MaxTPM = 0, pv_APIVersion = [], pv_Enabled = False, pv_Priority = 0\<rparr>"

definition zero_revocation :: RevocationConfig where
  "zero_revocation = \<lparr>rv_Backend = [], rv_FilePath = [], rv_RefreshInterval = 0\<rparr>"

definition zero_price :: ModelPriceConfig where
  "zero_price = \<lparr>pr_Model = [], pr_InputPerMillion = Fin 0, pr_OutputPerMillion = Fin 0\<rparr>"

definition defaultConfig :: Config where
  "defaultConfig =
     \<lparr>cf_Server = \<lparr>sv_Address = '':8080'', sv_ReadTimeout = 30 * second, sv_WriteTimeout = 120 * second,
        sv_ShutdownTimeout = 15 * second, sv_MaxRequestBodySize = DefaultMaxRequestBodySize, sv_TLS = zero_tls\<rparr>,
      cf_KMS = \<lparr>km_Mode = ''local'',
        km_Local = \<lparr>lk_MasterKeyEnv = ''AEGIS_MASTER_KEY'', lk_KeyStorePath = [], lk_MinimumEnvelopeVersion = 2\<rparr>,
        km_Vault = \<lparr>va_Address = [], va_Path = [], va_TokenEnv = []\<rparr>\<rparr>,
      cf_Providers = [],
      cf_Auth = \<lparr>au_JWTSigningKeyEnv = ''AEGIS_JWT_KEY'', au_TokenExpiry = 24 * hour, au_Issuer = ''aegis'',
        au_Revocation = \<lparr>rv_Backend = ''file'', rv_FilePath = ''aegis.revocations.json'', rv_RefreshInterval = 500 * millisecond\<rparr>\<rparr>,
      cf_RateLimit = \<lparr>ra_Enabled = True, ra_Backend = ''memory'', ra_RedisURL = [], ra_DefaultRPM = 60, ra_DefaultTPM = 0,
        ra_DefaultMaxConcurrency = 10\<rparr>,
      cf_Quota = \<lparr>qu_Enabled = False, qu_Backend = [], qu_DSN = [], qu_DefaultBudget = Fin 0, qu_ModelPrices = []\<rparr>,
      cf_Admin = \<lparr>ad_Enabled = False, ad_Address = [], ad_TokenEnv = []\<rparr>,
      cf_Store = \<lparr>so_Type = [], so_DSN = []\<rparr>,
      cf_Egress = \<lparr>eg_AllowedDomains = []\<rparr>\<rparr>"

section \<open>The strict scan\<close>

text \<open>
  The Go types the scan walks along, by reflection. The scan reads tokens; because the same text has
  to decode afterwards, the model walks along the parsed value.
\<close>

datatype go_type =
    GoScalar
  | GoStruct "(string \<times> go_type) list"
  | GoSlice go_type
  | GoMap go_type
  | GoPointer go_type

fun indirectJSONType :: "go_type option \<Rightarrow> go_type option" where
  "indirectJSONType (Some (GoPointer t)) = indirectJSONType (Some t)"
| "indirectJSONType t = t"

definition exactJSONFields :: "go_type option \<Rightarrow> (string \<times> go_type) list option" where
  "exactJSONFields t = (case indirectJSONType t of Some (GoStruct fs) \<Rightarrow> Some fs | _ \<Rightarrow> None)"

definition jsonMapValueType :: "go_type option \<Rightarrow> go_type option" where
  "jsonMapValueType t = (case indirectJSONType t of Some (GoMap e) \<Rightarrow> Some e | _ \<Rightarrow> None)"

definition jsonElementType :: "go_type option \<Rightarrow> go_type option" where
  "jsonElementType t = (case indirectJSONType t of Some (GoSlice e) \<Rightarrow> Some e | _ \<Rightarrow> None)"

definition asciiFoldJSONMember :: "string \<Rightarrow> string" where
  "asciiFoldJSONMember name = map ascii_lower name"

definition member_type :: "go_type option \<Rightarrow> string \<Rightarrow> go_type option" where
  "member_type t name = (case exactJSONFields t of Some fs \<Rightarrow> map_of fs name | None \<Rightarrow> jsonMapValueType t)"

definition unknown_member :: "go_type option \<Rightarrow> string \<Rightarrow> bool" where
  "unknown_member t name = (case exactJSONFields t of Some fs \<Rightarrow> map_of fs name = None | None \<Rightarrow> False)"

text \<open>The members of an object with the names seen, their folded forms and whether a field was unknown.\<close>

fun scanJSONValue :: "go_type option \<Rightarrow> json \<Rightarrow> string option"
  and scanJSONObject :: "go_type option \<Rightarrow> string list \<Rightarrow> (string \<times> string) list \<Rightarrow> bool \<Rightarrow> (string \<times> json) list \<Rightarrow> string option"
  and scanJSONArray :: "go_type option \<Rightarrow> json list \<Rightarrow> string option" where
  "scanJSONValue t JNull = (if t \<noteq> None then Some ''json: null is not allowed in configuration'' else None)"
| "scanJSONValue t (JObj ms) = scanJSONObject t [] [] False ms"
| "scanJSONValue t (JArr vs) = scanJSONArray (jsonElementType t) vs"
| "scanJSONValue t (JBool b) = None"
| "scanJSONValue t (JNum n) = None"
| "scanJSONValue t (JStr s) = None"
| "scanJSONObject t seenExact seenFolded unknown [] = (if unknown then Some ''json: unknown field in configuration'' else None)"
| "scanJSONObject t seenExact seenFolded unknown ((name, v) # ms) =
     (if name \<in> set seenExact then Some ''json: duplicate object member in configuration''
      else let folded = asciiFoldJSONMember name
           in if (case map_of seenFolded folded of Some previous \<Rightarrow> previous \<noteq> name | None \<Rightarrow> False)
              then Some ''json: ambiguous object member in configuration''
              else case scanJSONValue (member_type t name) v of
                     Some e \<Rightarrow> Some e
                   | None \<Rightarrow>
                       scanJSONObject t (name # seenExact) ((folded, name) # seenFolded) (unknown \<or> unknown_member t name) ms)"
| "scanJSONArray t [] = None"
| "scanJSONArray t (v # vs) = (case scanJSONValue t v of Some e \<Rightarrow> Some e | None \<Rightarrow> scanJSONArray t vs)"

text \<open>The configuration types as the scan sees them.\<close>

definition tls_type :: go_type where
  "tls_type = GoStruct [(''enabled'', GoScalar), (''cert_file'', GoScalar), (''key_file'', GoScalar), (''ca_file'', GoScalar), (''min_version'', GoScalar)]"

definition server_type :: go_type where
  "server_type = GoStruct [(''address'', GoScalar), (''read_timeout'', GoScalar), (''write_timeout'', GoScalar), (''shutdown_timeout'', GoScalar), (''max_request_body_size'', GoScalar), (''tls'', tls_type)]"

definition local_kms_type :: go_type where
  "local_kms_type = GoStruct [(''master_key_env'', GoScalar), (''key_store_path'', GoScalar), (''minimum_envelope_version'', GoScalar)]"

definition vault_type :: go_type where
  "vault_type = GoStruct [(''address'', GoScalar), (''path'', GoScalar), (''token_env'', GoScalar)]"

definition kms_type :: go_type where
  "kms_type = GoStruct [(''mode'', GoScalar), (''local'', local_kms_type), (''vault'', vault_type)]"

definition provider_type :: go_type where
  "provider_type = GoStruct [(''id'', GoScalar), (''name'', GoScalar), (''type'', GoScalar), (''base_url'', GoScalar), (''api_key_id'', GoScalar), (''models'', GoSlice GoScalar), (''weight'', GoScalar), (''max_rpm'', GoScalar), (''max_tpm'', GoScalar), (''api_version'', GoScalar), (''enabled'', GoScalar), (''priority'', GoScalar)]"

definition revocation_type :: go_type where
  "revocation_type = GoStruct [(''backend'', GoScalar), (''file_path'', GoScalar), (''refresh_interval'', GoScalar)]"

definition auth_type :: go_type where
  "auth_type = GoStruct [(''jwt_signing_key_env'', GoScalar), (''token_expiry'', GoScalar), (''issuer'', GoScalar), (''revocation'', revocation_type)]"

definition rate_limit_type :: go_type where
  "rate_limit_type = GoStruct [(''enabled'', GoScalar), (''backend'', GoScalar), (''redis_url'', GoScalar), (''default_rpm'', GoScalar), (''default_tpm'', GoScalar), (''default_max_concurrency'', GoScalar)]"

definition price_type :: go_type where
  "price_type = GoStruct [(''model'', GoScalar), (''input_per_million'', GoScalar), (''output_per_million'', GoScalar)]"

definition quota_type :: go_type where
  "quota_type = GoStruct [(''enabled'', GoScalar), (''backend'', GoScalar), (''dsn'', GoScalar), (''default_budget'', GoScalar), (''model_prices'', GoSlice price_type)]"

definition admin_type :: go_type where
  "admin_type = GoStruct [(''enabled'', GoScalar), (''address'', GoScalar), (''token_env'', GoScalar)]"

definition store_type :: go_type where
  "store_type = GoStruct [(''type'', GoScalar), (''dsn'', GoScalar)]"

definition egress_type :: go_type where
  "egress_type = GoStruct [(''allowed_domains'', GoSlice GoScalar)]"

definition config_type :: go_type where
  "config_type = GoStruct [(''server'', server_type), (''kms'', kms_type), (''providers'', GoSlice provider_type), (''auth'', auth_type), (''rate_limit'', rate_limit_type), (''quota'', quota_type), (''admin'', admin_type), (''store'', store_type), (''egress'', egress_type)]"

text \<open>The shapes the methods \<open>UnmarshalJSON\<close> decode through: pointers, and raw messages (byte slices) for durations.\<close>

definition serverConfigJSON :: go_type where
  "serverConfigJSON = GoStruct [(''address'', GoPointer GoScalar), (''read_timeout'', GoSlice GoScalar), (''write_timeout'', GoSlice GoScalar), (''shutdown_timeout'', GoSlice GoScalar), (''max_request_body_size'', GoPointer GoScalar), (''tls'', GoPointer tls_type)]"

definition authConfigJSON :: go_type where
  "authConfigJSON = GoStruct [(''jwt_signing_key_env'', GoPointer GoScalar), (''token_expiry'', GoSlice GoScalar), (''issuer'', GoPointer GoScalar), (''revocation'', GoPointer revocation_type)]"

definition revocationConfigJSON :: go_type where
  "revocationConfigJSON = GoStruct [(''backend'', GoPointer GoScalar), (''file_path'', GoPointer GoScalar), (''refresh_interval'', GoSlice GoScalar)]"

section \<open>Decoding\<close>

text \<open>
  Decoding with unknown fields refused. A structure keeps the fields the text does not mention. After
  the scan every member carries the exact name of a field, so the decoder's comparison of folded names
  does not matter.
\<close>

definition dec_fields :: "(string \<times> (json \<Rightarrow> 'a \<Rightarrow> 'a option)) list \<Rightarrow> string \<times> json \<Rightarrow> 'a \<Rightarrow> 'a option" where
  "dec_fields table m r = (case map_of table (fst m) of None \<Rightarrow> None | Some dec \<Rightarrow> dec (snd m) r)"

definition dec_struct :: "(string \<times> (json \<Rightarrow> 'a \<Rightarrow> 'a option)) list \<Rightarrow> json \<Rightarrow> 'a \<Rightarrow> 'a option" where
  "dec_struct table v r = (case v of JObj ms \<Rightarrow> dec_members (dec_fields table) ms r | JNull \<Rightarrow> Some r | _ \<Rightarrow> None)"

fun dec_list :: "(json \<Rightarrow> 'a option) \<Rightarrow> json list \<Rightarrow> 'a list option" where
  "dec_list dec [] = Some []"
| "dec_list dec (v # vs) = (case dec v of None \<Rightarrow> None | Some x \<Rightarrow> map_option ((#) x) (dec_list dec vs))"

definition dec_slice :: "(json \<Rightarrow> 'a option) \<Rightarrow> json \<Rightarrow> 'a list option" where
  "dec_slice dec v = (case v of JArr vs \<Rightarrow> dec_list dec vs | JNull \<Rightarrow> Some [] | _ \<Rightarrow> None)"

definition dec_strings :: "json \<Rightarrow> string list option" where
  "dec_strings = dec_slice (\<lambda>v. dec_string v [])"

definition parseDuration :: "json \<Rightarrow> go_duration option" where
  "parseDuration raw =
     (case raw of
        JNull \<Rightarrow> Some 0
      | JStr value \<Rightarrow> ParseDuration value
      | JNum n \<Rightarrow> parse_int n
      | _ \<Rightarrow> None)"

definition tls_fields :: "(string \<times> (json \<Rightarrow> TLSConfig \<Rightarrow> TLSConfig option)) list" where
  "tls_fields =
     [(''enabled'', \<lambda>v c. map_option (\<lambda>x. c\<lparr>tls_Enabled := x\<rparr>) (dec_bool v (tls_Enabled c))),
      (''cert_file'', \<lambda>v c. map_option (\<lambda>x. c\<lparr>tls_CertFile := x\<rparr>) (dec_string v (tls_CertFile c))),
      (''key_file'', \<lambda>v c. map_option (\<lambda>x. c\<lparr>tls_KeyFile := x\<rparr>) (dec_string v (tls_KeyFile c))),
      (''ca_file'', \<lambda>v c. map_option (\<lambda>x. c\<lparr>tls_CAFile := x\<rparr>) (dec_string v (tls_CAFile c))),
      (''min_version'', \<lambda>v c. map_option (\<lambda>x. c\<lparr>tls_MinVersion := x\<rparr>) (dec_string v (tls_MinVersion c)))]"

definition server_fields :: "(string \<times> (json \<Rightarrow> ServerConfig \<Rightarrow> ServerConfig option)) list" where
  "server_fields =
     [(''address'', \<lambda>v c. map_option (\<lambda>x. c\<lparr>sv_Address := x\<rparr>) (dec_string v (sv_Address c))),
      (''read_timeout'', \<lambda>v c. map_option (\<lambda>x. c\<lparr>sv_ReadTimeout := x\<rparr>) (parseDuration v)),
      (''write_timeout'', \<lambda>v c. map_option (\<lambda>x. c\<lparr>sv_WriteTimeout := x\<rparr>) (parseDuration v)),
      (''shutdown_timeout'', \<lambda>v c. map_option (\<lambda>x. c\<lparr>sv_ShutdownTimeout := x\<rparr>) (parseDuration v)),
      (''max_request_body_size'', \<lambda>v c. map_option (\<lambda>x. c\<lparr>sv_MaxRequestBodySize := x\<rparr>) (dec_int v (sv_MaxRequestBodySize c))),
      (''tls'', \<lambda>v c. map_option (\<lambda>x. c\<lparr>sv_TLS := x\<rparr>) (dec_struct tls_fields v zero_tls))]"

definition ServerConfig_UnmarshalJSON :: "json \<Rightarrow> ServerConfig \<Rightarrow> ServerConfig option" where
  "ServerConfig_UnmarshalJSON v c =
     (if scanJSONValue (Some (GoPointer serverConfigJSON)) v \<noteq> None then None else dec_struct server_fields v c)"

definition revocation_fields :: "(string \<times> (json \<Rightarrow> RevocationConfig \<Rightarrow> RevocationConfig option)) list" where
  "revocation_fields =
     [(''backend'', \<lambda>v c. map_option (\<lambda>x. c\<lparr>rv_Backend := x\<rparr>) (dec_string v (rv_Backend c))),
      (''file_path'', \<lambda>v c. map_option (\<lambda>x. c\<lparr>rv_FilePath := x\<rparr>) (dec_string v (rv_FilePath c))),
      (''refresh_interval'', \<lambda>v c. map_option (\<lambda>x. c\<lparr>rv_RefreshInterval := x\<rparr>) (parseDuration v))]"

definition RevocationConfig_UnmarshalJSON :: "json \<Rightarrow> RevocationConfig \<Rightarrow> RevocationConfig option" where
  "RevocationConfig_UnmarshalJSON v c =
     (if scanJSONValue (Some (GoPointer revocationConfigJSON)) v \<noteq> None then None else dec_struct revocation_fields v c)"

definition auth_fields :: "(string \<times> (json \<Rightarrow> auth_section \<Rightarrow> auth_section option)) list" where
  "auth_fields =
     [(''jwt_signing_key_env'', \<lambda>v c. map_option (\<lambda>x. c\<lparr>au_JWTSigningKeyEnv := x\<rparr>) (dec_string v (au_JWTSigningKeyEnv c))),
      (''token_expiry'', \<lambda>v c. map_option (\<lambda>x. c\<lparr>au_TokenExpiry := x\<rparr>) (parseDuration v)),
      (''issuer'', \<lambda>v c. map_option (\<lambda>x. c\<lparr>au_Issuer := x\<rparr>) (dec_string v (au_Issuer c))),
      (''revocation'', \<lambda>v c. map_option (\<lambda>x. c\<lparr>au_Revocation := x\<rparr>) (RevocationConfig_UnmarshalJSON v zero_revocation))]"

definition AuthConfig_UnmarshalJSON :: "json \<Rightarrow> auth_section \<Rightarrow> auth_section option" where
  "AuthConfig_UnmarshalJSON v c =
     (if scanJSONValue (Some (GoPointer authConfigJSON)) v \<noteq> None then None else dec_struct auth_fields v c)"

definition local_kms_fields :: "(string \<times> (json \<Rightarrow> LocalKMS \<Rightarrow> LocalKMS option)) list" where
  "local_kms_fields =
     [(''master_key_env'', \<lambda>v c. map_option (\<lambda>x. c\<lparr>lk_MasterKeyEnv := x\<rparr>) (dec_string v (lk_MasterKeyEnv c))),
      (''key_store_path'', \<lambda>v c. map_option (\<lambda>x. c\<lparr>lk_KeyStorePath := x\<rparr>) (dec_string v (lk_KeyStorePath c))),
      (''minimum_envelope_version'', \<lambda>v c. map_option (\<lambda>x. c\<lparr>lk_MinimumEnvelopeVersion := x\<rparr>) (dec_int v (lk_MinimumEnvelopeVersion c)))]"

definition vault_fields :: "(string \<times> (json \<Rightarrow> VaultConfig \<Rightarrow> VaultConfig option)) list" where
  "vault_fields =
     [(''address'', \<lambda>v c. map_option (\<lambda>x. c\<lparr>va_Address := x\<rparr>) (dec_string v (va_Address c))),
      (''path'', \<lambda>v c. map_option (\<lambda>x. c\<lparr>va_Path := x\<rparr>) (dec_string v (va_Path c))),
      (''token_env'', \<lambda>v c. map_option (\<lambda>x. c\<lparr>va_TokenEnv := x\<rparr>) (dec_string v (va_TokenEnv c)))]"

definition kms_fields :: "(string \<times> (json \<Rightarrow> KMSConfig \<Rightarrow> KMSConfig option)) list" where
  "kms_fields =
     [(''mode'', \<lambda>v c. map_option (\<lambda>x. c\<lparr>km_Mode := x\<rparr>) (dec_string v (km_Mode c))),
      (''local'', \<lambda>v c. map_option (\<lambda>x. c\<lparr>km_Local := x\<rparr>) (dec_struct local_kms_fields v (km_Local c))),
      (''vault'', \<lambda>v c. map_option (\<lambda>x. c\<lparr>km_Vault := x\<rparr>) (dec_struct vault_fields v (km_Vault c)))]"

definition provider_fields :: "(string \<times> (json \<Rightarrow> Provider \<Rightarrow> Provider option)) list" where
  "provider_fields =
     [(''id'', \<lambda>v c. map_option (\<lambda>x. c\<lparr>pv_ID := x\<rparr>) (dec_string v (pv_ID c))),
      (''name'', \<lambda>v c. map_option (\<lambda>x. c\<lparr>pv_Name := x\<rparr>) (dec_string v (pv_Name c))),
      (''type'', \<lambda>v c. map_option (\<lambda>x. c\<lparr>pv_Type := x\<rparr>) (dec_string v (pv_Type c))),
      (''base_url'', \<lambda>v c. map_option (\<lambda>x. c\<lparr>pv_BaseURL := x\<rparr>) (dec_string v (pv_BaseURL c))),
      (''api_key_id'', \<lambda>v c. map_option (\<lambda>x. c\<lparr>pv_APIKeyID := x\<rparr>) (dec_string v (pv_APIKeyID c))),
      (''models'', \<lambda>v c. map_option (\<lambda>x. c\<lparr>pv_Models := x\<rparr>) (dec_strings v)),
      (''weight'', \<lambda>v c. map_option (\<lambda>x. c\<lparr>pv_Weight := x\<rparr>) (dec_int v (pv_Weight c))),
      (''max_rpm'', \<lambda>v c. map_option (\<lambda>x. c\<lparr>pv_MaxRPM := x\<rparr>) (dec_int v (pv_MaxRPM c))),
      (''max_tpm'', \<lambda>v c. map_option (\<lambda>x. c\<lparr>pv_MaxTPM := x\<rparr>) (dec_int v (pv_MaxTPM c))),
      (''api_version'', \<lambda>v c. map_option (\<lambda>x. c\<lparr>pv_APIVersion := x\<rparr>) (dec_string v (pv_APIVersion c))),
      (''enabled'', \<lambda>v c. map_option (\<lambda>x. c\<lparr>pv_Enabled := x\<rparr>) (dec_bool v (pv_Enabled c))),
      (''priority'', \<lambda>v c. map_option (\<lambda>x. c\<lparr>pv_Priority := x\<rparr>) (dec_int v (pv_Priority c)))]"

definition rate_limit_fields :: "(string \<times> (json \<Rightarrow> rate_limit_section \<Rightarrow> rate_limit_section option)) list" where
  "rate_limit_fields =
     [(''enabled'', \<lambda>v c. map_option (\<lambda>x. c\<lparr>ra_Enabled := x\<rparr>) (dec_bool v (ra_Enabled c))),
      (''backend'', \<lambda>v c. map_option (\<lambda>x. c\<lparr>ra_Backend := x\<rparr>) (dec_string v (ra_Backend c))),
      (''redis_url'', \<lambda>v c. map_option (\<lambda>x. c\<lparr>ra_RedisURL := x\<rparr>) (dec_string v (ra_RedisURL c))),
      (''default_rpm'', \<lambda>v c. map_option (\<lambda>x. c\<lparr>ra_DefaultRPM := x\<rparr>) (dec_int v (ra_DefaultRPM c))),
      (''default_tpm'', \<lambda>v c. map_option (\<lambda>x. c\<lparr>ra_DefaultTPM := x\<rparr>) (dec_int v (ra_DefaultTPM c))),
      (''default_max_concurrency'', \<lambda>v c. map_option (\<lambda>x. c\<lparr>ra_DefaultMaxConcurrency := x\<rparr>) (dec_int v (ra_DefaultMaxConcurrency c)))]"

definition price_fields :: "(string \<times> (json \<Rightarrow> ModelPriceConfig \<Rightarrow> ModelPriceConfig option)) list" where
  "price_fields =
     [(''model'', \<lambda>v c. map_option (\<lambda>x. c\<lparr>pr_Model := x\<rparr>) (dec_string v (pr_Model c))),
      (''input_per_million'', \<lambda>v c. map_option (\<lambda>x. c\<lparr>pr_InputPerMillion := x\<rparr>) (dec_float v (pr_InputPerMillion c))),
      (''output_per_million'', \<lambda>v c. map_option (\<lambda>x. c\<lparr>pr_OutputPerMillion := x\<rparr>) (dec_float v (pr_OutputPerMillion c)))]"

definition quota_fields :: "(string \<times> (json \<Rightarrow> QuotaConfig \<Rightarrow> QuotaConfig option)) list" where
  "quota_fields =
     [(''enabled'', \<lambda>v c. map_option (\<lambda>x. c\<lparr>qu_Enabled := x\<rparr>) (dec_bool v (qu_Enabled c))),
      (''backend'', \<lambda>v c. map_option (\<lambda>x. c\<lparr>qu_Backend := x\<rparr>) (dec_string v (qu_Backend c))),
      (''dsn'', \<lambda>v c. map_option (\<lambda>x. c\<lparr>qu_DSN := x\<rparr>) (dec_string v (qu_DSN c))),
      (''default_budget'', \<lambda>v c. map_option (\<lambda>x. c\<lparr>qu_DefaultBudget := x\<rparr>) (dec_float v (qu_DefaultBudget c))),
      (''model_prices'', \<lambda>v c. map_option (\<lambda>x. c\<lparr>qu_ModelPrices := x\<rparr>) (dec_slice (\<lambda>w. dec_struct price_fields w zero_price) v))]"

definition admin_fields :: "(string \<times> (json \<Rightarrow> AdminConfig \<Rightarrow> AdminConfig option)) list" where
  "admin_fields =
     [(''enabled'', \<lambda>v c. map_option (\<lambda>x. c\<lparr>ad_Enabled := x\<rparr>) (dec_bool v (ad_Enabled c))),
      (''address'', \<lambda>v c. map_option (\<lambda>x. c\<lparr>ad_Address := x\<rparr>) (dec_string v (ad_Address c))),
      (''token_env'', \<lambda>v c. map_option (\<lambda>x. c\<lparr>ad_TokenEnv := x\<rparr>) (dec_string v (ad_TokenEnv c)))]"

definition store_fields :: "(string \<times> (json \<Rightarrow> StoreConfig \<Rightarrow> StoreConfig option)) list" where
  "store_fields =
     [(''type'', \<lambda>v c. map_option (\<lambda>x. c\<lparr>so_Type := x\<rparr>) (dec_string v (so_Type c))),
      (''dsn'', \<lambda>v c. map_option (\<lambda>x. c\<lparr>so_DSN := x\<rparr>) (dec_string v (so_DSN c)))]"

definition egress_fields :: "(string \<times> (json \<Rightarrow> EgressConfig \<Rightarrow> EgressConfig option)) list" where
  "egress_fields =
     [(''allowed_domains'', \<lambda>v c. map_option (\<lambda>x. c\<lparr>eg_AllowedDomains := x\<rparr>) (dec_strings v))]"

definition config_fields :: "(string \<times> (json \<Rightarrow> Config \<Rightarrow> Config option)) list" where
  "config_fields =
     [(''server'', \<lambda>v c. map_option (\<lambda>x. c\<lparr>cf_Server := x\<rparr>) (ServerConfig_UnmarshalJSON v (cf_Server c))),
      (''kms'', \<lambda>v c. map_option (\<lambda>x. c\<lparr>cf_KMS := x\<rparr>) (dec_struct kms_fields v (cf_KMS c))),
      (''providers'', \<lambda>v c. map_option (\<lambda>x. c\<lparr>cf_Providers := x\<rparr>) (dec_slice (\<lambda>w. dec_struct provider_fields w zero_provider) v)),
      (''auth'', \<lambda>v c. map_option (\<lambda>x. c\<lparr>cf_Auth := x\<rparr>) (AuthConfig_UnmarshalJSON v (cf_Auth c))),
      (''rate_limit'', \<lambda>v c. map_option (\<lambda>x. c\<lparr>cf_RateLimit := x\<rparr>) (dec_struct rate_limit_fields v (cf_RateLimit c))),
      (''quota'', \<lambda>v c. map_option (\<lambda>x. c\<lparr>cf_Quota := x\<rparr>) (dec_struct quota_fields v (cf_Quota c))),
      (''admin'', \<lambda>v c. map_option (\<lambda>x. c\<lparr>cf_Admin := x\<rparr>) (dec_struct admin_fields v (cf_Admin c))),
      (''store'', \<lambda>v c. map_option (\<lambda>x. c\<lparr>cf_Store := x\<rparr>) (dec_struct store_fields v (cf_Store c))),
      (''egress'', \<lambda>v c. map_option (\<lambda>x. c\<lparr>cf_Egress := x\<rparr>) (dec_struct egress_fields v (cf_Egress c)))]"

text \<open>\<open>unmarshalStrict\<close> on the root: one JSON value with nothing but white space after it.\<close>

definition unmarshalStrict :: "bytes \<Rightarrow> Config \<Rightarrow> string + Config" where
  "unmarshalStrict data cfg =
     (case json_parse data of
        None \<Rightarrow> Inl ''invalid JSON configuration''
      | Some v \<Rightarrow>
          (case scanJSONValue (Some (GoPointer config_type)) v of
             Some e \<Rightarrow> Inl e
           | None \<Rightarrow>
               (case dec_struct config_fields v cfg of
                  None \<Rightarrow> Inl ''json: cannot unmarshal''
                | Some c \<Rightarrow> Inr c)))"

text \<open>\<open>rejectReservedConfigFields\<close> decodes the text again into maps of raw values.\<close>

definition raw_members :: "json \<Rightarrow> (string \<rightharpoonup> json) option" where
  "raw_members v = (case v of JObj ms \<Rightarrow> Some (map_of (rev ms)) | JNull \<Rightarrow> Some Map.empty | _ \<Rightarrow> None)"

definition has_reserved :: "(string \<rightharpoonup> json) \<Rightarrow> string \<Rightarrow> string \<Rightarrow> string \<Rightarrow> string \<Rightarrow> string option" where
  "has_reserved members section field no_object reserved =
     (case members section of
        None \<Rightarrow> None
      | Some v \<Rightarrow>
          if v = JNull then None
          else (case raw_members v of
                  None \<Rightarrow> Some no_object
                | Some raw \<Rightarrow> if raw field \<noteq> None then Some reserved else None))"

definition rejectReservedConfigFields :: "bytes \<Rightarrow> string option" where
  "rejectReservedConfigFields data =
     (case Option.bind (json_parse data) raw_members of
        None \<Rightarrow> Some ''invalid JSON configuration''
      | Some members \<Rightarrow>
          (case has_reserved members ''rate_limit'' ''redis_url'' ''rate_limit must be an object''
                  ''rate_limit.redis_url is reserved; redis rate limiter backend is not implemented'' of
             Some e \<Rightarrow> Some e
           | None \<Rightarrow>
               (case has_reserved members ''quota'' ''dsn'' ''quota must be an object''
                       ''quota.dsn is reserved; durable quota backends are not implemented'' of
                  Some e \<Rightarrow> Some e
                | None \<Rightarrow>
                    (case has_reserved members ''kms'' ''vault'' ''kms must be an object''
                            ''kms.vault is reserved; vault KMS backend is not implemented'' of
                       Some e \<Rightarrow> Some e
                     | None \<Rightarrow>
                         if members ''store'' \<noteq> None
                         then Some ''store persistence config is reserved; control-plane store is not implemented''
                         else None))))"

section \<open>Binding and reading\<close>

text \<open>A loopback entry without a port stands for the ports enabled providers declare on that address.\<close>

definition append_unique :: "string \<Rightarrow> string list \<Rightarrow> string list" where
  "append_unique entry bound = (if entry \<in> set bound then bound else bound @ [entry])"

definition provider_binding :: "(string \<Rightarrow> parsed_url option) \<Rightarrow> netip_addr \<Rightarrow> Provider \<Rightarrow> string option" where
  "provider_binding url_Parse address provider =
     (if \<not> pv_Enabled provider then None
      else case ParseHTTPSURL url_Parse (pv_BaseURL provider) of
             Inl _ \<Rightarrow> None
           | Inr endpoint \<Rightarrow>
               if \<not> IPLiteral endpoint \<or> \<not> is_loopback (IP endpoint) \<or> unmap_addr (IP endpoint) \<noteq> address then None
               else Some (JoinHostPort (addr_String (IP endpoint)) (Port endpoint)))"

definition bind_entry :: "(string \<Rightarrow> parsed_url option) \<Rightarrow> Provider list \<Rightarrow> string \<Rightarrow> string list \<Rightarrow> string list" where
  "bind_entry url_Parse providers entry bound =
     (case ParseAddr entry of
        None \<Rightarrow> append_unique entry bound
      | Some address \<Rightarrow>
          if zone_of address \<noteq> [] \<or> \<not> is_loopback address then append_unique entry bound
          else let found = List.map_filter (provider_binding url_Parse (unmap_addr address)) providers
               in if found = [] then append_unique entry bound else fold append_unique found bound)"

definition bindLegacyLoopbackAllowlistPorts :: "(string \<Rightarrow> parsed_url option) \<Rightarrow> Config \<Rightarrow> Config" where
  "bindLegacyLoopbackAllowlistPorts url_Parse cfg =
     cfg\<lparr>cf_Egress := \<lparr>eg_AllowedDomains = fold (bind_entry url_Parse (cf_Providers cfg)) (eg_AllowedDomains (cf_Egress cfg)) []\<rparr>\<rparr>"

text \<open>A file as \<open>openConfigNoFollow\<close>, \<open>Stat\<close> and the bounded read see it; \<open>None\<close> cannot be opened.\<close>

record config_file =
  fl_stat_fails :: bool
  fl_kind :: file_kind
  fl_perm :: "9 word"
  fl_size :: int
  fl_read :: "bytes option"

definition readBoundedConfigFile :: "config_file option \<Rightarrow> string + bytes" where
  "readBoundedConfigFile file =
     (case file of
        None \<Rightarrow> Inl ''unable to open config file''
      | Some f \<Rightarrow>
          if fl_stat_fails f \<or> fl_kind f \<noteq> RegularFile then Inl ''config input must be a regular non-symlink file''
          else if and (fl_perm f) 18 \<noteq> 0 then Inl ''config input permissions allow group/other writes''
          else if fl_size f < 0 \<or> int maxConfigFileBytes < fl_size f then Inl ''config input exceeds size limit''
          else (case fl_read f of
                  None \<Rightarrow> Inl ''unable to read config file''
                | Some raw \<Rightarrow>
                    let data = take (Suc maxConfigFileBytes) raw
                    in if maxConfigFileBytes < length data then Inl ''config input exceeds size limit'' else Inr data))"

section \<open>Checks\<close>

fun first_error :: "(bool \<times> string) list \<Rightarrow> string option" where
  "first_error [] = None"
| "first_error ((failed, message) # checks) = (if failed then Some message else first_error checks)"

definition ValidateServerConfig :: "ServerConfig \<Rightarrow> string option" where
  "ValidateServerConfig server = first_error
     [(sv_Address server = [], ''server address must not be empty''),
      (sv_ReadTimeout server \<le> 0, ''server.read_timeout must be positive''),
      (sv_WriteTimeout server \<le> 0, ''server.write_timeout must be positive''),
      (sv_ShutdownTimeout server \<le> 0, ''server.shutdown_timeout must be positive''),
      (sv_MaxRequestBodySize server \<le> 0, ''server.max_request_body_size must be positive''),
      (sv_MaxRequestBodySize server > MaxRequestBodySizeLimit, ''server.max_request_body_size is too large''),
      (tls_Enabled (sv_TLS server) \<and> (tls_CertFile (sv_TLS server) = [] \<or> tls_KeyFile (sv_TLS server) = []),
         ''server TLS requires cert_file and key_file''),
      (tls_Enabled (sv_TLS server) \<and> tls_MinVersion (sv_TLS server) \<notin> set [[], ''1.3'', ''TLS1.3'', ''tls1.3''],
         ''server.tls.min_version currently supports only TLS 1.3'')]"

definition ValidateRevocationConfig :: "RevocationConfig \<Rightarrow> string option" where
  "ValidateRevocationConfig cfg = first_error
     [(rv_Backend cfg \<noteq> ''file'', ''unsupported auth.revocation backend''),
      (trim_space (rv_FilePath cfg) = [], ''auth.revocation.file_path must not be empty''),
      (rv_RefreshInterval cfg \<le> 0, ''auth.revocation.refresh_interval must be positive''),
      (rv_RefreshInterval cfg > maxRevocationRefreshInterval, ''auth.revocation.refresh_interval is too long'')]"

fun provider_ids :: "string list \<Rightarrow> Provider list \<Rightarrow> string option" where
  "provider_ids seen [] = None"
| "provider_ids seen (p # ps) =
     (if \<not> pv_Enabled p then provider_ids seen ps
      else if trim_space (pv_ID p) = [] then Some ''enabled provider id must not be empty''
      else if pv_ID p \<in> set seen then Some ''enabled provider id is duplicated''
      else provider_ids (pv_ID p # seen) ps)"

definition ValidateEnabledProviderIDs :: "Provider list \<Rightarrow> string option" where
  "ValidateEnabledProviderIDs providers = provider_ids [] providers"

fun provider_models :: "string list \<Rightarrow> string list \<Rightarrow> string option" where
  "provider_models seen [] = None"
| "provider_models seen (model # models) =
     (if trim_space model = [] then Some ''enabled provider model must not be empty''
      else if trim_space model \<noteq> model then Some ''enabled provider model must not contain leading or trailing whitespace''
      else if model \<in> set seen then Some ''enabled provider models must not contain duplicates''
      else provider_models (model # seen) models)"

fun ValidateEnabledProviderModels :: "Provider list \<Rightarrow> string option" where
  "ValidateEnabledProviderModels [] = None"
| "ValidateEnabledProviderModels (p # ps) =
     (if \<not> pv_Enabled p then ValidateEnabledProviderModels ps
      else if pv_Models p = [] then Some ''enabled provider must configure at least one model''
      else case provider_models [] (pv_Models p) of Some e \<Rightarrow> Some e | None \<Rightarrow> ValidateEnabledProviderModels ps)"

definition provider_check :: "Provider \<Rightarrow> string option" where
  "provider_check p = first_error
     [(pv_APIKeyID p = [], ''api_key_id must reference a KMS key, not be empty''),
      (MaxKeyIDBytes < length (pv_APIKeyID p), ''api_key_id is too long''),
      (pv_MaxRPM p < 0, ''max_rpm must not be negative''),
      (pv_MaxRPM p > 0, ''max_rpm is reserved; provider RPM enforcement is not implemented''),
      (pv_MaxTPM p < 0, ''max_tpm must not be negative''),
      (pv_MaxTPM p > 0, ''max_tpm is reserved; provider TPM enforcement is not implemented''),
      (trim_space (pv_APIVersion p) \<noteq> [] \<and> pv_Type p \<noteq> ''azure'', ''api_version is only valid for azure'')]"

fun provider_checks :: "Provider list \<Rightarrow> string option" where
  "provider_checks [] = None"
| "provider_checks (p # ps) =
     (if \<not> pv_Enabled p then provider_checks ps
      else case provider_check p of Some e \<Rightarrow> Some e | None \<Rightarrow> provider_checks ps)"

fun price_checks :: "ModelPriceConfig list \<Rightarrow> string option" where
  "price_checks [] = None"
| "price_checks (mp # mps) =
     (if trim_space (pr_Model mp) = [] then Some ''quota.model_prices model must not be empty''
      else if f_less (pr_InputPerMillion mp) (Fin 0) \<or> f_less (pr_OutputPerMillion mp) (Fin 0)
      then Some ''quota.model_prices must not be negative''
      else price_checks mps)"

definition validateQuotaConfig :: "QuotaConfig \<Rightarrow> string option" where
  "validateQuotaConfig cfg =
     (if qu_Backend cfg \<noteq> [] \<and> qu_Backend cfg \<noteq> ''memory'' then Some ''quota.backend is reserved; only memory is implemented''
      else if qu_DSN cfg \<noteq> [] then Some ''quota.dsn is reserved; durable quota backends are not implemented''
      else if f_less (qu_DefaultBudget cfg) (Fin 0) then Some ''quota.default_budget must not be negative''
      else if \<not> qu_Enabled cfg
      then first_error
        [(qu_Backend cfg \<noteq> [], ''quota.backend requires quota.enabled=true''),
         (f_less (Fin 0) (qu_DefaultBudget cfg), ''quota.default_budget requires quota.enabled=true''),
         (qu_ModelPrices cfg \<noteq> [], ''quota.model_prices requires quota.enabled=true'')]
      else price_checks (qu_ModelPrices cfg))"

definition IsLoopbackHost :: "string \<Rightarrow> bool" where
  "IsLoopbackHost host \<longleftrightarrow> host \<in> set [''127.0.0.1'', ''localhost'', ''::1'']"

definition validateAdminConfig :: "(string \<Rightarrow> string) \<Rightarrow> AdminConfig \<Rightarrow> bool \<Rightarrow> string option" where
  "validateAdminConfig getenv cfg requireSecretEnv =
     (if \<not> ad_Enabled cfg
      then first_error
        [(trim_space (ad_Address cfg) \<noteq> [] \<or> trim_space (ad_TokenEnv cfg) \<noteq> [],
            ''admin.address and admin.token_env require admin.enabled=true'')]
      else if trim_space (ad_Address cfg) = [] then Some ''admin.address must not be empty''
      else case SplitHostPort (ad_Address cfg) of
             None \<Rightarrow> Some ''admin.address must be host:port''
           | Some (host, port) \<Rightarrow> first_error
               [(trim_space port = [], ''admin.address must be host:port''),
                (\<not> IsLoopbackHost host, ''admin.address must bind to a loopback host''),
                (trim_space (ad_TokenEnv cfg) = [], ''admin.token_env must not be empty''),
                (requireSecretEnv \<and> getenv (ad_TokenEnv cfg) = [], ''environment variable for admin token is not set'')])"

definition rate_limit_check :: "rate_limit_section \<Rightarrow> string option" where
  "rate_limit_check r = first_error
     [(ra_Backend r = ''redis'', ''redis rate limiter backend is not implemented''),
      (ra_Backend r \<noteq> ''memory'', ''unsupported rate_limit backend''),
      (ra_DefaultRPM r < 0, ''rate_limit.default_rpm must not be negative''),
      (ra_DefaultRPM r = 0, ''rate_limit.default_rpm must be positive''),
      (ra_DefaultTPM r < 0, ''rate_limit.default_tpm must not be negative''),
      (ra_DefaultMaxConcurrency r < 0, ''rate_limit.default_max_concurrency must not be negative''),
      (ra_DefaultMaxConcurrency r = 0, ''rate_limit.default_max_concurrency must be positive''),
      (ra_RedisURL r \<noteq> [], ''rate_limit.redis_url is reserved; redis rate limiter backend is not implemented''),
      (\<not> ra_Enabled r, ''rate_limit.enabled must be true for the v0.2.1 runtime'')]"

definition kms_check :: "(string \<Rightarrow> string) \<Rightarrow> KMSConfig \<Rightarrow> bool \<Rightarrow> string option" where
  "kms_check getenv k requireSecretEnv = first_error
     [(km_Mode k = ''vault'', ''vault KMS backend is not implemented''),
      (km_Mode k \<noteq> ''local'', ''unsupported KMS mode''),
      (va_Address (km_Vault k) \<noteq> [] \<or> va_Path (km_Vault k) \<noteq> [] \<or> va_TokenEnv (km_Vault k) \<noteq> [],
         ''kms.vault is reserved; vault KMS backend is not implemented''),
      (lk_MasterKeyEnv (km_Local k) = [], ''local KMS requires master_key_env to be set''),
      (trim_space (lk_KeyStorePath (km_Local k)) = [], ''kms.local.key_store_path must not be empty''),
      (lk_MinimumEnvelopeVersion (km_Local k) \<noteq> 1 \<and> lk_MinimumEnvelopeVersion (km_Local k) \<noteq> 2,
         ''kms.local.minimum_envelope_version must be 1 or 2''),
      (requireSecretEnv \<and> getenv (lk_MasterKeyEnv (km_Local k)) = [], ''environment variable for master key is not set'')]"

definition auth_check :: "auth_section \<Rightarrow> string option" where
  "auth_check a = first_error
     [(au_TokenExpiry a \<le> 0, ''auth.token_expiry must be positive''),
      (au_TokenExpiry a > MaxTokenTTL, ''auth.token_expiry must not exceed the maximum supported lifetime''),
      (trim_space (au_Issuer a) = [], ''auth.issuer must not be empty''),
      (au_Issuer a \<noteq> trim_space (au_Issuer a), ''auth.issuer must not contain leading or trailing whitespace''),
      (MaxRevocableIdentifierBytes < length (au_Issuer a), ''auth.issuer is too long'')]"

text \<open>The first of a sequence of checks that fails.\<close>

primrec first_of :: "string option list \<Rightarrow> string option" where
  "first_of [] = None"
| "first_of (c # cs) = (case c of Some e \<Rightarrow> Some e | None \<Rightarrow> first_of cs)"

definition config_validate :: "(string \<Rightarrow> string) \<Rightarrow> Config \<Rightarrow> bool \<Rightarrow> string option" where
  "config_validate getenv c requireSecretEnv = first_of
     [ValidateServerConfig (cf_Server c),
      auth_check (cf_Auth c),
      ValidateRevocationConfig (au_Revocation (cf_Auth c)),
      ValidateEnabledProviderIDs (cf_Providers c),
      ValidateEnabledProviderModels (cf_Providers c),
      provider_checks (cf_Providers c),
      first_error
        [(filter pv_Enabled (cf_Providers c) = [], ''at least one provider must be enabled''),
         (eg_AllowedDomains (cf_Egress c) = [], ''egress.allowed_domains must contain at least one host'')],
      ValidateAllowlist (eg_AllowedDomains (cf_Egress c)),
      rate_limit_check (cf_RateLimit c),
      validateQuotaConfig (cf_Quota c),
      validateAdminConfig getenv (cf_Admin c) requireSecretEnv,
      first_error
        [(so_Type (cf_Store c) \<noteq> [] \<or> so_DSN (cf_Store c) \<noteq> [],
            ''store persistence config is reserved; control-plane store is not implemented'')],
      kms_check getenv (cf_KMS c) requireSecretEnv]"

text \<open>\<open>load\<close>: the files by path, where \<open>None\<close> is one that cannot be opened, and which default paths exist.\<close>

definition config_path :: "(string \<Rightarrow> bool) \<Rightarrow> string \<Rightarrow> string" where
  "config_path exists path =
     (if path \<noteq> [] then path
      else case find exists [''aegis.json'', ''/etc/aegis/aegis.json''] of None \<Rightarrow> [] | Some c \<Rightarrow> c)"

definition load ::
  "(string \<Rightarrow> string) \<Rightarrow> (string \<Rightarrow> parsed_url option) \<Rightarrow> (string \<Rightarrow> bool) \<Rightarrow> (string \<Rightarrow> config_file option)
     \<Rightarrow> string \<Rightarrow> bool \<Rightarrow> string + Config" where
  "load getenv url_Parse exists files path requireSecretEnv =
     (let path1 = config_path exists path;
          read_in = (if path1 = [] then Inr defaultConfig
            else case readBoundedConfigFile (files path1) of
                   Inl e \<Rightarrow> Inl e
                 | Inr data \<Rightarrow>
                     (case unmarshalStrict data defaultConfig of
                        Inl e \<Rightarrow> Inl e
                      | Inr cfg \<Rightarrow>
                          (case rejectReservedConfigFields data of
                             Some e \<Rightarrow> Inl e
                           | None \<Rightarrow> Inr (bindLegacyLoopbackAllowlistPorts url_Parse cfg))))
      in case read_in of
           Inl e \<Rightarrow> Inl e
         | Inr cfg \<Rightarrow> (case config_validate getenv cfg requireSecretEnv of Some e \<Rightarrow> Inl e | None \<Rightarrow> Inr cfg))"

section \<open>The scan against a reference\<close>

text \<open>
  What the scan is meant to accept: no two members of an object equal up to ASCII case, in a structure
  only its fields, and no null where a type is expected, at every depth.
\<close>

fun conforms :: "go_type option \<Rightarrow> json \<Rightarrow> bool" where
  "conforms t JNull \<longleftrightarrow> t = None"
| "conforms t (JObj ms) \<longleftrightarrow>
     distinct (map (\<lambda>m. asciiFoldJSONMember (fst m)) ms) \<and> (\<forall>m \<in> set ms. \<not> unknown_member t (fst m) \<and> conforms (member_type t (fst m)) (snd m))"
| "conforms t (JArr vs) \<longleftrightarrow> (\<forall>v \<in> set vs. conforms (jsonElementType t) v)"
| "conforms t _ \<longleftrightarrow> True"

lemma scan_array: "(\<And>v. v \<in> set vs \<Longrightarrow> scanJSONValue t v = None \<longleftrightarrow> conforms t v) \<Longrightarrow>
  scanJSONArray t vs = None \<longleftrightarrow> (\<forall>v \<in> set vs. conforms t v)"
  by (induction vs) (simp_all split: option.split, metis option.distinct(1))

lemma scan_object:
  assumes "\<And>m. m \<in> set ms \<Longrightarrow> scanJSONValue (member_type t (fst m)) (snd m) = None \<longleftrightarrow> conforms (member_type t (fst m)) (snd m)"
    and "seenFolded = map (\<lambda>n. (asciiFoldJSONMember n, n)) seen"
  shows "scanJSONObject t seen seenFolded unknown ms = None \<longleftrightarrow>
    \<not> unknown \<and> distinct (map (\<lambda>m. asciiFoldJSONMember (fst m)) ms) \<and> set (map (\<lambda>m. asciiFoldJSONMember (fst m)) ms) \<inter> asciiFoldJSONMember ` set seen = {} \<and>
    (\<forall>m \<in> set ms. \<not> unknown_member t (fst m) \<and> conforms (member_type t (fst m)) (snd m))"
  using assms
proof (induction ms arbitrary: seen seenFolded unknown)
  case (Cons m ms)
  obtain name v where m: "m = (name, v)" by fastforce
  have fresh: "map_of seenFolded (asciiFoldJSONMember name) = None \<longleftrightarrow> asciiFoldJSONMember name \<notin> asciiFoldJSONMember ` set seen"
    using Cons.prems(2) by (auto simp: map_of_eq_None_iff image_iff)
  have IH: "scanJSONObject t (name # seen) ((asciiFoldJSONMember name, name) # seenFolded) (unknown \<or> unknown_member t name) ms = None \<longleftrightarrow>
    \<not> (unknown \<or> unknown_member t name) \<and> distinct (map (\<lambda>m. asciiFoldJSONMember (fst m)) ms) \<and>
    set (map (\<lambda>m. asciiFoldJSONMember (fst m)) ms) \<inter> asciiFoldJSONMember ` set (name # seen) = {} \<and>
    (\<forall>m \<in> set ms. \<not> unknown_member t (fst m) \<and> conforms (member_type t (fst m)) (snd m))"
    by (rule Cons.IH) (use Cons.prems in auto)
  have v: "scanJSONValue (member_type t name) v = None \<longleftrightarrow> conforms (member_type t name) v"
    using Cons.prems(1) [of m] m by simp
  show ?case
  proof (cases "asciiFoldJSONMember name \<in> asciiFoldJSONMember ` set seen")
    case True
    then obtain n where n: "map_of seenFolded (asciiFoldJSONMember name) = Some n" using fresh by auto
    then have "n \<in> set seen" using Cons.prems(2) by (auto dest: map_of_SomeD)
    with True n show ?thesis by (auto simp: m Let_def)
  next
    case False
    then have "name \<notin> set seen" "map_of seenFolded (asciiFoldJSONMember name) = None" using fresh by auto
    with False IH v show ?thesis by (auto simp: m Let_def split: option.splits)
  qed
qed simp

text \<open>
  C28. The strict scan of a configuration accepts exactly the conforming values: at every depth every
  member of a structure names one of its fields, no two members are equal up to case, and nothing that
  has a type is null.
\<close>

theorem scan_equals_reference: "scanJSONValue t v = None \<longleftrightarrow> conforms t v"
proof (induction t v rule: conforms.induct)
  case (2 t ms)
  show ?case using scan_object [of ms t "[]" "[]" False] 2 by auto
next
  case (3 t vs)
  show ?case using scan_array [of vs "jsonElementType t"] 3 by simp
qed auto

section \<open>Binding loopback entries\<close>

lemma append_unique_facts:
  "set (append_unique e xs) = insert e (set xs)" "distinct xs \<Longrightarrow> distinct (append_unique e xs)"
  by (auto simp: append_unique_def)

lemma fold_append_unique:
  "set (fold append_unique es xs) = set es \<union> set xs \<and> (distinct xs \<longrightarrow> distinct (fold append_unique es xs))"
  by (induction es arbitrary: xs) (auto simp: append_unique_facts)

text \<open>
  What binding has to do, said over the providers and the parsed addresses: an entry is a bare loopback
  address (no zone, no port), an enabled provider's base URL is an HTTPS URL whose host is a loopback
  literal for the same address, and the new entry is that literal with the port of the URL.
\<close>

definition bound_from :: "(string \<Rightarrow> parsed_url option) \<Rightarrow> Provider list \<Rightarrow> string \<Rightarrow> string \<Rightarrow> bool" where
  "bound_from url_Parse providers entry new \<longleftrightarrow>
     (\<exists>address p endpoint.
        ParseAddr entry = Some address \<and> zone_of address = [] \<and> is_loopback address \<and>
        p \<in> set providers \<and> pv_Enabled p \<and> ParseHTTPSURL url_Parse (pv_BaseURL p) = Inr endpoint \<and>
        IPLiteral endpoint \<and> is_loopback (IP endpoint) \<and> unmap_addr (IP endpoint) = unmap_addr address \<and>
        new = JoinHostPort (addr_String (IP endpoint)) (Port endpoint))"

definition stays :: "(string \<Rightarrow> parsed_url option) \<Rightarrow> Provider list \<Rightarrow> string \<Rightarrow> bool" where
  "stays url_Parse providers entry \<longleftrightarrow> (\<nexists>new. bound_from url_Parse providers entry new)"

lemma provider_binding_Some:
  "provider_binding url_Parse address p = Some new \<longleftrightarrow>
     pv_Enabled p \<and> (\<exists>endpoint. ParseHTTPSURL url_Parse (pv_BaseURL p) = Inr endpoint \<and> IPLiteral endpoint \<and>
       is_loopback (IP endpoint) \<and> unmap_addr (IP endpoint) = address \<and>
       new = JoinHostPort (addr_String (IP endpoint)) (Port endpoint))"
  by (auto simp: provider_binding_def split: sum.splits)

lemma bind_entry_spec:
  "set (bind_entry url_Parse providers entry bound) = set bound \<union>
     (if stays url_Parse providers entry then {entry} else {new. bound_from url_Parse providers entry new})"
  "distinct bound \<Longrightarrow> distinct (bind_entry url_Parse providers entry bound)"
proof -
  have found: "set (List.map_filter f ps) = {y. \<exists>p \<in> set ps. f p = Some y}" for f :: "Provider \<Rightarrow> string option" and ps
    by (force simp: List.map_filter_def)
  show "distinct bound \<Longrightarrow> distinct (bind_entry url_Parse providers entry bound)"
    by (auto simp: bind_entry_def Let_def append_unique_facts fold_append_unique split: option.splits)
  show "set (bind_entry url_Parse providers entry bound) = set bound \<union>
     (if stays url_Parse providers entry then {entry} else {new. bound_from url_Parse providers entry new})"
  proof (cases "\<exists>a. ParseAddr entry = Some a \<and> zone_of a = [] \<and> is_loopback a")
    case False
    then have "bind_entry url_Parse providers entry bound = append_unique entry bound"
      by (auto simp: bind_entry_def split: option.split)
    moreover from False have "stays url_Parse providers entry" by (auto simp: stays_def bound_from_def)
    ultimately show ?thesis by (simp add: append_unique_facts)
  next
    case True
    then obtain a where a: "ParseAddr entry = Some a" "zone_of a = []" "is_loopback a" by blast
    let ?found = "List.map_filter (provider_binding url_Parse (unmap_addr a)) providers"
    have "set ?found = {new. bound_from url_Parse providers entry new}"
      using a by (auto simp: found bound_from_def provider_binding_Some)
    moreover from this have "stays url_Parse providers entry \<longleftrightarrow> ?found = []"
      by (auto simp: stays_def simp flip: set_empty)
    ultimately show ?thesis
      using a by (auto simp: bind_entry_def Let_def append_unique_facts fold_append_unique)
  qed
qed

lemma bind_all:
  "set (fold (bind_entry url_Parse providers) entries bound) = set bound
     \<union> {new. \<exists>entry \<in> set entries. bound_from url_Parse providers entry new}
     \<union> set (filter (stays url_Parse providers) entries)"
proof (induction entries arbitrary: bound)
  case (Cons e es)
  show ?case by (auto simp: Cons bind_entry_spec(1) stays_def)
qed simp

lemma bind_distinct: "distinct bound \<Longrightarrow> distinct (fold (bind_entry url_Parse providers) entries bound)"
  by (induction entries arbitrary: bound) (simp_all add: bind_entry_spec(2))

text \<open>
  C26. Binding loopback entries to ports is exact: the entries afterwards are, without repetition, the
  address and port of every enabled provider whose base URL names a loopback address that the file
  lists without a port, together with the entries of the file that no such provider matches. A bare
  loopback entry that a provider matches is gone, so that the other ports of the address stay closed.
\<close>

theorem loopback_binding_exact:
  "distinct (eg_AllowedDomains (cf_Egress (bindLegacyLoopbackAllowlistPorts url_Parse cfg))) \<and>
   set (eg_AllowedDomains (cf_Egress (bindLegacyLoopbackAllowlistPorts url_Parse cfg))) =
     {new. \<exists>entry \<in> set (eg_AllowedDomains (cf_Egress cfg)). bound_from url_Parse (cf_Providers cfg) entry new}
     \<union> set (filter (stays url_Parse (cf_Providers cfg)) (eg_AllowedDomains (cf_Egress cfg)))"
  by (simp add: bindLegacyLoopbackAllowlistPorts_def bind_distinct bind_all)

section \<open>What a loaded configuration guarantees\<close>

definition provider_ok :: "Provider \<Rightarrow> bool" where
  "provider_ok p \<longleftrightarrow>
     trim_space (pv_ID p) \<noteq> [] \<and> validateKeyID (pv_APIKeyID p) = None \<and> pv_Models p \<noteq> [] \<and> distinct (pv_Models p) \<and>
     (\<forall>m \<in> set (pv_Models p). m \<noteq> [] \<and> trim_space m = m) \<and> pv_MaxRPM p = 0 \<and> pv_MaxTPM p = 0"

definition finite_nonneg :: "float64 \<Rightarrow> bool" where
  "finite_nonneg x \<longleftrightarrow> (\<exists>r. x = Fin r \<and> 0 \<le> r)"

definition price_ok :: "ModelPriceConfig \<Rightarrow> bool" where
  "price_ok p \<longleftrightarrow> pr_Model p \<noteq> [] \<and> finite_nonneg (pr_InputPerMillion p) \<and> finite_nonneg (pr_OutputPerMillion p)"

definition server_ok :: "ServerConfig \<Rightarrow> bool" where
  "server_ok sv \<longleftrightarrow>
     sv_Address sv \<noteq> [] \<and> 0 < sv_ReadTimeout sv \<and> 0 < sv_WriteTimeout sv \<and> 0 < sv_ShutdownTimeout sv \<and>
     0 < sv_MaxRequestBodySize sv \<and> sv_MaxRequestBodySize sv \<le> 4194304 \<and>
     (tls_Enabled (sv_TLS sv) \<longrightarrow> tls_CertFile (sv_TLS sv) \<noteq> [] \<and> tls_KeyFile (sv_TLS sv) \<noteq> [])"

definition auth_ok :: "auth_section \<Rightarrow> bool" where
  "auth_ok au \<longleftrightarrow>
     0 < au_TokenExpiry au \<and> au_TokenExpiry au \<le> MaxTokenTTL \<and> au_Issuer au \<noteq> [] \<and> trim_space (au_Issuer au) = au_Issuer au \<and>
     length (au_Issuer au) \<le> MaxRevocableIdentifierBytes"

definition revocation_ok :: "RevocationConfig \<Rightarrow> bool" where
  "revocation_ok rv \<longleftrightarrow>
     rv_Backend rv = ''file'' \<and> rv_FilePath rv \<noteq> [] \<and> 0 < rv_RefreshInterval rv \<and> rv_RefreshInterval rv \<le> 5 * second"

definition rate_limit_ok :: "rate_limit_section \<Rightarrow> bool" where
  "rate_limit_ok ra \<longleftrightarrow>
     ra_Enabled ra \<and> ra_Backend ra = ''memory'' \<and> 0 < ra_DefaultRPM ra \<and> 0 \<le> ra_DefaultTPM ra \<and> 0 < ra_DefaultMaxConcurrency ra"

definition quota_ok :: "QuotaConfig \<Rightarrow> bool" where
  "quota_ok q \<longleftrightarrow> finite_nonneg (qu_DefaultBudget q) \<and> (\<forall>p \<in> set (qu_ModelPrices q). price_ok p)"

definition admin_ok :: "AdminConfig \<Rightarrow> bool" where
  "admin_ok ad \<longleftrightarrow> (ad_Enabled ad \<longrightarrow> (\<exists>host port. SplitHostPort (ad_Address ad) = Some (host, port) \<and> IsLoopbackHost host))"

definition kms_ok :: "KMSConfig \<Rightarrow> bool" where
  "kms_ok k \<longleftrightarrow>
     km_Mode k = ''local'' \<and> lk_MasterKeyEnv (km_Local k) \<noteq> [] \<and> lk_KeyStorePath (km_Local k) \<noteq> [] \<and>
     lk_MinimumEnvelopeVersion (km_Local k) \<in> {1, 2}"

definition well_formed_config :: "Config \<Rightarrow> bool" where
  "well_formed_config c \<longleftrightarrow>
     server_ok (cf_Server c) \<and> auth_ok (cf_Auth c) \<and> revocation_ok (au_Revocation (cf_Auth c)) \<and>
     filter pv_Enabled (cf_Providers c) \<noteq> [] \<and> distinct (map pv_ID (filter pv_Enabled (cf_Providers c))) \<and>
     (\<forall>p \<in> set (filter pv_Enabled (cf_Providers c)). provider_ok p) \<and>
     (\<exists>rules. ParseAllowlist (eg_AllowedDomains (cf_Egress c)) = Inr rules) \<and>
     rate_limit_ok (cf_RateLimit c) \<and> quota_ok (cf_Quota c) \<and> admin_ok (cf_Admin c) \<and> kms_ok (cf_KMS c)"

lemma first_error_None: "first_error cs = None \<longleftrightarrow> (\<forall>(failed, m) \<in> set cs. \<not> failed)"
  by (induction cs rule: first_error.induct) auto

declare first_error.simps [simp del]

lemma first_of_None: "first_of cs = None \<longleftrightarrow> (\<forall>c \<in> set cs. c = None)"
  by (induction cs) (auto split: option.splits)

lemma provider_ids_None:
  "provider_ids seen ps = None \<longleftrightarrow>
     distinct (map pv_ID (filter pv_Enabled ps)) \<and> set (map pv_ID (filter pv_Enabled ps)) \<inter> set seen = {} \<and>
     (\<forall>p \<in> set (filter pv_Enabled ps). trim_space (pv_ID p) \<noteq> [])"
  by (induction seen ps rule: provider_ids.induct) auto

lemma provider_models_None:
  "provider_models seen ms = None \<longleftrightarrow>
     distinct ms \<and> set ms \<inter> set seen = {} \<and> (\<forall>m \<in> set ms. m \<noteq> [] \<and> trim_space m = m)"
  by (induction seen ms rule: provider_models.induct) auto

lemma provider_models_all:
  "ValidateEnabledProviderModels ps = None \<longleftrightarrow>
     (\<forall>p \<in> set (filter pv_Enabled ps). pv_Models p \<noteq> [] \<and> distinct (pv_Models p) \<and> (\<forall>m \<in> set (pv_Models p). m \<noteq> [] \<and> trim_space m = m))"
proof (induction ps)
  case (Cons p ps)
  then show ?case using provider_models_None [of "[]" "pv_Models p"] by (auto split: option.split)
qed simp

lemma provider_checks_None: "provider_checks ps = None \<longleftrightarrow> (\<forall>p \<in> set (filter pv_Enabled ps). provider_check p = None)"
  by (induction ps) (auto split: option.splits)

lemma price_checks_None:
  "price_checks ps = None \<longleftrightarrow>
     (\<forall>p \<in> set ps. trim_space (pr_Model p) \<noteq> [] \<and> \<not> f_less (pr_InputPerMillion p) (Fin 0) \<and> \<not> f_less (pr_OutputPerMillion p) (Fin 0))"
  by (induction ps rule: price_checks.induct) auto

text \<open>Numbers of a JSON text decode to finite values.\<close>

definition is_fin :: "float64 \<Rightarrow> bool" where
  "is_fin x \<longleftrightarrow> (case x of Fin r \<Rightarrow> True | _ \<Rightarrow> False)"

definition quota_fin :: "QuotaConfig \<Rightarrow> bool" where
  "quota_fin q \<longleftrightarrow>
     is_fin (qu_DefaultBudget q) \<and> (\<forall>p \<in> set (qu_ModelPrices q). is_fin (pr_InputPerMillion p) \<and> is_fin (pr_OutputPerMillion p))"

lemma json_float_fin:
  assumes "json_float n = Some y"
  shows "is_fin y"
proof -
  have "Option.bind (json_float n) (\<lambda>y. if is_fin y then None else Some y) = None"
    unfolding json_float_def Let_def by (simp add: is_fin_def split: prod.split float64.split)
  with assms show ?thesis by (simp split: if_splits)
qed

lemma dec_float_fin: "dec_float v x = Some y \<Longrightarrow> is_fin x \<Longrightarrow> is_fin y"
  by (auto simp: dec_float_def json_float_fin split: json.splits)

lemma dec_members_keeps:
  "dec_members f ms a = Some b \<Longrightarrow> P a \<Longrightarrow> (\<And>m a b. f m a = Some b \<Longrightarrow> P a \<Longrightarrow> P b) \<Longrightarrow> P b"
  by (induction ms arbitrary: a) (auto split: option.splits)

lemma dec_struct_keeps:
  assumes "dec_struct table v a = Some b" and "P a"
    and "\<And>name dec w a b. (name, dec) \<in> set table \<Longrightarrow> dec w a = Some b \<Longrightarrow> P a \<Longrightarrow> P b"
  shows "P b"
proof (cases v)
  case (JObj ms)
  with assms(1) have "dec_members (dec_fields table) ms a = Some b" by (simp add: dec_struct_def)
  then show ?thesis
  proof (rule dec_members_keeps [of _ _ _ _ P, OF _ assms(2)])
    fix m a b assume "dec_fields table m a = Some b" "P a"
    then show "P b" using assms(3) by (auto simp: dec_fields_def split: option.splits dest!: map_of_SomeD)
  qed
qed (use assms in \<open>auto simp: dec_struct_def\<close>)

lemma dec_slice_all: "dec_slice dec v = Some xs \<Longrightarrow> (\<And>w x. dec w = Some x \<Longrightarrow> P x) \<Longrightarrow> \<forall>x \<in> set xs. P x"
proof (cases v)
  case (JArr vs)
  assume "dec_slice dec v = Some xs" and P: "\<And>w x. dec w = Some x \<Longrightarrow> P x"
  then have "dec_list dec vs = Some xs" by (simp add: dec_slice_def JArr)
  then show ?thesis by (induction vs arbitrary: xs) (auto split: option.splits dest: P)
qed (auto simp: dec_slice_def)

lemma dec_price_fin:
  assumes "dec_struct price_fields w zero_price = Some p"
  shows "is_fin (pr_InputPerMillion p) \<and> is_fin (pr_OutputPerMillion p)"
  by (rule dec_struct_keeps [where P = "\<lambda>p. is_fin (pr_InputPerMillion p) \<and> is_fin (pr_OutputPerMillion p)", OF assms])
    (auto simp: zero_price_def is_fin_def price_fields_def dec_float_fin [unfolded is_fin_def])

lemma dec_quota_fin:
  assumes "dec_struct quota_fields v q = Some q'" and "quota_fin q"
  shows "quota_fin q'"
proof (rule dec_struct_keeps [where P = quota_fin, OF assms])
  fix name dec w a b
  assume t: "(name, dec) \<in> set quota_fields" "dec w a = Some b" "quota_fin a"
  consider (prices) "name = ''model_prices''" | (budget) "name = ''default_budget''"
    | (other) "qu_DefaultBudget b = qu_DefaultBudget a" "qu_ModelPrices b = qu_ModelPrices a"
    using t by (auto simp: quota_fields_def)
  then show "quota_fin b"
  proof cases
    case prices
    then obtain xs where x: "dec_slice (\<lambda>w. dec_struct price_fields w zero_price) w = Some xs" "b = a\<lparr>qu_ModelPrices := xs\<rparr>"
      using t by (auto simp: quota_fields_def)
    have "\<forall>p \<in> set xs. is_fin (pr_InputPerMillion p) \<and> is_fin (pr_OutputPerMillion p)"
      by (rule dec_slice_all [OF x(1)]) (rule dec_price_fin)
    with t(3) x(2) show ?thesis by (simp add: quota_fin_def)
  next
    case budget
    then obtain x where "dec_float w (qu_DefaultBudget a) = Some x" "b = a\<lparr>qu_DefaultBudget := x\<rparr>"
      using t(1,2) by (auto simp: quota_fields_def)
    with t(3) show ?thesis by (simp add: quota_fin_def dec_float_fin)
  qed (use t in \<open>simp add: quota_fin_def\<close>)
qed

lemma unmarshal_quota_fin:
  assumes "unmarshalStrict data cfg = Inr c" and "quota_fin (cf_Quota cfg)"
  shows "quota_fin (cf_Quota c)"
proof -
  obtain v where "dec_struct config_fields v cfg = Some c"
    using assms(1) by (auto simp: unmarshalStrict_def split: option.splits)
  then show ?thesis using assms(2)
    by (rule dec_struct_keeps [where P = "\<lambda>c. quota_fin (cf_Quota c)"]) (auto simp: config_fields_def dest: dec_quota_fin)
qed

lemma fin_nonneg: "is_fin x \<Longrightarrow> \<not> f_less x (Fin 0) \<Longrightarrow> finite_nonneg x"
  by (cases x) (auto simp: is_fin_def finite_nonneg_def)

lemma trimmed_nonempty: "trim_space x \<noteq> [] \<Longrightarrow> x \<noteq> []"
  by auto

lemma section_checks:
  "ValidateServerConfig sv = None \<Longrightarrow> server_ok sv"
  "auth_check au = None \<Longrightarrow> auth_ok au"
  "ValidateRevocationConfig rv = None \<Longrightarrow> revocation_ok rv"
  "rate_limit_check ra = None \<Longrightarrow> rate_limit_ok ra"
  "kms_check getenv k req = None \<Longrightarrow> kms_ok k"
  "ValidateAllowlist ds = None \<Longrightarrow> \<exists>rules. ParseAllowlist ds = Inr rules"
  by (auto simp: ValidateServerConfig_def server_ok_def MaxRequestBodySizeLimit_def auth_check_def auth_ok_def ValidateRevocationConfig_def
      revocation_ok_def maxRevocationRefreshInterval_def rate_limit_check_def rate_limit_ok_def kms_check_def kms_ok_def ValidateAllowlist_def
      first_error_None split: sum.splits)

lemma quota_check_ok: "validateQuotaConfig q = None \<Longrightarrow> quota_fin q \<Longrightarrow> quota_ok q"
  by (auto simp: validateQuotaConfig_def quota_ok_def first_error_None price_checks_None quota_fin_def price_ok_def
      intro: fin_nonneg dest: trimmed_nonempty split: if_splits)

lemma admin_check_ok: "validateAdminConfig getenv ad req = None \<Longrightarrow> admin_ok ad"
  by (auto simp: validateAdminConfig_def admin_ok_def first_error_None split: if_splits option.splits)

lemma provider_check_ok: "provider_check p = None \<Longrightarrow> validateKeyID (pv_APIKeyID p) = None \<and> pv_MaxRPM p = 0 \<and> pv_MaxTPM p = 0"
  by (auto simp: provider_check_def first_error_None validateKeyID_def)

lemma provider_checks_ok:
  "ValidateEnabledProviderIDs ps = None \<Longrightarrow> ValidateEnabledProviderModels ps = None \<Longrightarrow> provider_checks ps = None \<Longrightarrow>
     distinct (map pv_ID (filter pv_Enabled ps)) \<and> (\<forall>p \<in> set (filter pv_Enabled ps). provider_ok p)"
  unfolding provider_ok_def ValidateEnabledProviderIDs_def provider_ids_None provider_models_all provider_checks_None
  using provider_check_ok by blast

lemma validate_well_formed:
  assumes "config_validate getenv c req = None" and "quota_fin (cf_Quota c)"
  shows "well_formed_config c"
proof -
  note checks = assms(1) [unfolded config_validate_def first_of_None, simplified]
  have "filter pv_Enabled (cf_Providers c) \<noteq> []" using checks by (auto simp: first_error.simps)
  with checks assms(2) show ?thesis
    unfolding well_formed_config_def
    by (intro conjI section_checks quota_check_ok admin_check_ok provider_checks_ok [THEN conjunct1] provider_checks_ok [THEN conjunct2]) blast+
qed

section \<open>A sample file\<close>

definition sample_json :: json where
  "sample_json = JObj
     [(''kms'', JObj [(''local'', JObj [(''key_store_path'', JStr ''keys'')])]),
      (''providers'', JArr [JObj [(''id'', JStr ''a''), (''type'', JStr ''openai''), (''base_url'', JStr ''https://api.x''), (''api_key_id'', JStr ''k''),
         (''models'', JArr [JStr ''m'']), (''enabled'', JBool True)]]),
      (''auth'', JObj [(''token_expiry'', JStr ''1h'')]),
      (''egress'', JObj [(''allowed_domains'', JArr [JStr ''*.y'', JStr ''api.x:8443''])])]"

definition sample_config_file :: config_file where
  "sample_config_file = \<lparr>fl_stat_fails = False, fl_kind = RegularFile, fl_perm = 384, fl_size = 300, fl_read = Some (json_print sample_json)\<rparr>"

lemma sample_duration: "ParseDuration ''1h'' = Some 3600000000000"
  by (simp add: ParseDuration_def duration_sum.simps duration_part_def duration_fraction_def duration_value_def duration_units_def fraction_ns_def number_byte_def is_digit_def in_range_def byte_val_def digit_val_def)

lemma sample_parsed: "json_parse (json_print sample_json) = Some sample_json"
  by (rule json_roundtrip) (simp_all add: sample_json_def valid_utf8_ascii byte_val_def maxNestingDepth_def)

lemma plain_escape: "list_all (\<lambda>c. byte_val c < 0x80 \<and> escape c = [c]) s \<Longrightarrow> quote_body s = s"
  by (induction s) (simp_all add: quote_body_ascii quote_body.simps [of "[]"])

lemma sample_length: "length (json_print sample_json) \<le> maxConfigFileBytes"
  by (simp add: sample_json_def maxConfigFileBytes_def quote_def plain_escape escape_def short_escape_def backslash_def dquote_def byte_val_def)

lemmas type_simps = tls_type_def server_type_def local_kms_type_def vault_type_def kms_type_def provider_type_def revocation_type_def
  auth_type_def rate_limit_type_def price_type_def quota_type_def admin_type_def store_type_def egress_type_def config_type_def
  authConfigJSON_def member_type_def unknown_member_def exactJSONFields_def jsonMapValueType_def jsonElementType_def asciiFoldJSONMember_def

lemma sample_scanned: "scanJSONValue (Some (GoPointer config_type)) sample_json = None"
  by (simp add: sample_json_def type_simps ascii_lower_def byte_val_def)

lemma sample_auth: "AuthConfig_UnmarshalJSON (JObj [(''token_expiry'', JStr ''1h'')]) a = Some (a\<lparr>au_TokenExpiry := 3600000000000\<rparr>)"
  by (simp add: AuthConfig_UnmarshalJSON_def type_simps dec_struct_def dec_fields_def auth_fields_def parseDuration_def sample_duration)

definition sample_config :: Config where
  "sample_config = defaultConfig\<lparr>cf_KMS := (cf_KMS defaultConfig)\<lparr>km_Local := (km_Local (cf_KMS defaultConfig))\<lparr>lk_KeyStorePath := ''keys''\<rparr>\<rparr>,
      cf_Providers := [zero_provider\<lparr>pv_ID := ''a'', pv_Type := ''openai'', pv_BaseURL := ''https://api.x'', pv_APIKeyID := ''k'', pv_Models := [''m''], pv_Enabled := True\<rparr>],
      cf_Auth := (cf_Auth defaultConfig)\<lparr>au_TokenExpiry := 3600000000000\<rparr>,
      cf_Egress := \<lparr>eg_AllowedDomains = [''*.y'', ''api.x:8443'']\<rparr>\<rparr>"

lemma dec_struct_JObj: "dec_struct table (JObj ms) r = dec_members (dec_fields table) ms r"
  by (simp add: dec_struct_def)

lemma dec_slice_JArr: "dec_slice dec (JArr vs) = dec_list dec vs"
  by (simp add: dec_slice_def)

lemma sample_decoded: "unmarshalStrict (json_print sample_json) defaultConfig = Inr sample_config"
  unfolding unmarshalStrict_def sample_parsed
  by (simp add: sample_scanned) (simp add: sample_json_def sample_config_def dec_struct_JObj dec_slice_JArr
    dec_fields_def config_fields_def kms_fields_def local_kms_fields_def provider_fields_def egress_fields_def
    sample_auth dec_strings_def dec_string_def dec_bool_def)

lemma sample_reserved: "rejectReservedConfigFields (json_print sample_json) = None"
  unfolding rejectReservedConfigFields_def sample_parsed
  by (simp add: sample_json_def raw_members_def has_reserved_def)

lemma sample_bound: "bindLegacyLoopbackAllowlistPorts url_Parse sample_config = sample_config"
  by (simp add: bindLegacyLoopbackAllowlistPorts_def sample_config_def bind_entry_def append_unique_def ParseAddr_def egress_eval)

lemma sample_valid: "config_validate getenv sample_config False = None"
  by (simp add: config_validate_def first_of_None first_error.simps ValidateServerConfig_def auth_check_def ValidateRevocationConfig_def
   ValidateEnabledProviderIDs_def provider_check_def ValidateAllowlist_def example_allowlist rate_limit_check_def validateQuotaConfig_def validateAdminConfig_def kms_check_def
   sample_config_def defaultConfig_def DefaultMaxRequestBodySize_def MaxRequestBodySizeLimit_def zero_tls_def zero_provider_def duration_defs maxRevocationRefreshInterval_def
   MaxTokenTTL_def max_int64_def ClockSkew_def MaxRevocableIdentifierBytes_def MaxKeyIDBytes_def trim_space_plain graphic_def byte_val_def)

section \<open>Loading\<close>

text \<open>
  C23. Every configuration that loads is well formed, whatever the file, the environment and the platform:
  positive timeouts and a body limit within four MiB, a token lifetime within the supported maximum, a
  trimmed issuer, distinct provider identifiers whose credentials the key store accepts as names and
  whose models are distinct and trimmed, an allowlist that parses, positive limits, finite non-negative
  prices and budget, an administration listener on loopback only, and a known envelope version.
\<close>

theorem loaded_config_well_formed:
  assumes "load getenv url_Parse exists files path requireSecretEnv = Inr cfg"
  shows "well_formed_config cfg"
proof -
  have fin: "quota_fin (cf_Quota defaultConfig)" by (simp add: quota_fin_def defaultConfig_def is_fin_def)
  have "quota_fin (cf_Quota cfg) \<and> config_validate getenv cfg requireSecretEnv = None"
    using assms unmarshal_quota_fin [OF _ fin] fin
    by (auto simp: load_def Let_def bindLegacyLoopbackAllowlistPorts_def split: sum.splits option.splits if_splits)
  then show ?thesis using validate_well_formed by blast
qed

theorem loaded_config_well_formed_witness:
  "load (\<lambda>_. []) (\<lambda>_. None) (\<lambda>_. False) (\<lambda>_. Some sample_config_file) ''aegis.json'' False = Inr sample_config \<and>
   well_formed_config sample_config"
proof -
  have "readBoundedConfigFile (Some sample_config_file) = Inr (json_print sample_json)"
    using sample_length by (simp add: readBoundedConfigFile_def sample_config_file_def maxConfigFileBytes_def)
  then have "load (\<lambda>_. []) (\<lambda>_. None) (\<lambda>_. False) (\<lambda>_. Some sample_config_file) ''aegis.json'' False = Inr sample_config"
    by (simp add: load_def config_path_def sample_decoded sample_reserved sample_bound sample_valid)
  with loaded_config_well_formed [OF this] show ?thesis by simp
qed

end
