(* ===== verification/Admin_Api.thy ===== *)
theory Admin_Api
  imports Gateway_Config Json_Stream Revocation_Log
begin

text \<open>
  The administration API, \<open>internal/admin/admin.go\<close>: routes behind the admin token that issue and revoke
  virtual keys and report usage. The handler runs over the packages \<open>virtualkey\<close>, \<open>revocation\<close> and \<open>quota\<close>
  of the library; SHA-256, HMAC, random bytes, the clock and the text of a \<open>float64\<close> are arguments.
\<close>

section \<open>The handler\<close>

definition MaxAdminRequestBytes :: nat where "MaxAdminRequestBytes = 65536"

definition adminAuthFailedError :: string where "adminAuthFailedError = ''admin authentication failed''"
definition adminIssueInvalid :: string where "adminIssueInvalid = ''invalid issue request''"
definition adminIssueFailed :: string where "adminIssueFailed = ''virtual key issuance failed''"
definition adminRevokeFailed :: string where "adminRevokeFailed = ''virtual key revocation failed''"
definition adminUsageUnavailable :: string where "adminUsageUnavailable = ''usage query unavailable''"

text \<open>The writer of revocations: its file, its lock timeout and what the system calls answer.\<close>

record KeyRevoker =
  kr_path :: string
  kr_timeout :: go_duration

record Services =
  as_SigningKey :: bytes
  as_Issuer :: string
  as_MaxTTL :: go_duration
  as_AllowedModels :: "string list"
  as_Revoker :: "KeyRevoker option"
  as_Quota :: "Manager option"

record Handler =
  ah_adminToken :: bytes
  ah_services :: Services

record admin_env =
  ae_sha :: "bytes \<Rightarrow> bytes"
  ae_hmac :: "bytes \<Rightarrow> bytes \<Rightarrow> bytes"
  ae_format :: "float64 \<Rightarrow> string"
  ae_random :: "bytes option"
  ae_now :: go_time
  ae_io :: rev_io
  ae_tries :: "flock list"

record admin_request =
  ar_Method :: string
  ar_Path :: "string list"
  ar_Token :: string
  ar_Body :: bytes
  ar_body_fails :: bool

record admin_response =
  rp_status :: int
  rp_body :: bytes

text \<open>What \<open>Close\<close> leaves in the two buffers, and the handler.\<close>

definition admin_Close :: "Handler \<Rightarrow> bytes \<times> bytes \<times> Handler" where
  "admin_Close h =
     (MemZero (ah_adminToken h), MemZero (as_SigningKey (ah_services h)),
      h\<lparr>ah_adminToken := [], ah_services := (ah_services h)\<lparr>as_SigningKey := []\<rparr>\<rparr>)"

text \<open>An encoder that fails has already sent the status.\<close>

definition writeJSON :: "int \<Rightarrow> json option \<Rightarrow> admin_response" where
  "writeJSON status data =
     \<lparr>rp_status = status, rp_body = (case data of None \<Rightarrow> [] | Some v \<Rightarrow> json_print v @ [CHR 0x0A])\<rparr>"

definition writeError :: "int \<Rightarrow> string \<Rightarrow> admin_response" where
  "writeError status message =
     writeJSON status (Some (JObj [(''error'', JObj [(''message'', JStr message), (''type'', JStr ''admin_error'')])]))"

definition constantTimeEqual :: "(bytes \<Rightarrow> bytes) \<Rightarrow> bytes \<Rightarrow> bytes \<Rightarrow> bool" where
  "constantTimeEqual sha a b \<longleftrightarrow> length a = length b \<and> sha a = sha b"

section \<open>Decoding a request\<close>

record issueVirtualKeyRequest =
  iv_Subject :: string
  iv_Models :: "string list"
  iv_TTL :: string
  iv_MaxRPM :: int
  iv_MaxTPM :: int
  iv_MaxConcurrency :: int
  iv_BudgetUSD :: float64

definition zero_issue :: issueVirtualKeyRequest where
  "zero_issue = \<lparr>iv_Subject = [], iv_Models = [], iv_TTL = [], iv_MaxRPM = 0, iv_MaxTPM = 0, iv_MaxConcurrency = 0, iv_BudgetUSD = f_zero\<rparr>"

definition issue_names :: "string list" where
  "issue_names = [''subject'', ''models'', ''ttl'', ''rpm'', ''tpm'', ''max_concurrency'', ''budget'']"

text \<open>Unknown members are refused; the second component is the array behind \<open>models\<close>.\<close>

definition dec_issue_member ::
  "string \<times> json \<Rightarrow> issueVirtualKeyRequest \<times> string list \<Rightarrow> (issueVirtualKeyRequest \<times> string list) option" where
  "dec_issue_member m st =
     (let (k, v) = m; (r, backing) = st
      in case find (\<lambda>name. json_key_is name k) issue_names of
           None \<Rightarrow> None
         | Some name \<Rightarrow>
             if name = ''subject'' then map_option (\<lambda>x. (r\<lparr>iv_Subject := x\<rparr>, backing)) (dec_string v (iv_Subject r))
             else if name = ''models'' then map_option (\<lambda>(xs, b). (r\<lparr>iv_Models := xs\<rparr>, b)) (dec_models v backing)
             else if name = ''ttl'' then map_option (\<lambda>x. (r\<lparr>iv_TTL := x\<rparr>, backing)) (dec_string v (iv_TTL r))
             else if name = ''rpm'' then map_option (\<lambda>x. (r\<lparr>iv_MaxRPM := x\<rparr>, backing)) (dec_int v (iv_MaxRPM r))
             else if name = ''tpm'' then map_option (\<lambda>x. (r\<lparr>iv_MaxTPM := x\<rparr>, backing)) (dec_int v (iv_MaxTPM r))
             else if name = ''max_concurrency'' then
               map_option (\<lambda>x. (r\<lparr>iv_MaxConcurrency := x\<rparr>, backing)) (dec_int v (iv_MaxConcurrency r))
             else map_option (\<lambda>x. (r\<lparr>iv_BudgetUSD := x\<rparr>, backing)) (dec_float v (iv_BudgetUSD r)))"

definition dec_issue :: "json \<Rightarrow> issueVirtualKeyRequest option" where
  "dec_issue v =
     (case v of
        JObj ms \<Rightarrow> map_option fst (dec_members dec_issue_member ms (zero_issue, []))
      | JNull \<Rightarrow> Some zero_issue
      | _ \<Rightarrow> None)"

text \<open>
  The bytes the limited reader delivers and whether it ends without an error. A second value is
  refused unless it is \<open>null\<close>, which leaves the variable it is decoded into as it was.
\<close>

definition limited_body :: "admin_request \<Rightarrow> bytes \<times> bool" where
  "limited_body r = (take MaxAdminRequestBytes (ar_Body r), length (ar_Body r) \<le> MaxAdminRequestBytes \<and> \<not> ar_body_fails r)"

definition extra_ok :: "bytes \<Rightarrow> bool \<Rightarrow> bool" where
  "extra_ok rest ends \<longleftrightarrow>
     (if skip_space rest = [] then ends
      else case decode_value (NewDecoder rest) of
             (None, d) \<Rightarrow> False
           | (Some raw, d) \<Rightarrow> (ends \<or> d_rest d \<noteq> []) \<and> json_parse raw = Some JNull)"

definition decodeAdminJSON :: "admin_request \<Rightarrow> issueVirtualKeyRequest option" where
  "decodeAdminJSON r =
     (case limited_body r of
        (data, ends) \<Rightarrow>
          (case decode_value (NewDecoder data) of
             (None, d) \<Rightarrow> None
           | (Some raw, d) \<Rightarrow>
               (case Option.bind (json_parse raw) dec_issue of
                  None \<Rightarrow> None
                | Some req \<Rightarrow> if extra_ok (d_rest d) ends then Some req else None)))"

definition modelsAllowed :: "string list \<Rightarrow> string list \<Rightarrow> bool" where
  "modelsAllowed requested allowed \<longleftrightarrow>
     (if allowed = [] then False else list_all (\<lambda>model. trim_space model \<in> set allowed) requested)"

section \<open>The operations\<close>

definition issue_ttl :: "string \<Rightarrow> go_duration option" where
  "issue_ttl ttl = (if trim_space ttl = [] then Some 0 else ParseDuration ttl)"

definition issue_options :: "admin_env \<Rightarrow> Services \<Rightarrow> issueVirtualKeyRequest \<Rightarrow> go_duration \<Rightarrow> IssueOptions" where
  "issue_options env s req ttl =
     \<lparr>o_KeyID = [], o_Subject = iv_Subject req, o_Models = iv_Models req, o_MaxRPM = iv_MaxRPM req, o_MaxTPM = iv_MaxTPM req,
      o_MaxConcurrency = iv_MaxConcurrency req, o_BudgetUSD = iv_BudgetUSD req, o_PoolGroup = [], o_TTL = ttl,
      o_MaxTTL = as_MaxTTL s, o_Issuer = as_Issuer s, o_Now = Some (ae_now env)\<rparr>"

definition issueVirtualKey :: "admin_env \<Rightarrow> Handler \<Rightarrow> admin_request \<Rightarrow> admin_response" where
  "issueVirtualKey env h r =
     (let s = ah_services h; invalid = writeError 400 adminIssueInvalid
      in if length (as_SigningKey s) < MinSigningKeyBytes then writeError 503 adminIssueFailed
         else case decodeAdminJSON r of
                None \<Rightarrow> invalid
              | Some req \<Rightarrow>
                  if trim_space (iv_Subject req) = [] \<or> iv_Models req = [] then invalid
                  else if \<not> modelsAllowed (iv_Models req) (as_AllowedModels s) then invalid
                  else (case issue_ttl (iv_TTL req) of
                          None \<Rightarrow> invalid
                        | Some ttl \<Rightarrow>
                            (case Issue (ae_hmac env) (ae_format env) (ae_random env) (ae_now env) (as_SigningKey s)
                                    (issue_options env s req ttl) of
                               Inl _ \<Rightarrow> invalid
                             | Inr (token, claims) \<Rightarrow>
                                 writeJSON 200 (Some (JObj
                                   [(''virtual_key'', JStr token), (''key_id'', JStr (c_KeyID claims)),
                                    (''expires_at'', JNum (format_int (c_ExpiresAt claims)))])))))"

definition revokeVirtualKey :: "admin_env \<Rightarrow> Handler \<Rightarrow> string \<Rightarrow> rev_fs \<Rightarrow> admin_response \<times> rev_fs" where
  "revokeVirtualKey env h pathID fs =
     (let s = ah_services h; keyID = trim_space pathID
      in case as_Revoker s of
           None \<Rightarrow> (writeError 503 adminRevokeFailed, fs)
         | Some w \<Rightarrow>
             if keyID = [] then (writeError 400 adminRevokeFailed, fs)
             else (case rev_Revoke (ae_sha env) (ae_io env) (ae_tries env) (kr_path w) (kr_timeout w) (as_Issuer s) keyID
                          (ae_now env) (as_MaxTTL s) fs of
                     (Inl _, fs1) \<Rightarrow> (writeError 503 adminRevokeFailed, fs1)
                   | (Inr _, fs1) \<Rightarrow> (\<lparr>rp_status = 204, rp_body = []\<rparr>, fs1)))"

definition getUsage :: "admin_env \<Rightarrow> Handler \<Rightarrow> string \<Rightarrow> admin_response" where
  "getUsage env h pathID =
     (let keyID = trim_space pathID
      in case as_Quota (ah_services h) of
           None \<Rightarrow> writeError 503 adminUsageUnavailable
         | Some m \<Rightarrow>
             if keyID = [] then writeError 400 adminUsageUnavailable
             else let usage = UsageOf (ae_now env) keyID m
                  in writeJSON 200
                       (case TotalCostUSD usage of
                          Fin x \<Rightarrow> Some (JObj [(''key_id'', JStr keyID), (''total_cost_usd'', JNum (ae_format env (Fin x))),
                            (''total_tokens'', JNum (format_int (TotalTokens usage))),
                            (''request_count'', JNum (format_int (RequestCount usage)))])
                        | _ \<Rightarrow> None))"

definition healthCheck :: admin_response where
  "healthCheck = writeJSON 200 (Some (JObj [(''service'', JStr ''aegis-admin''), (''status'', JStr ''ok'')]))"

definition registerBYOK :: admin_response where
  "registerBYOK = writeError 501 ''BYOK registration not yet implemented''"

definition deleteBYOK :: admin_response where
  "deleteBYOK = writeError 501 ''BYOK deletion not yet implemented''"

section \<open>Routes\<close>

text \<open>
  The patterns of \<open>RegisterRoutes\<close> over the segments of the path, as the multiplexer matches them: a
  pattern for GET also serves HEAD, an unknown method of a known path is 405, an unknown path is 404.
\<close>

datatype admin_route = IssueRoute | RevokeRoute string | RegisterBYOKRoute | DeleteBYOKRoute string | UsageRoute string | HealthRoute

definition method_is :: "string \<Rightarrow> string \<Rightarrow> bool" where
  "method_is pattern meth \<longleftrightarrow> meth = pattern \<or> (pattern = ''GET'' \<and> meth = ''HEAD'')"

fun path_routes :: "string list \<Rightarrow> (string \<times> admin_route) option" where
  "path_routes [a, b, c] =
     (if [a, b, c] = [''admin'', ''keys'', ''virtual''] then Some (''POST'', IssueRoute)
      else if [a, b, c] = [''admin'', ''keys'', ''byok''] then Some (''POST'', RegisterBYOKRoute)
      else if [a, b] = [''admin'', ''usage''] then Some (''GET'', UsageRoute c)
      else None)"
| "path_routes [a, b, c, d] =
     (if [a, b, c] = [''admin'', ''keys'', ''virtual''] then Some (''DELETE'', RevokeRoute d)
      else if [a, b, c] = [''admin'', ''keys'', ''byok''] then Some (''DELETE'', DeleteBYOKRoute d)
      else None)"
| "path_routes [a, b] = (if [a, b] = [''admin'', ''health''] then Some (''GET'', HealthRoute) else None)"
| "path_routes _ = None"

definition run_route :: "admin_env \<Rightarrow> Handler \<Rightarrow> admin_request \<Rightarrow> admin_route \<Rightarrow> rev_fs \<Rightarrow> admin_response \<times> rev_fs" where
  "run_route env h r route fs =
     (case route of
        IssueRoute \<Rightarrow> (issueVirtualKey env h r, fs)
      | RevokeRoute keyID \<Rightarrow> revokeVirtualKey env h keyID fs
      | RegisterBYOKRoute \<Rightarrow> (registerBYOK, fs)
      | DeleteBYOKRoute keyID \<Rightarrow> (deleteBYOK, fs)
      | UsageRoute keyID \<Rightarrow> (getUsage env h keyID, fs)
      | HealthRoute \<Rightarrow> (healthCheck, fs))"

definition authMiddleware ::
  "admin_env \<Rightarrow> Handler \<Rightarrow> admin_request \<Rightarrow> (rev_fs \<Rightarrow> admin_response \<times> rev_fs) \<Rightarrow> rev_fs \<Rightarrow> admin_response \<times> rev_fs" where
  "authMiddleware env h r handler fs =
     (if ar_Token r = [] then (writeError 401 adminAuthFailedError, fs)
      else if \<not> constantTimeEqual (ae_sha env) (ar_Token r) (ah_adminToken h) then (writeError 401 adminAuthFailedError, fs)
      else handler fs)"

text \<open>
  A request as the multiplexer hands it on: a route, a wrong method or an unknown path. The answers the
  multiplexer gives by itself to unclean paths, and the refusal of a draining server, come before it and
  reach no handler.
\<close>

definition serve_admin :: "admin_env \<Rightarrow> Handler \<Rightarrow> admin_request \<Rightarrow> rev_fs \<Rightarrow> admin_response \<times> rev_fs" where
  "serve_admin env h r fs =
     (case path_routes (ar_Path r) of
        None \<Rightarrow> (\<lparr>rp_status = 404, rp_body = ''404 page not found'' @ [CHR 0x0A]\<rparr>, fs)
      | Some (pattern, route) \<Rightarrow>
          if \<not> method_is pattern (ar_Method r) then (\<lparr>rp_status = 405, rp_body = ''Method Not Allowed'' @ [CHR 0x0A]\<rparr>, fs)
          else authMiddleware env h r (run_route env h r route) fs)"

section \<open>Lemmas\<close>

lemma normalize_loop_set: "normalize_loop ms seen acc = Inr xs \<Longrightarrow> set xs \<subseteq> set acc \<union> trim_space ` set ms"
  by (induction ms seen acc rule: normalize_loop.induct) (fastforce simp: Let_def split: if_splits)+

lemma normalizeModels_set: "normalizeModels ms = Inr xs \<Longrightarrow> set xs \<subseteq> trim_space ` set ms"
  using normalize_loop_set [of ms "{}" "[]" xs] by (auto simp: normalizeModels_def split: if_splits)

lemma error_status [simp]: "rp_status (writeError status m) = status" "rp_status (writeJSON status d) = status"
  by (simp_all add: writeError_def writeJSON_def)

lemma constantTimeEqual_Nil: "constantTimeEqual sha a [] \<Longrightarrow> a = []"
  by (simp add: constantTimeEqual_def)

lemma authorised:
  assumes "serve_admin env h r fs = (resp, fs')" and "rp_status resp \<notin> {401, 404, 405} \<or> fs' \<noteq> fs"
  obtains pattern route where "path_routes (ar_Path r) = Some (pattern, route)" and "method_is pattern (ar_Method r)"
    and "ar_Token r \<noteq> []" and "constantTimeEqual (ae_sha env) (ar_Token r) (ah_adminToken h)"
    and "run_route env h r route fs = (resp, fs')"
  using assms by (auto simp: serve_admin_def authMiddleware_def split: option.splits if_splits)

lemma issued_facts:
  assumes "rp_status (issueVirtualKey env h r) = 200"
  obtains req ttl token claims where "decodeAdminJSON r = Some req" and "modelsAllowed (iv_Models req) (as_AllowedModels (ah_services h))"
    and "Issue (ae_hmac env) (ae_format env) (ae_random env) (ae_now env) (as_SigningKey (ah_services h)) (issue_options env (ah_services h) req ttl)
      = Inr (token, claims)"
    and "rp_body (issueVirtualKey env h r) = json_print (JObj [(''virtual_key'', JStr token), (''key_id'', JStr (c_KeyID claims)),
          (''expires_at'', JNum (format_int (c_ExpiresAt claims)))]) @ [CHR 0x0A]"
proof -
  have ok: "\<not> length (as_SigningKey (ah_services h)) < MinSigningKeyBytes"
    using assms by (auto simp: issueVirtualKey_def Let_def)
  from assms ok obtain req where req: "decodeAdminJSON r = Some req" "\<not> (trim_space (iv_Subject req) = [] \<or> iv_Models req = [])"
      "modelsAllowed (iv_Models req) (as_AllowedModels (ah_services h))"
    by (auto simp: issueVirtualKey_def Let_def split: option.splits if_splits)
  from assms ok req obtain ttl where ttl: "issue_ttl (iv_TTL req) = Some ttl"
    by (auto simp: issueVirtualKey_def Let_def split: option.splits)
  from assms ok req ttl obtain token claims where i: "Issue (ae_hmac env) (ae_format env) (ae_random env) (ae_now env) (as_SigningKey (ah_services h))
      (issue_options env (ah_services h) req ttl) = Inr (token, claims)"
    by (auto simp: issueVirtualKey_def Let_def split: sum.splits)
  show thesis
    by (rule that [OF req(1,3) i]) (use ok req ttl i in \<open>simp add: issueVirtualKey_def Let_def writeJSON_def\<close>)
qed

lemma modelsAllowed_subset: "modelsAllowed ms allowed \<Longrightarrow> normalizeModels ms = Inr xs \<Longrightarrow> set xs \<subseteq> set allowed"
  using normalizeModels_set [of ms xs] by (auto simp: modelsAllowed_def list_all_iff split: if_splits)

section \<open>A sample handler\<close>

definition sample_issue_body :: bytes where
  "sample_issue_body =
     [CHR 0x7B, dquote] @ ''subject'' @ [dquote, CHR '':'', dquote, CHR ''s'', dquote, CHR '','', dquote] @ ''models''
     @ [dquote, CHR '':'', CHR ''['', dquote, CHR ''m'', dquote, CHR '']'', CHR 0x7D]"

definition sample_handler :: Handler where
  "sample_handler =
     \<lparr>ah_adminToken = replicate 32 (CHR ''t''),
      ah_services = \<lparr>as_SigningKey = replicate 32 (CHR ''k''), as_Issuer = ''i'', as_MaxTTL = 4 * second, as_AllowedModels = [''m''],
        as_Revoker = Some \<lparr>kr_path = ''p'', kr_timeout = second\<rparr>, as_Quota = None\<rparr>\<rparr>"

definition sample_env :: admin_env where
  "sample_env =
     \<lparr>ae_sha = (\<lambda>x. x), ae_hmac = (\<lambda>k m. ''mac''), ae_format = (\<lambda>x. ''0''), ae_random = Some [CHR 0x01], ae_now = 5 * second,
      ae_io = all_io, ae_tries = [FlockBusy, FlockOK]\<rparr>"

definition sample_admin_request :: "string \<Rightarrow> string list \<Rightarrow> bytes \<Rightarrow> admin_request" where
  "sample_admin_request meth path body =
     \<lparr>ar_Method = meth, ar_Path = path, ar_Token = replicate 32 (CHR ''t''), ar_Body = body, ar_body_fails = False\<rparr>"

lemma sample_scan: "scan_value (MVal, []) sample_issue_body = Some []"
  by code_simp

lemma sample_parse: "json_parse sample_issue_body = Some (JObj [(''subject'', JStr ''s''), (''models'', JArr [JStr ''m''])])"
  by code_simp

lemma sample_request:
  "decodeAdminJSON (sample_admin_request meth path sample_issue_body) = Some (zero_issue\<lparr>iv_Subject := ''s'', iv_Models := [''m'']\<rparr>)"
proof -
  have "skip_space sample_issue_body = sample_issue_body"
    by (simp add: skip_space_def sample_issue_body_def is_space_def)
  moreover have "limited_body (sample_admin_request meth path sample_issue_body) = (sample_issue_body, True)"
    by (simp add: limited_body_def sample_admin_request_def sample_issue_body_def MaxAdminRequestBytes_def)
  ultimately have "limited_body (sample_admin_request meth path sample_issue_body) = (sample_issue_body, True)"
     "decode_value (NewDecoder sample_issue_body) = (Some sample_issue_body, (NewDecoder sample_issue_body)\<lparr>d_rest := []\<rparr>)"
    by (simp_all add: decode_value_def NewDecoder_def tokenValueAllowed_def tokenValueEnd_def sample_scan)
  moreover have "dec_issue (JObj [(''subject'', JStr ''s''), (''models'', JArr [JStr ''m''])]) = Some (zero_issue\<lparr>iv_Subject := ''s'', iv_Models := [''m'']\<rparr>)"
    by (simp add: dec_issue_def dec_issue_member_def issue_names_def json_key_is_def ascii_upper_def dec_string_def dec_models_def)
  ultimately show ?thesis by (simp add: decodeAdminJSON_def sample_parse extra_ok_def skip_space_def NewDecoder_def)
qed

lemma sample_token:
  "\<exists>token claims. Issue (\<lambda>k m. ''mac'') (\<lambda>x. ''0'') (Some [CHR 0x01]) (5 * second) (replicate 32 (CHR ''k''))
     (issue_options sample_env (ah_services sample_handler) (zero_issue\<lparr>iv_Subject := ''s'', iv_Models := [''m'']\<rparr>) 0) = Inr (token, claims)"
  by (simp add: issue_options_def sample_env_def sample_handler_def zero_issue_def Issue_def Let_def vk_limits example_trim second_def
      normalizeModels_def max_int64_def generateKeyID_def sign_def marshal_claims_def unix_def length_b64_encode header_json_def claims_json_def
      length_quote_word word_char_def in_range_def byte_val_def format_int_def format_nat.simps b64_char_def b64_alphabet_def)

lemma sample_issued: "rp_status (issueVirtualKey sample_env sample_handler (sample_admin_request meth path sample_issue_body)) = 200"
proof -
  have h: "\<not> length (as_SigningKey (ah_services sample_handler)) < MinSigningKeyBytes" "modelsAllowed [''m''] (as_AllowedModels (ah_services sample_handler))"
      "as_SigningKey (ah_services sample_handler) = replicate 32 (CHR ''k'')"
    by (simp_all add: sample_handler_def vk_limits modelsAllowed_def example_trim)
  have e: "ae_hmac sample_env = (\<lambda>k m. ''mac'')" "ae_format sample_env = (\<lambda>x. ''0'')" "ae_random sample_env = Some [CHR 0x01]" "ae_now sample_env = 5 * second"
    by (simp_all add: sample_env_def)
  obtain token claims where i: "Issue (\<lambda>k m. ''mac'') (\<lambda>x. ''0'') (Some [CHR 0x01]) (5 * second) (replicate 32 (CHR ''k''))
     (issue_options sample_env (ah_services sample_handler) (zero_issue\<lparr>iv_Subject := ''s'', iv_Models := [''m'']\<rparr>) 0) = Inr (token, claims)"
    using sample_token by blast
  have "iv_TTL zero_issue = []" by (simp add: zero_issue_def)
  with h e i show ?thesis
    unfolding issueVirtualKey_def sample_request Let_def
    by (simp add: example_trim issue_ttl_def)
qed

section \<open>Properties\<close>

text \<open>
  C8. Nothing happens without the admin token: a request that is answered with anything but 401, 404 or
  405, or that changes the revocation file, carried a non-empty token of the same length and digest as
  the configured one. After \<open>Close\<close> the buffers of the token and the signing key are zero and every
  request is refused without an effect.
\<close>

theorem admin_effect_needs_token:
  assumes "serve_admin env h r fs = (resp, fs')" and "admin_Close h = (token, signing, h')"
  shows "(rp_status resp \<notin> {401, 404, 405} \<or> fs' \<noteq> fs \<longrightarrow>
           ar_Token r \<noteq> [] \<and> length (ar_Token r) = length (ah_adminToken h) \<and> ae_sha env (ar_Token r) = ae_sha env (ah_adminToken h)) \<and>
         set token \<subseteq> {CHR 0x00} \<and> set signing \<subseteq> {CHR 0x00} \<and>
         rp_status (fst (serve_admin env h' r fs)) \<in> {401, 404, 405} \<and> snd (serve_admin env h' r fs) = fs"
proof (intro conjI impI)
  assume "rp_status resp \<notin> {401, 404, 405} \<or> fs' \<noteq> fs"
  from authorised [OF assms(1) this] show "ar_Token r \<noteq> []" "length (ar_Token r) = length (ah_adminToken h)"
      "ae_sha env (ar_Token r) = ae_sha env (ah_adminToken h)"
    by (auto simp: constantTimeEqual_def)
next
  show "set token \<subseteq> {CHR 0x00}" "set signing \<subseteq> {CHR 0x00}" using assms(2) by (auto simp: admin_Close_def MemZero_def)
  have t: "ah_adminToken h' = []" using assms(2) by (auto simp: admin_Close_def)
  show "rp_status (fst (serve_admin env h' r fs)) \<in> {401, 404, 405}" "snd (serve_admin env h' r fs) = fs"
    using t by (auto simp: serve_admin_def authMiddleware_def constantTimeEqual_def split: option.split)
qed

text \<open>
  C21. A key issued over the API stays within what the operator configured: only models of the catalogue
  and at least one, pool credentials, the configured issuer, non-negative limits, and an expiry at most
  the configured maximum after now; the answer carries exactly the signed token, its identifier and its expiry.
\<close>

theorem issued_key_within_policy:
  assumes "serve_admin env h r fs = (resp, fs')" and "rp_status resp = 200" and "ar_Path r = [''admin'', ''keys'', ''virtual'']"
  shows "fs' = fs \<and> (\<exists>token claims.
    sign (ae_hmac env) (ae_format env) (as_SigningKey (ah_services h)) claims = Inr token \<and>
    rp_body resp = json_print (JObj [(''virtual_key'', JStr token), (''key_id'', JStr (c_KeyID claims)),
      (''expires_at'', JNum (format_int (c_ExpiresAt claims)))]) @ [CHR 0x0A] \<and>
    c_Models claims \<noteq> [] \<and> set (c_Models claims) \<subseteq> set (as_AllowedModels (ah_services h)) \<and>
    c_KeySource claims = KeySourcePool \<and> c_Issuer claims = trim_space (as_Issuer (ah_services h)) \<and> c_KeyID claims \<noteq> [] \<and>
    0 \<le> c_MaxRPM claims \<and> 0 \<le> c_MaxTPM claims \<and> 0 \<le> c_MaxConcurrency claims \<and>
    c_IssuedAt claims = unix (ae_now env) \<and> c_IssuedAt claims < c_ExpiresAt claims \<and>
    c_ExpiresAt claims \<le> unix (ae_now env + as_MaxTTL (ah_services h)))"
proof -
  have route: "path_routes (ar_Path r) = Some (''POST'', IssueRoute)" using assms(3) by simp
  from authorised [OF assms(1)] assms(2) route have run: "issueVirtualKey env h r = resp" "fs' = fs"
    by (auto simp: run_route_def)
  obtain req ttl token claims where i: "modelsAllowed (iv_Models req) (as_AllowedModels (ah_services h))"
      "Issue (ae_hmac env) (ae_format env) (ae_random env) (ae_now env) (as_SigningKey (ah_services h)) (issue_options env (ah_services h) req ttl)
        = Inr (token, claims)"
      "rp_body resp = json_print (JObj [(''virtual_key'', JStr token), (''key_id'', JStr (c_KeyID claims)),
        (''expires_at'', JNum (format_int (c_ExpiresAt claims)))]) @ [CHR 0x0A]"
    using issued_facts [of env h r] run(1) assms(2) by metis
  note f = Issue_facts [OF i(2)]
  define t where "t = (if ttl = 0 then as_MaxTTL (ah_services h) else ttl)"
  have t: "second \<le> t" "t \<le> as_MaxTTL (ah_services h)" "c_IssuedAt claims = unix (ae_now env)" "c_ExpiresAt claims = unix (ae_now env + t)"
      "c_Issuer claims = trim_space (as_Issuer (ah_services h))"
    using i(2) by (auto simp: Issue_def issue_options_def t_def Let_def split: if_splits sum.splits)
  have "unix (ae_now env + second) \<le> unix (ae_now env + t)" "unix (ae_now env + t) \<le> unix (ae_now env + as_MaxTTL (ah_services h))"
    by (rule unix_mono, use t in simp)+
  moreover have "unix (ae_now env + second) = unix (ae_now env) + 1" by (simp add: unix_def second_def)
  moreover have "normalizeModels (iv_Models req) = Inr (c_Models claims)" using f(13) by (simp add: issue_options_def)
  ultimately show ?thesis
    using run(2) i(3) f t modelsAllowed_subset [OF i(1)] normalizeModels_nonempty Issue_keyID [OF i(2)]
    by (intro conjI exI [of _ token] exI [of _ claims]) auto
qed

text \<open>
  C32. A revocation that the API answers with 204 is durable: whatever valid snapshot the file held, it
  now holds a valid one with a tombstone for the configured issuer and exactly this key, kept at least
  until every token of the configured lifetime has expired, and every live tombstone from before.
\<close>

theorem revoked_over_api_durable:
  assumes "serve_admin env h r fs = (resp, fs')" and "rp_status resp = 204" and "ar_Path r = [''admin'', ''keys'', ''virtual'', pathID]"
    and "holds fs s" and "valid_utf8 (as_Issuer (ah_services h))" and "valid_utf8 (trim_space pathID)"
    and "in_int64 (unix (ae_now env))" and "in_int64 (desiredRetention (ae_now env) (as_MaxTTL (ah_services h)))"
  shows "\<exists>s'. holds fs' s' \<and> keeps_live (unix (ae_now env)) (s_Entries s) (s_Entries s') \<and>
    tombstone (as_Issuer (ah_services h)) (trim_space pathID) (desiredRetention (ae_now env) (as_MaxTTL (ah_services h))) (s_Entries s')"
proof -
  have route: "path_routes (ar_Path r) = Some (''DELETE'', RevokeRoute pathID)" using assms(3) by simp
  from authorised [OF assms(1)] assms(2) route have run: "revokeVirtualKey env h pathID fs = (resp, fs')"
    by (auto simp: run_route_def)
  then obtain w where w: "as_Revoker (ah_services h) = Some w" "trim_space pathID \<noteq> []"
    using assms(2) by (cases "as_Revoker (ah_services h)") (auto simp: revokeVirtualKey_def Let_def split: if_splits)
  obtain res fs1 where v: "rev_Revoke (ae_sha env) (ae_io env) (ae_tries env) (kr_path w) (kr_timeout w) (as_Issuer (ah_services h))
      (trim_space pathID) (ae_now env) (as_MaxTTL (ah_services h)) fs = (res, fs1)" by fastforce
  obtain cr where "res = Inr cr" "fs1 = fs'" using run w v assms(2) by (cases res) (auto simp: revokeVirtualKey_def Let_def)
  with v have "rev_Revoke (ae_sha env) (ae_io env) (ae_tries env) (kr_path w) (kr_timeout w) (as_Issuer (ah_services h))
      (trim_space pathID) (ae_now env) (as_MaxTTL (ah_services h)) fs = (Inr cr, fs')" by simp
  from revoke_success [OF assms(4) this assms(5-8)] show ?thesis by metis
qed

text \<open>The properties on the sample handler.\<close>

abbreviation empty_fs :: rev_fs where "empty_fs \<equiv> \<lparr>fs_dir = None, fs_file = None\<rparr>"

theorem admin_effect_needs_token_witness:
  "let r = sample_admin_request ''GET'' [''admin'', ''health''] []; h' = snd (snd (admin_Close sample_handler))
   in rp_status (fst (serve_admin sample_env sample_handler r empty_fs)) = 200 \<and> length (ar_Token r) = 32 \<and>
      rp_status (fst (serve_admin sample_env h' r empty_fs)) \<in> {401, 404, 405}"
proof -
  let ?r = "sample_admin_request ''GET'' [''admin'', ''health''] []"
  obtain resp fs' where s: "serve_admin sample_env sample_handler ?r empty_fs = (resp, fs')" by fastforce
  obtain tok sig h' where c: "admin_Close sample_handler = (tok, sig, h')" by (metis prod_cases3)
  have "rp_status (fst (serve_admin sample_env sample_handler ?r empty_fs)) = 200"
    by (simp add: serve_admin_def sample_admin_request_def method_is_def authMiddleware_def constantTimeEqual_def sample_handler_def run_route_def
        healthCheck_def sample_env_def)
  with admin_effect_needs_token [OF s c] s c show ?thesis by (simp add: Let_def sample_handler_def)
qed

theorem issued_key_within_policy_witness:
  "let r = sample_admin_request ''POST'' [''admin'', ''keys'', ''virtual''] sample_issue_body
   in rp_status (fst (serve_admin sample_env sample_handler r empty_fs)) = 200 \<and>
      (\<exists>token claims. sign (ae_hmac sample_env) (ae_format sample_env) (as_SigningKey (ah_services sample_handler)) claims = Inr token \<and>
         set (c_Models claims) \<subseteq> {''m''} \<and> c_ExpiresAt claims \<le> 9)"
proof -
  let ?r = "sample_admin_request ''POST'' [''admin'', ''keys'', ''virtual''] sample_issue_body"
  obtain resp fs' where s: "serve_admin sample_env sample_handler ?r empty_fs = (resp, fs')" by fastforce
  have "ar_Path ?r = [''admin'', ''keys'', ''virtual'']" "ar_Method ?r = ''POST''" "ar_Token ?r = ah_adminToken sample_handler" "ah_adminToken sample_handler \<noteq> []"
    by (simp_all add: sample_admin_request_def sample_handler_def)
  then have "serve_admin sample_env sample_handler ?r empty_fs = (issueVirtualKey sample_env sample_handler ?r, empty_fs)"
    by (simp add: serve_admin_def method_is_def authMiddleware_def constantTimeEqual_def run_route_def)
  then have "rp_status (fst (serve_admin sample_env sample_handler ?r empty_fs)) = 200" by (simp add: sample_issued)
  moreover have "ar_Path ?r = [''admin'', ''keys'', ''virtual'']" by (simp add: sample_admin_request_def)
  moreover have "unix (ae_now sample_env + as_MaxTTL (ah_services sample_handler)) = 9" "as_AllowedModels (ah_services sample_handler) = [''m'']"
    by (simp_all add: sample_env_def sample_handler_def unix_def second_def)
  ultimately show ?thesis using issued_key_within_policy [OF s] s by (fastforce simp: Let_def)
qed

theorem revoked_over_api_durable_witness:
  "\<exists>s'. holds (example_fs example_next) s' \<and> tombstone ''i'' ''vk'' 69 (s_Entries s')"
proof -
  let ?r = "sample_admin_request ''DELETE'' [''admin'', ''keys'', ''virtual'', ''vk''] []"
  have r: "serve_admin sample_env sample_handler ?r (example_fs example_snapshot) = (\<lparr>rp_status = 204, rp_body = []\<rparr>, example_fs example_next)"
    using example_revoke [of "\<lambda>x. x"]
    by (simp add: serve_admin_def sample_admin_request_def method_is_def authMiddleware_def constantTimeEqual_def sample_handler_def run_route_def
        revokeVirtualKey_def sample_env_def example_trim)
  have h: "as_Issuer (ah_services sample_handler) = ''i''" "as_MaxTTL (ah_services sample_handler) = 4 * second" "ae_now sample_env = 5 * second"
      "ar_Path ?r = [''admin'', ''keys'', ''virtual'', ''vk'']" "trim_space ''vk'' = ''vk''"
    by (simp_all add: sample_handler_def sample_env_def sample_admin_request_def example_trim)
  from revoked_over_api_durable [OF r _ h(4) example_holds] example_bounds
  have "\<exists>s'. holds (example_fs example_next) s' \<and> tombstone ''i'' ''vk'' (desiredRetention (5 * second) (4 * second)) (s_Entries s')"
    by (auto simp: h)
  then show ?thesis by (simp add: desiredRetention_def revocationClockSkew_def unix_def second_def)
qed

end
