(* ===== verification/Tls_Material.thy ===== *)
theory Tls_Material
  imports Gateway_Config
begin

text \<open>
  The TLS material of the data-plane listener: \<open>buildTLSConfig\<close>, \<open>readTLSFile\<close> and \<open>parseTLSKeyPair\<close> of
  \<open>internal/server/server.go\<close>. Each operation also reports what is left of the buffers that held PEM
  text when it returns. Opening a file and parsing certificates are parameters.
\<close>

section \<open>Files and parsing\<close>

definition maxTLSCertificatePEMBytes :: nat where "maxTLSCertificatePEMBytes = 1048576"
definition maxTLSPrivateKeyPEMBytes :: nat where "maxTLSPrivateKeyPEMBytes = 1048576"
definition maxTLSCAPEMBytes :: nat where "maxTLSCAPEMBytes = 4194304"

text \<open>
  An opened file: what \<open>Stat\<close> says, the bytes a reader would get and whether reading fails after them.
  The parameters: the file under a path, \<open>None\<close> when it cannot be opened or is a link, the pool of
  certificates in a text, and the certificate of a pair of texts.
\<close>

record tls_file =
  tf_stat_fails :: bool
  tf_kind :: file_kind
  tf_perm :: "9 word"
  tf_size :: int
  tf_data :: bytes
  tf_read_fails :: bool

record tls_env =
  te_open :: "string \<Rightarrow> tls_file option"
  te_AppendCertsFromPEM :: "bytes \<Rightarrow> string option"
  te_X509KeyPair :: "bytes \<Rightarrow> bytes \<Rightarrow> string option"

record tls_settings =
  ts_MinVersion :: nat
  ts_ClientCAs :: "string option"
  ts_RequireAndVerifyClientCert :: bool
  ts_Certificates :: "string list"

definition VersionTLS13 :: nat where "VersionTLS13 = 0x304"

definition readTLSFile :: "tls_file option \<Rightarrow> nat \<Rightarrow> 9 word \<Rightarrow> (string + bytes) \<times> bytes" where
  "readTLSFile file maxBytes disallowedPermissions =
     (case file of
        None \<Rightarrow> (Inl ''opening file'', [])
      | Some f \<Rightarrow>
          if tf_stat_fails f then (Inl ''checking file'', [])
          else if tf_kind f \<noteq> RegularFile then (Inl ''file must be a regular file'', [])
          else if and (tf_perm f) disallowedPermissions \<noteq> 0 then (Inl ''file permissions are unsafe'', [])
          else if tf_size f < 0 \<or> tf_size f > int maxBytes then (Inl ''file exceeds the size limit'', [])
          else let contents = take (maxBytes + 1) (tf_data f)
               in if tf_read_fails f then (Inl ''reading file'', MemZero contents)
                  else if length contents > maxBytes then (Inl ''file exceeds the size limit'', MemZero contents)
                  else (Inr contents, contents))"

definition parseTLSKeyPair :: "tls_env \<Rightarrow> bytes \<Rightarrow> bytes \<Rightarrow> (string + string) \<times> bytes" where
  "parseTLSKeyPair env certPEM keyPEM =
     (case te_X509KeyPair env certPEM keyPEM of
        None \<Rightarrow> (Inl ''parsing TLS certificate and private key'', MemZero keyPEM)
      | Some keyPair \<Rightarrow> (Inr keyPair, MemZero keyPEM))"

text \<open>The two halves of \<open>buildTLSConfig\<close>; the deferred zeroing shows in the buffers.\<close>

definition client_ca :: "tls_env \<Rightarrow> TLSConfig \<Rightarrow> (string + string option) \<times> bytes list" where
  "client_ca env tls =
     (if tls_CAFile tls = [] then (Inr None, [])
      else case readTLSFile (te_open env (tls_CAFile tls)) maxTLSCAPEMBytes 18 of
             (Inl e, left) \<Rightarrow> (Inl e, [left])
           | (Inr caCert, buf) \<Rightarrow>
               (case te_AppendCertsFromPEM env caCert of
                  None \<Rightarrow> (Inl ''failed to parse CA certificate'', [MemZero buf])
                | Some caPool \<Rightarrow> (Inr (Some caPool), [MemZero buf])))"

definition key_pair :: "tls_env \<Rightarrow> TLSConfig \<Rightarrow> (string + string list) \<times> bytes list" where
  "key_pair env tls =
     (if tls_CertFile tls = [] \<and> tls_KeyFile tls = [] then (Inr [], [])
      else case readTLSFile (te_open env (tls_CertFile tls)) maxTLSCertificatePEMBytes 18 of
             (Inl e, left) \<Rightarrow> (Inl e, [left])
           | (Inr certPEM, buf) \<Rightarrow>
               (case readTLSFile (te_open env (tls_KeyFile tls)) maxTLSPrivateKeyPEMBytes 63 of
                  (Inl e, left) \<Rightarrow> (Inl e, [left, MemZero buf])
                | (Inr keyPEM, _) \<Rightarrow>
                    (case parseTLSKeyPair env certPEM keyPEM of
                       (Inl e, left) \<Rightarrow> (Inl e, [left, MemZero buf])
                     | (Inr keyPair, left) \<Rightarrow> (Inr [keyPair], [left, MemZero buf]))))"

definition buildTLSConfig :: "tls_env \<Rightarrow> TLSConfig \<Rightarrow> (string + tls_settings) \<times> bytes list" where
  "buildTLSConfig env tls =
     (case client_ca env tls of
        (Inl e, left) \<Rightarrow> (Inl e, left)
      | (Inr caPool, left) \<Rightarrow>
          (case key_pair env tls of
             (Inl e, left2) \<Rightarrow> (Inl e, left @ left2)
           | (Inr certificates, left2) \<Rightarrow>
               (Inr \<lparr>ts_MinVersion = VersionTLS13, ts_ClientCAs = caPool, ts_RequireAndVerifyClientCert = (caPool \<noteq> None),
                     ts_Certificates = certificates\<rparr>, left @ left2)))"

section \<open>What the material guarantees\<close>

text \<open>A file that may be used: regular, without the permissions that are disallowed, within the limit.\<close>

definition tls_file_ok :: "tls_file option \<Rightarrow> nat \<Rightarrow> 9 word \<Rightarrow> bool" where
  "tls_file_ok file maxBytes disallowed \<longleftrightarrow>
     (\<exists>f. file = Some f \<and> tf_kind f = RegularFile \<and> and (tf_perm f) disallowed = 0 \<and> length (tf_data f) \<le> maxBytes)"

lemma readTLSFile_ok:
  "readTLSFile file maxBytes disallowed = (Inr contents, left) \<Longrightarrow>
     tls_file_ok file maxBytes disallowed \<and> (\<exists>f. file = Some f \<and> contents = tf_data f)"
  by (auto simp: readTLSFile_def tls_file_ok_def Let_def split: option.splits if_splits)

lemma readTLSFile_wiped: "readTLSFile file maxBytes disallowed = (Inl e, left) \<Longrightarrow> zeroed left"
  by (auto simp: readTLSFile_def Let_def zeroed_def [of "[]"] split: option.splits if_splits)

lemma client_ca_wiped: "list_all zeroed (snd (client_ca env tls))"
  by (auto simp: client_ca_def dest: readTLSFile_wiped split: prod.splits sum.splits option.splits)

lemma key_pair_wiped: "list_all zeroed (snd (key_pair env tls))"
  by (auto simp: key_pair_def parseTLSKeyPair_def dest: readTLSFile_wiped split: prod.splits sum.splits option.splits)

lemma buildTLSConfig_wiped: "list_all zeroed (snd (buildTLSConfig env tls))"
  using client_ca_wiped [of env tls] key_pair_wiped [of env tls]
  by (auto simp: buildTLSConfig_def split: prod.splits sum.splits)

definition tls_enforced :: "tls_env \<Rightarrow> TLSConfig \<Rightarrow> tls_settings \<Rightarrow> bool" where
  "tls_enforced env tls t \<longleftrightarrow>
     ts_MinVersion t = VersionTLS13 \<and>
     (tls_CAFile tls \<noteq> [] \<longrightarrow>
        tls_file_ok (te_open env (tls_CAFile tls)) maxTLSCAPEMBytes 18 \<and> ts_RequireAndVerifyClientCert t \<and> ts_ClientCAs t \<noteq> None) \<and>
     (tls_CertFile tls \<noteq> [] \<or> tls_KeyFile tls \<noteq> [] \<longrightarrow>
        tls_file_ok (te_open env (tls_CertFile tls)) maxTLSCertificatePEMBytes 18 \<and>
        tls_file_ok (te_open env (tls_KeyFile tls)) maxTLSPrivateKeyPEMBytes 63 \<and> ts_Certificates t \<noteq> [])"

lemma buildTLSConfig_enforced: "buildTLSConfig env tls = (Inr t, left) \<Longrightarrow> tls_enforced env tls t"
  by (auto simp: buildTLSConfig_def client_ca_def key_pair_def parseTLSKeyPair_def tls_enforced_def dest!: readTLSFile_ok
      split: prod.splits sum.splits option.splits if_splits)

end
