(* ===== verification/Gateway_Startup.thy ===== *)
theory Gateway_Startup
  imports Gateway Admin_Api Tls_Material
begin

text \<open>
  From a configuration to a running gateway: \<open>internal/kms/factory/factory.go\<close>, the construction of
  the runtime in \<open>internal/runtime/runtime.go\<close>, and \<open>New\<close> of \<open>internal/server/server.go\<close> as far as it
  can refuse. The start works on a memory: the list of all buffers that were allocated for a secret,
  in the order of their allocation. Every step appends its buffers, zeroing overwrites them in place,
  and the memory is part of the result, so that a secret that is not wiped is still there.
\<close>

section \<open>The key store a configuration names\<close>

type_synonym key_backend = "MemoryBackend + FileBackend"

definition either_backend :: "key_backend Backend" where
  "either_backend =
     \<lparr>be_Get = (\<lambda>keyID b. case b of Inl m \<Rightarrow> apsnd Inl (mem_Get keyID m) | Inr d \<Rightarrow> apsnd Inr (file_Get keyID d)),
      be_Put = (\<lambda>keyID x b. case b of Inl m \<Rightarrow> apsnd Inl (mem_Put keyID x m) | Inr d \<Rightarrow> apsnd Inr (file_Put keyID x d)),
      be_Delete = (\<lambda>keyID b. case b of Inl m \<Rightarrow> apsnd Inl (mem_Delete keyID m) | Inr d \<Rightarrow> apsnd Inr (file_Delete keyID d)),
      be_List = (\<lambda>b. case b of Inl m \<Rightarrow> apsnd Inl (mem_List m) | Inr d \<Rightarrow> apsnd Inr (file_List d))\<rparr>"

definition either_blobs :: "key_backend \<Rightarrow> string \<rightharpoonup> bytes" where
  "either_blobs b = (case b of Inl m \<Rightarrow> map_of m | Inr d \<Rightarrow> dir_blobs d)"

definition either_inv :: "key_backend \<Rightarrow> bool" where
  "either_inv b = (case b of Inl m \<Rightarrow> mem_inv m | Inr d \<Rightarrow> dir_inv d)"

datatype startup_error = ConfigRefused string | KMSRefused kms_error | RevocationRefused rev_error | PreflightFailed

definition minimumEnvelopeVersion :: "int \<Rightarrow> int" where
  "minimumEnvelopeVersion configured = (if configured = 0 then 1 else configured)"

text \<open>What the factory needs of the outside: the environment and the directory of the key store.\<close>

record startup_env =
  su_getenv :: "string \<Rightarrow> string"
  su_url :: "string \<Rightarrow> parsed_url option"
  su_dir_info :: "dir_info option"
  su_dir :: FileBackend
  su_gcm :: gcm
  su_sha :: "bytes \<Rightarrow> bytes"
  su_io :: rev_io
  su_now :: go_time
  su_fs :: rev_fs
  su_registry :: AdapterRegistry
  su_tls :: tls_env

definition refused_store :: "(kms_error + 'b Store) \<times> bytes list \<Rightarrow> (startup_error + 'b Store) \<times> bytes list" where
  "refused_store = apfst (\<lambda>r. case r of Inl e \<Rightarrow> Inl (KMSRefused e) | Inr s \<Rightarrow> Inr s)"

definition factory_New :: "startup_env \<Rightarrow> KMSConfig \<Rightarrow> (startup_error + key_backend Store) \<times> bytes list" where
  "factory_New env cfg =
     (if km_Mode cfg = ''local'' then
        (case (if lk_KeyStorePath (km_Local cfg) = [] then Inr (Inl NewMemoryBackend)
               else case NewFileBackend (lk_KeyStorePath (km_Local cfg)) (su_dir_info env) (su_dir env) of
                      Inl e \<Rightarrow> Inl e
                    | Inr d \<Rightarrow> Inr (Inr d)) of
           Inl e \<Rightarrow> (Inl (KMSRefused e), [])
         | Inr backend \<Rightarrow>
             refused_store (NewWithMinimumEnvelopeVersion (su_getenv env) (lk_MasterKeyEnv (km_Local cfg)) (Some backend)
               (minimumEnvelopeVersion (lk_MinimumEnvelopeVersion (km_Local cfg)))))
      else if km_Mode cfg = ''vault'' then (Inl (ConfigRefused ''vault KMS backend is not implemented''), [])
      else (Inl (ConfigRefused ''unsupported KMS mode''), []))"

definition NewOperatorStore :: "startup_env \<Rightarrow> KMSConfig \<Rightarrow> (startup_error + FileBackend Store) \<times> bytes list" where
  "NewOperatorStore env cfg =
     (if km_Mode cfg \<noteq> ''local'' then (Inl (ConfigRefused ''operator KMS requires local mode''), [])
      else if trim_space (lk_KeyStorePath (km_Local cfg)) = []
      then (Inl (ConfigRefused ''operator KMS requires kms.local.key_store_path''), [])
      else case NewFileBackend (lk_KeyStorePath (km_Local cfg)) (su_dir_info env) (su_dir env) of
             Inl e \<Rightarrow> (Inl (KMSRefused e), [])
           | Inr d \<Rightarrow>
               refused_store (NewWithMinimumEnvelopeVersion (su_getenv env) (lk_MasterKeyEnv (km_Local cfg)) (Some d)
                 (minimumEnvelopeVersion (lk_MinimumEnvelopeVersion (km_Local cfg)))))"

section \<open>Checks of the runtime\<close>

definition IsSupportedProviderType :: "string \<Rightarrow> bool" where
  "IsSupportedProviderType t \<longleftrightarrow> t \<in> set [''openai'', ''deepseek'', ''anthropic'', ''google'', ''azure'', ''openrouter'']"

definition channel_of :: "Provider \<Rightarrow> providerChannel" where
  "channel_of p =
     \<lparr>pc_ID = pv_ID p, pc_Name = pv_Name p, pc_Type = pv_Type p, pc_BaseURL = pv_BaseURL p, pc_KeyID = pv_APIKeyID p,
      pc_Models = pv_Models p, pc_Weight = pv_Weight p, pc_Priority = pv_Priority p, pc_APIVersion = pv_APIVersion p,
      pc_Enabled = pv_Enabled p\<rparr>"

fun provider_loop ::
  "(string \<Rightarrow> parsed_url option) \<Rightarrow> Rule list \<Rightarrow> Provider list
     \<Rightarrow> providerChannel list \<times> (string \<rightharpoonup> string) \<times> (string \<rightharpoonup> string)
     \<Rightarrow> string + providerChannel list \<times> (string \<rightharpoonup> string) \<times> (string \<rightharpoonup> string)" where
  "provider_loop url_Parse rules [] acc = Inr acc"
| "provider_loop url_Parse rules (p # ps) (channels, poolKeyMapping, providerTypes) =
     (if \<not> pv_Enabled p then provider_loop url_Parse rules ps (channels, poolKeyMapping, providerTypes)
      else if pv_ID p = [] then Inl ''enabled provider has empty id''
      else if \<not> IsSupportedProviderType (pv_Type p) then Inl ''provider type is not implemented''
      else case ParseHTTPSURL url_Parse (pv_BaseURL p) of
             Inl e \<Rightarrow> Inl e
           | Inr endpoint \<Rightarrow>
               if \<not> EndpointAllowed endpoint rules then Inl ''base_url endpoint is not in egress.allowed_domains''
               else provider_loop url_Parse rules ps
                      (channels @ [channel_of p], poolKeyMapping(pv_ID p \<mapsto> pv_APIKeyID p), providerTypes(pv_ID p \<mapsto> pv_Type p)))"

definition providerRuntime ::
  "(string \<Rightarrow> parsed_url option) \<Rightarrow> Config \<Rightarrow> string + providerChannel list \<times> (string \<rightharpoonup> string) \<times> (string \<rightharpoonup> string)" where
  "providerRuntime url_Parse cfg =
     (case first_of [ValidateEnabledProviderIDs (cf_Providers cfg), ValidateEnabledProviderModels (cf_Providers cfg)] of
        Some e \<Rightarrow> Inl e
      | None \<Rightarrow>
          (case ParseAllowlist (eg_AllowedDomains (cf_Egress cfg)) of
             Inl e \<Rightarrow> Inl e
           | Inr rules \<Rightarrow>
               (case provider_loop url_Parse rules (cf_Providers cfg) ([], Map.empty, Map.empty) of
                  Inl e \<Rightarrow> Inl e
                | Inr (channels, mapping, types) \<Rightarrow>
                    if channels = [] then Inl ''at least one provider must be enabled'' else Inr (channels, mapping, types))))"

definition enabledProviderModels :: "Config \<Rightarrow> string list" where
  "enabledProviderModels cfg = concat (map pv_Models (filter pv_Enabled (cf_Providers cfg)))"

definition price_of :: "ModelPriceConfig \<Rightarrow> ModelPricing" where
  "price_of p = \<lparr>mp_Model = pr_Model p, InputPerMillion = pr_InputPerMillion p, OutputPerMillion = pr_OutputPerMillion p\<rparr>"

definition applyQuotaPrices :: "Config \<Rightarrow> PricingTable \<Rightarrow> PricingTable" where
  "applyQuotaPrices cfg table = fold pt_Set (map price_of (qu_ModelPrices (cf_Quota cfg))) table"

definition overlayPricingTable :: "Config \<Rightarrow> PricingTable" where
  "overlayPricingTable cfg = applyQuotaPrices cfg NewPricingTable"

definition validateQuotaPricing :: "Config \<Rightarrow> string option" where
  "validateQuotaPricing cfg =
     (if RequireModels (overlayPricingTable cfg) (enabledProviderModels cfg) \<noteq> None then Some ''quota model pricing is incomplete'' else None)"

definition validateRuntimeQuota :: "Config \<Rightarrow> string option" where
  "validateRuntimeQuota cfg =
     (let q = cf_Quota cfg
      in if qu_Backend q \<noteq> [] \<and> qu_Backend q \<noteq> ''memory'' then Some ''quota.backend is reserved; only memory is implemented''
         else if qu_DSN q \<noteq> [] then Some ''quota.dsn is reserved; durable quota backends are not implemented''
         else if f_less (qu_DefaultBudget q) (Fin 0) then Some ''quota.default_budget must not be negative''
         else if \<not> qu_Enabled q
         then first_error
           [(qu_Backend q \<noteq> [], ''quota.backend requires quota.enabled=true''),
            (f_less (Fin 0) (qu_DefaultBudget q), ''quota.default_budget requires quota.enabled=true'')]
         else validateQuotaPricing cfg)"

definition runtime_admin_check :: "(string \<Rightarrow> string) \<Rightarrow> AdminConfig \<Rightarrow> string option" where
  "runtime_admin_check getenv ad =
     (if \<not> ad_Enabled ad then None
      else case SplitHostPort (ad_Address ad) of
             None \<Rightarrow> Some ''admin.address must be host:port''
           | Some (host, port) \<Rightarrow> first_error
               [(trim_space port = [], ''admin.address must be host:port''),
                (\<not> IsLoopbackHost host, ''admin.address must bind to a loopback host''),
                (trim_space (ad_TokenEnv ad) = [], ''admin.token_env must not be empty''),
                (getenv (ad_TokenEnv ad) = [], ''environment variable for admin token is not set'')])"

fun provider_limits :: "Provider list \<Rightarrow> string option" where
  "provider_limits [] = None"
| "provider_limits (p # ps) =
     (if \<not> pv_Enabled p then provider_limits ps
      else if pv_MaxRPM p < 0 then Some ''max_rpm must not be negative''
      else if pv_MaxRPM p > 0 then Some ''max_rpm is reserved; provider RPM enforcement is not implemented''
      else if pv_MaxTPM p < 0 then Some ''max_tpm must not be negative''
      else if pv_MaxTPM p > 0 then Some ''max_tpm is reserved; TPM enforcement is not implemented''
      else provider_limits ps)"

definition validateRuntimeConfig :: "startup_env \<Rightarrow> Config \<Rightarrow> string option" where
  "validateRuntimeConfig env cfg = first_of
     [ValidateServerConfig (cf_Server cfg),
      auth_check (cf_Auth cfg),
      ValidateRevocationConfig (au_Revocation (cf_Auth cfg)),
      rate_limit_check (cf_RateLimit cfg),
      validateRuntimeQuota cfg,
      runtime_admin_check (su_getenv env) (cf_Admin cfg),
      first_error
        [(so_Type (cf_Store cfg) \<noteq> [] \<or> so_DSN (cf_Store cfg) \<noteq> [],
            ''store persistence config is reserved; control-plane store is not implemented''),
         (km_Mode (cf_KMS cfg) = ''local'' \<and> (va_Address (km_Vault (cf_KMS cfg)) \<noteq> [] \<or> va_Path (km_Vault (cf_KMS cfg)) \<noteq> []
            \<or> va_TokenEnv (km_Vault (cf_KMS cfg)) \<noteq> []), ''kms.vault is reserved; vault KMS backend is not implemented'')],
      provider_limits (cf_Providers cfg),
      (case providerRuntime (su_url env) cfg of Inl e \<Rightarrow> Some e | Inr _ \<Rightarrow> None),
      first_error
        [(km_Mode (cf_KMS cfg) = ''local'' \<and> trim_space (lk_KeyStorePath (km_Local (cf_KMS cfg))) = [],
            ''kms.local.key_store_path must not be empty'')]]"

section \<open>Secrets and credentials\<close>

definition loadSecretEnv :: "(string \<Rightarrow> string) \<Rightarrow> string \<Rightarrow> string + bytes" where
  "loadSecretEnv getenv envName =
     (if envName = [] then Inl ''env var name is empty''
      else if getenv envName = [] then Inl ''env var is not set''
      else Inr (getenv envName))"

text \<open>The key or the error, and the buffer the key was read into.\<close>

definition loadJWTSigningKeyEnv :: "(string \<Rightarrow> string) \<Rightarrow> string \<Rightarrow> (string + bytes) \<times> bytes" where
  "loadJWTSigningKeyEnv getenv envName =
     (case loadSecretEnv getenv envName of
        Inl e \<Rightarrow> (Inl e, [])
      | Inr key \<Rightarrow>
          if length key < MinSigningKeyBytes then (Inl ''JWT signing key is too short'', MemZero key) else (Inr key, key))"

text \<open>Whether all credentials are usable, what is left of the buffers they were decrypted into, and the store.\<close>

fun verify_loop ::
  "gcm \<Rightarrow> string list \<Rightarrow> providerChannel list \<Rightarrow> key_backend Store \<Rightarrow> bool \<times> bytes list \<times> key_backend Store" where
  "verify_loop G seen [] s = (True, [], s)"
| "verify_loop G seen (channel # channels) s =
     (if pc_KeyID channel \<in> set seen then verify_loop G seen channels s
      else case GetKey G either_backend (pc_KeyID channel) s of
             (Inl _, s1) \<Rightarrow> (False, [], s1)
           | (Inr credential, s1) \<Rightarrow>
               (let left = sb_mem (sb_Close credential)
                in if ValidateProviderCredentialHeaderValue (sb_Bytes credential) \<noteq> None then (False, [left], s1)
                   else (case verify_loop G (pc_KeyID channel # seen) channels s1 of
                           (ok, bufs, s2) \<Rightarrow> (ok, left # bufs, s2))))"

definition verifyProviderCredentials ::
  "gcm \<Rightarrow> providerChannel list \<Rightarrow> key_backend Store \<Rightarrow> bool \<times> bytes list \<times> key_backend Store" where
  "verifyProviderCredentials G channels s = verify_loop G [] channels s"

text \<open>
  In the memory of a start the master key of the store comes first and the signing key second. Closing
  the store overwrites the first; the runtime's resources are the signing key, zeroed first, and the store.
\<close>

abbreviation (input) master_buffer :: nat where "master_buffer \<equiv> 0"
abbreviation (input) signing_buffer :: nat where "signing_buffer \<equiv> 1"

definition wipe :: "nat \<Rightarrow> bytes list \<Rightarrow> bytes list" where
  "wipe a mem = mem[a := MemZero (mem ! a)]"

definition close_store :: "key_backend Store \<Rightarrow> bytes list \<Rightarrow> bytes list" where
  "close_store s mem = mem[master_buffer := fst (kms_Close s)]"

definition closeRuntimeResources :: "key_backend Store \<Rightarrow> bytes list \<Rightarrow> bytes list" where
  "closeRuntimeResources kmsProvider mem = close_store kmsProvider (wipe signing_buffer mem)"

section \<open>Building the server\<close>

definition newQuotaManager :: "Config \<Rightarrow> string + Manager option" where
  "newQuotaManager cfg =
     (if \<not> qu_Enabled (cf_Quota cfg) then Inr None
      else let m = NewManager NewMemoryStore (qu_DefaultBudget (cf_Quota cfg));
               m1 = m\<lparr>pricing := applyQuotaPrices cfg (pricing m)\<rparr>
           in if RequireModels (pricing m1) (enabledProviderModels cfg) \<noteq> None then Inl ''quota model pricing is incomplete''
              else Inr (Some m1))"

definition MinAdminTokenBytes :: nat where "MinAdminTokenBytes = 32"

text \<open>The handler or the error, and the buffers of the token and of the copy of the signing key.\<close>

definition newAdminHandler ::
  "(string \<Rightarrow> string) \<Rightarrow> Config \<Rightarrow> bytes \<Rightarrow> Manager option \<Rightarrow> (string + Handler) \<times> bytes list" where
  "newAdminHandler getenv cfg signingKey quotaManager =
     (case loadSecretEnv getenv (ad_TokenEnv (cf_Admin cfg)) of
        Inl e \<Rightarrow> (Inl e, [])
      | Inr token \<Rightarrow>
          if length token < MinAdminTokenBytes then (Inl ''admin token is too short'', [MemZero token])
          else let signingCopy = signingKey
               in (Inr \<lparr>ah_adminToken = token,
                        ah_services = \<lparr>as_SigningKey = signingCopy, as_Issuer = au_Issuer (cf_Auth cfg), as_MaxTTL = au_TokenExpiry (cf_Auth cfg),
                          as_AllowedModels = enabledProviderModels cfg,
                          as_Revoker = Some \<lparr>kr_path = rv_FilePath (au_Revocation (cf_Auth cfg)), kr_timeout = 2 * second\<rparr>,
                          as_Quota = quotaManager\<rparr>\<rparr>, [token, signingCopy]))"

text \<open>The last component says where in the memory the buffers of the administration handler start.\<close>

record aegis_server =
  srv_config :: Config
  srv_channels :: "providerChannel list"
  srv_pool :: "string \<rightharpoonup> string"
  srv_types :: "string \<rightharpoonup> string"
  srv_signing :: bytes
  srv_store :: "key_backend Store"
  srv_reader :: "readerState option"
  srv_quota :: "Manager option"
  srv_admin :: "Handler option"
  srv_admin_at :: nat

definition bindAdminListener :: "Config \<Rightarrow> Handler option \<Rightarrow> string option" where
  "bindAdminListener cfg admin =
     (if ad_Enabled (cf_Admin cfg)
      then (if admin = None then Some ''admin.enabled requires an admin handler'' else None)
      else if admin \<noteq> None then Some ''admin handler requires admin.enabled=true''
      else None)"

text \<open>Why \<open>server.New\<close> refuses, if it does, and the buffers of the TLS material it read.\<close>

definition server_New :: "startup_env \<Rightarrow> Config \<Rightarrow> Handler option \<Rightarrow> string option \<times> bytes list" where
  "server_New env cfg admin =
     (case first_of [ValidateServerConfig (cf_Server cfg), bindAdminListener cfg admin] of
        Some e \<Rightarrow> (Some e, [])
      | None \<Rightarrow>
          if \<not> tls_Enabled (sv_TLS (cf_Server cfg)) then (None, [])
          else case buildTLSConfig (su_tls env) (sv_TLS (cf_Server cfg)) of
                 (Inl e, bufs) \<Rightarrow> (Some e, bufs)
               | (Inr _, bufs) \<Rightarrow> (None, bufs))"

text \<open>Closing the administration handler overwrites its two buffers, the first at the given address.\<close>

definition close_admin :: "Handler option \<Rightarrow> nat \<Rightarrow> bytes list \<Rightarrow> bytes list" where
  "close_admin admin a mem =
     (case admin of
        None \<Rightarrow> mem
      | Some h \<Rightarrow> (case admin_Close h of (token, signing, _) \<Rightarrow> mem[a := token, Suc a := signing]))"

definition admin_step ::
  "(string \<Rightarrow> string) \<Rightarrow> Config \<Rightarrow> bytes \<Rightarrow> Manager option \<Rightarrow> (string + Handler option) \<times> bytes list" where
  "admin_step getenv cfg signingKey quotaManager =
     (if \<not> ad_Enabled (cf_Admin cfg) then (Inr None, [])
      else case newAdminHandler getenv cfg signingKey quotaManager of
             (Inl e, bufs) \<Rightarrow> (Inl e, bufs)
           | (Inr h, bufs) \<Rightarrow> (Inr (Some h), bufs))"

text \<open>The server or the error, and the memory.\<close>

definition newServer :: "startup_env \<Rightarrow> Config \<Rightarrow> (startup_error + aegis_server) \<times> bytes list" where
  "newServer env cfg =
     (case validateRuntimeConfig env cfg of
        Some e \<Rightarrow> (Inl (ConfigRefused e), [])
      | None \<Rightarrow>
     (case factory_New env (cf_KMS cfg) of
        (Inl e, mem) \<Rightarrow> (Inl e, mem)
      | (Inr kmsProvider, mem0) \<Rightarrow>
     (case loadJWTSigningKeyEnv (su_getenv env) (au_JWTSigningKeyEnv (cf_Auth cfg)) of
        (Inl e, key) \<Rightarrow> (Inl (ConfigRefused e), close_store kmsProvider (mem0 @ [key]))
      | (Inr signingKey, key) \<Rightarrow>
     (let mem1 = mem0 @ [key]
      in case NewReader (su_sha env) (su_io env) (su_now env) (rv_FilePath (au_Revocation (cf_Auth cfg)))
             (rv_RefreshInterval (au_Revocation (cf_Auth cfg))) (su_fs env) of
        Inl e \<Rightarrow> (Inl (RevocationRefused e), closeRuntimeResources kmsProvider mem1)
      | Inr reader \<Rightarrow>
     (case providerRuntime (su_url env) cfg of
        Inl e \<Rightarrow> (Inl (ConfigRefused e), closeRuntimeResources kmsProvider mem1)
      | Inr (channels, mapping, types) \<Rightarrow>
     (case verifyProviderCredentials (su_gcm env) channels kmsProvider of
        (False, bufs, store1) \<Rightarrow> (Inl PreflightFailed, closeRuntimeResources store1 (mem1 @ bufs))
      | (True, bufs, store1) \<Rightarrow>
     (let mem2 = mem1 @ bufs
      in case newQuotaManager cfg of
        Inl e \<Rightarrow> (Inl (ConfigRefused e), closeRuntimeResources store1 mem2)
      | Inr quotaManager \<Rightarrow>
     (case admin_step (su_getenv env) cfg signingKey quotaManager of
        (Inl e, bufs) \<Rightarrow> (Inl (ConfigRefused e), closeRuntimeResources store1 (mem2 @ bufs))
      | (Inr admin, bufs) \<Rightarrow>
     (let mem3 = mem2 @ bufs
      in case server_New env cfg admin of
        (Some e, bufs) \<Rightarrow>
          (Inl (ConfigRefused e), closeRuntimeResources store1 (close_admin admin (length mem2) (mem3 @ bufs)))
      | (None, bufs) \<Rightarrow>
          (Inr \<lparr>srv_config = cfg, srv_channels = channels, srv_pool = mapping, srv_types = types, srv_signing = signingKey,
                srv_store = store1, srv_reader = reader, srv_quota = quotaManager, srv_admin = admin, srv_admin_at = length mem2\<rparr>,
           mem3 @ bufs))))))))))"

text \<open>The key service of the chain, over the store as it is at each moment.\<close>

definition kms_provider :: "gcm \<Rightarrow> (nat \<Rightarrow> key_backend Store) \<Rightarrow> nat \<Rightarrow> string \<Rightarrow> kms_answer" where
  "kms_provider G stores n keyID =
     (case fst (GetKey G either_backend keyID (stores n)) of Inl _ \<Rightarrow> KeyError | Inr sb \<Rightarrow> KeyBytes (sb_Bytes sb))"

text \<open>The configuration of the chain, with the reader's and the store's present states.\<close>

definition runtime_of :: "startup_env \<Rightarrow> readerState option \<Rightarrow> (nat \<Rightarrow> key_backend Store) \<Rightarrow> aegis_server \<Rightarrow> runtime_config" where
  "runtime_of env reader stores srv =
     (let cfg = srv_config srv
      in \<lparr>cfg_auth = \<lparr>ac_SigningKey = srv_signing srv, ac_Issuer = au_Issuer (cf_Auth cfg), ac_Expiry = au_TokenExpiry (cf_Auth cfg),
            ac_Revocation = Some (\<lambda>cancelled issuer keyID. rev_Check cancelled issuer keyID reader)\<rparr>,
          cfg_rate_enabled = ra_Enabled (cf_RateLimit cfg),
          cfg_rate = \<lparr>rl_Backend = ra_Backend (cf_RateLimit cfg), rl_DefaultRPM = ra_DefaultRPM (cf_RateLimit cfg),
            rl_DefaultTPM = ra_DefaultTPM (cf_RateLimit cfg), rl_DefaultMaxConc = ra_DefaultMaxConcurrency (cf_RateLimit cfg),
            rl_MaxRequestBodySize = sv_MaxRequestBodySize (cf_Server cfg)\<rparr>,
          cfg_quota_enabled = qu_Enabled (cf_Quota cfg),
          cfg_quota_manager = (srv_quota srv \<noteq> None),
          cfg_channels = srv_channels srv,
          cfg_max_body = sv_MaxRequestBodySize (cf_Server cfg),
          cfg_kms = \<lparr>kc_Provider = Some (kms_provider (su_gcm env) stores), kc_PoolKeyMapping = srv_pool srv\<rparr>,
          cfg_registry = su_registry env,
          cfg_provider_types = srv_types srv,
          cfg_domains = eg_AllowedDomains (cf_Egress cfg)\<rparr>)"

section \<open>Lemmas\<close>

lemma either_simps [simp]:
  "be_Get either_backend keyID (Inl m) = apsnd Inl (be_Get memory_backend keyID m)"
  "be_Get either_backend keyID (Inr d) = apsnd Inr (be_Get file_backend keyID d)"
  "be_Put either_backend keyID x (Inl m) = apsnd Inl (be_Put memory_backend keyID x m)"
  "be_Put either_backend keyID x (Inr d) = apsnd Inr (be_Put file_backend keyID x d)"
  "be_Delete either_backend keyID (Inl m) = apsnd Inl (be_Delete memory_backend keyID m)"
  "be_Delete either_backend keyID (Inr d) = apsnd Inr (be_Delete file_backend keyID d)"
  "be_List either_backend (Inl m) = apsnd Inl (be_List memory_backend m)"
  "be_List either_backend (Inr d) = apsnd Inr (be_List file_backend d)"
  by (simp_all add: either_backend_def memory_backend_def file_backend_def)

lemma apsnd_eq: "apsnd f p = (a, b) \<longleftrightarrow> (\<exists>b'. p = (a, b') \<and> b = f b')"
  by (cases p) auto

interpretation either: blob_store either_backend either_blobs either_inv
proof unfold_locales
  fix b keyID r b'
  assume "either_inv b" "be_Get either_backend keyID b = (r, b')"
  then show "either_inv b' \<and> either_blobs b' = either_blobs b"
    using mem.get_frame disk.get_frame by (cases b) (auto simp: either_inv_def either_blobs_def apsnd_eq)
next
  fix b keyID x b'
  assume "either_inv b" "be_Get either_backend keyID b = (Inr x, b')"
  then show "either_blobs b keyID = Some x"
    using mem.get_found disk.get_found by (cases b) (auto simp: either_inv_def either_blobs_def apsnd_eq)
next
  fix b keyID b'
  assume "either_inv b" "validateKeyID keyID = None" "be_Get either_backend keyID b = (Inl ErrBackendNotFound, b')"
  then show "either_blobs b keyID = None"
    using mem.get_missing disk.get_missing by (cases b) (auto simp: either_inv_def either_blobs_def apsnd_eq)
next
  fix b keyID x b'
  assume "either_inv b" "validateKeyID keyID = None" "be_Put either_backend keyID x b = (None, b')"
  then show "either_inv b' \<and> either_blobs b' = (either_blobs b)(keyID \<mapsto> x)"
    using mem.put_done disk.put_done by (cases b) (auto simp: either_inv_def either_blobs_def apsnd_eq)
next
  fix b keyID x e b'
  assume "either_inv b" "validateKeyID keyID = None" "be_Put either_backend keyID x b = (Some e, b')"
  then show "either_inv b' \<and> (either_blobs b' = either_blobs b \<or> either_blobs b' = (either_blobs b)(keyID \<mapsto> x))"
    by (cases b) (simp_all add: either_inv_def either_blobs_def apsnd_eq, (metis mem.put_failed disk.put_failed sum.simps(5,6))+)
next
  fix b keyID b'
  assume "either_inv b" "validateKeyID keyID = None" "be_Delete either_backend keyID b = (None, b')"
  then show "either_inv b' \<and> either_blobs b' = (either_blobs b)(keyID := None)"
    using mem.delete_done disk.delete_done by (cases b) (auto simp: either_inv_def either_blobs_def apsnd_eq)
next
  fix b keyID e b'
  assume "either_inv b" "validateKeyID keyID = None" "be_Delete either_backend keyID b = (Some e, b')"
  then show "either_inv b' \<and> either_blobs b' = either_blobs b"
    using mem.delete_failed disk.delete_failed by (cases b) (auto simp: either_inv_def either_blobs_def apsnd_eq)
next
  fix b rs b'
  assume "either_inv b" "be_List either_backend b = (rs, b')"
  then show "either_inv b' \<and> either_blobs b' = either_blobs b"
    using mem.list_frame disk.list_frame by (cases b) (auto simp: either_inv_def either_blobs_def apsnd_eq)
next
  fix b ids b'
  assume "either_inv b" "be_List either_backend b = (Inr ids, b')"
  then show "distinct ids \<and> set ids = dom (either_blobs b)"
    using mem.list_found disk.list_found by (cases b) (simp_all add: either_inv_def either_blobs_def apsnd_eq, blast+)
next
  fix b keyID x
  assume "either_inv b" "either_blobs b keyID = Some x"
  then show "validateKeyID keyID = None"
    using mem.names_valid disk.names_valid by (cases b) (auto simp: either_inv_def either_blobs_def)
qed

lemma zeroed_Nil [simp]: "zeroed []"
  by (simp add: zeroed_def)

lemma NewStore_open:
  "NewWithMinimumEnvelopeVersion getenv name (Some b) m = (Inr s, mem) \<Longrightarrow>
     \<not> ks_closed s \<and> ks_backend s = b \<and> ks_minimum s = m \<and> ks_gcm s \<noteq> None \<and> mem = [ks_masterKey s] \<and> length (ks_masterKey s) = 32"
  by (auto simp: NewWithMinimumEnvelopeVersion_def newStoreFromMasterKey_def Let_def split: if_splits prod.splits)

lemma NewStore_wiped:
  "NewWithMinimumEnvelopeVersion getenv name b m = (Inl e, mem) \<Longrightarrow> list_all zeroed mem"
  by (auto simp: NewWithMinimumEnvelopeVersion_def newStoreFromMasterKey_def Let_def split: if_splits prod.splits option.splits)

lemma refused_store_cases:
  "refused_store x = (Inr s, mem) \<longleftrightarrow> x = (Inr s, mem)"
  "refused_store x = (Inl e, mem) \<longleftrightarrow> (\<exists>e'. e = KMSRefused e' \<and> x = (Inl e', mem))"
  by (cases x; auto simp: refused_store_def split: sum.splits)+

lemma factory_open:
  "factory_New env k = (Inr s, mem) \<Longrightarrow> \<not> ks_closed s \<and> mem = [ks_masterKey s] \<and> length (ks_masterKey s) = 32"
  by (auto simp: factory_New_def refused_store_cases dest: NewStore_open split: if_splits sum.splits)

lemma factory_wiped: "factory_New env k = (Inl e, mem) \<Longrightarrow> list_all zeroed mem"
  by (auto simp: factory_New_def refused_store_cases dest: NewStore_wiped split: if_splits sum.splits)

lemma GetKey_frame:
  "GetKey G ops keyID s = (r, s') \<Longrightarrow>
     ks_closed s' = ks_closed s \<and> ks_gcm s' = ks_gcm s \<and> ks_minimum s' = ks_minimum s \<and> ks_masterKey s' = ks_masterKey s"
  by (auto simp: GetKey_def split: if_splits prod.splits)

lemma GetKey_held: "GetKey G ops keyID s = (Inr sb, s') \<Longrightarrow> sb_held sb"
  by (auto simp: GetKey_def NewSecureBytes_def split: if_splits prod.splits sum.splits option.splits)

text \<open>Closing wipes the first two buffers; whatever else is in the memory has to be zero already.\<close>

lemma close_store_zeroed:
  "\<not> ks_closed s \<Longrightarrow> list_all zeroed rest \<Longrightarrow> list_all zeroed (close_store s (master # rest))"
  by (simp add: close_store_def kms_Close_def)

lemma closing_zeroed:
  "\<not> ks_closed s \<Longrightarrow> list_all zeroed rest \<Longrightarrow> list_all zeroed (closeRuntimeResources s (master # signing # rest))"
  by (simp add: closeRuntimeResources_def wipe_def close_store_zeroed)

lemma closing_lengths:
  "close_store s (master # rest) = fst (kms_Close s) # rest"
  "closeRuntimeResources s (master # signing # rest) = fst (kms_Close s) # MemZero signing # rest"
  by (simp_all add: close_store_def closeRuntimeResources_def wipe_def)

lemma kms_Close_length: "length (fst (kms_Close s)) = length (ks_masterKey s)"
  by (simp add: kms_Close_def)

definition admin_secrets :: "Handler option \<Rightarrow> bytes list" where
  "admin_secrets admin = (case admin of None \<Rightarrow> [] | Some h \<Rightarrow> [ah_adminToken h, as_SigningKey (ah_services h)])"

lemma close_admin_zeroed:
  assumes "list_all zeroed creds" and "list_all zeroed tls"
  shows "\<exists>rest. close_admin admin (Suc (Suc (length creds))) (m # k # creds @ admin_secrets admin @ tls) = m # k # rest
           \<and> list_all zeroed rest"
  using assms
  by (auto simp: close_admin_def admin_secrets_def admin_Close_def list_update_append nth_append split: option.split)

lemma verify_loop_wipes:
  "verify_loop G seen cs s = (ok, bufs, s') \<Longrightarrow>
     list_all zeroed bufs \<and> ks_closed s' = ks_closed s \<and> ks_masterKey s' = ks_masterKey s"
proof (induction G seen cs s arbitrary: ok bufs s' rule: verify_loop.induct)
  case (2 G seen c cs s)
  obtain r s1 where g: "GetKey G either_backend (pc_KeyID c) s = (r, s1)" by fastforce
  note k = GetKey_frame [OF g]
  consider (seen) "pc_KeyID c \<in> set seen" | (missing) e where "pc_KeyID c \<notin> set seen" "r = Inl e"
    | (found) sb where "pc_KeyID c \<notin> set seen" "r = Inr sb" by (cases r) auto
  then show ?case
  proof cases
    case seen
    with 2(1) "2.prems" show ?thesis by simp
  next
    case missing
    with "2.prems" g k show ?thesis by simp
  next
    case found
    have z: "zeroed (sb_mem (sb_Close sb))" using GetKey_held [OF g [unfolded found(2)]] by (simp add: sb_Close_def)
    obtain ok2 bufs2 s2 where v: "verify_loop G (pc_KeyID c # seen) cs s1 = (ok2, bufs2, s2)" by (metis prod_cases3)
    show ?thesis
    proof (cases "ValidateProviderCredentialHeaderValue (sb_Bytes sb)")
      case None
      from 2(2) [OF found(1) g [symmetric] found(2) refl] None v have "list_all zeroed bufs2 \<and> ks_closed s2 = ks_closed s1 \<and> ks_masterKey s2 = ks_masterKey s1" by simp
      with "2.prems" found g k z None v show ?thesis by auto
    qed (use "2.prems" found g k z in auto)
  qed
qed simp

lemma load_key_wiped: "loadJWTSigningKeyEnv getenv name = (Inl e, key) \<Longrightarrow> zeroed key"
  by (auto simp: loadJWTSigningKeyEnv_def split: sum.splits if_splits)

lemma load_key_length: "loadJWTSigningKeyEnv getenv name = (r, key) \<Longrightarrow> name \<noteq> [] \<Longrightarrow> length key = length (getenv name)"
  by (auto simp: loadJWTSigningKeyEnv_def loadSecretEnv_def split: if_splits)

lemma load_key_buffer: "loadJWTSigningKeyEnv getenv name = (Inr signing, key) \<Longrightarrow> key = signing"
  by (auto simp: loadJWTSigningKeyEnv_def split: sum.splits if_splits)

lemma admin_step_buffers:
  "admin_step getenv cfg signing q = (Inl e, bufs) \<Longrightarrow> list_all zeroed bufs"
  "admin_step getenv cfg signing q = (Inr admin, bufs) \<Longrightarrow> bufs = admin_secrets admin"
  by (auto simp: admin_step_def newAdminHandler_def admin_secrets_def Let_def split: sum.splits if_splits prod.splits)

lemma server_New_wiped: "server_New env cfg admin = (r, bufs) \<Longrightarrow> list_all zeroed bufs"
  using buildTLSConfig_wiped [of "su_tls env" "sv_TLS (cf_Server cfg)"]
  by (auto simp: server_New_def split: option.splits if_splits prod.splits sum.splits)

lemma verify_wipes:
  "verifyProviderCredentials G cs s = (ok, bufs, s') \<Longrightarrow>
     list_all zeroed bufs \<and> ks_closed s' = ks_closed s \<and> ks_masterKey s' = ks_masterKey s"
  by (simp add: verifyProviderCredentials_def verify_loop_wipes)

text \<open>The memory at the end of a start: everything is zero, or what is not zero belongs to the server.\<close>

definition memory_accounted :: "(startup_error + aegis_server) \<Rightarrow> bytes list \<Rightarrow> bool" where
  "memory_accounted res mem \<longleftrightarrow>
     (case res of
        Inl e \<Rightarrow> list_all zeroed mem
      | Inr srv \<Rightarrow>
          (\<exists>credentials tls. list_all zeroed credentials \<and> list_all zeroed tls \<and> srv_admin_at srv = length credentials + 2 \<and>
             mem = ks_masterKey (srv_store srv) # srv_signing srv # credentials @ admin_secrets (srv_admin srv) @ tls))"

lemma failed_close:
  assumes "\<not> ks_closed s" and "list_all zeroed rest"
  shows "memory_accounted (Inl e) (closeRuntimeResources s (m # k # rest))
    \<and> (\<exists>r. map length (closeRuntimeResources s (m # k # rest)) = length (ks_masterKey s) # length k # r)"
  using assms closing_zeroed [OF assms] by (simp add: memory_accounted_def closing_lengths kms_Close_length)

text \<open>The part of the start behind the preflight, and the part behind the signing key, on a memory that holds the two keys.\<close>

lemma last_steps:
  assumes s: "\<not> ks_closed store1" and bufs: "list_all zeroed bufs"
    and run: "(case newQuotaManager cfg of
        Inl e \<Rightarrow> (Inl (ConfigRefused e), closeRuntimeResources store1 (ks_masterKey store1 # signing # bufs))
      | Inr quotaManager \<Rightarrow>
     (case admin_step (su_getenv env) cfg signing quotaManager of
        (Inl e, bufs') \<Rightarrow> (Inl (ConfigRefused e), closeRuntimeResources store1 (ks_masterKey store1 # signing # bufs @ bufs'))
      | (Inr admin, bufs') \<Rightarrow>
     (case server_New env cfg admin of
        (Some e, tls) \<Rightarrow>
          (Inl (ConfigRefused e), closeRuntimeResources store1
             (close_admin admin (Suc (Suc (length bufs))) (ks_masterKey store1 # signing # bufs @ bufs' @ tls)))
      | (None, tls) \<Rightarrow>
          (Inr \<lparr>srv_config = cfg, srv_channels = channels, srv_pool = mapping, srv_types = types, srv_signing = signing,
                srv_store = store1, srv_reader = reader, srv_quota = quotaManager, srv_admin = admin,
                srv_admin_at = Suc (Suc (length bufs))\<rparr>,
           ks_masterKey store1 # signing # bufs @ bufs' @ tls)))) = (res, mem)"
  shows "memory_accounted res mem \<and> (\<exists>rest. map length mem = length (ks_masterKey store1) # length signing # rest)"
proof (cases "newQuotaManager cfg")
  case (Inl e)
  with run failed_close [OF s bufs] show ?thesis by auto
next
  case quota: (Inr q)
  obtain ra bufs' where a: "admin_step (su_getenv env) cfg signing q = (ra, bufs')" by fastforce
  show ?thesis
  proof (cases ra)
    case (Inl e)
    with a have "list_all zeroed (bufs @ bufs')" using admin_step_buffers(1) bufs by auto
    from failed_close [OF s this] run quota a Inl show ?thesis by auto
  next
    case admin: (Inr admin)
    with a have b: "bufs' = admin_secrets admin" using admin_step_buffers(2) by blast
    obtain rs tls where n: "server_New env cfg admin = (rs, tls)" by fastforce
    note tls = server_New_wiped [OF n]
    show ?thesis
    proof (cases rs)
      case None
      with run quota a admin n have mem: "mem = ks_masterKey store1 # signing # bufs @ admin_secrets admin @ tls"
        and "\<exists>srv. res = Inr srv \<and> srv_store srv = store1 \<and> srv_signing srv = signing \<and> srv_admin srv = admin
          \<and> srv_admin_at srv = length bufs + 2" by (auto simp: b)
      then obtain srv where srv: "res = Inr srv" "srv_store srv = store1" "srv_signing srv = signing" "srv_admin srv = admin"
        "srv_admin_at srv = length bufs + 2" by blast
      have "memory_accounted res mem" unfolding memory_accounted_def srv sum.case mem using bufs tls by blast
      then show ?thesis by (simp add: mem)
    next
      case (Some e)
      obtain rest where "close_admin admin (Suc (Suc (length bufs))) (ks_masterKey store1 # signing # bufs @ admin_secrets admin @ tls)
          = ks_masterKey store1 # signing # rest" "list_all zeroed rest"
        using close_admin_zeroed [OF bufs tls] by blast
      with failed_close [OF s this(2)] run quota a admin n Some show ?thesis by (auto simp: b)
    qed
  qed
qed

lemma late_steps:
  assumes run: "newServer env cfg = (res, mem)" and v: "validateRuntimeConfig env cfg = None"
    and f: "factory_New env (cf_KMS cfg) = (Inr store0, [ks_masterKey store0])" "\<not> ks_closed store0"
    and k: "loadJWTSigningKeyEnv (su_getenv env) (au_JWTSigningKeyEnv (cf_Auth cfg)) = (Inr signing, signing)"
  shows "memory_accounted res mem \<and> (\<exists>rest. map length mem = length (ks_masterKey store0) # length signing # rest)"
proof -
  have early: "memory_accounted (Inl e) (closeRuntimeResources store0 [ks_masterKey store0, signing])
    \<and> (\<exists>rest. map length (closeRuntimeResources store0 [ks_masterKey store0, signing]) = length (ks_masterKey store0) # length signing # rest)" for e
    using failed_close [OF f(2), of "[]"] by simp
  show ?thesis
  proof (cases "NewReader (su_sha env) (su_io env) (su_now env) (rv_FilePath (au_Revocation (cf_Auth cfg)))
             (rv_RefreshInterval (au_Revocation (cf_Auth cfg))) (su_fs env)")
    case (Inl e)
    with run v f k early show ?thesis by (auto simp: newServer_def Let_def)
  next
    case reader: (Inr reader)
    show ?thesis
    proof (cases "providerRuntime (su_url env) cfg")
      case (Inl e)
      with run v f k early reader show ?thesis by (auto simp: newServer_def Let_def)
    next
      case prov: (Inr rt)
      obtain channels mapping types where rt: "rt = (channels, mapping, types)" by (cases rt)
      obtain ok bufs store1 where c: "verifyProviderCredentials (su_gcm env) channels store0 = (ok, bufs, store1)" by (metis prod_cases3)
      note w = verify_wipes [OF c]
      show ?thesis
      proof (cases ok)
        case False
        with run v f k reader prov rt c w failed_close [of store1 bufs] show ?thesis by (auto simp: newServer_def Let_def)
      next
        case True
        have s1: "\<not> ks_closed store1" "list_all zeroed bufs" "ks_masterKey store1 = ks_masterKey store0" using w f(2) by simp_all
        show ?thesis
          unfolding s1(3) [symmetric]
          by (rule last_steps [OF s1(1,2), where cfg = cfg and env = env and channels = channels and mapping = mapping
                and types = types and reader = reader])
            (use run v f k reader prov rt c True s1(3) in \<open>simp add: newServer_def Let_def cong: sum.case_cong prod.case_cong option.case_cong\<close>)
      qed
    qed
  qed
qed

lemma start_memory:
  assumes "newServer env cfg = (res, mem)"
  shows "memory_accounted res mem
    \<and> (validateRuntimeConfig env cfg = None \<and> (\<exists>store. fst (factory_New env (cf_KMS cfg)) = Inr store)
         \<and> au_JWTSigningKeyEnv (cf_Auth cfg) \<noteq> [] \<longrightarrow>
       (\<exists>rest. map length mem = 32 # length (su_getenv env (au_JWTSigningKeyEnv (cf_Auth cfg))) # rest))"
proof (cases "validateRuntimeConfig env cfg")
  case None
  obtain rf mem0 where f: "factory_New env (cf_KMS cfg) = (rf, mem0)" by fastforce
  obtain rk key where k: "loadJWTSigningKeyEnv (su_getenv env) (au_JWTSigningKeyEnv (cf_Auth cfg)) = (rk, key)" by fastforce
  show ?thesis
  proof (cases rf)
    case (Inl e)
    with assms None f factory_wiped show ?thesis by (auto simp: newServer_def memory_accounted_def)
  next
    case store: (Inr store)
    note o = factory_open [OF f [unfolded store]]
    show ?thesis
    proof (cases rk)
      case (Inl e)
      have "res = Inl (ConfigRefused e)" "mem = fst (kms_Close store) # [key]"
        using assms None f store k Inl o by (simp_all add: newServer_def closing_lengths)
      moreover have "zeroed key" using load_key_wiped k Inl by blast
      ultimately show ?thesis
        using o k load_key_length kms_Close_length [of store] by (auto simp: memory_accounted_def kms_Close_def)
    next
      case (Inr signing)
      have key: "key = signing" using load_key_buffer k Inr by blast
      from late_steps [OF assms None _ _ k [unfolded Inr key]] f store o
      show ?thesis using load_key_length [OF k] key by auto
    qed
  qed
qed (use assms in \<open>auto simp: newServer_def memory_accounted_def\<close>)

lemma start_accounted: "newServer env cfg = (res, mem) \<Longrightarrow> memory_accounted res mem"
  using start_memory by blast

text \<open>
  C16. A start that fails leaves no secret behind: whichever step refuses, every buffer that was
  allocated for the master key, the signing key, a decrypted provider credential, the administration
  token, the copy of the signing key or the TLS material is zero at the end. A start that succeeds
  leaves only what the server holds: its master key, its signing key and the two secrets of the
  administration handler; the credentials decrypted for the preflight and the TLS texts are zero.
  Once the key store is open, the memory does contain the buffers of both keys, at their full lengths.
  Buffers are the slices of the code: the strings of the environment and the arrays a growing read
  outgrows are not among them.
\<close>

theorem failed_start_wipes_secrets:
  assumes "newServer env cfg = (res, mem)"
  shows "memory_accounted res mem
    \<and> (validateRuntimeConfig env cfg = None \<and> (\<exists>store. fst (factory_New env (cf_KMS cfg)) = Inr store)
         \<and> au_JWTSigningKeyEnv (cf_Auth cfg) \<noteq> [] \<longrightarrow>
       (\<exists>rest. map length mem = 32 # length (su_getenv env (au_JWTSigningKeyEnv (cf_Auth cfg))) # rest))"
  by (rule start_memory [OF assms])

section \<open>What a started server has checked\<close>

lemma provider_loop_spec:
  assumes "provider_loop url_Parse rules ps (cs, m, t) = Inr (cs', m', t')" and "distinct (map pv_ID (filter pv_Enabled ps))"
  shows "cs' = cs @ map channel_of (filter pv_Enabled ps) \<and>
    (\<forall>k. k \<notin> pv_ID ` set (filter pv_Enabled ps) \<longrightarrow> m' k = m k \<and> t' k = t k) \<and>
    (\<forall>p \<in> set (filter pv_Enabled ps). m' (pv_ID p) = Some (pv_APIKeyID p) \<and> t' (pv_ID p) = Some (pv_Type p) \<and>
       IsSupportedProviderType (pv_Type p) \<and>
       (\<exists>endpoint. ParseHTTPSURL url_Parse (pv_BaseURL p) = Inr endpoint \<and> EndpointAllowed endpoint rules))"
  using assms
proof (induction ps arbitrary: cs m t)
  case (Cons p ps)
  show ?case
  proof (cases "pv_Enabled p")
    case True
    then obtain endpoint where e: "IsSupportedProviderType (pv_Type p)" "ParseHTTPSURL url_Parse (pv_BaseURL p) = Inr endpoint" "EndpointAllowed endpoint rules"
      and rest: "provider_loop url_Parse rules ps (cs @ [channel_of p], m(pv_ID p \<mapsto> pv_APIKeyID p), t(pv_ID p \<mapsto> pv_Type p)) = Inr (cs', m', t')"
      using Cons.prems by (auto split: if_splits sum.splits)
    have fresh: "pv_ID p \<notin> pv_ID ` set (filter pv_Enabled ps)" "distinct (map pv_ID (filter pv_Enabled ps))" using Cons.prems(2) True by auto
    note IH = Cons.IH [OF rest fresh(2)]
    then have own: "m' (pv_ID p) = Some (pv_APIKeyID p)" "t' (pv_ID p) = Some (pv_Type p)" using fresh(1) by simp_all
    have ps: "filter pv_Enabled (p # ps) = p # filter pv_Enabled ps" using True by simp
    show ?thesis
      unfolding ps
    proof (intro conjI allI impI ballI)
      fix k assume "k \<notin> pv_ID ` set (p # filter pv_Enabled ps)"
      with IH show "m' k = m k" "t' k = t k" by auto
    next
      fix q assume "q \<in> set (p # filter pv_Enabled ps)"
      then consider "q = p" | "q \<in> set (filter pv_Enabled ps)" by auto
      then show "m' (pv_ID q) = Some (pv_APIKeyID q)" "t' (pv_ID q) = Some (pv_Type q)" "IsSupportedProviderType (pv_Type q)"
        "\<exists>endpoint. ParseHTTPSURL url_Parse (pv_BaseURL q) = Inr endpoint \<and> EndpointAllowed endpoint rules"
        by (cases; use own e IH in blast)+
    qed (use IH in simp)
  next
    case False
    then have ps: "filter pv_Enabled (p # ps) = filter pv_Enabled ps" by simp
    show ?thesis unfolding ps by (rule Cons.IH) (use Cons.prems False in simp_all)
  qed
qed simp

definition usable :: "gcm \<Rightarrow> key_backend Store \<Rightarrow> string \<Rightarrow> bool" where
  "usable G s keyID \<longleftrightarrow>
     (\<exists>key p. ks_gcm s = Some key \<and> readable G key (ks_minimum s) (either_blobs (ks_backend s)) keyID p \<and>
        ValidateProviderCredentialHeaderValue p = None)"

lemma usable_frame:
  "ks_gcm s' = ks_gcm s \<Longrightarrow> ks_minimum s' = ks_minimum s \<Longrightarrow> either_blobs (ks_backend s') = either_blobs (ks_backend s) \<Longrightarrow> usable G s' = usable G s"
  by (rule ext) (simp add: usable_def)

definition channel_ready :: "startup_env \<Rightarrow> aegis_server \<Rightarrow> providerChannel \<Rightarrow> bool" where
  "channel_ready env srv c \<longleftrightarrow>
     (\<exists>rules endpoint. ParseAllowlist (eg_AllowedDomains (cf_Egress (srv_config srv))) = Inr rules \<and>
        ParseHTTPSURL (su_url env) (pc_BaseURL c) = Inr endpoint \<and> EndpointAllowed endpoint rules) \<and>
     IsSupportedProviderType (pc_Type c) \<and> srv_types srv (pc_ID c) = Some (pc_Type c) \<and> srv_pool srv (pc_ID c) = Some (pc_KeyID c) \<and>
     usable (su_gcm env) (srv_store srv) (pc_KeyID c)"

lemma verify_loop_ready:
  assumes "verify_loop G seen cs s = (True, bufs, s')" and "either_inv (ks_backend s)"
  shows "either_inv (ks_backend s') \<and> either_blobs (ks_backend s') = either_blobs (ks_backend s) \<and> ks_gcm s' = ks_gcm s \<and> ks_minimum s' = ks_minimum s \<and>
    (\<forall>c \<in> set cs. pc_KeyID c \<in> set seen \<or> usable G s (pc_KeyID c))"
  using assms
proof (induction cs arbitrary: seen s bufs)
  case (Cons c cs)
  show ?case
  proof (cases "pc_KeyID c \<in> set seen")
    case True
    with Cons.IH [of seen s bufs] Cons.prems show ?thesis by auto
  next
    case False
    obtain r s1 where g: "GetKey G either_backend (pc_KeyID c) s = (r, s1)" by fastforce
    have s1: "either_inv (ks_backend s1)" "either_blobs (ks_backend s1) = either_blobs (ks_backend s)"
      using g either.get_frame [OF Cons.prems(2), of "pc_KeyID c"] Cons.prems(2) by (auto simp: GetKey_def split: if_splits prod.splits)
    obtain sb where sb: "r = Inr sb" "ValidateProviderCredentialHeaderValue (sb_Bytes sb) = None"
      using Cons.prems(1) False g by (cases r) (auto simp: Let_def split: if_splits)
    obtain ok bufs2 s2 where v: "verify_loop G (pc_KeyID c # seen) cs s1 = (ok, bufs2, s2)" by (metis prod_cases3)
    have ok: "ok" "s2 = s'" using Cons.prems(1) False g sb v by (auto simp: Let_def)
    note IH = Cons.IH [OF v [unfolded ok(2) eqTrueI [OF ok(1)]] s1(1)]
    obtain key where "ks_gcm s = Some key" "sb_held sb" "readable G key (ks_minimum s) (either_blobs (ks_backend s)) (pc_KeyID c) (sb_mem sb)"
      using either.GetKey_found [OF Cons.prems(2) g [unfolded sb(1)]] by metis
    then have "usable G s (pc_KeyID c)" using sb(2) by (auto simp: sb_Bytes_def usable_def)
    moreover have "usable G s1 = usable G s" using GetKey_frame [OF g] s1(2) by (intro usable_frame) auto
    ultimately show ?thesis using IH s1 GetKey_frame [OF g] by auto
  qed
qed simp

lemma factory_inv: "factory_New env k = (Inr s, mem) \<Longrightarrow> dir_inv (su_dir env) \<Longrightarrow> either_inv (ks_backend s)"
  by (auto simp: factory_New_def refused_store_cases NewFileBackend_def either_inv_def mem_inv_def NewMemoryBackend_def dest!: NewStore_open
      split: if_splits sum.splits option.splits)

definition server_ready :: "startup_env \<Rightarrow> aegis_server \<Rightarrow> bool" where
  "server_ready env srv \<longleftrightarrow>
     srv_channels srv \<noteq> [] \<and> distinct (map pc_ID (srv_channels srv)) \<and>
     srv_channels srv = map channel_of (filter pv_Enabled (cf_Providers (srv_config srv))) \<and>
     list_all (channel_ready env srv) (srv_channels srv) \<and>
     MinSigningKeyBytes \<le> length (srv_signing srv) \<and>
     (case srv_quota srv of None \<Rightarrow> True
      | Some m \<Rightarrow> list_all (\<lambda>c. list_all (\<lambda>model. pricing m model \<noteq> None) (pc_Models c)) (srv_channels srv)) \<and>
     (case srv_admin srv of None \<Rightarrow> True
      | Some h \<Rightarrow> MinAdminTokenBytes \<le> length (ah_adminToken h) \<and>
          as_AllowedModels (ah_services h) = concat (map pc_Models (srv_channels srv)) \<and> as_SigningKey (ah_services h) = srv_signing srv)"

lemma loaded_signing_key: "loadJWTSigningKeyEnv getenv name = (Inr key, b) \<Longrightarrow> MinSigningKeyBytes \<le> length key"
  by (auto simp: loadJWTSigningKeyEnv_def split: sum.splits if_splits)

lemma priced_manager:
  "newQuotaManager cfg = Inr (Some m) \<Longrightarrow> p \<in> set (cf_Providers cfg) \<Longrightarrow> pv_Enabled p \<Longrightarrow> model \<in> set (pv_Models p) \<Longrightarrow> pricing m model \<noteq> None"
  by (auto simp: newQuotaManager_def Let_def RequireModels_None enabledProviderModels_def split: if_splits)

lemma checked_admin:
  "admin_step getenv cfg key q = (Inr (Some h), b) \<Longrightarrow>
     MinAdminTokenBytes \<le> length (ah_adminToken h) \<and> as_AllowedModels (ah_services h) = enabledProviderModels cfg \<and> as_SigningKey (ah_services h) = key"
  by (auto simp: admin_step_def newAdminHandler_def Let_def split: if_splits sum.splits prod.splits)

lemma providerRuntime_spec:
  assumes "providerRuntime url_Parse cfg = Inr (cs, m, t)"
  obtains rules where "ParseAllowlist (eg_AllowedDomains (cf_Egress cfg)) = Inr rules" "cs \<noteq> []"
    "provider_loop url_Parse rules (cf_Providers cfg) ([], Map.empty, Map.empty) = Inr (cs, m, t)"
    "distinct (map pv_ID (filter pv_Enabled (cf_Providers cfg)))"
  using assms by (auto simp: providerRuntime_def first_of_None ValidateEnabledProviderIDs_def provider_ids_None split: option.splits sum.splits if_splits prod.splits)

lemma newServer_steps:
  assumes "newServer env cfg = (Inr srv, bufs)"
  obtains store b0 b1 b2 b3 where "factory_New env (cf_KMS cfg) = (Inr store, b0)" "srv_config srv = cfg"
    "loadJWTSigningKeyEnv (su_getenv env) (au_JWTSigningKeyEnv (cf_Auth cfg)) = (Inr (srv_signing srv), b1)"
    "providerRuntime (su_url env) cfg = Inr (srv_channels srv, srv_pool srv, srv_types srv)"
    "verify_loop (su_gcm env) [] (srv_channels srv) store = (True, b2, srv_store srv)"
    "newQuotaManager cfg = Inr (srv_quota srv)"
    "admin_step (su_getenv env) cfg (srv_signing srv) (srv_quota srv) = (Inr (srv_admin srv), b3)"
  using assms unfolding newServer_def verifyProviderCredentials_def Let_def
  by (auto split: option.splits sum.splits prod.splits bool.splits)

lemma channels_of_providers [simp]:
  "map pc_ID (map channel_of ps) = map pv_ID ps" "map pc_Models (map channel_of ps) = map pv_Models ps"
  by (simp_all add: channel_of_def)

text \<open>
  C9. A server that starts is ready to serve: it has the enabled providers of the configuration, at least
  one, with distinct names; each is of an implemented kind, its base URL is an https URL whose endpoint
  the allowlist permits, the chain finds its key and kind under its name, and the key store opens its
  credential to a value that can be sent as a header. The signing key has at least 32 bytes; with budgets
  enforced every model has a price; an administration handler has a token of at least 32 bytes and issues
  keys for the served models only.
\<close>

theorem started_server_ready:
  assumes "newServer env cfg = (Inr srv, bufs)" and "dir_inv (su_dir env)"
  shows "server_ready env srv"
proof -
  obtain store b0 b1 b2 b3 where kms: "factory_New env (cf_KMS cfg) = (Inr store, b0)" and cfg: "srv_config srv = cfg"
    and key: "loadJWTSigningKeyEnv (su_getenv env) (au_JWTSigningKeyEnv (cf_Auth cfg)) = (Inr (srv_signing srv), b1)"
    and run: "providerRuntime (su_url env) cfg = Inr (srv_channels srv, srv_pool srv, srv_types srv)"
    and ver: "verify_loop (su_gcm env) [] (srv_channels srv) store = (True, b2, srv_store srv)"
    and quota: "newQuotaManager cfg = Inr (srv_quota srv)"
    and admin: "admin_step (su_getenv env) cfg (srv_signing srv) (srv_quota srv) = (Inr (srv_admin srv), b3)"
    using assms(1) by (rule newServer_steps)
  obtain rules where rules: "ParseAllowlist (eg_AllowedDomains (cf_Egress cfg)) = Inr rules" "srv_channels srv \<noteq> []"
    and pl: "provider_loop (su_url env) rules (cf_Providers cfg) ([], Map.empty, Map.empty) = Inr (srv_channels srv, srv_pool srv, srv_types srv)"
    and d: "distinct (map pv_ID (filter pv_Enabled (cf_Providers cfg)))"
    using run by (rule providerRuntime_spec)
  let ?ps = "filter pv_Enabled (cf_Providers cfg)"
  note spec = provider_loop_spec [OF pl d]
  then have cs: "srv_channels srv = map channel_of ?ps" by simp
  note ready = verify_loop_ready [OF ver factory_inv [OF kms assms(2)]]
  then have us: "usable (su_gcm env) (srv_store srv) = usable (su_gcm env) store" by (intro usable_frame) auto
  have channel: "channel_ready env srv (channel_of p)" if p: "p \<in> set ?ps" for p
  proof -
    have "usable (su_gcm env) (srv_store srv) (pv_APIKeyID p)"
      using ready p unfolding us cs by (auto simp: channel_of_def)
    moreover have "IsSupportedProviderType (pv_Type p)" "srv_types srv (pv_ID p) = Some (pv_Type p)" "srv_pool srv (pv_ID p) = Some (pv_APIKeyID p)"
      "\<exists>endpoint. ParseHTTPSURL (su_url env) (pv_BaseURL p) = Inr endpoint \<and> EndpointAllowed endpoint rules"
      using spec p by blast+
    ultimately show ?thesis using rules(1) cfg by (simp add: channel_ready_def channel_of_def)
  qed
  have q: "list_all (\<lambda>c. list_all (\<lambda>model. pricing m model \<noteq> None) (pc_Models c)) (srv_channels srv)" if "srv_quota srv = Some m" for m
    using priced_manager [of cfg m] quota that unfolding cs by (auto simp: list_all_iff channel_of_def)
  have a: "MinAdminTokenBytes \<le> length (ah_adminToken h) \<and> as_AllowedModels (ah_services h) = concat (map pc_Models (srv_channels srv)) \<and>
      as_SigningKey (ah_services h) = srv_signing srv" if "srv_admin srv = Some h" for h
    using checked_admin [OF admin [unfolded that]] unfolding cs channels_of_providers by (simp add: enabledProviderModels_def)
  show ?thesis
    unfolding server_ready_def cfg
    using rules(2) d channel q a loaded_signing_key [OF key] unfolding cs channels_of_providers
    by (auto simp: list_all_iff split: option.splits)
qed

section \<open>A sample start\<close>

definition start_config :: Config where
  "start_config = sample_config\<lparr>cf_Providers := [zero_provider\<lparr>pv_ID := ''a'', pv_Type := ''openai'', pv_BaseURL := ''https://b.y'',
     pv_APIKeyID := ''k'', pv_Models := [''m''], pv_Enabled := True\<rparr>]\<rparr>"

definition start_env :: startup_env where
  "start_env =
     \<lparr>su_getenv = (\<lambda>_. replicate 64 (CHR ''0'')),
      su_url = (\<lambda>raw. if raw = ''https://b.y'' then Some \<lparr>url_Scheme = ''https'', url_Opaque = [], url_has_User = False, url_Host = ''b.y'',
         url_Fragment = [], url_RawFragment = []\<rparr> else None),
      su_dir_info = Some \<lparr>d_symlink = False, d_isdir = True, d_perm = 448\<rparr>,
      su_dir = sample_dir [(''k'', envelope_header @ ''twelve bytes'' @ ''secret'' @ ''sixteen byte tag'')],
      su_gcm = sample_gcm, su_sha = (\<lambda>x. x), su_io = all_io, su_now = 5 * second, su_fs = example_fs example_snapshot,
      su_registry = Map.empty,
      su_tls = \<lparr>te_open = Map.empty, te_AppendCertsFromPEM = Map.empty, te_X509KeyPair = (\<lambda>_. Map.empty)\<rparr>\<rparr>"

lemma hex_zeros: "hex_DecodeString (replicate (2 * n) (CHR ''0'')) = (replicate n (CHR 0x00), True)"
  by (induction n) (simp_all add: hex_val_def is_digit_def in_range_def byte_val_def char_of_def)

lemma start_providers:
  "\<exists>m t. providerRuntime (su_url start_env) start_config = Inr (map channel_of (cf_Providers start_config), m, t)"
  by (simp add: providerRuntime_def first_of_None ValidateEnabledProviderIDs_def start_config_def sample_config_def start_env_def zero_provider_def
    example_allowlist IsSupportedProviderType_def ParseHTTPSURL_def url_split_def egress_eval defaultHTTPSPort_def trim_space_plain)

lemma start_valid: "validateRuntimeConfig start_env start_config = None"
proof -
  obtain m t where "providerRuntime (su_url start_env) start_config = Inr (map channel_of (cf_Providers start_config), m, t)"
    using start_providers by blast
  then show ?thesis
    by (simp add: validateRuntimeConfig_def first_of_None first_error.simps ValidateServerConfig_def auth_check_def ValidateRevocationConfig_def
     rate_limit_check_def validateRuntimeQuota_def runtime_admin_check_def
     start_config_def sample_config_def defaultConfig_def DefaultMaxRequestBodySize_def MaxRequestBodySizeLimit_def zero_tls_def zero_provider_def duration_defs maxRevocationRefreshInterval_def
     MaxTokenTTL_def max_int64_def ClockSkew_def MaxRevocableIdentifierBytes_def trim_space_plain graphic_def byte_val_def)
qed

lemma start_store:
  "factory_New start_env (cf_KMS start_config) = (Inr \<lparr>ks_masterKey = replicate 32 (CHR 0x00), ks_gcm = Some (replicate 32 (CHR 0x00)),
     ks_backend = Inr (su_dir start_env), ks_minimum = 2, ks_closed = False\<rparr>, [replicate 32 (CHR 0x00)])"
proof -
  have "and (448 :: 9 word) 18 = 0" by simp
  then show ?thesis
    using hex_zeros [of 32]
    by (simp add: factory_New_def refused_store_def NewFileBackend_def NewWithMinimumEnvelopeVersion_def newStoreFromMasterKey_def minimumEnvelopeVersion_def
      start_config_def sample_config_def defaultConfig_def start_env_def trim_space_plain graphic_def byte_val_def)
qed

lemma start_credentials:
  "\<exists>b s. verifyProviderCredentials sample_gcm (map channel_of (cf_Providers start_config)) \<lparr>ks_masterKey = replicate 32 (CHR 0x00), ks_gcm = Some (replicate 32 (CHR 0x00)),
     ks_backend = Inr (su_dir start_env), ks_minimum = 2, ks_closed = False\<rparr> = (True, b, s)"
  by (simp add: verifyProviderCredentials_def start_config_def channel_of_def GetKey_def sample_id start_env_def sample_simps store_simps envelope_simps
    openV2Envelope_def envelopeHeaderSize_def envelopeVersion_def byte_val_def NewSecureBytes_def sb_Bytes_def ValidateProviderCredentialHeaderValue_def zero_provider_def in_range_def MaxProviderCredentialBytes_def)

lemma start_reader:
  "\<exists>r. NewReader (su_sha start_env) (su_io start_env) (su_now start_env) (rv_FilePath (au_Revocation (cf_Auth start_config)))
     (rv_RefreshInterval (au_Revocation (cf_Auth start_config))) (su_fs start_env) = Inr r"
  using example_published
  by (simp add: NewReader_def start_env_def start_config_def sample_config_def defaultConfig_def duration_defs trim_space_plain graphic_def byte_val_def)

lemma start_rest:
  "\<exists>key b. loadJWTSigningKeyEnv (su_getenv start_env) (au_JWTSigningKeyEnv (cf_Auth start_config)) = (Inr key, b)"
  "newQuotaManager start_config = Inr None" "admin_step (su_getenv start_env) start_config key q = (Inr None, [])"
  "server_New start_env start_config None = (None, [])"
  by (simp_all add: loadJWTSigningKeyEnv_def loadSecretEnv_def newQuotaManager_def admin_step_def server_New_def first_of_None first_error.simps
    bindAdminListener_def ValidateServerConfig_def start_env_def start_config_def sample_config_def defaultConfig_def MinSigningKeyBytes_def zero_tls_def
    DefaultMaxRequestBodySize_def MaxRequestBodySizeLimit_def duration_defs)

text \<open>A start that fails because the signing key is too short, after a master key of 0xFF bytes was read.\<close>

definition short_env :: startup_env where
  "short_env = start_env\<lparr>su_getenv := (\<lambda>name. if name = lk_MasterKeyEnv (km_Local (cf_KMS start_config)) then replicate 64 (CHR ''f'') else ''short'')\<rparr>"

lemma hex_ones: "hex_DecodeString (replicate (2 * n) (CHR ''f'')) = (replicate n (CHR 0xFF), True)"
  by (induction n) (simp_all add: hex_val_def is_digit_def in_range_def byte_val_def char_of_def bit_Suc_0_iff)

lemma short_valid: "validateRuntimeConfig short_env start_config = None"
  using start_valid
  by (simp add: validateRuntimeConfig_def first_of_None short_env_def runtime_admin_check_def start_config_def sample_config_def defaultConfig_def)

lemma short_store:
  "factory_New short_env (cf_KMS start_config) = (Inr \<lparr>ks_masterKey = replicate 32 (CHR 0xFF), ks_gcm = Some (replicate 32 (CHR 0xFF)),
     ks_backend = Inr (su_dir start_env), ks_minimum = 2, ks_closed = False\<rparr>, [replicate 32 (CHR 0xFF)])"
proof -
  have "and (448 :: 9 word) 18 = 0" by simp
  then show ?thesis
    using hex_ones [of 32]
    by (simp add: factory_New_def refused_store_def NewFileBackend_def NewWithMinimumEnvelopeVersion_def newStoreFromMasterKey_def minimumEnvelopeVersion_def
      short_env_def start_config_def sample_config_def defaultConfig_def start_env_def trim_space_plain graphic_def byte_val_def)
qed

theorem failed_start_wipes_secrets_witness:
  "\<exists>e mem rest. newServer short_env start_config = (Inl (ConfigRefused e), mem) \<and> list_all zeroed mem \<and> map length mem = 32 # 5 # rest"
proof -
  let ?name = "au_JWTSigningKeyEnv (cf_Auth start_config)"
  have name: "?name \<noteq> []" "su_getenv short_env ?name = ''short''"
    by (simp_all add: short_env_def start_config_def sample_config_def defaultConfig_def)
  have "\<exists>e. newServer short_env start_config = (Inl (ConfigRefused e), [MemZero (replicate 32 (CHR 0xFF)), MemZero ''short''])"
    using name short_valid short_store
    by (simp add: newServer_def loadJWTSigningKeyEnv_def loadSecretEnv_def MinSigningKeyBytes_def close_store_def kms_Close_def)
  then obtain e mem where n: "newServer short_env start_config = (Inl (ConfigRefused e), mem)" by blast
  from failed_start_wipes_secrets [OF n] have "list_all zeroed mem" "\<exists>rest. map length mem = 32 # 5 # rest"
    using short_valid short_store name by (simp_all add: memory_accounted_def numeral_eq_Suc)
  with n show ?thesis by auto
qed

lemma start_starts: "\<exists>srv mem. newServer start_env start_config = (Inr srv, mem)"
  using start_valid start_store start_providers start_credentials start_reader start_rest
  by (auto simp: newServer_def start_env_def Let_def)

theorem started_server_ready_witness:
  "\<exists>srv bufs. newServer start_env start_config = (Inr srv, bufs) \<and> server_ready start_env srv"
proof -
  have "dir_inv (su_dir start_env)"
    by (simp add: start_env_def sample_dir_inv sample_id)
  then show ?thesis using start_starts started_server_ready by blast
qed

end
