(* ===== verification/Server_Lifecycle.thy ===== *)
theory Server_Lifecycle
  imports Gateway_Startup
begin

text \<open>
  The life of a server: \<open>handlerLifecycle\<close>, \<open>Run\<close> and \<open>closeResources\<close> of \<open>internal/server/server.go\<close>.
  Handlers, the goroutine of \<open>Run\<close> and its hooks interleave, so the server is a step relation; what the
  clock, the listeners and the hooks do is chosen by the step.
\<close>

section \<open>Counting handlers\<close>

text \<open>The channels made so far, with whether each is closed, and the position of the one in use.\<close>

record handlerLifecycle =
  hl_chans :: "bool list"
  hl_drained :: nat
  hl_active :: int
  hl_draining :: bool

definition newHandlerLifecycle :: handlerLifecycle where
  "newHandlerLifecycle = \<lparr>hl_chans = [True], hl_drained = 0, hl_active = 0, hl_draining = False\<rparr>"

definition begin_handler :: "handlerLifecycle \<Rightarrow> bool \<times> handlerLifecycle" where
  "begin_handler l =
     (if hl_draining l then (False, l)
      else let l1 = (if hl_active l = 0 then l\<lparr>hl_chans := hl_chans l @ [False], hl_drained := length (hl_chans l)\<rparr> else l)
           in (True, l1\<lparr>hl_active := hl_active l1 + 1\<rparr>))"

text \<open>Closing a closed channel panics, which is \<open>None\<close>.\<close>

definition done_handler :: "handlerLifecycle \<Rightarrow> handlerLifecycle option" where
  "done_handler l =
     (let l1 = l\<lparr>hl_active := hl_active l - 1\<rparr>
      in if hl_active l1 \<noteq> 0 then Some l1
         else if hl_chans l1 ! hl_drained l1 then None
         else Some (l1\<lparr>hl_chans := (hl_chans l1)[hl_drained l1 := True]\<rparr>))"

definition startDraining :: "handlerLifecycle \<Rightarrow> nat \<times> handlerLifecycle" where
  "startDraining l = (hl_drained l, l\<lparr>hl_draining := True\<rparr>)"

definition handlersDrained :: "nat \<Rightarrow> handlerLifecycle \<Rightarrow> bool" where
  "handlersDrained drained l = hl_chans l ! drained"

section \<open>Shutdown hooks\<close>

datatype run_error = ListenFailed string | ShutdownFailed string | HandlerDrainTimeout
  | HookFailed string | HookPanicked nat | HookTimeout nat

datatype hook_end = HookOK | HookError string | HookPanic

text \<open>
  How one hook goes: whether the deadline has passed before it, whether the timer fires before it
  returns, how it returns, whether the deadline has passed afterwards; and, where the loop ends
  without waiting for it or it panics, whether it did its work.
\<close>

record hook_time =
  ht_late_before :: bool
  ht_timer :: bool
  ht_end :: hook_end
  ht_late_after :: bool
  ht_worked :: bool

definition callShutdownHook :: "nat \<Rightarrow> hook_end \<Rightarrow> run_error option" where
  "callShutdownHook index r =
     (case r of HookOK \<Rightarrow> None | HookError e \<Rightarrow> Some (HookFailed e) | HookPanic \<Rightarrow> Some (HookPanicked (index + 1)))"

definition joined :: "run_error option \<Rightarrow> run_error list" where
  "joined e = (case e of None \<Rightarrow> [] | Some x \<Rightarrow> [x])"

text \<open>One round of \<open>closeResources\<close>: whether the hook was started, whether it worked, and what \<open>closeResources\<close> returns or continues with.\<close>

definition hook_round :: "nat \<Rightarrow> hook_time \<Rightarrow> run_error option \<Rightarrow> bool \<times> bool \<times> (run_error list + run_error option)" where
  "hook_round index t closeErr =
     (if ht_late_before t then (False, False, Inl (joined closeErr @ [HookTimeout (index + 1)]))
      else if ht_timer t then (True, ht_worked t, Inl (joined closeErr @ [HookTimeout (index + 1)]))
      else let hookErr = callShutdownHook index (ht_end t);
               worked = (ht_end t \<noteq> HookPanic \<or> ht_worked t)
           in if ht_late_after t then (True, worked, Inl (joined closeErr @ joined hookErr @ [HookTimeout (index + 1)]))
              else if ht_end t = HookPanic then (True, worked, Inl (joined closeErr @ joined hookErr))
              else (True, worked, Inr (if hookErr \<noteq> None \<and> closeErr = None then hookErr else closeErr)))"

fun closeResources :: "(nat \<Rightarrow> hook_time) \<Rightarrow> nat \<Rightarrow> ('s \<Rightarrow> 's) list \<Rightarrow> run_error option \<Rightarrow> 's \<Rightarrow> run_error list \<times> 's" where
  "closeResources timing index [] closeErr s = (joined closeErr, s)"
| "closeResources timing index (hook # hooks) closeErr s =
     (case hook_round index (timing index) closeErr of
        (started, worked, Inl errs) \<Rightarrow> (errs, if worked then hook s else s)
      | (started, worked, Inr closeErr1) \<Rightarrow> closeResources timing (index + 1) hooks closeErr1 (if worked then hook s else s))"

section \<open>The server\<close>

datatype phase = Serving | Draining nat | Forcing nat "run_error list" | Closing nat "run_error option" "run_error list"
  | Stopped "run_error list" bool

text \<open>The resources are what the hooks work on; requests have numbers.\<close>

record 's server =
  sv_life :: handlerLifecycle
  sv_inflight :: "nat list"
  sv_refused :: "nat list"
  sv_phase :: phase
  sv_res :: 's
  sv_started :: nat
  sv_crashed :: bool

definition server_start :: "'s \<Rightarrow> 's server" where
  "server_start s = \<lparr>sv_life = newHandlerLifecycle, sv_inflight = [], sv_refused = [], sv_phase = Serving, sv_res = s,
     sv_started = 0, sv_crashed = False\<rparr>"

text \<open>
  \<open>wrap\<close> around a handler, \<open>Run\<close> in its two ways to shut down, \<open>waitForHandlers\<close> and the rounds of
  \<open>closeResources\<close>. The end of \<open>waitForHandlers\<close> looks at the channel once more when its timer fires, so
  only a channel that is open at that moment makes it give up.
\<close>

inductive server_step :: "('s \<Rightarrow> 's) list \<Rightarrow> 's server \<Rightarrow> 's server \<Rightarrow> bool" for hooks where
  handler_begins: "begin_handler (sv_life st) = (True, l) \<Longrightarrow> n \<notin> set (sv_inflight st) \<Longrightarrow>
    server_step hooks st (st\<lparr>sv_life := l, sv_inflight := n # sv_inflight st\<rparr>)"
| handler_refused: "begin_handler (sv_life st) = (False, l) \<Longrightarrow>
    server_step hooks st (st\<lparr>sv_life := l, sv_refused := n # sv_refused st\<rparr>)"
| handler_done: "n \<in> set (sv_inflight st) \<Longrightarrow> done_handler (sv_life st) = Some l \<Longrightarrow>
    server_step hooks st (st\<lparr>sv_life := l, sv_inflight := remove1 n (sv_inflight st)\<rparr>)"
| handler_crashes: "n \<in> set (sv_inflight st) \<Longrightarrow> done_handler (sv_life st) = None \<Longrightarrow>
    server_step hooks st (st\<lparr>sv_crashed := True\<rparr>)"
| cancelled: "sv_phase st = Serving \<Longrightarrow> startDraining (sv_life st) = (drained, l) \<Longrightarrow>
    server_step hooks st (st\<lparr>sv_life := l, sv_phase := Draining drained\<rparr>)"
| shut_down: "sv_phase st = Draining drained \<Longrightarrow> handlersDrained drained (sv_life st) \<Longrightarrow>
    server_step hooks st (st\<lparr>sv_phase := Closing 0 None []\<rparr>)"
| force_close: "sv_phase st = Draining drained \<Longrightarrow> err \<noteq> None \<or> \<not> handlersDrained drained (sv_life st) \<Longrightarrow>
    server_step hooks st (st\<lparr>sv_phase := Forcing drained (joined (map_option ShutdownFailed err))\<rparr>)"
| serve_error: "sv_phase st = Serving \<Longrightarrow> startDraining (sv_life st) = (drained, l) \<Longrightarrow>
    server_step hooks st (st\<lparr>sv_life := l, sv_phase := Forcing drained [ListenFailed err]\<rparr>)"
| wait_drained: "sv_phase st = Forcing drained errs \<Longrightarrow> handlersDrained drained (sv_life st) \<Longrightarrow>
    server_step hooks st (st\<lparr>sv_phase := Closing 0 None errs\<rparr>)"
| wait_timeout: "sv_phase st = Forcing drained errs \<Longrightarrow> \<not> handlersDrained drained (sv_life st) \<Longrightarrow>
    server_step hooks st (st\<lparr>sv_phase := Stopped (errs @ [HandlerDrainTimeout]) False\<rparr>)"
| hook_goes_on: "sv_phase st = Closing i closeErr errs \<Longrightarrow> i < length hooks \<Longrightarrow> hook_round i t closeErr = (started, worked, Inr closeErr1) \<Longrightarrow>
    server_step hooks st (st\<lparr>sv_phase := Closing (i + 1) closeErr1 errs, sv_started := (if started then i + 1 else sv_started st),
      sv_res := (if worked then (hooks ! i) (sv_res st) else sv_res st)\<rparr>)"
| hook_ends: "sv_phase st = Closing i closeErr errs \<Longrightarrow> i < length hooks \<Longrightarrow> hook_round i t closeErr = (started, worked, Inl closeErrs) \<Longrightarrow>
    server_step hooks st (st\<lparr>sv_phase := Stopped (errs @ closeErrs) True, sv_started := (if started then i + 1 else sv_started st),
      sv_res := (if worked then (hooks ! i) (sv_res st) else sv_res st)\<rparr>)"
| hooks_done: "sv_phase st = Closing i closeErr errs \<Longrightarrow> i \<ge> length hooks \<Longrightarrow>
    server_step hooks st (st\<lparr>sv_phase := Stopped (errs @ joined closeErr) True\<rparr>)"

inductive_cases server_stepE: "server_step hooks st st'"

section \<open>The invariant\<close>

definition cut_short :: "run_error list \<Rightarrow> bool" where
  "cut_short errs \<longleftrightarrow> (\<exists>n. HookTimeout n \<in> set errs \<or> HookPanicked n \<in> set errs)"

definition phase_ok :: "('s \<Rightarrow> 's) list \<Rightarrow> 's \<Rightarrow> 's server \<Rightarrow> bool" where
  "phase_ok hooks s0 st \<longleftrightarrow>
     (case sv_phase st of
        Serving \<Rightarrow> \<not> hl_draining (sv_life st) \<and> sv_started st = 0 \<and> sv_res st = s0
      | Draining drained \<Rightarrow> hl_draining (sv_life st) \<and> drained = hl_drained (sv_life st) \<and> sv_started st = 0 \<and> sv_res st = s0
      | Forcing drained errs \<Rightarrow> hl_draining (sv_life st) \<and> drained = hl_drained (sv_life st) \<and> sv_started st = 0 \<and> sv_res st = s0 \<and> \<not> cut_short errs
      | Closing i closeErr errs \<Rightarrow> hl_draining (sv_life st) \<and> sv_inflight st = [] \<and> i \<le> length hooks \<and> sv_started st = i \<and>
          sv_res st = fold id (take i hooks) s0 \<and> \<not> cut_short errs \<and> \<not> cut_short (joined closeErr)
      | Stopped errs closed' \<Rightarrow> hl_draining (sv_life st) \<and>
          (if closed' then sv_inflight st = [] \<and> (cut_short errs \<or> sv_res st = fold id hooks s0 \<and> sv_started st = length hooks)
           else sv_started st = 0 \<and> sv_res st = s0))"

definition life_ok :: "'s server \<Rightarrow> bool" where
  "life_ok st \<longleftrightarrow>
     \<not> sv_crashed st \<and> distinct (sv_inflight st) \<and> hl_active (sv_life st) = int (length (sv_inflight st)) \<and>
     hl_drained (sv_life st) < length (hl_chans (sv_life st)) \<and>
     (hl_chans (sv_life st) ! hl_drained (sv_life st) \<longleftrightarrow> sv_inflight st = [])"

lemmas lifecycle_defs = begin_handler_def done_handler_def startDraining_def handlersDrained_def Let_def

lemma joined_simps [simp]: "joined None = []" "joined (Some e) = [e]"
  by (simp_all add: joined_def)

lemma cut_short_simps [simp]:
  "\<not> cut_short []" "cut_short (a @ b) \<longleftrightarrow> cut_short a \<or> cut_short b" "cut_short [HookTimeout n]" "cut_short [HookPanicked n]"
  "\<not> cut_short [ListenFailed e]" "\<not> cut_short [HandlerDrainTimeout]" "\<not> cut_short [HookFailed e]" "\<not> cut_short [ShutdownFailed e]"
  by (auto simp: cut_short_def)

lemma hook_round_ends: "hook_round i t closeErr = (started, worked, Inl errs) \<Longrightarrow> cut_short errs"
  by (auto simp: hook_round_def callShutdownHook_def Let_def cut_short_def split: if_splits hook_end.splits)

lemma hook_round_goes_on:
  "hook_round i t closeErr = (started, worked, Inr closeErr1) \<Longrightarrow> \<not> cut_short (joined closeErr) \<Longrightarrow> started \<and> worked \<and> \<not> cut_short (joined closeErr1)"
  by (auto simp: hook_round_def callShutdownHook_def Let_def split: if_splits hook_end.splits)

lemma fold_take_Suc: "i < length hooks \<Longrightarrow> fold id (take (Suc i) hooks) s = (hooks ! i) (fold id (take i hooks) s)"
  by (simp add: take_Suc_conv_app_nth)

lemma start_ok: "life_ok (server_start s0)" "phase_ok hooks s0 (server_start s0)"
  by (simp_all add: life_ok_def phase_ok_def server_start_def newHandlerLifecycle_def)

lemma step_life: "server_step hooks st st' \<Longrightarrow> life_ok st \<Longrightarrow> life_ok st'"
proof (induction rule: server_step.induct)
  case (handler_begins st l n)
  then show ?case by (auto simp: life_ok_def lifecycle_defs nth_append split: if_splits)
next
  case (handler_done n st l)
  have "0 < length (sv_inflight st)" using handler_done(1) by (cases "sv_inflight st") auto
  moreover have "remove1 n (sv_inflight st) = [] \<longleftrightarrow> length (sv_inflight st) = 1"
    using handler_done(1) calculation by (metis One_nat_def Suc_pred diff_self_eq_0 length_0_conv length_remove1)
  moreover have "int (length (sv_inflight st) - Suc 0) = int (length (sv_inflight st)) - 1" using calculation(1) by linarith
  ultimately show ?case using handler_done
    by (auto simp: life_ok_def lifecycle_defs length_remove1 of_nat_diff split: if_splits)
next
  case (handler_crashes n st)
  then show ?case by (auto simp: life_ok_def lifecycle_defs split: if_splits)
qed (auto simp: life_ok_def lifecycle_defs split: if_splits)

lemma step_phase: "server_step hooks st st' \<Longrightarrow> life_ok st \<Longrightarrow> phase_ok hooks s0 st \<Longrightarrow> phase_ok hooks s0 st'"
proof (induction rule: server_step.induct)
  case (handler_begins st l n)
  then show ?case by (auto simp: phase_ok_def lifecycle_defs split: if_splits phase.splits)
next
  case (handler_done n st l)
  then show ?case by (auto simp: phase_ok_def lifecycle_defs split: if_splits phase.splits)
next
  case (hook_goes_on st i closeErr errs t started worked closeErr1)
  then show ?case using hook_round_goes_on [OF hook_goes_on(3)] by (auto simp: phase_ok_def fold_take_Suc)
next
  case (hook_ends st i closeErr errs t started worked closeErrs)
  then show ?case using hook_round_ends [OF hook_ends(3)] by (auto simp: phase_ok_def)
qed (auto simp: phase_ok_def life_ok_def lifecycle_defs joined_def cut_short_def split: if_splits phase.splits option.splits)

lemma reachable_from:
  assumes "(server_step hooks)\<^sup>*\<^sup>* st1 st" and "life_ok st1" and "phase_ok hooks s0 st1"
  shows "life_ok st \<and> phase_ok hooks s0 st"
  using assms
proof (induction rule: rtranclp_induct)
  case (step st st')
  then show ?case using step_life [OF step(2)] step_phase [OF step(2)] by blast
qed simp

lemma reachable_ok: "(server_step hooks)\<^sup>*\<^sup>* (server_start s0) st \<Longrightarrow> life_ok st \<and> phase_ok hooks s0 st"
  using reachable_from [OF _ start_ok] .


text \<open>
  In every reachable state no hook has touched the resources while a handler is in flight, once a hook
  has started every new request is refused, a shutdown that gave up on its handlers has run no hook,
  and the drained channel is never closed twice.
\<close>

lemma secrets_outlive_handlers:
  assumes "(server_step hooks)\<^sup>*\<^sup>* (server_start s0) st"
  shows "\<not> sv_crashed st" "sv_inflight st \<noteq> [] \<Longrightarrow> sv_started st = 0 \<and> sv_res st = s0"
    "sv_started st \<noteq> 0 \<Longrightarrow> \<not> fst (begin_handler (sv_life st))"
    "sv_phase st = Stopped errs False \<Longrightarrow> sv_started st = 0 \<and> sv_res st = s0"
    "sv_started st = 0 \<Longrightarrow> sv_res st = s0 \<or> (\<exists>errs. sv_phase st = Stopped errs True \<and> cut_short errs)"
  using reachable_ok [OF assms]
  by (auto simp: life_ok_def phase_ok_def begin_handler_def split: phase.splits if_splits)

section \<open>Stopping\<close>

definition healthy_hook :: hook_time where
  "healthy_hook = \<lparr>ht_late_before = False, ht_timer = False, ht_end = HookOK, ht_late_after = False, ht_worked = True\<rparr>"

lemma healthy_round: "hook_round i healthy_hook closeErr = (True, True, Inr closeErr)"
  by (simp add: hook_round_def healthy_hook_def callShutdownHook_def Let_def)

lemma can_drain:
  assumes "life_ok st"
  shows "\<exists>st1. (server_step hooks)\<^sup>*\<^sup>* st st1 \<and> life_ok st1 \<and> sv_inflight st1 = [] \<and> sv_phase st1 = sv_phase st"
  using assms
proof (induction "length (sv_inflight st)" arbitrary: st)
  case (Suc k)
  then obtain n ns where n: "sv_inflight st = n # ns" by (cases "sv_inflight st") auto
  have "done_handler (sv_life st) \<noteq> None" using Suc.prems n by (auto simp: life_ok_def done_handler_def Let_def)
  then obtain l where l: "done_handler (sv_life st) = Some l" by blast
  have s: "server_step hooks st (st\<lparr>sv_life := l, sv_inflight := remove1 n (sv_inflight st)\<rparr>)"
    using n l by (intro handler_done) simp_all
  let ?st = "st\<lparr>sv_life := l, sv_inflight := remove1 n (sv_inflight st)\<rparr>"
  have "k = length (sv_inflight ?st)" using Suc.hyps(2) n by simp
  from Suc.hyps(1) [OF this step_life [OF s Suc.prems]]
  obtain st1 where "(server_step hooks)\<^sup>*\<^sup>* ?st st1" "life_ok st1" "sv_inflight st1 = []" "sv_phase st1 = sv_phase st" by auto
  with converse_rtranclp_into_rtranclp [where r = "server_step hooks", OF s] show ?case by blast
qed auto

text \<open>The loop over the hooks is a run of the server, whatever the hooks do; with healthy hooks all of them work.\<close>

lemma closeResources_steps:
  assumes "sv_phase st = Closing i closeErr errs" and "i \<le> length hooks"
    and "closeResources timing i (drop i hooks) closeErr (sv_res st) = (es, s')"
  shows "\<exists>st1. (server_step hooks)\<^sup>*\<^sup>* st st1 \<and> sv_phase st1 = Stopped (errs @ es) True \<and> sv_res st1 = s'"
  using assms
proof (induction "length hooks - i" arbitrary: i st closeErr)
  case 0
  have "server_step hooks st (st\<lparr>sv_phase := Stopped (errs @ joined closeErr) True\<rparr>)" using 0 by (intro hooks_done) auto
  moreover have "es = joined closeErr" "s' = sv_res st" using 0 by simp_all
  ultimately show ?case by (intro exI conjI) (rule r_into_rtranclp, assumption, simp_all)
next
  case (Suc k)
  then have i: "i < length hooks" and drop: "drop i hooks = hooks ! i # drop (i + 1) hooks" and k: "k = length hooks - (i + 1)"
    by (auto simp: Cons_nth_drop_Suc)
  obtain started worked r where h: "hook_round i (timing i) closeErr = (started, worked, r)" by (metis prod_cases3)
  let ?st = "\<lambda>ph. st\<lparr>sv_phase := ph, sv_started := (if started then i + 1 else sv_started st),
      sv_res := (if worked then (hooks ! i) (sv_res st) else sv_res st)\<rparr>"
  show ?case
  proof (cases r)
    case (Inl closeErrs)
    have "server_step hooks st (?st (Stopped (errs @ closeErrs) True))" using hook_ends [OF Suc.prems(1) i] h Inl by simp
    moreover have "es = closeErrs" "s' = (if worked then (hooks ! i) (sv_res st) else sv_res st)"
      using Suc.prems(3) unfolding drop by (simp_all add: h Inl)
    ultimately show ?thesis by (intro exI conjI) (rule r_into_rtranclp, assumption, simp_all)
  next
    case (Inr closeErr1)
    have s: "server_step hooks st (?st (Closing (i + 1) closeErr1 errs))" using hook_goes_on [OF Suc.prems(1) i] h Inr by simp
    have "closeResources timing (i + 1) (drop (i + 1) hooks) closeErr1 (if worked then (hooks ! i) (sv_res st) else sv_res st) = (es, s')"
      using Suc.prems(3) unfolding drop by (simp add: h Inr)
    with Suc.hyps(1) [OF k, of "?st (Closing (i + 1) closeErr1 errs)" closeErr1] i
    obtain st1 where "(server_step hooks)\<^sup>*\<^sup>* (?st (Closing (i + 1) closeErr1 errs)) st1" "sv_phase st1 = Stopped (errs @ es) True" "sv_res st1 = s'"
      by auto
    with converse_rtranclp_into_rtranclp [where r = "server_step hooks", OF s] show ?thesis by blast
  qed
qed

lemma closeResources_healthy: "closeResources (\<lambda>_. healthy_hook) i hs closeErr s = (joined closeErr, fold id hs s)"
  by (induction hs arbitrary: i s) (simp_all add: healthy_round)

lemma can_close:
  assumes "sv_phase st = Closing i closeErr errs" and "i \<le> length hooks"
  shows "\<exists>st1. (server_step hooks)\<^sup>*\<^sup>* st st1 \<and> sv_phase st1 = Stopped (errs @ joined closeErr) True"
  using closeResources_steps [OF assms closeResources_healthy] by blast

lemma can_stop:
  assumes "life_ok st" "phase_ok hooks s0 st" "sv_phase st = Draining drained \<or> sv_phase st = Forcing drained errs"
  shows "\<exists>st1 es. (server_step hooks)\<^sup>*\<^sup>* st st1 \<and> sv_phase st1 = Stopped es True \<and> \<not> cut_short es"
proof -
  obtain st1 where d: "(server_step hooks)\<^sup>*\<^sup>* st st1" "life_ok st1" "sv_inflight st1 = []" "sv_phase st1 = sv_phase st"
    using can_drain [OF assms(1)] by blast
  have c: "handlersDrained drained (sv_life st1)" and e: "sv_phase st = Forcing drained errs \<longrightarrow> \<not> cut_short errs"
    using reachable_from [OF d(1) assms(1,2)] assms(2,3) d(3,4) by (auto simp: life_ok_def phase_ok_def handlersDrained_def)
  obtain es where es: "server_step hooks st1 (st1\<lparr>sv_phase := Closing 0 None es\<rparr>)" "\<not> cut_short es"
    using assms(3) d(4) shut_down [OF _ c] wait_drained [OF _ c] e by (metis cut_short_simps(1))
  obtain st2 where "(server_step hooks)\<^sup>*\<^sup>* (st1\<lparr>sv_phase := Closing 0 None es\<rparr>) st2" "sv_phase st2 = Stopped (es @ joined None) True"
    using can_close [of "st1\<lparr>sv_phase := Closing 0 None es\<rparr>" 0 None es hooks] by auto
  with d(1) es show ?thesis by (intro exI [of _ st2] exI [of _ es]) (auto intro: rtranclp_trans converse_rtranclp_into_rtranclp)
qed

text \<open>
  A server can always stop: from every reachable state in which it has not stopped there is a
  continuation in which the handlers finish, every hook runs to its end and \<open>Run\<close> returns after closing
  the resources.
\<close>

lemma shutdown_always_possible:
  assumes "(server_step hooks)\<^sup>*\<^sup>* (server_start s0) st" and "\<And>errs b. sv_phase st \<noteq> Stopped errs b"
  shows "\<exists>st1 es. (server_step hooks)\<^sup>*\<^sup>* st st1 \<and> sv_phase st1 = Stopped es True \<and> \<not> cut_short es \<and>
    sv_inflight st1 = [] \<and> sv_res st1 = fold id hooks s0"
proof -
  note ok = reachable_ok [OF assms(1)]
  have "\<exists>st1 es. (server_step hooks)\<^sup>*\<^sup>* st st1 \<and> sv_phase st1 = Stopped es True \<and> \<not> cut_short es"
  proof (cases "sv_phase st")
    case Serving
    let ?st = "st\<lparr>sv_life := snd (startDraining (sv_life st)), sv_phase := Draining (fst (startDraining (sv_life st)))\<rparr>"
    have s: "server_step hooks st ?st" using Serving by (intro cancelled) simp_all
    have "life_ok ?st" "phase_ok hooks s0 ?st" using step_life [OF s] step_phase [OF s] ok by blast+
    from can_stop [OF this, of "fst (startDraining (sv_life st))"] obtain st1 es
      where "(server_step hooks)\<^sup>*\<^sup>* ?st st1" "sv_phase st1 = Stopped es True" "\<not> cut_short es" by auto
    with converse_rtranclp_into_rtranclp [where r = "server_step hooks", OF s] show ?thesis by blast
  next
    case (Closing i closeErr errs)
    moreover from this ok have "i \<le> length hooks" "\<not> cut_short (errs @ joined closeErr)" by (auto simp: phase_ok_def)
    ultimately show ?thesis using can_close by blast
  qed (use can_stop [OF conjunct1 [OF ok] conjunct2 [OF ok]] assms(2) in blast)+
  then obtain st1 es where st1: "(server_step hooks)\<^sup>*\<^sup>* st st1" "sv_phase st1 = Stopped es True" "\<not> cut_short es" by blast
  moreover have "phase_ok hooks s0 st1" using reachable_from [OF st1(1)] ok by blast
  ultimately show ?thesis by (auto simp: phase_ok_def)
qed

section \<open>The gateway's hooks\<close>

text \<open>
  The resources of the gateway: the server with its secrets, and the memory its start left, in which
  the hooks overwrite the buffers in place. \<open>newServer\<close> registers the hook of the administration
  handler first.
\<close>

type_synonym gateway_resources = "aegis_server \<times> bytes list"

definition admin_hook :: "gateway_resources \<Rightarrow> gateway_resources" where
  "admin_hook r =
     (case r of (srv, mem) \<Rightarrow>
        (case srv_admin srv of
           None \<Rightarrow> (srv, mem)
         | Some h \<Rightarrow> (srv\<lparr>srv_admin := Some (snd (snd (admin_Close h)))\<rparr>, close_admin (Some h) (srv_admin_at srv) mem)))"

definition runtime_hook :: "gateway_resources \<Rightarrow> gateway_resources" where
  "runtime_hook r =
     (case r of (srv, mem) \<Rightarrow>
        (srv\<lparr>srv_signing := MemZero (srv_signing srv), srv_store := snd (kms_Close (srv_store srv))\<rparr>,
         closeRuntimeResources (srv_store srv) mem))"

definition shutdown_hooks :: "aegis_server \<Rightarrow> (gateway_resources \<Rightarrow> gateway_resources) list" where
  "shutdown_hooks srv = (if srv_admin srv \<noteq> None then [admin_hook] else []) @ [runtime_hook]"

lemma started_store_open: "newServer env cfg = (Inr srv, mem) \<Longrightarrow> \<not> ks_closed (srv_store srv)"
  by (erule newServer_steps) (auto dest: verify_loop_wipes factory_open)

lemma hooks_wipe:
  assumes "memory_accounted (Inr srv) mem" and "\<not> ks_closed (srv_store srv)"
  shows "list_all zeroed (snd (fold id (shutdown_hooks srv) (srv, mem)))"
proof -
  obtain credentials tls where z: "list_all zeroed credentials" "list_all zeroed tls" "srv_admin_at srv = Suc (Suc (length credentials))"
    and mem: "mem = ks_masterKey (srv_store srv) # srv_signing srv # credentials @ admin_secrets (srv_admin srv) @ tls"
    using assms(1) by (auto simp: memory_accounted_def)
  obtain rest where c: "close_admin (srv_admin srv) (srv_admin_at srv) mem = ks_masterKey (srv_store srv) # srv_signing srv # rest" "list_all zeroed rest"
    using close_admin_zeroed [OF z(1,2)] unfolding mem z(3) by blast
  have "snd (fold id (shutdown_hooks srv) (srv, mem)) = closeRuntimeResources (srv_store srv) (close_admin (srv_admin srv) (srv_admin_at srv) mem)"
    by (auto simp: shutdown_hooks_def admin_hook_def runtime_hook_def close_admin_def split: option.split)
  with closing_zeroed [OF assms(2) c(2)] c(1) show ?thesis by simp
qed

text \<open>
  C36. A gateway wipes its secrets when it stops, and not before its last handler is done: in every state
  that a started server can reach, whatever the interleaving of requests, cancellation, failing listeners,
  timeouts and panicking hooks, the secrets are untouched while a handler is in flight; once they are
  touched no request begins; a shutdown that gives up on its handlers leaves them alone; and a server
  that has closed its resources, without a hook that panicked or exceeded the deadline, has no handler
  left and every buffer its start allocated for a secret is zero.
\<close>

theorem stopped_gateway_wiped:
  assumes "newServer env cfg = (Inr srv, mem)"
    and "(server_step (shutdown_hooks srv))\<^sup>*\<^sup>* (server_start (srv, mem)) st"
  shows "(sv_inflight st \<noteq> [] \<longrightarrow> sv_res st = (srv, mem))
    \<and> (sv_started st \<noteq> 0 \<longrightarrow> \<not> fst (begin_handler (sv_life st)))
    \<and> (sv_phase st = Stopped errs False \<longrightarrow> sv_res st = (srv, mem))
    \<and> (sv_phase st = Stopped errs True \<and> \<not> cut_short errs \<longrightarrow> sv_inflight st = [] \<and> list_all zeroed (snd (sv_res st)))"
proof -
  have "list_all zeroed (snd (sv_res st)) \<and> sv_inflight st = []" if "sv_phase st = Stopped errs True" "\<not> cut_short errs"
    using reachable_ok [OF assms(2)] that hooks_wipe [OF start_accounted [OF assms(1)] started_store_open [OF assms(1)]]
    by (auto simp: phase_ok_def)
  then show ?thesis using secrets_outlive_handlers [OF assms(2)] by blast
qed

text \<open>The sample server is started and stopped; its signing key was in memory in between.\<close>

lemma start_signing:
  assumes "newServer start_env start_config = (Inr srv, mem)"
  shows "\<not> list_all zeroed mem"
proof -
  obtain b1 where "loadJWTSigningKeyEnv (su_getenv start_env) (au_JWTSigningKeyEnv (cf_Auth start_config)) = (Inr (srv_signing srv), b1)"
    using assms by (rule newServer_steps)
  then have "srv_signing srv = replicate 64 (CHR ''0'')"
    by (auto simp: loadJWTSigningKeyEnv_def loadSecretEnv_def start_env_def split: if_splits)
  then have "\<not> zeroed (srv_signing srv)" by (simp add: zeroed_def list_all_iff)
  then show ?thesis using start_accounted [OF assms] by (auto simp: memory_accounted_def)
qed

theorem stopped_gateway_wiped_witness:
  "\<exists>srv mem st es. newServer start_env start_config = (Inr srv, mem) \<and> \<not> list_all zeroed mem
     \<and> (server_step (shutdown_hooks srv))\<^sup>*\<^sup>* (server_start (srv, mem)) st \<and> sv_phase st = Stopped es True
     \<and> list_all zeroed (snd (sv_res st))"
proof -
  obtain srv mem where n: "newServer start_env start_config = (Inr srv, mem)" using start_starts by blast
  have "\<exists>st es. (server_step (shutdown_hooks srv))\<^sup>*\<^sup>* (server_start (srv, mem)) st \<and> sv_phase st = Stopped es True \<and> \<not> cut_short es
      \<and> sv_inflight st = [] \<and> sv_res st = fold id (shutdown_hooks srv) (srv, mem)"
    by (rule shutdown_always_possible [OF rtranclp.rtrancl_refl]) (simp add: server_start_def)
  then obtain st es where st: "(server_step (shutdown_hooks srv))\<^sup>*\<^sup>* (server_start (srv, mem)) st" "sv_phase st = Stopped es True" "\<not> cut_short es"
    by blast
  with stopped_gateway_wiped [OF n st(1), of es] n start_signing [OF n] show ?thesis by blast
qed

end
