(* ===== verification/Spec2Isabelle.thy ===== *)
theory Spec2Isabelle
  imports Redaction_Safety Gateway_Effects Key_Lifecycle Server_Lifecycle
begin

text \<open>
  A verification library for AegisLLM, a gateway that stands between applications and LLM providers.
  Applications hold virtual keys; the gateway authenticates a request, applies rate limits, budgets
  and redaction, chooses a provider, fetches the provider's key, sends the request to an allowed
  public host and forwards the answer, without leaving secrets in memory.

  \<^bold>\<open>The program and its parts.\<close> A request runs through a chain of middleware that
  \<open>internal/runtime/runtime.go\<close> assembles: authentication, rate limiter, quota, redaction, router, key
  injection, adapter, proxy. Each step gets the rest of the chain as a function and may abort, call it,
  or (the router) call it several times. The steps share the limiter, the usage store, the circuit
  breakers and the revocation table. Provider keys lie in a key store, sealed under a master key.
  Operators issue and revoke keys through the administration API or the command line; revocations
  reach the gateway as a snapshot file. A start reads the configuration, loads the secrets, checks
  every provider credential and builds the chain; a shutdown waits for the handlers and then wipes
  the secrets.

  \<^bold>\<open>Theories and sources.\<close>
  \<^item> \<open>Go_Prelude\<close>: machine integers, instants and durations, strings and bytes of Go, with the lemmas
    that the components share and the collections their proofs use.
  \<^item> \<open>Float64\<close>: \<open>float64\<close> arithmetic with one correct rounding per operation, as budgets need it.
  \<^item> \<open>Json_Text\<close>, \<open>Json_Stream\<close>, \<open>Base64_Url\<close>: what the sources use of \<open>encoding/json\<close> (text, printing,
    decoding by folded member names, the token stream) and of \<open>encoding/base64\<close>.
  \<^item> \<open>Rate_Limit\<close>: \<open>internal/middleware/ratelimit.go\<close>. \<open>memoryLimiter\<close> with \<open>AllowN\<close>, \<open>AcquireConcurrency\<close>,
    the release closures as leases, cleanup and policy limits.
  \<^item> \<open>Circuit_Router\<close>: \<open>internal/middleware/router.go\<close>. Breakers, routing table, weighted lottery.
  \<^item> \<open>Quota_Budget\<close>: \<open>internal/quota/quota.go\<close>. Prices, cost, budget check, usage store.
  \<^item> \<open>Virtual_Key\<close>: \<open>internal/virtualkey/virtualkey.go\<close>. Claims, issuance and validation.
  \<^item> \<open>Revocation_Log\<close>: \<open>internal/revocation\<close>. Snapshot text, strict reading, writer under the lock,
    reader with rollback detection.
  \<^item> \<open>Key_Lifecycle\<close>: the revocation store authentication relies on, as a locale with both stores as
    interpretations, and a key from its revocation on.
  \<^item> \<open>Egress_Policy\<close>: \<open>internal/egress/egress.go\<close>. Allowlist, host normalisation, public addresses.
  \<^item> \<open>Redaction_Rules\<close>, \<open>Redaction_Scanner\<close>, \<open>Redaction_Safety\<close>: \<open>internal/middleware/redaction.go\<close>. The
    patterns with their matching, spans and replacement; the token-by-token scanner with its limits;
    what it guarantees.
  \<^item> \<open>Gateway_Pipeline\<close>: \<open>internal/server/pipeline.go\<close>, \<open>internal/requestid\<close>, \<open>internal/utils/memzero.go\<close>.
    The request state, the tracking response writer, the chain with panics as values, the wiping at
    the end.
  \<^item> \<open>Upstream_Engine\<close>: \<open>internal/proxy/stream.go\<close>, \<open>internal/middleware/capture.go\<close>,
    \<open>internal/utils/provider_credential.go\<close>. Dialling, headers, dispatch, streaming, capture.
  \<^item> \<open>Gateway_Middleware\<close>: \<open>auth.go\<close>, \<open>body.go\<close>, \<open>quota.go\<close>, \<open>router.go\<close>, \<open>kms.go\<close>, \<open>adapter.go\<close>,
    \<open>adapter_openai.go\<close>, \<open>adapter_azure.go\<close>, \<open>proxy.go\<close>, \<open>models.go\<close> of \<open>internal/middleware\<close> as steps on
    the pipeline's state.
  \<^item> \<open>Gateway\<close>, \<open>Gateway_Memory\<close>, \<open>Gateway_Effects\<close>: the assembled chain and what holds of a whole
    request.
  \<^item> \<open>Key_Store\<close>: \<open>internal/kms/local\<close>. Envelopes, the store, inspection and migration of formats, the
    backends in memory and in a directory with failing system calls.
  \<^item> \<open>Gateway_Config\<close>: \<open>internal/config\<close>. Bounded reading, the strict scan of the JSON text, decoding of
    every section, reserved fields, binding of loopback entries and all checks.
  \<^item> \<open>Admin_Api\<close>: \<open>internal/admin/admin.go\<close>. Authentication, routes and handlers.
  \<^item> \<open>Tls_Material\<close>: \<open>readTLSFile\<close>, \<open>parseTLSKeyPair\<close> and \<open>buildTLSConfig\<close> of \<open>internal/server/server.go\<close>.
  \<^item> \<open>Gateway_Startup\<close>: \<open>internal/kms/factory/factory.go\<close> and \<open>newServer\<close> with its checks in
    \<open>internal/runtime/runtime.go\<close>, on an explicit memory of all buffers allocated for secrets.
  \<^item> \<open>Server_Lifecycle\<close>: \<open>handlerLifecycle\<close>, \<open>Run\<close> and \<open>closeResources\<close> of \<open>internal/server/server.go\<close> as a
    step relation, with the gateway's own shutdown hooks.

  \<^bold>\<open>How the model corresponds to the code.\<close> A struct is a record with a prefix for its fields, an
  enumeration or a set of errors a datatype, a method a function that takes and returns the state.
  Byte slices and strings are lists of bytes. Where several fields share a buffer (the request body,
  provider keys) the buffers are kept in a list and the fields hold positions, so zeroing is visible
  through every alias. Every operation that runs under a mutex is one step, and concurrent requests
  are sequences of such steps; values read outside a mutex are arguments that may be stale. Panics
  are the result \<open>Panicked\<close>, and the recovering step turns them into a response; a panic of \<open>net/http\<close> on
  a status code it refuses is one of them, and leaves the code recorded. Errors are values of
  a sum or option type, one branch for each return of the source.

  \<^bold>\<open>Parameters.\<close> HMAC, SHA-256 and AES-GCM, the random source, the environment, certificate parsing, the shortest decimal text of a \<open>float64\<close>, the
  resolver, the dialer and the HTTP exchange, \<open>url.Parse\<close>, the key service and the outcome of system
  calls are arguments. The few facts used of them are hypotheses of the theorems that need them,
  each with a witness that instantiates the parameter.

  \<^bold>\<open>Interfaces.\<close> Contracts between components are locales, interpreted on the model's own functions:
  \<open>window_limiter\<close> (a limiter never admits more than its limit in a window), \<open>quota_store\<close>,
  \<open>revocation_store\<close> (interpreted on the snapshot reader and on the in-memory store),
  \<open>blob_store\<close> with \<open>sized_store\<close> and \<open>migration\<close> (what the key store relies on from a backend, interpreted
  on the memory, the directory and the choice between them),
  \<open>writer_invariant\<close> (interpreted on the client's writer and on the capture buffer),
  \<open>chain_invariant\<close> with its extensions \<open>gateway_invariant\<close>, \<open>limiter_invariant\<close>, \<open>attempt_invariant\<close>,
  \<open>inner_invariant\<close>, \<open>key_invariant\<close> and \<open>retry_invariant\<close> (what every middleware keeps, proved once and
  used for the response, the secrets, the buffers and the limiter), and \<open>observer\<close> (what a chain adds
  to a log).

  \<^bold>\<open>What the lemmas show.\<close>
  \<^item> Whole requests: without an accepted key no counter changes, no provider key is fetched and nothing
    is sent; exactly one response reaches the client, with the recorded status whenever \<open>net/http\<close> can
    send it; every provider key and request body is overwritten at the end, also after a panic; the
    counter of every key's concurrency slots is back where it was; the attempts of one request are
    bounded by the number of providers, so a request ends.
  \<^item> Key store: what is opened was sealed for that name, what is stored comes back, and a migration
    keeps every readable key whatever fails.
  \<^item> Configuration and start: a configuration that loads is well formed, the scan accepts exactly the
    conforming texts, loopback entries are bound to exactly the declared ports, a started server is
    ready to serve, and a failed start has zeroed every buffer it allocated for a secret.
  \<^item> Administration: nothing happens without the token, issued keys stay within the policy, a revocation
    that is answered with success is durable.
  \<^item> Shutdown: no secret is wiped while a handler is in flight, and a clean stop leaves none.
  \<^item> Keys: what validation accepts was signed and is within its time; what is issued validates; a
    revoked key stays out until its tokens have expired, whatever files the reader finds.
  \<^item> Limits: admissions and concurrency never exceed their limits; a release counts once; a budget is
    overspent by at most one request; costs are monotone.
  \<^item> Routing: breakers open at the threshold and admit a single probe; the lottery is proportional to
    the weights; the chosen provider is permitted and best in priority.
  \<^item> Egress: only public addresses are dialled, only allowed hosts receive requests and keys, and the
    prefix tables agree with arithmetic on the address.
  \<^item> Redaction: the scanner always ends; a redacted text keeps exactly what no rule matches; an
    accepted body is one JSON value within the limits with every rule applied.
  \<^item> Deviations from what the code means to do are theorems of their own: a token lifetime that passes
    the check by overflow, a fractional lifetime that cannot be validated, a broken upstream answer
    that reaches the client as success, a refused status code that becomes an empty 200, and a key that
    comes back when it is deleted during its rotation.

  \<^bold>\<open>Bounds and fuel.\<close> Loops of the source are structural recursion, \<open>function\<close> with a measure, or a
  fuel that is the length of the remaining input plus one: the loops of the redaction scanner consume a
  byte each round, and \<open>ProcessJSON_ends\<close> shows that the cut-off marker is never returned. Nesting is
  bounded by the scanner's own limit of 64 levels, which is the recursion of \<open>processValue\<close>. Go's \<open>int\<close>
  and \<open>int64\<close> are integers with the wrap-around written out where an operation can leave the range;
  addresses are words of 32 and 128 bits.

  \<^bold>\<open>Not modelled.\<close> The Anthropic and Gemini adapters (any adapter is allowed in the chain's
  theorems), the vault stub, listeners and sockets, the health endpoint, the operator's command line with
  its file locks, log masking, the subscription templates, timeouts other than as failures of calls, and
  the release tooling under \<open>cmd\<close>, which the gateway does not call. Of the administration listener the
  answers that the multiplexer gives by itself to unclean paths (301, 400) and the 503 of a draining
  server are outside \<open>serve_admin\<close>; none of them reaches a handler, so none has an effect. Informational
  1xx lines to the client are not kept as responses. Buffers of secrets are the slices of the code: the
  strings of the environment and the arrays that a growing read leaves behind are not among them.
\<close>

end
